(* ===== verification/Env.thy ===== *)
theory Env
  imports Prelude
begin

text \<open>
  Effects.  A program step reads its surroundings (the monotonic clock, the wall clock, the
  cancellation token, the outcome of a system call) and may fail.  The surroundings are a stream
  of readings: every effectful call of the source consumes the next one, so that a theorem that
  holds for every stream holds for every schedule of clock values, cancellations and faults.  The
  stream is the first field of the state; components with state of their own extend the record.
  Programs are state transformers that return an error or a value.
\<close>

text \<open>One reading of the surroundings.  Both clocks count nanoseconds: \<^verbatim>\<open>mono\<close> is
  \<^verbatim>\<open>Instant::now()\<close>, \<^verbatim>\<open>utc\<close> is \<^verbatim>\<open>SystemTime::now()\<close> since the epoch.  \<^verbatim>\<open>fault\<close> is the
  failure of the system call that takes the reading; \<^verbatim>\<open>contended\<close> the number of rounds another
  process still holds the lock that is asked for.\<close>

record tick =
  mono :: nat
  utc :: int
  cancelled :: bool
  fault :: bool
  contended :: nat

record world =
  env :: "nat \<Rightarrow> tick"

type_synonym ('x, 'e, 'a) prog = "'x world_scheme \<Rightarrow> ('e + 'a) \<times> 'x world_scheme"

definition pret :: "'a \<Rightarrow> ('x, 'e, 'a) prog" where
  "pret x = (\<lambda>w. (Inr x, w))"

definition praise :: "'e \<Rightarrow> ('x, 'e, 'a) prog" where
  "praise e = (\<lambda>w. (Inl e, w))"

definition pbind :: "('x, 'e, 'a) prog \<Rightarrow> ('a \<Rightarrow> ('x, 'e, 'b) prog) \<Rightarrow> ('x, 'e, 'b) prog" where
  "pbind p f = (\<lambda>w. case p w of (Inl e, w') \<Rightarrow> (Inl e, w') | (Inr x, w') \<Rightarrow> f x w')"

definition pseq :: "('x, 'e, 'a) prog \<Rightarrow> ('x, 'e, 'b) prog \<Rightarrow> ('x, 'e, 'b) prog" where
  "pseq p q = pbind p (\<lambda>_. q)"

text \<open>\<^verbatim>\<open>Result::map_err\<close>, and the value of a fallible block as data (\<^verbatim>\<open>let result = (|| ...)()\<close>).\<close>

definition pmap_err :: "('e \<Rightarrow> 'f) \<Rightarrow> ('x, 'e, 'a) prog \<Rightarrow> ('x, 'f, 'a) prog" where
  "pmap_err g p = (\<lambda>w. case p w of (Inl e, w') \<Rightarrow> (Inl (g e), w') | (Inr x, w') \<Rightarrow> (Inr x, w'))"

definition pattempt :: "('x, 'e, 'a) prog \<Rightarrow> ('x, 'f, 'e + 'a) prog" where
  "pattempt p = (\<lambda>w. case p w of (r, w') \<Rightarrow> (Inr r, w'))"

definition plift :: "'e + 'a \<Rightarrow> ('x, 'e, 'a) prog" where
  "plift r = (\<lambda>w. (r, w))"

definition pguard :: "bool \<Rightarrow> 'e \<Rightarrow> ('x, 'e, unit) prog" where
  "pguard b e = plift (require b e)"

fun ptraverse :: "('a \<Rightarrow> ('x, 'e, 'b) prog) \<Rightarrow> 'a list \<Rightarrow> ('x, 'e, 'b list) prog" where
  "ptraverse f [] = pret []"
| "ptraverse f (x # xs) = pbind (f x) (\<lambda>y. pbind (ptraverse f xs) (\<lambda>ys. pret (y # ys)))"

text \<open>\<^verbatim>\<open>for\<close> with a mutable accumulator.\<close>

fun pfold :: "('a \<Rightarrow> 's \<Rightarrow> ('x, 'e, 's) prog) \<Rightarrow> 'a list \<Rightarrow> 's \<Rightarrow> ('x, 'e, 's) prog" where
  "pfold f [] s = pret s"
| "pfold f (x # xs) s = pbind (f x s) (pfold f xs)"

definition now_tick :: "('x, 'e, tick) prog" where
  "now_tick = (\<lambda>w. (Inr (env w 0), w\<lparr>env := \<lambda>n. env w (Suc n)\<rparr>))"

text \<open>\<^verbatim>\<open>Instant::now() >= end\<close> as a guard.\<close>

definition deadline_check :: "nat \<Rightarrow> 'e \<Rightarrow> ('x, 'e, unit) prog" where
  "deadline_check dl e = pbind now_tick (\<lambda>t. pguard (mono t < dl) e)"

subsection \<open>Programs that only read their surroundings\<close>

definition advances :: "'x world_scheme \<Rightarrow> 'x world_scheme \<Rightarrow> bool" where
  "advances w w' \<longleftrightarrow> (\<exists>k. w' = w\<lparr>env := \<lambda>n. env w (n + k)\<rparr>)"

definition reads_only :: "('x, 'e, 'a) prog \<Rightarrow> bool" where
  "reads_only p \<longleftrightarrow> (\<forall>w. advances w (snd (p w)))"

definition within :: "nat \<Rightarrow> 'x world_scheme \<Rightarrow> bool" where
  "within dl w \<longleftrightarrow> (\<forall>n. mono (env w n) < dl)"

text \<open>\<^verbatim>\<open>timed dl e p r\<close>: the program returns \<^verbatim>\<open>r\<close>, unless it returns the deadline error \<^verbatim>\<open>e\<close>,
  which it does only if some reading of the monotonic clock has reached \<^verbatim>\<open>dl\<close>.\<close>

definition timed :: "nat \<Rightarrow> 'e \<Rightarrow> ('x, 'e, 'a) prog \<Rightarrow> 'e + 'a \<Rightarrow> bool" where
  "timed dl e p r \<longleftrightarrow> reads_only p \<and>
     (\<forall>w. fst (p w) = r \<or> (fst (p w) = Inl e \<and> \<not> within dl w))"

named_theorems prog_ok \<open>what the success of a program says of its parts\<close>

named_theorems timed_intros \<open>rules that establish that a program refines a pure result\<close>

subsection \<open>Laws\<close>

lemma pbind_pret [simp]: "pbind (pret x) f = f x"
  by (rule ext) (simp add: pbind_def pret_def)

lemma pbind_praise [simp]: "pbind (praise e) f = praise e"
  by (rule ext) (simp add: pbind_def praise_def)

lemma pbind_assoc: "pbind (pbind p f) g = pbind p (\<lambda>x. pbind (f x) g)"
  by (rule ext) (auto simp: pbind_def split: prod.splits sum.splits)

lemma plift_simps [simp]: "plift (Inr x) = pret x" "plift (Inl e) = praise e"
  by (rule ext, simp add: plift_def pret_def praise_def)+

lemma pguard_simps [simp]: "pguard True e = pret ()" "pguard False e = praise e"
  by (simp_all add: pguard_def require_def)

lemma pbind_ok [prog_ok]:
  "pbind p f w = (Inr y, w') \<longleftrightarrow> (\<exists>x w1. p w = (Inr x, w1) \<and> f x w1 = (Inr y, w'))"
  by (auto simp: pbind_def split: prod.splits sum.splits)

lemma pseq_ok [prog_ok]:
  "pseq p q w = (Inr y, w') \<longleftrightarrow> (\<exists>x w1. p w = (Inr x, w1) \<and> q w1 = (Inr y, w'))"
  by (simp add: pseq_def pbind_ok)

lemma pret_ok [prog_ok]: "pret x w = (Inr y, w') \<longleftrightarrow> x = y \<and> w = w'"
  by (auto simp: pret_def)

lemma praise_ok [prog_ok]: "praise e w = (Inr y, w') \<longleftrightarrow> False"
  by (simp add: praise_def)

lemma plift_ok [prog_ok]: "plift r w = (Inr y, w') \<longleftrightarrow> r = Inr y \<and> w = w'"
  by (auto simp: plift_def)

lemma pguard_ok [prog_ok]: "pguard b e w = (Inr y, w') \<longleftrightarrow> b \<and> w = w'"
  by (auto simp: pguard_def plift_ok)

lemma pattempt_ok [prog_ok]: "pattempt p w = (Inr r, w') \<longleftrightarrow> p w = (r, w')"
  by (auto simp: pattempt_def split: prod.splits)

lemma pmap_err_ok [prog_ok]: "pmap_err g p w = (Inr y, w') \<longleftrightarrow> p w = (Inr y, w')"
  by (auto simp: pmap_err_def split: prod.splits sum.splits)

lemma now_tick_ok [prog_ok]:
  "now_tick w = (Inr t, w') \<longleftrightarrow> t = env w 0 \<and> w' = w\<lparr>env := \<lambda>n. env w (Suc n)\<rparr>"
  by (auto simp: now_tick_def)

lemma deadline_check_ok [prog_ok]:
  "deadline_check dl e w = (Inr u, w') \<longleftrightarrow>
     mono (env w 0) < dl \<and> w' = w\<lparr>env := \<lambda>n. env w (Suc n)\<rparr>"
  by (auto simp: deadline_check_def prog_ok)

lemma if_prog_ok [prog_ok]:
  "(if b then p else q) w = (Inr y, w') \<longleftrightarrow> (if b then p w = (Inr y, w') else q w = (Inr y, w'))"
  by simp

lemma advances_refl [simp]: "advances w w"
  unfolding advances_def by (rule exI [of _ 0]) simp

lemma advances_trans: "advances u v \<Longrightarrow> advances v w \<Longrightarrow> advances u w"
proof -
  assume "advances u v" "advances v w"
  then obtain k l where "v = u\<lparr>env := \<lambda>n. env u (n + k)\<rparr>" "w = v\<lparr>env := \<lambda>n. env v (n + l)\<rparr>"
    by (auto simp: advances_def)
  then have "w = u\<lparr>env := \<lambda>n. env u (n + (l + k))\<rparr>"
    by (simp add: add.assoc)
  then show ?thesis unfolding advances_def by blast
qed

lemma advances_within: "advances w w' \<Longrightarrow> within dl w \<Longrightarrow> within dl w'"
  by (auto simp: advances_def within_def)

lemma reads_only_pret [simp]: "reads_only (pret x)"
  by (simp add: reads_only_def pret_def)

lemma reads_only_praise [simp]: "reads_only (praise e)"
  by (simp add: reads_only_def praise_def)

lemma reads_only_plift [simp]: "reads_only (plift r)"
  by (simp add: reads_only_def plift_def)

lemma reads_only_now_tick [simp]: "reads_only now_tick"
  unfolding reads_only_def now_tick_def advances_def by (auto intro!: exI [of _ 1])

lemma reads_only_pbind [intro]:
  "reads_only p \<Longrightarrow> (\<And>x. reads_only (f x)) \<Longrightarrow> reads_only (pbind p f)"
  unfolding reads_only_def pbind_def
  by (auto split: prod.splits sum.splits) (metis advances_trans snd_conv)+

lemma reads_only_pmap_err [intro]: "reads_only p \<Longrightarrow> reads_only (pmap_err g p)"
  unfolding reads_only_def pmap_err_def by (auto split: prod.splits sum.splits) (metis snd_conv)+

lemma reads_only_if [intro]: "reads_only p \<Longrightarrow> reads_only q \<Longrightarrow> reads_only (if b then p else q)"
  by simp

lemma reads_only_pguard [simp]: "reads_only (pguard b e)"
  by (simp add: pguard_def)

lemma timedI:
  assumes "reads_only p"
    and "\<And>w. fst (p w) = r \<or> (fst (p w) = Inl e \<and> \<not> within dl w)"
  shows "timed dl e p r"
  using assms by (simp add: timed_def)

lemma timed_reads_only: "timed dl e p r \<Longrightarrow> reads_only p"
  by (simp add: timed_def)

lemma timed_within: "timed dl e p r \<Longrightarrow> within dl w \<Longrightarrow> fst (p w) = r"
  by (auto simp: timed_def)

lemma timed_result: "timed dl e p r \<Longrightarrow> fst (p w) = r \<or> fst (p w) = Inl e"
  by (auto simp: timed_def)

lemma timed_eq: "timed dl e p r \<Longrightarrow> r = r' \<Longrightarrow> timed dl e p r'"
  by simp

lemma timed_ok: "timed dl e p r \<Longrightarrow> fst (p w) = Inr x \<Longrightarrow> r = Inr x"
  using timed_result by fastforce

lemma timed_pret [timed_intros]: "timed dl e (pret x) (Inr x)"
  by (simp add: timed_def pret_def reads_only_def)

lemma timed_praise [timed_intros]: "timed dl e (praise e') (Inl e')"
  by (simp add: timed_def praise_def reads_only_def)

lemma timed_plift [timed_intros]: "timed dl e (plift r) r"
  by (cases r) (simp_all add: timed_pret timed_praise)

lemma timed_pguard [timed_intros]: "timed dl e (pguard b e') (require b e')"
  by (simp add: pguard_def timed_plift)

lemma timed_deadline_check [timed_intros]: "timed dl e (deadline_check dl e) (Inr ())"
  unfolding timed_def
proof
  show "reads_only (deadline_check dl e)"
    unfolding deadline_check_def pguard_def by (intro reads_only_pbind) simp_all
  show "\<forall>w. fst (deadline_check dl e w) = Inr () \<or>
      fst (deadline_check dl e w) = Inl e \<and> \<not> within dl w"
    by (auto simp: deadline_check_def pbind_def now_tick_def pguard_def plift_def require_def
        within_def)
qed

lemma timed_pbind [timed_intros]:
  assumes p: "timed dl e p r" and f: "\<And>x. r = Inr x \<Longrightarrow> timed dl e (f x) (g x)"
  shows "timed dl e (pbind p f) (rbind r g)"
  unfolding timed_def reads_only_def all_conj_distrib [symmetric]
proof
  fix w
  obtain q w1 where pw: "p w = (q, w1)" by (cases "p w")
  have adv: "advances w w1"
    using timed_reads_only [OF p] pw by (metis reads_only_def snd_conv)
  have pq: "q = r \<or> (q = Inl e \<and> \<not> within dl w)"
    using p pw by (metis fst_conv timed_def)
  show "advances w (snd (pbind p f w)) \<and>
    (fst (pbind p f w) = rbind r g \<or> fst (pbind p f w) = Inl e \<and> \<not> within dl w)"
  proof (cases q)
    case (Inl e')
    with pw pq adv show ?thesis by (auto simp: pbind_def)
  next
    case (Inr x)
    with pq have r: "r = Inr x" by simp
    then have fx: "timed dl e (f x) (g x)" by (rule f)
    then have "advances w1 (snd (f x w1))"
      by (simp add: timed_def reads_only_def)
    moreover have "fst (f x w1) = g x \<or> (fst (f x w1) = Inl e \<and> \<not> within dl w1)"
      using fx by (simp add: timed_def)
    ultimately show ?thesis
      using pw Inr r adv advances_within [OF adv] by (auto simp: pbind_def intro: advances_trans)
  qed
qed

lemma timed_pseq [timed_intros]:
  assumes "timed dl e p (Inr ())" "timed dl e q r"
  shows "timed dl e (pseq p q) r"
  using timed_pbind [OF assms(1), of "\<lambda>_. q" "\<lambda>_. r"] assms(2) by (simp add: pseq_def)

lemma timed_if [timed_intros]:
  "timed dl e p r \<Longrightarrow> timed dl e q s \<Longrightarrow> timed dl e (if b then p else q) (if b then r else s)"
  by simp

lemma reads_only_ptraverse [intro]: "(\<And>x. reads_only (f x)) \<Longrightarrow> reads_only (ptraverse f xs)"
  by (induction xs) (auto intro!: reads_only_pbind)

lemma timed_ptraverse [timed_intros]:
  assumes "\<And>x. timed dl e (f x) (g x)"
  shows "timed dl e (ptraverse f xs) (rmap g xs)"
proof (induction xs)
  case (Cons x xs)
  with assms show ?case
    by (auto intro!: timed_pbind timed_pret)
qed (simp add: timed_pret)

lemma timed_pfold [timed_intros]:
  assumes "\<And>x s. timed dl e (f x s) (g x s)"
  shows "timed dl e (pfold f xs s) (foldl (\<lambda>r x. rbind r (g x)) (Inr s) xs)"
proof -
  have err: "foldl (\<lambda>r x. rbind r (g x)) (Inl e') xs = Inl e'" for e' xs
    by (induction xs) auto
  show ?thesis
  proof (induction xs arbitrary: s)
    case (Cons x xs)
    have "timed dl e (pbind (f x s) (pfold f xs))
        (rbind (g x s) (\<lambda>s. foldl (\<lambda>r x. rbind r (g x)) (Inr s) xs))"
      by (rule timed_pbind [OF assms Cons])
    then show ?case by (cases "g x s") (simp_all add: err)
  qed (simp add: timed_pret)
qed

text \<open>A loop whose steps cannot fail but for the deadline computes the fold of its steps.\<close>

lemma timed_pfold_pure:
  assumes "\<And>x s. timed dl e (f x s) (Inr (g x s))"
  shows "timed dl e (pfold f xs s) (Inr (fold g xs s))"
proof (induction xs arbitrary: s)
  case (Cons x xs)
  have "timed dl e (pbind (f x s) (pfold f xs)) (rbind (Inr (g x s)) (\<lambda>s. Inr (fold g xs s)))"
    by (rule timed_pbind [OF assms Cons])
  then show ?case by simp
qed (simp add: timed_pret)

text \<open>A loop that collects, followed by a last check, as the policies use it.\<close>

lemma timed_loop_then_check:
  assumes "timed dl e c (Inr ())" and "\<And>x s. timed dl e (f x s) (Inr (g x s))"
  shows "timed dl e (pbind (pfold f xs s) (\<lambda>r. pseq c (pret r))) (Inr (fold g xs s))"
proof -
  have "timed dl e (pbind (pfold f xs s) (\<lambda>r. pseq c (pret r))) (rbind (Inr (fold g xs s)) Inr)"
    by (rule timed_pbind [OF timed_pfold_pure [OF assms(2)] timed_pseq [OF assms(1) timed_pret]])
  then show ?thesis by simp
qed

lemma timed_collect:
  assumes "timed dl e c (Inr ())"
  shows "timed dl e (pbind (pfold (\<lambda>(i, r) acc. pseq c (pret (if \<not> P r then acc else acc @ [f i r]))) xs [])
       (\<lambda>r. pseq c (pret r)))
     (Inr (map (\<lambda>(i, r). f i r) (filter (\<lambda>(i, r). P r) xs)))"
proof -
  have "timed dl e (pbind (pfold (\<lambda>(i, r) acc. pseq c (pret (if \<not> P r then acc else acc @ [f i r]))) xs [])
       (\<lambda>r. pseq c (pret r)))
     (Inr (fold (\<lambda>(i, r) acc. if \<not> P r then acc else acc @ [f i r]) xs []))"
    by (rule timed_loop_then_check [OF assms]) (auto intro!: timed_pseq timed_pret assms)
  then show ?thesis by (simp only: fold_collect append_Nil)
qed

lemma timed_pmap_err:
  assumes "timed dl e p r" "g e = e'"
  shows "timed dl e' (pmap_err g p) (case r of Inl x \<Rightarrow> Inl (g x) | Inr y \<Rightarrow> Inr y)"
proof (rule timedI)
  show "reads_only (pmap_err g p)"
    using timed_reads_only [OF assms(1)] by blast
  fix w
  show "fst (pmap_err g p w) = (case r of Inl x \<Rightarrow> Inl (g x) | Inr y \<Rightarrow> Inr y) \<or>
      fst (pmap_err g p w) = Inl e' \<and> \<not> within dl w"
  proof -
    have "fst (p w) = r \<or> (fst (p w) = Inl e \<and> \<not> within dl w)"
      using assms(1) by (simp add: timed_def)
    then show ?thesis
      using assms(2) by (cases "p w") (auto simp: pmap_err_def split: sum.splits)
  qed
qed

subsection \<open>A world in which nothing changes\<close>

definition frozen :: "nat \<Rightarrow> int \<Rightarrow> world" where
  "frozen m t = \<lparr>env = \<lambda>_. \<lparr>mono = m, utc = t, cancelled = False, fault = False, contended = 0\<rparr>\<rparr>"

definition frozen_tick :: "nat \<Rightarrow> int \<Rightarrow> tick" where
  "frozen_tick m t = \<lparr>mono = m, utc = t, cancelled = False, fault = False, contended = 0\<rparr>"

lemma frozen_tick_simps [simp]: "mono (frozen_tick m t) = m" "utc (frozen_tick m t) = t"
  by (simp_all add: frozen_tick_def)

lemma now_tick_frozen: "now_tick (frozen m t) = (Inr (frozen_tick m t), frozen m t)"
  by (simp add: now_tick_def frozen_def frozen_tick_def)

end
