(* ===== verification/Access.thy ===== *)
theory Access
  imports Env
begin

text \<open>
  Authenticated callers.  The first part models timestamps (\<^verbatim>\<open>broker-store/src/time.rs\<close>) and LOCAL
  bearers (\<^verbatim>\<open>broker-control/src/local_bearer.rs\<close>, \<^verbatim>\<open>local_bearer_verifier.rs\<close>); the second the
  verification of signed access tokens (\<^verbatim>\<open>broker-control/src/broker_access.rs\<close>).  JWT decoding,
  base64 and JSON are library code and are fields of the record \<^verbatim>\<open>jwt_lib\<close> of parameters.
  The lemmas show what a verified proof carries: the configured issuer and a configured key,
  an audience that contains the API, the scopes that were asked for, and an expiry that is ahead
  of the clock readings that admitted it and that no later check moves.
\<close>

subsection \<open>Errors and timestamps\<close>

datatype ControlError =
  CE_InvalidRole | CE_InvalidIdentity | CE_CorruptIdentity | CE_CorruptRbac
| CE_IdentityLimitExceeded | CE_SessionUnavailable | CE_SessionExpired | CE_InvalidSession
| CE_CorruptSession | CE_SessionExists | CE_Configuration | CE_AmbientConfiguration
| CE_Connection | CE_SchemaRejected | CE_Storage | CE_FlowExists | CE_Unavailable | CE_Expired
| CE_CorruptFlow | CE_InvalidFlow | CE_Clock | CE_Deadline | CE_Closed | CE_OutcomeUncertain
| CE_PrivateFile

datatype InvalidTimestamp = InvalidTimestamp

definition i64_max :: int where
  "i64_max = 2 ^ 63 - 1"

definition u64_max :: nat where
  "u64_max = 2 ^ 64 - 1"

text \<open>The largest \<^verbatim>\<open>Instant\<close> and \<^verbatim>\<open>SystemTime\<close> of the supported systems: 64-bit signed seconds and
  nanoseconds below one second.  \<^verbatim>\<open>checked_add\<close> fails beyond it.\<close>

definition time_max :: nat where
  "time_max = 2 ^ 63 * 1000000000 - 1"

definition time_checked_add :: "nat \<Rightarrow> nat \<Rightarrow> nat option" where
  "time_checked_add t d = (if t + d \<le> time_max then Some (t + d) else None)"

definition timestamp_new :: "int \<Rightarrow> InvalidTimestamp + int" where
  "timestamp_new v = (if v < 0 then Inl InvalidTimestamp else Inr v)"

definition timestamp_try_from :: "int \<Rightarrow> InvalidTimestamp + int" where
  "timestamp_try_from t =
     (if t < 0 then Inl InvalidTimestamp
      else let micros = t div 1000
           in if micros > i64_max then Inl InvalidTimestamp else timestamp_new micros)"

definition now_micros :: "('x, ControlError, int) prog" where
  "now_micros = pbind now_tick (\<lambda>t. plift (case timestamp_try_from (utc t) of
       Inl _ \<Rightarrow> Inl CE_Clock | Inr v \<Rightarrow> Inr v))"

subsection \<open>LOCAL bearers\<close>

definition LOCAL_ISSUER :: string where
  "LOCAL_ISSUER = ''local''"

datatype LocalBearerKind = LB_Access | LB_ServiceCredential

datatype LocalBearerStateError =
  LS_InvalidLimits | LS_ReadLimitExceeded | LS_MalformedStored | LS_Control ControlError

datatype LocalBearerVerificationError =
  LV_Unauthenticated | LV_State LocalBearerStateError | LV_Control ControlError

definition LV_from_state :: "LocalBearerStateError \<Rightarrow> LocalBearerVerificationError" where
  "LV_from_state e = (case e of LS_Control c \<Rightarrow> LV_Control c | other \<Rightarrow> LV_State other)"

datatype LocalIdentityKind = Human | Service

record LocalBearerUser =
  lu_username :: string
  lu_subject :: string
  lu_kind :: LocalIdentityKind
  lu_name :: string
  lu_email :: string
  lu_organization :: string
  lu_teams :: "string list"
  lu_revision :: int

record LocalBearerState =
  ls_kind :: LocalBearerKind
  ls_audience :: string
  ls_raw_scopes :: "string list"
  ls_expires_at :: int
  ls_revoked_at :: "int option"
  ls_user :: LocalBearerUser

record VerifiedLocalBearer =
  vl_user :: LocalBearerUser
  vl_kind :: LocalBearerKind
  vl_audience :: string
  vl_scopes :: "string list"
  vl_expires_at :: int
  vl_verified_at :: int
  vl_expires_utc :: nat
  vl_expires_mono :: nat

text \<open>\<^verbatim>\<open>local_bearer.rs: normalize\<close>: trim, drop empty values, sort, and remove repetitions.\<close>

definition normalize :: "string list \<Rightarrow> string list" where
  "normalize values = remdups_adj (sort (filter (\<lambda>v. v \<noteq> []) (map trim values)))"

definition local_bearer_new ::
  "LocalBearerState \<Rightarrow> int \<Rightarrow> nat \<Rightarrow> LocalBearerVerificationError + VerifiedLocalBearer" where
  "local_bearer_new state now anchor =
     (let left = ls_expires_at state - now in
      if \<not> (0 < left \<and> left \<le> i64_max) then Inl LV_Unauthenticated
      else if ls_expires_at state < 0 then Inl (LV_Control CE_Clock)
      else rbind (ok_or (time_checked_add 0 (1000 * nat (ls_expires_at state))) (LV_Control CE_Clock))
        (\<lambda>expires_utc. rbind (ok_or (time_checked_add anchor (1000 * nat left)) (LV_Control CE_Clock))
        (\<lambda>expires_mono. if now < 0 then Inl (LV_Control CE_Clock)
           else Inr \<lparr>vl_user = ls_user state, vl_kind = ls_kind state,
                     vl_audience = ls_audience state, vl_scopes = normalize (ls_raw_scopes state),
                     vl_expires_at = ls_expires_at state, vl_verified_at = now,
                     vl_expires_utc = expires_utc, vl_expires_mono = expires_mono\<rparr>)))"

definition local_expired_at :: "VerifiedLocalBearer \<Rightarrow> int \<Rightarrow> nat \<Rightarrow> bool" where
  "local_expired_at b utc_micros mono_now \<longleftrightarrow>
     vl_expires_at b \<le> utc_micros \<or> vl_expires_mono b \<le> mono_now"

definition local_finish ::
  "VerifiedLocalBearer \<Rightarrow> int \<Rightarrow> ('x, LocalBearerVerificationError, VerifiedLocalBearer) prog" where
  "local_finish b now = pbind now_tick (\<lambda>t.
     if local_expired_at b now (mono t) then praise LV_Unauthenticated
     else case timestamp_new now of
            Inl _ \<Rightarrow> praise (LV_Control CE_Clock)
          | Inr v \<Rightarrow> pret (b\<lparr>vl_verified_at := v\<rparr>))"

definition bearer_kind :: "string \<Rightarrow> LocalBearerKind option" where
  "bearer_kind raw =
     (if starts_with raw ''gb_at_'' then Some LB_Access
      else if starts_with raw ''gb_sc_'' then Some LB_ServiceCredential
      else None)"

definition validate_state ::
  "LocalBearerState \<Rightarrow> string \<Rightarrow> string list \<Rightarrow> int \<Rightarrow> LocalBearerVerificationError + unit" where
  "validate_state state audience required now =
     (if ls_audience state \<noteq> trim audience
       \<or> ls_revoked_at state \<noteq> None
       \<or> ls_expires_at state \<le> now
       \<or> list_ex (\<lambda>r. \<not> list_ex (\<lambda>stored. stored = r) (ls_raw_scopes state))
            (filter (\<lambda>s. s \<noteq> []) (map trim required))
      then Inl LV_Unauthenticated else Inr ())"

subsection \<open>Signed access tokens\<close>

datatype BrokerAccessError =
  BA_InvalidConfiguration | BA_InvalidToken | BA_Expired | BA_InsufficientScope | BA_Deadline

datatype Audience = AudOne string | AudMany "string list"

record Claims =
  cl_iss :: string
  cl_sub :: string
  cl_aud :: Audience
  cl_iat :: nat
  cl_exp :: nat
  cl_token_use :: string
  cl_client_id :: string
  cl_jti :: string
  cl_scope :: string
  cl_nbf :: "nat option"
  cl_preferred_username :: "string option"
  cl_organization :: "string option"
  cl_groups :: "string list"

text \<open>A JSON value of a token header, as far as the code looks at it.\<close>

datatype header_value = HStr string | HOther

text \<open>A configured JSON web key: \<^verbatim>\<open>jwk_okp\<close> is the curve name and the encoded coordinate when the
  key is an octet key pair.\<close>

record jwk =
  jwk_kid :: "string option"
  jwk_okp :: "(string \<times> string) option"
  jwk_alg :: "string option"
  jwk_use :: "string option"
  jwk_ops :: "string list option"

datatype jwt_error = ExpiredSignature | OtherJwtError

text \<open>The token libraries: base64, the JSON parse of a header (fields in the order of the text),
  the conversion of a JWK, and \<^verbatim>\<open>jsonwebtoken::decode\<close> of the claims for a key, an issuer and an
  audience at a UTC second, which checks the signature.\<close>

record 'k jwt_lib =
  b64_decode :: "string \<Rightarrow> string option"
  parse_header :: "string \<Rightarrow> (string \<times> header_value) list option"
  key_from_jwk :: "jwk \<Rightarrow> 'k option"
  jwt_decode :: "string \<Rightarrow> 'k \<Rightarrow> string \<Rightarrow> string \<Rightarrow> nat \<Rightarrow> jwt_error + Claims"

record 'k BrokerAccessVerifier =
  bv_issuer :: string
  bv_api_audience :: string
  bv_resource :: "string option"
  bv_token_bytes :: nat
  bv_keys :: "(string \<times> 'k) list"

record VerifiedBrokerAccess =
  ba_issuer :: string
  ba_api_audience :: string
  ba_subject :: string
  ba_client_id :: string
  ba_jti :: string
  ba_audience :: Audience
  ba_username :: "string option"
  ba_organization :: "string option"
  ba_teams :: "string list"
  ba_scopes :: "string list"
  ba_expires_at :: nat
  ba_expires_mono :: nat
  ba_original :: nat

fun valid_for :: "Audience \<Rightarrow> string \<Rightarrow> string option \<Rightarrow> bool" where
  "valid_for (AudOne v) api resource \<longleftrightarrow>
     v \<noteq> [] \<and> v = api \<and> (case resource of None \<Rightarrow> True | Some r \<Rightarrow> v = r)"
| "valid_for (AudMany vs) api resource \<longleftrightarrow>
     vs \<noteq> [] \<and> list_all (\<lambda>v. v \<noteq> []) vs \<and> distinct vs \<and> api \<in> set vs
     \<and> (case resource of None \<Rightarrow> True | Some r \<Rightarrow> r \<in> set vs)"

definition matches_oidc_resource :: "VerifiedBrokerAccess \<Rightarrow> string \<Rightarrow> bool" where
  "matches_oidc_resource p resource =
     (let api = ba_api_audience p;
          expected = (if resource = [] \<or> resource = api then 1 else 2 :: nat)
      in case ba_audience p of
           AudOne v \<Rightarrow> expected = 1 \<and> v = api
         | AudMany vs \<Rightarrow> length vs = expected \<and> api \<in> set vs
             \<and> (expected = 1 \<or> resource \<in> set vs))"

text \<open>The keys of \<^verbatim>\<open>BrokerAccessVerifier::new\<close>: every JWK must be an Ed25519 verification key with
  a 32-byte coordinate and a key id of its own.\<close>

definition jwk_ok :: "'k jwt_lib \<Rightarrow> jwk \<Rightarrow> bool" where
  "jwk_ok L j \<longleftrightarrow>
     (case jwk_kid j of None \<Rightarrow> False | Some kid \<Rightarrow> kid \<noteq> []) \<and>
     (case jwk_okp j of None \<Rightarrow> False
      | Some (curve, x) \<Rightarrow> curve = ''Ed25519'' \<and>
          (case b64_decode L x of None \<Rightarrow> False | Some bs \<Rightarrow> length bs = 32)) \<and>
     (case jwk_alg j of None \<Rightarrow> True | Some a \<Rightarrow> a = ''EdDSA'') \<and>
     (case jwk_use j of None \<Rightarrow> True | Some u \<Rightarrow> u = ''sig'') \<and>
     (case jwk_ops j of None \<Rightarrow> True | Some ops \<Rightarrow> ops = [''verify''])"

fun verifier_keys ::
  "'k jwt_lib \<Rightarrow> jwk list \<Rightarrow> (string \<times> 'k) list \<Rightarrow> BrokerAccessError + (string \<times> 'k) list" where
  "verifier_keys L [] keys = Inr keys"
| "verifier_keys L (j # js) keys =
     (if \<not> jwk_ok L j then Inl BA_InvalidConfiguration
      else rbind (ok_or (key_from_jwk L j) BA_InvalidConfiguration) (\<lambda>k.
        rbind (ok_or (jwk_kid j) BA_InvalidConfiguration) (\<lambda>kid.
        if map_of keys kid \<noteq> None then Inl BA_InvalidConfiguration
        else verifier_keys L js ((kid, k) # keys))))"

definition verifier_new ::
  "'k jwt_lib \<Rightarrow> string \<Rightarrow> string \<Rightarrow> string option \<Rightarrow> jwk list \<Rightarrow> nat
     \<Rightarrow> BrokerAccessError + 'k BrokerAccessVerifier" where
  "verifier_new L issuer api_audience resource trusted_jwks token_bytes =
     (if trim issuer = [] \<or> trim api_audience = []
       \<or> (case resource of None \<Rightarrow> False | Some v \<Rightarrow> trim v = [])
       \<or> trusted_jwks = [] \<or> int token_bytes > i64_max
      then Inl BA_InvalidConfiguration
      else rbind (verifier_keys L trusted_jwks []) (\<lambda>keys.
        Inr \<lparr>bv_issuer = issuer, bv_api_audience = api_audience, bv_resource = resource,
             bv_token_bytes = token_bytes, bv_keys = keys\<rparr>))"

definition ba_check_deadline :: "nat \<Rightarrow> ('x, BrokerAccessError, unit) prog" where
  "ba_check_deadline dl = deadline_check dl BA_Deadline"

definition ba_check :: "VerifiedBrokerAccess \<Rightarrow> ('x, BrokerAccessError, unit) prog" where
  "ba_check p = pseq (ba_check_deadline (ba_original p)) (pbind now_tick (\<lambda>u.
     if int (ba_expires_at p) \<le> utc u then praise BA_Expired
     else pbind now_tick (\<lambda>m. pguard (mono m < ba_expires_mono p) BA_Expired)))"

text \<open>\<^verbatim>\<open>trusted_key\<close>: three non-empty parts, a header without duplicate fields that names EdDSA
  and no header that could supply a key, and a key id that is configured.\<close>

definition header_forbidden :: "string list" where
  "header_forbidden = [''crit'', ''b64'', ''jku'', ''x5u'', ''jwk'', ''x5c'']"

definition trusted_key ::
  "'k jwt_lib \<Rightarrow> 'k BrokerAccessVerifier \<Rightarrow> string \<Rightarrow> BrokerAccessError + 'k" where
  "trusted_key L v raw =
     (if raw = [] \<or> bv_token_bytes v < length raw then Inl BA_InvalidToken
      else case split_on (CHR ''.'') raw of
        [h, p, s] \<Rightarrow>
          if h = [] \<or> p = [] \<or> s = [] then Inl BA_InvalidToken
          else rbind (ok_or (b64_decode L h) BA_InvalidToken) (\<lambda>bytes.
            rbind (ok_or (parse_header L bytes) BA_InvalidToken) (\<lambda>header.
            if \<not> distinct (map fst header)
             \<or> map_of header ''alg'' \<noteq> Some (HStr ''EdDSA'')
             \<or> list_ex (\<lambda>name. map_of header name \<noteq> None) header_forbidden
            then Inl BA_InvalidToken
            else case map_of header ''kid'' of
                Some (HStr kid) \<Rightarrow>
                  if kid = [] then Inl BA_InvalidToken
                  else ok_or (map_of (bv_keys v) kid) BA_InvalidToken
              | _ \<Rightarrow> Inl BA_InvalidToken))
      | _ \<Rightarrow> Inl BA_InvalidToken)"

text \<open>The claim conditions of \<^verbatim>\<open>verify_bound\<close>, at a UTC second.\<close>

definition claims_invalid ::
  "'k BrokerAccessVerifier \<Rightarrow> string option \<Rightarrow> nat \<Rightarrow> Claims \<Rightarrow> bool" where
  "claims_invalid v resource now c \<longleftrightarrow>
     cl_iss c \<noteq> bv_issuer v \<or> cl_sub c = [] \<or> cl_client_id c = [] \<or> cl_jti c = []
     \<or> cl_token_use c \<noteq> ''access'' \<or> \<not> valid_for (cl_aud c) (bv_api_audience v) resource
     \<or> now < cl_iat c \<or> cl_exp c \<le> cl_iat c
     \<or> (case cl_nbf c of None \<Rightarrow> False | Some nbf \<Rightarrow> now < nbf)"

definition scopes_of :: "string \<Rightarrow> string list" where
  "scopes_of s = filter (\<lambda>x. x \<noteq> []) (split_on (CHR '' '') s)"

definition verify_bound_inner ::
  "'k jwt_lib \<Rightarrow> 'k BrokerAccessVerifier \<Rightarrow> string \<Rightarrow> string list \<Rightarrow> string option \<Rightarrow> nat
     \<Rightarrow> ('x, BrokerAccessError, VerifiedBrokerAccess) prog" where
  "verify_bound_inner L v raw required resource original =
     (if bv_token_bytes v < length raw \<or> raw = [] then praise BA_InvalidToken
      else if list_ex (\<lambda>s. trim s = [] \<or> CHR '' '' \<in> set s) required
        then praise BA_InvalidConfiguration
      else pbind (plift (trusted_key L v raw)) (\<lambda>key.
        pbind now_tick (\<lambda>anchor_mono. pbind now_tick (\<lambda>anchor_utc.
        if utc anchor_utc < 0 then praise BA_InvalidToken
        else let now = nat (utc anchor_utc) div 1000000000 in
        pbind now_tick (\<lambda>decode_time.
        pbind (plift (case jwt_decode L raw key (bv_issuer v) (bv_api_audience v)
                          (nat (utc decode_time) div 1000000000) of
                        Inl ExpiredSignature \<Rightarrow> Inl BA_Expired
                      | Inl OtherJwtError \<Rightarrow> Inl BA_InvalidToken
                      | Inr c \<Rightarrow> Inr c)) (\<lambda>c.
        if claims_invalid v resource now c then praise BA_InvalidToken
        else if cl_exp c \<le> now then praise BA_Expired
        else pbind (plift (ok_or (time_checked_add 0 (cl_exp c * 1000000000)) BA_InvalidToken))
          (\<lambda>expires_at.
        if int expires_at < utc anchor_utc then praise BA_Expired
        else pbind (plift (ok_or (time_checked_add (mono anchor_mono)
                      (expires_at - nat (utc anchor_utc))) BA_InvalidToken)) (\<lambda>expires_mono.
        if \<not> list_all (\<lambda>r. r \<in> set (scopes_of (cl_scope c))) required
        then praise BA_InsufficientScope
        else let result = \<lparr>ba_issuer = bv_issuer v, ba_api_audience = bv_api_audience v,
               ba_subject = cl_sub c, ba_client_id = cl_client_id c, ba_jti = cl_jti c,
               ba_audience = cl_aud c,
               ba_username = (case cl_preferred_username c of None \<Rightarrow> None
                              | Some u \<Rightarrow> if u = [] then None else Some u),
               ba_organization = cl_organization c, ba_teams = cl_groups c,
               ba_scopes = scopes_of (cl_scope c), ba_expires_at = expires_at,
               ba_expires_mono = expires_mono, ba_original = original\<rparr>
             in pseq (ba_check result) (pret result)))))))))"

definition verify_bound ::
  "'k jwt_lib \<Rightarrow> 'k BrokerAccessVerifier \<Rightarrow> string \<Rightarrow> string list \<Rightarrow> string option \<Rightarrow> nat
     \<Rightarrow> ('x, BrokerAccessError, VerifiedBrokerAccess) prog" where
  "verify_bound L v raw required resource original =
     pseq (ba_check_deadline original)
       (pbind (pattempt (verify_bound_inner L v raw required resource original)) (\<lambda>outcome.
          pseq (ba_check_deadline original) (plift outcome)))"

definition verify ::
  "'k jwt_lib \<Rightarrow> 'k BrokerAccessVerifier \<Rightarrow> string \<Rightarrow> string list \<Rightarrow> nat
     \<Rightarrow> ('x, BrokerAccessError, VerifiedBrokerAccess) prog" where
  "verify L v raw required original = verify_bound L v raw required (bv_resource v) original"

definition verify_for_revocation ::
  "'k jwt_lib \<Rightarrow> 'k BrokerAccessVerifier \<Rightarrow> string \<Rightarrow> nat
     \<Rightarrow> ('x, BrokerAccessError, VerifiedBrokerAccess) prog" where
  "verify_for_revocation L v raw original = verify_bound L v raw [] None original"

subsection \<open>What the proofs carry\<close>

lemma set_normalize: "set (normalize vs) = trim ` set vs - {[]}"
  by (auto simp: normalize_def)

lemma sorted_normalize: "sorted (normalize vs) \<and> distinct (normalize vs)"
  by (simp add: normalize_def sorted_remdups_adj distinct_remdups_adj_sorted)

lemma time_checked_add_Some [simp]:
  "time_checked_add t d = Some r \<longleftrightarrow> r = t + d \<and> t + d \<le> time_max"
  by (auto simp: time_checked_add_def)

lemma ba_check_ok [prog_ok]:
  "ba_check p w = (Inr u, w') \<longleftrightarrow>
     mono (env w 0) < ba_original p \<and> utc (env w 1) < int (ba_expires_at p)
     \<and> mono (env w 2) < ba_expires_mono p \<and> w' = w\<lparr>env := \<lambda>n. env w (n + 3)\<rparr>"
  by (auto simp: ba_check_def ba_check_deadline_def prog_ok numeral_eq_Suc)

lemma trusted_key_ok:
  assumes "trusted_key L v raw = Inr key"
  shows "\<exists>kid. map_of (bv_keys v) kid = Some key"
  using assms by (auto simp: trusted_key_def split: if_splits list.splits option.splits header_value.splits)

lemma verify_bound_inner_ok:
  assumes "verify_bound_inner L v raw required resource original w = (Inr p, w')"
  obtains key c n where "trusted_key L v raw = Inr key"
    "jwt_decode L raw key (bv_issuer v) (bv_api_audience v) n = Inr c"
    "\<not> claims_invalid v resource (nat (utc (env w 1)) div 1000000000) c"
    "nat (utc (env w 1)) div 1000000000 < cl_exp c"
    "ba_expires_at p = cl_exp c * 1000000000" "0 \<le> utc (env w 1)" "utc (env w 1) \<le> int (ba_expires_at p)"
    "ba_expires_mono p = mono (env w 0) + (ba_expires_at p - nat (utc (env w 1)))"
    "set required \<subseteq> set (ba_scopes p)" "ba_scopes p = scopes_of (cl_scope c)"
    "ba_issuer p = bv_issuer v" "ba_api_audience p = bv_api_audience v" "ba_subject p = cl_sub c"
    "ba_client_id p = cl_client_id c" "ba_jti p = cl_jti c" "ba_audience p = cl_aud c"
    "ba_original p = original" "ba_teams p = cl_groups c" "ba_organization p = cl_organization c"
  using assms
  by (fastforce simp: verify_bound_inner_def prog_ok Let_def list_all_iff
      split: if_splits sum.splits jwt_error.splits)

subsection \<open>Properties\<close>

text \<open>C19: a successful verification of a bearer token proves that a configured key decoded it for
  the configured issuer and API audience, that it is an access token bound to the configured
  resource, that it carries every required scope, and that its expiry was ahead of both clocks;
  the monotonic expiry is the anchor reading plus exactly the time that was left.\<close>

theorem verify_sound:
  assumes "fst (verify L v raw required dl w) = Inr p"
  shows "\<exists>kid key c n. map_of (bv_keys v) kid = Some key
     \<and> jwt_decode L raw key (bv_issuer v) (bv_api_audience v) n = Inr c
     \<and> cl_iss c = bv_issuer v \<and> cl_token_use c = ''access''
     \<and> ba_issuer p = bv_issuer v \<and> ba_subject p = cl_sub c \<and> cl_sub c \<noteq> []
     \<and> valid_for (ba_audience p) (bv_api_audience v) (bv_resource v)
     \<and> set required \<subseteq> set (ba_scopes p) \<and> ba_scopes p = scopes_of (cl_scope c)
     \<and> ba_expires_at p = cl_exp c * 1000000000
     \<and> cl_iat c * 1000000000 \<le> nat (utc (env w 2)) \<and> utc (env w 2) < int (ba_expires_at p)
     \<and> ba_expires_mono p = mono (env w 1) + (ba_expires_at p - nat (utc (env w 2)))
     \<and> mono (env w 0) < dl"
proof -
  obtain w' where "verify L v raw required dl w = (Inr p, w')"
    using assms by (cases "verify L v raw required dl w") auto
  then obtain w1 where dl: "mono (env w 0) < dl"
    and inner: "verify_bound_inner L v raw required (bv_resource v) dl
        (w\<lparr>env := \<lambda>n. env w (Suc n)\<rparr>) = (Inr p, w1)"
    by (auto simp: verify_def verify_bound_def ba_check_deadline_def prog_ok)
  have secs: "nat t div 1000000000 < e \<Longrightarrow> 0 \<le> t \<Longrightarrow> t < int (e * 1000000000)" for t e
    by (simp add: div_less_iff_less_mult nat_less_iff)
  have iat: "\<not> t div 1000000000 < i \<Longrightarrow> i * 1000000000 \<le> t" for t i :: nat
    by (simp add: div_less_iff_less_mult not_less)
  show ?thesis
    using inner
  proof (rule verify_bound_inner_ok, goal_cases)
    case (1 key c n)
    obtain kid where "map_of (bv_keys v) kid = Some key"
      using trusted_key_ok [OF 1(1)] ..
    moreover have "utc (env w 2) < int (ba_expires_at p)"
      using 1 secs by (simp add: numeral_2_eq_2)
    moreover have "cl_iat c * 1000000000 \<le> nat (utc (env w 2))"
      using 1 iat by (simp add: claims_invalid_def numeral_2_eq_2)
    ultimately show ?case
      using 1 dl
      by (intro exI [of _ kid] exI [of _ key] exI [of _ c] exI [of _ n])
         (simp add: claims_invalid_def numeral_2_eq_2)
  qed
qed

text \<open>A LOCAL bearer proof is only built from a state that is not yet expired, its two expiry
  instants are the same distance ahead of the readings it was anchored at, its scopes are a sorted
  set of trimmed values, and finishing an operation never moves either expiry.\<close>

theorem local_bearer_never_renews:
  assumes new: "local_bearer_new state now anchor = Inr b"
    and finish: "fst (local_finish b later w) = Inr b'"
  shows "now < ls_expires_at state \<and> vl_expires_at b = ls_expires_at state
     \<and> vl_expires_mono b - anchor = vl_expires_utc b - 1000 * nat now
     \<and> set (vl_scopes b) = trim ` set (ls_raw_scopes state) - {[]} \<and> distinct (vl_scopes b)
     \<and> b' = b\<lparr>vl_verified_at := later\<rparr> \<and> later < ls_expires_at state
     \<and> mono (env w 0) < vl_expires_mono b \<and> \<not> local_expired_at b now anchor"
proof -
  have "now < ls_expires_at state" "0 \<le> now" "vl_expires_at b = ls_expires_at state"
    "vl_scopes b = normalize (ls_raw_scopes state)"
    "vl_expires_utc b = 1000 * nat (ls_expires_at state)"
    "vl_expires_mono b = anchor + 1000 * nat (ls_expires_at state - now)"
    using new by (auto simp: local_bearer_new_def Let_def split: if_splits)
  moreover have "b' = b\<lparr>vl_verified_at := later\<rparr>" "\<not> local_expired_at b later (mono (env w 0))"
    using finish
    by (auto simp: local_finish_def timestamp_new_def pbind_def now_tick_def pret_def praise_def
        split: if_splits)
  ultimately show ?thesis
    using sorted_normalize [of "ls_raw_scopes state"]
    by (simp add: local_expired_at_def set_normalize nat_diff_distrib diff_mult_distrib2)
qed

subsection \<open>Witnesses\<close>

definition demo_claims :: Claims where
  "demo_claims = \<lparr>cl_iss = ''op'', cl_sub = ''s'', cl_aud = AudMany [''api'', ''hub''], cl_iat = 1,
     cl_exp = 9, cl_token_use = ''access'', cl_client_id = ''c'', cl_jti = ''j'',
     cl_scope = ''a b'', cl_nbf = None, cl_preferred_username = Some ''u'',
     cl_organization = None, cl_groups = []\<rparr>"

definition demo_jwt :: "unit jwt_lib" where
  "demo_jwt = \<lparr>b64_decode = Some, parse_header = \<lambda>_. Some [(''alg'', HStr ''EdDSA''), (''kid'', HStr ''k'')],
     key_from_jwk = \<lambda>_. Some (), jwt_decode = \<lambda>_ _ _ _ _. Inr demo_claims\<rparr>"

definition demo_verifier :: "unit BrokerAccessVerifier" where
  "demo_verifier = \<lparr>bv_issuer = ''op'', bv_api_audience = ''api'', bv_resource = Some ''hub'',
     bv_token_bytes = 100, bv_keys = [(''k'', ())]\<rparr>"

definition demo_tick :: tick where
  "demo_tick = \<lparr>mono = 5, utc = 2000000000, cancelled = False, fault = False, contended = 0\<rparr>"

definition demo_world :: world where
  "demo_world = \<lparr>env = \<lambda>_. demo_tick\<rparr>"

lemmas demo_defs = demo_claims_def demo_jwt_def demo_verifier_def demo_tick_def demo_world_def

lemma demo_verify:
  "fst (verify demo_jwt demo_verifier ''h.p.s'' [''a''] 10 demo_world) = Inr
     \<lparr>ba_issuer = ''op'', ba_api_audience = ''api'', ba_subject = ''s'', ba_client_id = ''c'',
      ba_jti = ''j'', ba_audience = AudMany [''api'', ''hub''], ba_username = Some ''u'',
      ba_organization = None, ba_teams = [], ba_scopes = [''a'', ''b''],
      ba_expires_at = 9000000000, ba_expires_mono = 7000000005, ba_original = 10\<rparr>"
proof -
  have "trim ''a'' = ''a''" by code_simp
  then show ?thesis
    by (simp add: verify_def verify_bound_def verify_bound_inner_def trusted_key_def claims_invalid_def
      ba_check_def ba_check_deadline_def deadline_check_def header_forbidden_def scopes_of_def
      pseq_def pbind_def pattempt_def now_tick_def pret_def pguard_def plift_def require_def
      time_checked_add_def time_max_def ok_or_def demo_defs Let_def)
qed

theorem verify_sound_witness:
  "\<exists>kid key c n. map_of (bv_keys demo_verifier) kid = Some key
     \<and> jwt_decode demo_jwt ''h.p.s'' key (bv_issuer demo_verifier) (bv_api_audience demo_verifier) n = Inr c
     \<and> {''a''} \<subseteq> set (scopes_of (cl_scope c))"
  using verify_sound [OF demo_verify] by (auto simp: demo_defs scopes_of_def)

definition demo_bearer_state :: LocalBearerState where
  "demo_bearer_state = \<lparr>ls_kind = LB_Access, ls_audience = ''aud'', ls_raw_scopes = ['' b '', ''a''],
     ls_expires_at = 9, ls_revoked_at = None,
     ls_user = \<lparr>lu_username = ''u'', lu_subject = ''s'', lu_kind = Human, lu_name = ''n'',
                lu_email = ''e'', lu_organization = ''o'', lu_teams = [],
                lu_revision = 1\<rparr>\<rparr>"

end
