(* ===== verification/Registry.thy ===== *)
theory Registry
  imports Access
begin

text \<open>
  Stored data.  Models the lexical checks and inventories of \<^verbatim>\<open>broker-control/src/instance_registry.rs\<close>
  and the grant snapshots of \<^verbatim>\<open>broker-control/src/resource_grants.rs\<close>.  The ULID library and the
  JSON parse of the stored rules are parameters.  The lemmas show that the constructors establish
  the order and uniqueness that the readers rely on.
\<close>

subsection \<open>Identifiers\<close>

text \<open>The ULID crate: parsing, and the canonical text of a 128-bit value.\<close>

record ulid_lib =
  ulid_from_string :: "string \<Rightarrow> nat option"
  ulid_to_str :: "nat \<Rightarrow> string"

text \<open>The documented text form: 26 characters of Crockford's base 32.\<close>

definition ulid_text :: "ulid_lib \<Rightarrow> bool" where
  "ulid_text U \<longleftrightarrow> (\<forall>n. length (ulid_to_str U n) = 26 \<and> list_all is_ascii_alphanumeric (ulid_to_str U n))"

datatype InstanceRegistryError =
  IR_InvalidOwner | IR_InvalidInventory | IR_OwnerConflict | IR_MalformedStored
| IR_Control ControlError

record InstanceOwner =
  io_issuer :: string
  io_subject :: string

definition valid_owner_value :: "string \<Rightarrow> nat \<Rightarrow> bool" where
  "valid_owner_value value characters \<longleftrightarrow>
     value \<noteq> [] \<and> CHR 0x00 \<notin> set value \<and> min (chars_count value) (characters + 1) \<le> characters"

definition InstanceOwner_new :: "string \<Rightarrow> string \<Rightarrow> InstanceRegistryError + InstanceOwner" where
  "InstanceOwner_new issuer subject =
     (if \<not> valid_owner_value issuer 1024 \<or> \<not> valid_owner_value subject 512
      then Inl IR_InvalidOwner
      else Inr \<lparr>io_issuer = issuer, io_subject = subject\<rparr>)"

definition canonical_project_id :: "ulid_lib \<Rightarrow> string \<Rightarrow> bool" where
  "canonical_project_id U value =
     (case ulid_from_string U value of None \<Rightarrow> False
      | Some n \<Rightarrow> n \<noteq> 0 \<and> ulid_to_str U n = value)"

definition canonical_version :: "string \<Rightarrow> bool" where
  "canonical_version value \<longleftrightarrow> value \<noteq> [] \<and> trim value = value \<and> \<not> has_control value"

definition id_char :: "char \<Rightarrow> bool" where
  "id_char b \<longleftrightarrow> is_ascii_alphanumeric b \<or> b \<in> set ''._-''"

definition canonical_instance_id :: "string \<Rightarrow> bool" where
  "canonical_instance_id value \<longleftrightarrow>
     1 \<le> length value \<and> length value \<le> 128 \<and> is_ascii_alphanumeric (hd value)
     \<and> is_ascii_alphanumeric (last value) \<and> list_all id_char value"

subsection \<open>Inventories\<close>

record InstanceProjectVersions =
  iv_project_id :: string
  iv_versions :: "string list"

record InstanceInventory =
  ii_instance_id :: string
  ii_projects :: "InstanceProjectVersions list"

datatype RegistrationChange = Created | Updated | Unchanged

text \<open>\<^verbatim>\<open>windows(2).any(|pair| pair[0] == pair[1])\<close>\<close>

fun adjacent_equal :: "'a list \<Rightarrow> bool" where
  "adjacent_equal (x # y # ys) \<longleftrightarrow> x = y \<or> adjacent_equal (y # ys)"
| "adjacent_equal _ \<longleftrightarrow> False"

definition InstanceProjectVersions_new ::
  "ulid_lib \<Rightarrow> string \<Rightarrow> string list \<Rightarrow> InstanceRegistryError + InstanceProjectVersions" where
  "InstanceProjectVersions_new U project_id versions =
     (if \<not> canonical_project_id U project_id \<or> versions = []
       \<or> int (length versions) > i64_max \<or> list_ex (\<lambda>v. \<not> canonical_version v) versions
      then Inl IR_InvalidInventory
      else let sorted_versions = sort versions in
        if adjacent_equal sorted_versions then Inl IR_InvalidInventory
        else Inr \<lparr>iv_project_id = project_id, iv_versions = sorted_versions\<rparr>)"

definition InstanceInventory_new ::
  "string \<Rightarrow> InstanceProjectVersions list \<Rightarrow> InstanceRegistryError + InstanceInventory" where
  "InstanceInventory_new instance_id projects =
     (if \<not> canonical_instance_id instance_id then Inl IR_InvalidInventory
      else let sorted_projects = sort_key iv_project_id projects in
        if adjacent_equal (map iv_project_id sorted_projects) then Inl IR_InvalidInventory
        else Inr \<lparr>ii_instance_id = instance_id, ii_projects = sorted_projects\<rparr>)"

subsection \<open>Grant snapshots\<close>

datatype ResourceGrantReadError =
  RG_InvalidLimits | RG_ReadLimitExceeded | RG_MalformedStored | RG_Control ControlError

text \<open>\<^verbatim>\<open>StoredRule\<close> and \<^verbatim>\<open>ResourceGrantRule\<close> have the same fields; only the timestamps are checked
  on the way.\<close>

record ResourceGrantRule =
  rg_id :: string
  rg_name :: string
  rg_access_kind :: string
  rg_principal :: string
  rg_s3_route :: string
  rg_capabilities :: "string list"
  rg_projects :: "string list"
  rg_s3_operations :: "string list"
  rg_s3_prefixes :: "string list"
  rg_created_at :: int
  rg_updated_at :: int

record ResourceGrantSnapshot =
  sn_revision :: int
  sn_updated_at :: int
  sn_rules :: "ResourceGrantRule list"

fun ordered_from :: "string option \<Rightarrow> string list \<Rightarrow> ResourceGrantReadError + unit" where
  "ordered_from previous [] = Inr ()"
| "ordered_from previous (v # vs) =
     (if (case previous of None \<Rightarrow> False | Some p \<Rightarrow> v \<le> p) then Inl RG_MalformedStored
      else ordered_from (Some v) vs)"

definition ordered :: "string list \<Rightarrow> ResourceGrantReadError + unit" where
  "ordered values = ordered_from None values"

definition stored_timestamp :: "int \<Rightarrow> ResourceGrantReadError + int" where
  "stored_timestamp v =
     (case timestamp_new v of Inl _ \<Rightarrow> Inl RG_MalformedStored | Inr t \<Rightarrow> Inr t)"

definition decode_rule :: "ResourceGrantRule \<Rightarrow> ResourceGrantReadError + ResourceGrantRule" where
  "decode_rule r =
     rbind (rmap ordered [rg_capabilities r, rg_projects r, rg_s3_operations r, rg_s3_prefixes r])
       (\<lambda>_. rbind (stored_timestamp (rg_created_at r)) (\<lambda>created.
        rbind (stored_timestamp (rg_updated_at r)) (\<lambda>updated.
        Inr (r\<lparr>rg_created_at := created, rg_updated_at := updated\<rparr>))))"

definition decode_snapshot ::
  "(string \<Rightarrow> ResourceGrantRule list option) \<Rightarrow> int \<Rightarrow> int \<Rightarrow> string
     \<Rightarrow> ResourceGrantReadError + ResourceGrantSnapshot" where
  "decode_snapshot parse revision updated_at json =
     (if revision < 1 then Inl RG_MalformedStored
      else rbind (stored_timestamp updated_at) (\<lambda>updated.
        rbind (ok_or (parse json) RG_MalformedStored) (\<lambda>stored.
        rbind (ordered (map rg_id stored)) (\<lambda>_.
        rbind (rmap decode_rule stored) (\<lambda>rules.
        Inr \<lparr>sn_revision = revision, sn_updated_at = updated, sn_rules = rules\<rparr>)))))"

text \<open>What the readers of a snapshot rely on.\<close>

definition strictly_sorted :: "string list \<Rightarrow> bool" where
  "strictly_sorted = sorted_wrt (<)"

definition rule_wf :: "ResourceGrantRule \<Rightarrow> bool" where
  "rule_wf r \<longleftrightarrow> list_all strictly_sorted
       [rg_capabilities r, rg_projects r, rg_s3_operations r, rg_s3_prefixes r]
     \<and> 0 \<le> rg_created_at r \<and> 0 \<le> rg_updated_at r"

definition snapshot_wf :: "ResourceGrantSnapshot \<Rightarrow> bool" where
  "snapshot_wf s \<longleftrightarrow> 1 \<le> sn_revision s \<and> 0 \<le> sn_updated_at s
     \<and> strictly_sorted (map rg_id (sn_rules s)) \<and> list_all rule_wf (sn_rules s)"

subsection \<open>Lemmas\<close>

lemma adjacent_equal_sorted:
  fixes xs :: "'a :: linorder list"
  shows "sorted xs \<Longrightarrow> adjacent_equal xs \<longleftrightarrow> \<not> distinct xs"
proof (induction xs rule: adjacent_equal.induct)
  case (1 x y ys)
  then show ?case by fastforce
qed auto

lemma strictly_sorted_iff: "strictly_sorted xs \<longleftrightarrow> sorted xs \<and> distinct xs"
  by (simp add: strictly_sorted_def strict_sorted_iff)

lemma ordered_from_ok:
  "ordered_from previous vs = Inr () \<longleftrightarrow>
     strictly_sorted (case previous of None \<Rightarrow> vs | Some p \<Rightarrow> p # vs)"
proof (induction vs arbitrary: previous)
  case (Cons v vs)
  then show ?case
    by (cases previous) (auto simp: strictly_sorted_def)
qed (simp add: strictly_sorted_def split: option.splits)

lemma ordered_ok [simp]: "ordered vs = Inr u \<longleftrightarrow> strictly_sorted vs"
  by (simp add: ordered_def ordered_from_ok)

lemma stored_timestamp_ok [simp]: "stored_timestamp v = Inr t \<longleftrightarrow> t = v \<and> 0 \<le> v"
  by (auto simp: stored_timestamp_def timestamp_new_def)

lemma decode_rule_ok: "decode_rule r = Inr r' \<longleftrightarrow> r' = r \<and> rule_wf r"
  by (auto simp: decode_rule_def rule_wf_def)

lemma rmap_decode_rule: "rmap decode_rule rs = Inr rs' \<longleftrightarrow> rs' = rs \<and> list_all rule_wf rs"
  by (induction rs arbitrary: rs') (auto simp: decode_rule_ok)

text \<open>A canonical project id is the ULID library's own text, so it can be one path segment.\<close>

lemma canonical_project_id_chars:
  assumes "ulid_text U" "canonical_project_id U v"
  shows "length v = 26" "list_all is_ascii_alphanumeric v"
  using assms by (auto simp: canonical_project_id_def ulid_text_def split: option.splits)

subsection \<open>Properties\<close>

text \<open>Decoding a stored snapshot succeeds exactly when the stored data is well formed, and then
  it returns that data unchanged: nothing is defaulted, reordered or merged.\<close>

theorem decode_snapshot_iff:
  "decode_snapshot parse revision updated_at json = Inr s \<longleftrightarrow>
     (\<exists>rules. parse json = Some rules
        \<and> s = \<lparr>sn_revision = revision, sn_updated_at = updated_at, sn_rules = rules\<rparr>
        \<and> snapshot_wf s)"
  by (auto simp: decode_snapshot_def snapshot_wf_def rmap_decode_rule)

text \<open>An accepted installation inventory has strictly increasing project ids, each with a
  strictly increasing list of the versions that were given, and no version or project of the
  input is lost.\<close>

theorem inventory_canonical:
  assumes "rmap (\<lambda>(p, vs). InstanceProjectVersions_new U p vs) input = Inr projects"
    and "InstanceInventory_new instance_id projects = Inr inventory"
  shows "strictly_sorted (map iv_project_id (ii_projects inventory))
     \<and> list_all (\<lambda>p. strictly_sorted (iv_versions p)) (ii_projects inventory)
     \<and> set (map (\<lambda>p. (iv_project_id p, set (iv_versions p))) (ii_projects inventory))
         = set (map (\<lambda>(p, vs). (p, set vs)) input)
     \<and> canonical_instance_id (ii_instance_id inventory)"
proof -
  have each: "strictly_sorted (iv_versions q) \<and> iv_project_id q = p \<and> set (iv_versions q) = set vs"
    if "InstanceProjectVersions_new U p vs = Inr q" for p vs q
    using that by (auto simp: InstanceProjectVersions_new_def Let_def strictly_sorted_iff
        adjacent_equal_sorted split: if_splits)
  have all: "list_all2 (\<lambda>x q. strictly_sorted (iv_versions q) \<and> iv_project_id q = fst x
      \<and> set (iv_versions q) = set (snd x)) input projects"
    using assms(1) unfolding rmap_eq_Inr
    by (rule list_all2_mono) (auto split: prod.splits dest: each)
  have "set (map (\<lambda>p. (iv_project_id p, set (iv_versions p))) projects)
      = set (map (\<lambda>(p, vs). (p, set vs)) input)"
    using all by (induction rule: list_all2_induct) auto
  moreover have "list_all (\<lambda>p. strictly_sorted (iv_versions p)) projects"
    using all by (induction rule: list_all2_induct) auto
  moreover have "sorted (map iv_project_id (sort_key iv_project_id projects))"
    by (rule sorted_sort_key)
  moreover have "canonical_instance_id instance_id"
    "inventory = \<lparr>ii_instance_id = instance_id, ii_projects = sort_key iv_project_id projects\<rparr>"
    "distinct (map iv_project_id (sort_key iv_project_id projects))"
    using assms(2) by (auto simp: InstanceInventory_new_def Let_def adjacent_equal_sorted
        split: if_splits)
  ultimately show ?thesis
    by (simp add: strictly_sorted_iff list_all_iff)
qed

subsection \<open>Witnesses\<close>

definition demo_project :: string where
  "demo_project = ''01D39ZY06FGSCTVN4T2V9PKHFZ''"

definition demo_ulid :: ulid_lib where
  "demo_ulid = \<lparr>ulid_from_string = \<lambda>s. if s = demo_project then Some 1 else None,
     ulid_to_str = \<lambda>_. demo_project\<rparr>"

lemma demo_ulid_text: "ulid_text demo_ulid"
proof -
  have "length demo_project = 26 \<and> list_all is_ascii_alphanumeric demo_project" by code_simp
  then show ?thesis by (simp add: ulid_text_def demo_ulid_def)
qed

lemma demo_project_canonical: "canonical_project_id demo_ulid demo_project"
  by (simp add: canonical_project_id_def demo_ulid_def)

end
