(* ===== verification/Framing.thy ===== *)
theory Framing
  imports Prelude
begin

text \<open>
  Length-prefixed framing.  Every digest and MAC of the program is taken over fields that are
  preceded by their lengths as eight bytes, big-endian (\<^verbatim>\<open>to_be_bytes\<close>) or little-endian
  (\<^verbatim>\<open>to_le_bytes\<close>).  The locale states what a length encoding promises and proves once that framing
  is injective; both encodings interpret it, and the users of the framing (sessions, credentials,
  user namespaces, cache scopes) rest on its facts.
\<close>

fun be_bytes :: "nat \<Rightarrow> nat \<Rightarrow> string" where
  "be_bytes 0 n = []"
| "be_bytes (Suc k) n = be_bytes k (n div 256) @ [byte (n mod 256)]"

definition le_bytes :: "nat \<Rightarrow> nat \<Rightarrow> string" where
  "le_bytes k n = rev (be_bytes k n)"

definition u64_to_be_bytes :: "nat \<Rightarrow> string" where
  "u64_to_be_bytes n = be_bytes 8 n"

definition u64_to_le_bytes :: "nat \<Rightarrow> string" where
  "u64_to_le_bytes n = le_bytes 8 n"

definition frame :: "(nat \<Rightarrow> string) \<Rightarrow> string \<Rightarrow> string" where
  "frame enc field = enc (length field) @ field"

definition frames :: "(nat \<Rightarrow> string) \<Rightarrow> string list \<Rightarrow> string" where
  "frames enc fields = concat (map (frame enc) fields)"

lemma byte_inj: "m < 256 \<Longrightarrow> n < 256 \<Longrightarrow> byte m = byte n \<Longrightarrow> m = n"
  unfolding byte_def by (metis of_char_of mod_less)

lemma length_be_bytes [simp]: "length (be_bytes k n) = k"
  by (induction k arbitrary: n) auto

lemma be_bytes_inj: "m < 256 ^ k \<Longrightarrow> n < 256 ^ k \<Longrightarrow> be_bytes k m = be_bytes k n \<Longrightarrow> m = n"
proof (induction k arbitrary: m n)
  case (Suc k)
  have "be_bytes k (m div 256) = be_bytes k (n div 256)" "byte (m mod 256) = byte (n mod 256)"
    using Suc.prems by auto
  moreover have "m div 256 < 256 ^ k" "n div 256 < 256 ^ k"
    using Suc.prems by (simp_all add: div_less_iff_less_mult mult.commute)
  ultimately have "m div 256 = n div 256" "m mod 256 = n mod 256"
    using Suc.IH byte_inj by auto
  then show ?case by (metis div_mult_mod_eq)
qed simp

locale length_prefix =
  fixes enc :: "nat \<Rightarrow> string" and width bound :: nat
  assumes enc_width: "length (enc n) = width"
    and enc_inject: "m < bound \<Longrightarrow> n < bound \<Longrightarrow> enc m = enc n \<Longrightarrow> m = n"
begin

lemma frame_append_inj:
  assumes "length f < bound" "length g < bound" "frame enc f @ x = frame enc g @ y"
  shows "f = g \<and> x = y"
proof -
  have "enc (length f) = enc (length g) \<and> f @ x = g @ y"
    using assms(3) enc_width by (simp add: frame_def append_eq_append_conv)
  then have "length f = length g" "f @ x = g @ y"
    using assms enc_inject by blast+
  then show ?thesis by (simp add: append_eq_append_conv)
qed

lemma frames_append_inj:
  assumes "length fs = length gs" "frames enc fs @ x = frames enc gs @ y"
    and "\<forall>f\<in>set fs. length f < bound" "\<forall>g\<in>set gs. length g < bound"
  shows "fs = gs \<and> x = y"
  using assms
proof (induction fs gs rule: list_induct2)
  case (Cons f fs g gs)
  have "frame enc f @ (frames enc fs @ x) = frame enc g @ (frames enc gs @ y)"
    using Cons.prems by (simp add: frames_def)
  moreover have "length f < bound" "length g < bound"
    using Cons.prems by simp_all
  ultimately have "f = g \<and> frames enc fs @ x = frames enc gs @ y"
    by (intro frame_append_inj)
  with Cons.IH Cons.prems show ?case by simp
qed (simp add: frames_def)

lemma frames_inj:
  assumes "length fs = length gs" "frames enc fs = frames enc gs"
    and "\<forall>f\<in>set fs. length f < bound" "\<forall>g\<in>set gs. length g < bound"
  shows "fs = gs"
  using frames_append_inj [of fs gs "[]" "[]"] assms by simp

end

interpretation be8: length_prefix u64_to_be_bytes 8 "2 ^ 64"
proof unfold_locales
  show "length (u64_to_be_bytes n) = 8" for n
    by (simp add: u64_to_be_bytes_def)
  show "m < 2 ^ 64 \<Longrightarrow> n < 2 ^ 64 \<Longrightarrow> u64_to_be_bytes m = u64_to_be_bytes n \<Longrightarrow> m = n" for m n
    using be_bytes_inj [of m 8 n] by (simp add: u64_to_be_bytes_def)
qed

interpretation le8: length_prefix u64_to_le_bytes 8 "2 ^ 64"
proof unfold_locales
  show "length (u64_to_le_bytes n) = 8" for n
    by (simp add: u64_to_le_bytes_def le_bytes_def)
  show "m < 2 ^ 64 \<Longrightarrow> n < 2 ^ 64 \<Longrightarrow> u64_to_le_bytes m = u64_to_le_bytes n \<Longrightarrow> m = n" for m n
    using be_bytes_inj [of m 8 n] by (simp add: u64_to_le_bytes_def le_bytes_def)
qed

end
