(* ===== verification/Resource_Policy.thy ===== *)
theory Resource_Policy
  imports Registry Framing
begin

text \<open>
  Resource policies, \<^verbatim>\<open>broker-control/src/resource_policy.rs\<close>: the glob policy of PROJECT and
  presence resources and the literal policy of the Hub.  The glob library is the parameter
  \<^verbatim>\<open>glob\<close>: it turns the text of a pattern into a byte matcher or rejects it.  Every loop checks
  the request's deadline; the lemmas show that apart from the deadline error both policies decide
  exactly the declarative relation over the stored rules that is defined at the end of the
  definitions.
\<close>

datatype ResourcePolicyError = RP_InvalidPolicy | RP_Deadline

type_synonym matcher = "string \<Rightarrow> bool"
type_synonym glob_lib = "string \<Rightarrow> matcher option"

subsection \<open>Principals\<close>

record Principal =
  pr_issuer :: string
  pr_subject :: string
  pr_username :: "string option"
  pr_organization :: "string option"
  pr_teams :: "string list"

record UpstreamProof =
  up_issuer :: string
  up_subject :: string
  up_username :: string
  up_organization :: string
  up_teams :: "string list"

datatype EmbeddingIdentity =
  EI_Anonymous | EI_Broker VerifiedBrokerAccess | EI_Local VerifiedLocalBearer
| EI_Upstream UpstreamProof

datatype HubIdentity = HI_Anonymous | HI_Broker VerifiedBrokerAccess | HI_Local VerifiedLocalBearer

datatype StorageIdentity = SI_Native VerifiedBrokerAccess | SI_Local VerifiedLocalBearer

definition principal_local :: "LocalBearerUser \<Rightarrow> Principal" where
  "principal_local u = \<lparr>pr_issuer = LOCAL_ISSUER, pr_subject = lu_subject u,
     pr_username = Some (lu_username u), pr_organization = Some (lu_organization u),
     pr_teams = lu_teams u\<rparr>"

definition principal_broker :: "VerifiedBrokerAccess \<Rightarrow> Principal" where
  "principal_broker p = \<lparr>pr_issuer = ba_issuer p, pr_subject = ba_subject p,
     pr_username = ba_username p, pr_organization = ba_organization p, pr_teams = ba_teams p\<rparr>"

fun principal_inference :: "EmbeddingIdentity \<Rightarrow> Principal option" where
  "principal_inference EI_Anonymous = None"
| "principal_inference (EI_Broker p) = Some (principal_broker p)"
| "principal_inference (EI_Local p) = Some (principal_local (vl_user p))"
| "principal_inference (EI_Upstream p) = Some \<lparr>pr_issuer = up_issuer p, pr_subject = up_subject p,
     pr_username = Some (up_username p), pr_organization = Some (up_organization p),
     pr_teams = up_teams p\<rparr>"

fun principal_hub :: "HubIdentity \<Rightarrow> Principal option" where
  "principal_hub HI_Anonymous = None"
| "principal_hub (HI_Broker p) = Some (principal_broker p)"
| "principal_hub (HI_Local p) = Some (principal_local (vl_user p))"

fun principal_storage :: "StorageIdentity \<Rightarrow> Principal" where
  "principal_storage (SI_Native p) = principal_broker p"
| "principal_storage (SI_Local p) = principal_local (vl_user p)"

subsection \<open>Selectors and compiled rules\<close>

datatype Selector =
  Sel_Global | Sel_Anonymous | Sel_Authenticated
| Sel_User matcher | Sel_Team matcher | Sel_Organization matcher | Sel_Subject matcher

definition is_some_and :: "'a option \<Rightarrow> ('a \<Rightarrow> bool) \<Rightarrow> bool" where
  "is_some_and x f = (case x of None \<Rightarrow> False | Some v \<Rightarrow> f v)"

fun selector_matches :: "Selector \<Rightarrow> Principal \<Rightarrow> bool" where
  "selector_matches Sel_Global user = True"
| "selector_matches Sel_Authenticated user = True"
| "selector_matches Sel_Anonymous user = False"
| "selector_matches (Sel_User m) user = is_some_and (pr_username user) m"
| "selector_matches (Sel_Team m) user = list_ex m (pr_teams user)"
| "selector_matches (Sel_Organization m) user = is_some_and (pr_organization user) m"
| "selector_matches (Sel_Subject m) user =
     (m (pr_subject user) \<or> m (pr_issuer user @ ''|'' @ pr_subject user))"

record CompiledRule =
  cr_selector :: Selector
  cr_capabilities :: "matcher list"
  cr_projects :: "string list"

datatype HubSelector =
  Hub_Global | Hub_Anonymous | Hub_Authenticated
| Hub_User string | Hub_Team string | Hub_Organization string | Hub_Subject string

fun hub_selector_matches :: "HubSelector \<Rightarrow> Principal option \<Rightarrow> bool" where
  "hub_selector_matches Hub_Global user = True"
| "hub_selector_matches Hub_Anonymous user = (user = None)"
| "hub_selector_matches Hub_Authenticated user = (user \<noteq> None)"
| "hub_selector_matches (Hub_User value) user = (Option.bind user pr_username = Some value)"
| "hub_selector_matches (Hub_Team value) user =
     is_some_and user (\<lambda>u. list_ex (\<lambda>t. t = value) (pr_teams u))"
| "hub_selector_matches (Hub_Organization value) user =
     (Option.bind user pr_organization = Some value)"
| "hub_selector_matches (Hub_Subject value) user =
     is_some_and user (\<lambda>u. pr_subject u = value
        \<or> Option.bind (strip_prefix value (pr_issuer u)) (\<lambda>v. strip_prefix v ''|'')
            = Some (pr_subject u))"

record HubRule =
  hr_selector :: HubSelector
  hr_capabilities :: "matcher list"
  hr_projects :: "string list"

subsection \<open>Compilation\<close>

definition check_deadline :: "nat \<Rightarrow> ('x, ResourcePolicyError, unit) prog" where
  "check_deadline dl = deadline_check dl RP_Deadline"

definition pattern :: "glob_lib \<Rightarrow> string \<Rightarrow> nat \<Rightarrow> ('x, ResourcePolicyError, matcher) prog" where
  "pattern glob value dl =
     pseq (check_deadline dl)
       (let v = trim value in
        if v = [] then praise RP_InvalidPolicy
        else pbind (plift (ok_or (glob v) RP_InvalidPolicy)) (\<lambda>compiled.
          pseq (check_deadline dl) (pret compiled)))"

definition rule_kind :: "ResourceGrantRule \<Rightarrow> string" where
  "rule_kind r = to_ascii_lowercase (trim (rg_access_kind r))"

definition compile_selector ::
  "glob_lib \<Rightarrow> ResourceGrantRule \<Rightarrow> nat \<Rightarrow> ('x, ResourcePolicyError, Selector) prog" where
  "compile_selector glob r dl =
     (let kind = rule_kind r in
      if kind = ''global'' then pret Sel_Global
      else if kind = ''anonymous'' then pret Sel_Anonymous
      else if kind = ''authenticated'' then pret Sel_Authenticated
      else if kind = ''user'' then pbind (pattern glob (rg_principal r) dl) (\<lambda>m. pret (Sel_User m))
      else if kind = ''team'' then pbind (pattern glob (rg_principal r) dl) (\<lambda>m. pret (Sel_Team m))
      else if kind = ''organization''
        then pbind (pattern glob (rg_principal r) dl) (\<lambda>m. pret (Sel_Organization m))
      else if kind = ''subject''
        then pbind (pattern glob (rg_principal r) dl) (\<lambda>m. pret (Sel_Subject m))
      else praise RP_InvalidPolicy)"

definition compile_rule ::
  "ulid_lib \<Rightarrow> glob_lib \<Rightarrow> nat \<Rightarrow> ResourceGrantRule \<Rightarrow> ('x, ResourcePolicyError, CompiledRule) prog" where
  "compile_rule U glob dl r =
     pseq (check_deadline dl)
       (pbind (compile_selector glob r dl) (\<lambda>selector.
        if rg_capabilities r = []
          \<or> list_ex (\<lambda>p. p \<noteq> ''*'' \<and> \<not> canonical_project_id U p) (rg_projects r)
        then praise RP_InvalidPolicy
        else pbind (ptraverse (\<lambda>p. pattern glob p dl) (rg_capabilities r)) (\<lambda>capabilities.
          pret \<lparr>cr_selector = selector, cr_capabilities = capabilities,
                cr_projects = rg_projects r\<rparr>)))"

definition compile ::
  "ulid_lib \<Rightarrow> glob_lib \<Rightarrow> ResourceGrantSnapshot \<Rightarrow> nat
     \<Rightarrow> ('x, ResourcePolicyError, CompiledRule list) prog" where
  "compile U glob snapshot dl =
     pbind (ptraverse (compile_rule U glob dl) (sn_rules snapshot)) (\<lambda>rules.
       pseq (check_deadline dl) (pret rules))"

definition hub_selector :: "ResourceGrantRule \<Rightarrow> ResourcePolicyError + HubSelector" where
  "hub_selector r =
     (let kind = rule_kind r; principal = trim (rg_principal r) in
      if kind = ''global'' then Inr Hub_Global
      else if kind = ''anonymous'' then Inr Hub_Anonymous
      else if kind = ''authenticated'' then Inr Hub_Authenticated
      else if kind = ''user'' then Inr (Hub_User principal)
      else if kind = ''team'' then Inr (Hub_Team principal)
      else if kind = ''organization'' then Inr (Hub_Organization principal)
      else if kind = ''subject'' then Inr (Hub_Subject principal)
      else Inl RP_InvalidPolicy)"

definition hub_compile_rule ::
  "ulid_lib \<Rightarrow> glob_lib \<Rightarrow> nat \<Rightarrow> ResourceGrantRule \<Rightarrow> ('x, ResourcePolicyError, HubRule) prog" where
  "hub_compile_rule U glob dl r =
     pseq (check_deadline dl)
       (pbind (plift (hub_selector r)) (\<lambda>selector.
        if rg_capabilities r = []
          \<or> list_ex (\<lambda>p. trim p \<noteq> ''*'' \<and> \<not> canonical_project_id U (trim p)) (rg_projects r)
        then praise RP_InvalidPolicy
        else pbind (ptraverse (\<lambda>p. pattern glob p dl) (rg_capabilities r)) (\<lambda>capabilities.
          pret \<lparr>hr_selector = selector, hr_capabilities = capabilities,
                hr_projects = rg_projects r\<rparr>)))"

definition hub_compile ::
  "ulid_lib \<Rightarrow> glob_lib \<Rightarrow> ResourceGrantSnapshot \<Rightarrow> nat
     \<Rightarrow> ('x, ResourcePolicyError, HubRule list) prog" where
  "hub_compile U glob snapshot dl =
     pbind (ptraverse (hub_compile_rule U glob dl) (sn_rules snapshot)) (\<lambda>rules.
       pseq (check_deadline dl) (pret rules))"

subsection \<open>Decisions\<close>

text \<open>The loops return at the first rule that grants.\<close>

fun first_match ::
  "('r \<Rightarrow> bool) \<Rightarrow> 'r list \<Rightarrow> nat \<Rightarrow> ('x, ResourcePolicyError, bool) prog" where
  "first_match grants [] dl = pseq (check_deadline dl) (pret False)"
| "first_match grants (r # rs) dl =
     pseq (check_deadline dl) (if grants r then pret True else first_match grants rs dl)"

definition has_capability :: "matcher list \<Rightarrow> string \<Rightarrow> bool" where
  "has_capability capabilities name = list_ex (\<lambda>p. p name) capabilities"

definition allows_any_principal ::
  "CompiledRule list \<Rightarrow> Principal \<Rightarrow> string \<Rightarrow> nat \<Rightarrow> ('x, ResourcePolicyError, bool) prog" where
  "allows_any_principal rules user capability dl =
     first_match (\<lambda>rule. selector_matches (cr_selector rule) user
       \<and> has_capability (cr_capabilities rule) capability
       \<and> (cr_projects rule = [] \<or> list_ex (\<lambda>p. p = ''*'') (cr_projects rule))) rules dl"

definition allows_principal ::
  "CompiledRule list \<Rightarrow> Principal \<Rightarrow> string \<Rightarrow> string \<Rightarrow> nat \<Rightarrow> ('x, ResourcePolicyError, bool) prog" where
  "allows_principal rules user capability project dl =
     first_match (\<lambda>rule. selector_matches (cr_selector rule) user
       \<and> has_capability (cr_capabilities rule) capability
       \<and> (cr_projects rule = [] \<or> list_ex (\<lambda>p. p = ''*'' \<or> p = project) (cr_projects rule))) rules dl"

definition allows_any_project where
  "allows_any_project rules (user :: LocalBearerUser) capability dl =
     allows_any_principal rules (principal_local user) capability dl"

definition allows_any_broker where
  "allows_any_broker rules (user :: VerifiedBrokerAccess) capability dl =
     allows_any_principal rules (principal_broker user) capability dl"

definition allows_local where
  "allows_local rules (user :: LocalBearerUser) capability project dl =
     allows_principal rules (principal_local user) capability project dl"

definition allows_broker where
  "allows_broker rules (user :: VerifiedBrokerAccess) capability project dl =
     allows_principal rules (principal_broker user) capability project dl"

definition allows_inference ::
  "HubRule list \<Rightarrow> EmbeddingIdentity \<Rightarrow> string \<Rightarrow> nat \<Rightarrow> ('x, ResourcePolicyError, bool) prog" where
  "allows_inference rules identity capability dl =
     (let user = principal_inference identity in
      first_match (\<lambda>rule. hub_selector_matches (hr_selector rule) user
        \<and> has_capability (hr_capabilities rule) capability) rules dl)"

text \<open>\<^verbatim>\<open>selectors\<close>: the distinct projects of the matching Hub rules in the order of the policy;
  \<^const>\<open>None\<close> stands for all projects.  The accumulator is the list of selectors, which is also
  the set \<^verbatim>\<open>seen\<close>.\<close>

definition push_new :: "'a list \<Rightarrow> 'a \<Rightarrow> 'a list" where
  "push_new seen key = (if key \<in> set seen then seen else seen @ [key])"

definition project_key :: "string \<Rightarrow> string option" where
  "project_key project = (let p = trim project in if p \<noteq> ''*'' then Some p else None)"

definition selectors ::
  "HubRule list \<Rightarrow> HubIdentity \<Rightarrow> nat \<Rightarrow> ('x, ResourcePolicyError, string option list) prog" where
  "selectors rules identity dl =
     (let user = principal_hub identity in
      pbind (pfold (\<lambda>rule seen. pseq (check_deadline dl)
          (if \<not> hub_selector_matches (hr_selector rule) user
             \<or> \<not> has_capability (hr_capabilities rule) ''hub''
           then pret seen
           else pfold (\<lambda>project seen. pseq (check_deadline dl)
                    (pret (push_new seen (project_key project))))
                  (hr_projects rule)
                  (if hr_projects rule = [] then push_new seen None else seen)))
        rules []) (\<lambda>selected.
      pseq (check_deadline dl) (pret selected)))"

text \<open>A catalog route pairs the route of the stored rule at the same position with the trimmed
  projects of the compiled rule.\<close>

definition catalog_routes ::
  "HubRule list \<Rightarrow> HubIdentity \<Rightarrow> ResourceGrantSnapshot \<Rightarrow> nat
     \<Rightarrow> ('x, ResourcePolicyError, (string \<times> string list) list) prog" where
  "catalog_routes rules identity snapshot dl =
     (let user = principal_hub identity in
      pfold (\<lambda>(index, rule) routes. pseq (check_deadline dl)
          (pret (if hub_selector_matches (hr_selector rule) user
                  \<and> has_capability (hr_capabilities rule) ''hub''
                 then routes @ [(trim (rg_s3_route (sn_rules snapshot ! index)),
                                 map trim (hr_projects rule))]
                 else routes)))
        (enumerate 0 rules) [])"

definition admin_catalog_rules ::
  "HubRule list \<Rightarrow> Principal \<Rightarrow> nat \<Rightarrow> ('x, ResourcePolicyError, nat list) prog" where
  "admin_catalog_rules rules user dl =
     pbind (pfold (\<lambda>(index, rule) indices. pseq (check_deadline dl)
          (pret (if hub_selector_matches (hr_selector rule) (Some user)
                  \<and> has_capability (hr_capabilities rule) ''hub''
                 then indices @ [index] else indices)))
        (enumerate 0 rules) []) (\<lambda>indices.
      pseq (check_deadline dl) (pret indices))"

definition OPERATION_NAMES :: "string list" where
  "OPERATION_NAMES = [''read'', ''write'', ''publish'', ''delete'']"

definition storage_masks :: "matcher list \<Rightarrow> bool list" where
  "storage_masks capabilities =
     map (\<lambda>name. list_ex (\<lambda>p. p ''s3'' \<or> p (''s3:'' @ name)) capabilities) OPERATION_NAMES"

definition storage_rule_applies :: "HubRule \<Rightarrow> Principal \<Rightarrow> string option \<Rightarrow> bool" where
  "storage_rule_applies rule user project \<longleftrightarrow>
     hub_selector_matches (hr_selector rule) (Some user)
     \<and> (hr_projects rule = [] \<or> list_ex (\<lambda>p. trim p = ''*''
           \<or> is_some_and project (\<lambda>project. trim p = project)) (hr_projects rule))"

definition storage_rules ::
  "HubRule list \<Rightarrow> StorageIdentity \<Rightarrow> string option \<Rightarrow> nat
     \<Rightarrow> ('x, ResourcePolicyError, (nat \<times> bool list \<times> bool) list) prog" where
  "storage_rules rules identity project dl =
     (let user = principal_storage identity in
      pbind (pfold (\<lambda>(index, rule) matching. pseq (check_deadline dl)
          (pret (if \<not> storage_rule_applies rule user project then matching
                 else matching @ [(index, storage_masks (hr_capabilities rule),
                                   has_capability (hr_capabilities rule) ''hub'')])))
        (enumerate 0 rules) []) (\<lambda>matching.
      pseq (check_deadline dl) (pret matching)))"

text \<open>\<^verbatim>\<open>inference_cache_scope\<close>: the bytes that are hashed; the digest is a parameter.\<close>

definition cache_scope_input :: "EmbeddingIdentity \<Rightarrow> string" where
  "cache_scope_input identity =
     ''graphit-rerank-principal-v1'' @
     (case principal_inference identity of
        None \<Rightarrow> [byte 0]
      | Some p \<Rightarrow> byte 1 # frames u64_to_le_bytes
          [pr_issuer p, pr_subject p, (case pr_organization p of None \<Rightarrow> [] | Some org \<Rightarrow> org)])"

definition inference_cache_scope :: "(string \<Rightarrow> string) \<Rightarrow> EmbeddingIdentity \<Rightarrow> string" where
  "inference_cache_scope sha256 identity = sha256 (cache_scope_input identity)"

subsection \<open>Declarative policies\<close>

text \<open>What a stored rule means, independently of compilation, evaluation order and time.\<close>

definition glob_hits :: "glob_lib \<Rightarrow> string \<Rightarrow> string \<Rightarrow> bool" where
  "glob_hits glob text name = (case glob (trim text) of None \<Rightarrow> False | Some m \<Rightarrow> m name)"

definition pattern_ok :: "glob_lib \<Rightarrow> string \<Rightarrow> bool" where
  "pattern_ok glob text \<longleftrightarrow> trim text \<noteq> [] \<and> glob (trim text) \<noteq> None"

definition rule_selects :: "glob_lib \<Rightarrow> ResourceGrantRule \<Rightarrow> Principal \<Rightarrow> bool" where
  "rule_selects glob r u \<longleftrightarrow> (let kind = rule_kind r; hits = glob_hits glob (rg_principal r) in
     kind = ''global'' \<or> kind = ''authenticated''
     \<or> kind = ''user'' \<and> is_some_and (pr_username u) hits
     \<or> kind = ''team'' \<and> list_ex hits (pr_teams u)
     \<or> kind = ''organization'' \<and> is_some_and (pr_organization u) hits
     \<or> kind = ''subject'' \<and> (hits (pr_subject u) \<or> hits (pr_issuer u @ ''|'' @ pr_subject u)))"

definition rule_grants ::
  "glob_lib \<Rightarrow> ResourceGrantRule \<Rightarrow> Principal \<Rightarrow> string \<Rightarrow> string \<Rightarrow> bool" where
  "rule_grants glob r u capability project \<longleftrightarrow>
     rule_selects glob r u
     \<and> list_ex (\<lambda>c. glob_hits glob c capability) (rg_capabilities r)
     \<and> (rg_projects r = [] \<or> ''*'' \<in> set (rg_projects r) \<or> project \<in> set (rg_projects r))"

definition rule_valid :: "ulid_lib \<Rightarrow> glob_lib \<Rightarrow> ResourceGrantRule \<Rightarrow> bool" where
  "rule_valid U glob r \<longleftrightarrow>
     (rule_kind r \<in> {''global'', ''anonymous'', ''authenticated''}
      \<or> rule_kind r \<in> {''user'', ''team'', ''organization'', ''subject''} \<and> pattern_ok glob (rg_principal r))
     \<and> rg_capabilities r \<noteq> [] \<and> list_all (pattern_ok glob) (rg_capabilities r)
     \<and> list_all (\<lambda>p. p = ''*'' \<or> canonical_project_id U p) (rg_projects r)"

definition hub_rule_selects :: "ResourceGrantRule \<Rightarrow> Principal option \<Rightarrow> bool" where
  "hub_rule_selects r user = (case hub_selector r of Inl _ \<Rightarrow> False
     | Inr s \<Rightarrow> hub_selector_matches s user)"

definition hub_rule_has :: "glob_lib \<Rightarrow> ResourceGrantRule \<Rightarrow> string \<Rightarrow> bool" where
  "hub_rule_has glob r capability = list_ex (\<lambda>c. glob_hits glob c capability) (rg_capabilities r)"

text \<open>The pure results of the compilers.\<close>

definition pattern_spec :: "glob_lib \<Rightarrow> string \<Rightarrow> ResourcePolicyError + matcher" where
  "pattern_spec glob value =
     (if trim value = [] then Inl RP_InvalidPolicy else ok_or (glob (trim value)) RP_InvalidPolicy)"

definition selector_spec :: "glob_lib \<Rightarrow> ResourceGrantRule \<Rightarrow> ResourcePolicyError + Selector" where
  "selector_spec glob r =
     (let kind = rule_kind r; p = pattern_spec glob (rg_principal r) in
      if kind = ''global'' then Inr Sel_Global
      else if kind = ''anonymous'' then Inr Sel_Anonymous
      else if kind = ''authenticated'' then Inr Sel_Authenticated
      else if kind = ''user'' then rbind p (\<lambda>m. Inr (Sel_User m))
      else if kind = ''team'' then rbind p (\<lambda>m. Inr (Sel_Team m))
      else if kind = ''organization'' then rbind p (\<lambda>m. Inr (Sel_Organization m))
      else if kind = ''subject'' then rbind p (\<lambda>m. Inr (Sel_Subject m))
      else Inl RP_InvalidPolicy)"

definition compile_rule_spec ::
  "ulid_lib \<Rightarrow> glob_lib \<Rightarrow> ResourceGrantRule \<Rightarrow> ResourcePolicyError + CompiledRule" where
  "compile_rule_spec U glob r = rbind (selector_spec glob r) (\<lambda>selector.
     if rg_capabilities r = []
       \<or> list_ex (\<lambda>p. p \<noteq> ''*'' \<and> \<not> canonical_project_id U p) (rg_projects r)
     then Inl RP_InvalidPolicy
     else rbind (rmap (pattern_spec glob) (rg_capabilities r)) (\<lambda>capabilities.
       Inr \<lparr>cr_selector = selector, cr_capabilities = capabilities, cr_projects = rg_projects r\<rparr>))"

definition hub_rule_spec ::
  "ulid_lib \<Rightarrow> glob_lib \<Rightarrow> ResourceGrantRule \<Rightarrow> ResourcePolicyError + HubRule" where
  "hub_rule_spec U glob r = rbind (hub_selector r) (\<lambda>selector.
     if rg_capabilities r = []
       \<or> list_ex (\<lambda>p. trim p \<noteq> ''*'' \<and> \<not> canonical_project_id U (trim p)) (rg_projects r)
     then Inl RP_InvalidPolicy
     else rbind (rmap (pattern_spec glob) (rg_capabilities r)) (\<lambda>capabilities.
       Inr \<lparr>hr_selector = selector, hr_capabilities = capabilities, hr_projects = rg_projects r\<rparr>))"

text \<open>One round of \<^const>\<open>selectors\<close>, and the projects a stored rule contributes.\<close>

definition selectors_step :: "Principal option \<Rightarrow> HubRule \<Rightarrow> string option list \<Rightarrow> string option list" where
  "selectors_step user rule seen =
     (if \<not> hub_selector_matches (hr_selector rule) user
        \<or> \<not> has_capability (hr_capabilities rule) ''hub''
      then seen
      else fold (\<lambda>project seen. push_new seen (project_key project)) (hr_projects rule)
             (if hr_projects rule = [] then push_new seen None else seen))"

definition hub_projects :: "glob_lib \<Rightarrow> Principal option \<Rightarrow> ResourceGrantRule \<Rightarrow> string option set" where
  "hub_projects glob user r =
     (if hub_rule_selects r user \<and> hub_rule_has glob r ''hub''
      then (if rg_projects r = [] then {None} else project_key ` set (rg_projects r)) else {})"

subsection \<open>The programs refine their pure results\<close>

lemma timed_check_deadline [timed_intros]: "timed dl RP_Deadline (check_deadline dl) (Inr ())"
  unfolding check_deadline_def by (rule timed_deadline_check)

lemma timed_pattern [timed_intros]:
  "timed dl RP_Deadline (pattern glob value dl) (pattern_spec glob value)"
proof -
  have "timed dl RP_Deadline (pattern glob value dl)
     (if trim value = [] then Inl RP_InvalidPolicy
      else rbind (ok_or (glob (trim value)) RP_InvalidPolicy) Inr)"
    unfolding pattern_def Let_def by (intro timed_intros)
  then show ?thesis
    by (simp add: pattern_spec_def ok_or_def split: option.splits if_splits)
qed

lemma timed_compile_selector [timed_intros]:
  "timed dl RP_Deadline (compile_selector glob r dl) (selector_spec glob r)"
  unfolding compile_selector_def selector_spec_def Let_def by (intro timed_intros)

lemma timed_compile_rule [timed_intros]:
  "timed dl RP_Deadline (compile_rule U glob dl r) (compile_rule_spec U glob r)"
  unfolding compile_rule_def compile_rule_spec_def by (intro timed_intros)

lemma timed_compile:
  "timed dl RP_Deadline (compile U glob snapshot dl) (rmap (compile_rule_spec U glob) (sn_rules snapshot))"
proof -
  have "timed dl RP_Deadline (compile U glob snapshot dl)
      (rbind (rmap (compile_rule_spec U glob) (sn_rules snapshot)) Inr)"
    unfolding compile_def by (intro timed_intros)
  then show ?thesis by (cases "rmap (compile_rule_spec U glob) (sn_rules snapshot)") simp_all
qed

lemma timed_hub_compile_rule [timed_intros]:
  "timed dl RP_Deadline (hub_compile_rule U glob dl r) (hub_rule_spec U glob r)"
  unfolding hub_compile_rule_def hub_rule_spec_def by (intro timed_intros)

lemma timed_hub_compile:
  "timed dl RP_Deadline (hub_compile U glob snapshot dl) (rmap (hub_rule_spec U glob) (sn_rules snapshot))"
proof -
  have "timed dl RP_Deadline (hub_compile U glob snapshot dl)
      (rbind (rmap (hub_rule_spec U glob) (sn_rules snapshot)) Inr)"
    unfolding hub_compile_def by (intro timed_intros)
  then show ?thesis by (cases "rmap (hub_rule_spec U glob) (sn_rules snapshot)") simp_all
qed

lemma timed_first_match [timed_intros]:
  "timed dl RP_Deadline (first_match grants rules dl) (Inr (list_ex grants rules))"
proof (induction rules)
  case (Cons r rs)
  then show ?case
    by (cases "grants r") (auto intro!: timed_pseq timed_check_deadline timed_pret)
qed (auto intro!: timed_pseq timed_check_deadline timed_pret)

lemma timed_allows_principal:
  "timed dl RP_Deadline (allows_principal rules user capability project dl)
     (Inr (list_ex (\<lambda>rule. selector_matches (cr_selector rule) user
       \<and> has_capability (cr_capabilities rule) capability
       \<and> (cr_projects rule = [] \<or> list_ex (\<lambda>p. p = ''*'' \<or> p = project) (cr_projects rule))) rules))"
  unfolding allows_principal_def by (rule timed_first_match)

lemma timed_allows_inference:
  "timed dl RP_Deadline (allows_inference rules identity capability dl)
     (Inr (list_ex (\<lambda>rule. hub_selector_matches (hr_selector rule) (principal_inference identity)
        \<and> has_capability (hr_capabilities rule) capability) rules))"
  unfolding allows_inference_def Let_def by (rule timed_first_match)

lemma timed_storage_rules:
  "timed dl RP_Deadline (storage_rules rules identity project dl)
     (Inr (map (\<lambda>(index, rule). (index, storage_masks (hr_capabilities rule),
                                   has_capability (hr_capabilities rule) ''hub''))
       (filter (\<lambda>(index, rule). storage_rule_applies rule (principal_storage identity) project)
         (enumerate 0 rules))))"
  unfolding storage_rules_def Let_def by (rule timed_collect [OF timed_check_deadline])

lemma timed_selectors:
  "timed dl RP_Deadline (selectors rules identity dl)
     (Inr (fold (selectors_step (principal_hub identity)) rules []))"
  unfolding selectors_def Let_def
proof (rule timed_loop_then_check [OF timed_check_deadline], goal_cases)
  case (1 rule seen)
  show ?case
    unfolding selectors_step_def by (auto intro!: timed_intros timed_pfold_pure)
qed

subsection \<open>Compilation preserves the meaning of a rule\<close>

lemma pattern_spec_ok: "pattern_spec glob v = Inr m \<longleftrightarrow> trim v \<noteq> [] \<and> glob (trim v) = Some m"
  by (simp add: pattern_spec_def)

lemma pattern_spec_hits: "pattern_spec glob v = Inr m \<Longrightarrow> glob_hits glob v = m"
  by (rule ext) (simp add: pattern_spec_ok glob_hits_def)

lemma pattern_spec_exists: "(\<exists>m. pattern_spec glob v = Inr m) \<longleftrightarrow> pattern_ok glob v"
  by (auto simp: pattern_spec_ok pattern_ok_def)

lemma capabilities_hits:
  "rmap (pattern_spec glob) cs = Inr ms \<Longrightarrow>
     has_capability ms name = list_ex (\<lambda>c. glob_hits glob c name) cs"
  by (induction cs arbitrary: ms) (auto simp: has_capability_def pattern_spec_hits)

lemma capabilities_exists:
  "(\<exists>ms. rmap (pattern_spec glob) cs = Inr ms) \<longleftrightarrow> list_all (pattern_ok glob) cs"
  by (induction cs) (auto simp: pattern_spec_exists [symmetric])

lemma selector_spec_selects:
  "selector_spec glob r = Inr s \<Longrightarrow> selector_matches s u \<longleftrightarrow> rule_selects glob r u"
  by (auto simp: selector_spec_def rule_selects_def Let_def pattern_spec_hits split: if_splits)

lemma selector_spec_exists:
  "(\<exists>s. selector_spec glob r = Inr s) \<longleftrightarrow>
     rule_kind r \<in> {''global'', ''anonymous'', ''authenticated''}
     \<or> rule_kind r \<in> {''user'', ''team'', ''organization'', ''subject''} \<and> pattern_ok glob (rg_principal r)"
  by (auto simp: selector_spec_def Let_def pattern_spec_exists [symmetric])

lemma compile_rule_spec_ok:
  assumes "compile_rule_spec U glob r = Inr c"
  shows "selector_matches (cr_selector c) u \<longleftrightarrow> rule_selects glob r u"
    and "has_capability (cr_capabilities c) name \<longleftrightarrow> list_ex (\<lambda>x. glob_hits glob x name) (rg_capabilities r)"
    and "cr_projects c = rg_projects r"
  using assms
  by (auto simp: compile_rule_spec_def selector_spec_selects capabilities_hits split: if_splits)

lemma compile_rule_spec_exists: "(\<exists>c. compile_rule_spec U glob r = Inr c) \<longleftrightarrow> rule_valid U glob r"
proof -
  have "list_ex (\<lambda>p. p \<noteq> ''*'' \<and> \<not> canonical_project_id U p) ps
      \<longleftrightarrow> \<not> list_all (\<lambda>p. p = ''*'' \<or> canonical_project_id U p) ps" for ps
    by (auto simp: list_ex_iff list_all_iff)
  then have "(\<exists>c. compile_rule_spec U glob r = Inr c) \<longleftrightarrow>
      (\<exists>s. selector_spec glob r = Inr s) \<and> rg_capabilities r \<noteq> []
      \<and> list_all (\<lambda>p. p = ''*'' \<or> canonical_project_id U p) (rg_projects r)
      \<and> (\<exists>ms. rmap (pattern_spec glob) (rg_capabilities r) = Inr ms)"
    by (auto simp: compile_rule_spec_def)
  then show ?thesis
    by (auto simp: selector_spec_exists capabilities_exists rule_valid_def)
qed

lemma rmap_exists: "(\<exists>ys. rmap f xs = Inr ys) \<longleftrightarrow> list_all (\<lambda>x. \<exists>y. f x = Inr y) xs"
  by (induction xs) auto

lemma list_ex_rmap:
  assumes "rmap f xs = Inr ys" and "\<And>x y. x \<in> set xs \<Longrightarrow> f x = Inr y \<Longrightarrow> Q y \<longleftrightarrow> P x"
  shows "list_ex Q ys \<longleftrightarrow> list_ex P xs"
  using assms
proof (induction xs arbitrary: ys)
  case (Cons x xs)
  then obtain z zs where "ys = z # zs" "f x = Inr z" "rmap f xs = Inr zs" by auto
  moreover have "Q z \<longleftrightarrow> P x" "list_ex Q zs \<longleftrightarrow> list_ex P xs"
    using Cons calculation by simp_all
  ultimately show ?case by simp
qed simp

lemma hub_rule_spec_ok:
  assumes "hub_rule_spec U glob r = Inr c"
  shows "hub_selector_matches (hr_selector c) user \<longleftrightarrow> hub_rule_selects r user"
    and "has_capability (hr_capabilities c) name \<longleftrightarrow> hub_rule_has glob r name"
    and "hr_projects c = rg_projects r"
  using assms
  by (auto simp: hub_rule_spec_def hub_rule_selects_def hub_rule_has_def capabilities_hits
      split: if_splits)

lemma set_push_new [simp]: "set (push_new seen k) = insert k (set seen)"
  by (auto simp: push_new_def)

lemma distinct_push_new [simp]: "distinct (push_new seen k) \<longleftrightarrow> distinct seen"
  by (auto simp: push_new_def)

lemma fold_push_new:
  "set (fold (\<lambda>x seen. push_new seen (k x)) xs seen) = set seen \<union> k ` set xs"
  "distinct (fold (\<lambda>x seen. push_new seen (k x)) xs seen) \<longleftrightarrow> distinct seen"
  by (induction xs arbitrary: seen) auto

lemma selectors_step_ok:
  assumes "hub_rule_spec U glob r = Inr c"
  shows "set (selectors_step user c seen) = set seen \<union> hub_projects glob user r"
    and "distinct (selectors_step user c seen) \<longleftrightarrow> distinct seen"
  by (simp_all add: selectors_step_def hub_projects_def hub_rule_spec_ok [OF assms] fold_push_new)

lemma selectors_fold:
  assumes "rmap (hub_rule_spec U glob) rs = Inr rules"
  shows "set (fold (selectors_step user) rules seen) = set seen \<union> (\<Union>r\<in>set rs. hub_projects glob user r)"
    and "distinct (fold (selectors_step user) rules seen) \<longleftrightarrow> distinct seen"
  using assms
proof (induction rs arbitrary: rules seen)
  case (Cons r rs)
  {
    case 1
    then show ?case by (auto simp: Cons.IH selectors_step_ok)
  next
    case 2
    then show ?case by (auto simp: Cons.IH selectors_step_ok)
  }
qed auto

text \<open>A decision in terms of the stored rules.\<close>

lemma decision_iff:
  assumes "fst (compile U glob snapshot dl w) = Inr rules"
    and "fst (allows_principal rules user capability project dl' w') = Inr allowed"
  shows "allowed \<longleftrightarrow> (\<exists>r\<in>set (sn_rules snapshot). rule_grants glob r user capability project)"
proof -
  have c: "rmap (compile_rule_spec U glob) (sn_rules snapshot) = Inr rules"
    using timed_ok [OF timed_compile assms(1)] .
  have "allowed = list_ex (\<lambda>rule. selector_matches (cr_selector rule) user
       \<and> has_capability (cr_capabilities rule) capability
       \<and> (cr_projects rule = [] \<or> list_ex (\<lambda>p. p = ''*'' \<or> p = project) (cr_projects rule))) rules"
    using timed_ok [OF timed_allows_principal assms(2)] by simp
  also have "\<dots> = list_ex (\<lambda>r. rule_grants glob r user capability project) (sn_rules snapshot)"
    using c by (rule list_ex_rmap)
      (auto simp: compile_rule_spec_ok rule_grants_def list_ex_iff)
  finally show ?thesis by (simp add: list_ex_iff)
qed

subsection \<open>Properties\<close>

text \<open>C5: a compiled glob policy allows a capability on a project exactly when one stored rule
  grants all three of principal, capability and project.  Grants of different rules are never
  combined, and without a granting rule the answer is no.\<close>

theorem policy_decision:
  assumes "fst (compile U glob snapshot dl w) = Inr rules"
    and "fst (allows_principal rules user capability project dl' w') = Inr allowed"
  shows "allowed \<longleftrightarrow> (\<exists>r\<in>set (sn_rules snapshot). rule_grants glob r user capability project)"
  using assms by (rule decision_iff)

text \<open>Before the deadline a policy compiles exactly when every one of its rules is valid, so
  one malformed rule rejects the whole policy wherever it stands.\<close>

theorem policy_validates_every_rule:
  assumes "within dl w"
  shows "(\<exists>rules. fst (compile U glob snapshot dl w) = Inr rules)
     \<longleftrightarrow> list_all (rule_valid U glob) (sn_rules snapshot)"
  unfolding timed_within [OF timed_compile assms] rmap_exists compile_rule_spec_exists by (rule refl)

text \<open>Grants are additive: whatever a policy allows is still allowed by a policy with more
  rules.\<close>

theorem policy_additive:
  assumes "set (sn_rules s) \<subseteq> set (sn_rules s')"
    and "fst (compile U glob s dl w) = Inr rules" "fst (compile U glob s' dl w') = Inr rules'"
    and "fst (allows_principal rules user capability project dl w1) = Inr True"
    and "fst (allows_principal rules' user capability project dl w2) = Inr allowed"
  shows "allowed"
proof -
  have ex: "list_ex (\<lambda>rule. selector_matches (cr_selector rule) user
       \<and> has_capability (cr_capabilities rule) capability
       \<and> (cr_projects rule = [] \<or> list_ex (\<lambda>p. p = ''*'' \<or> p = project) (cr_projects rule))) rs
     \<longleftrightarrow> list_ex (\<lambda>r. rule_grants glob r user capability project) (sn_rules sn)"
    if "rmap (compile_rule_spec U glob) (sn_rules sn) = Inr rs" for sn rs
    using that by (rule list_ex_rmap) (auto simp: compile_rule_spec_ok rule_grants_def list_ex_iff)
  show ?thesis
    using timed_ok [OF timed_allows_principal assms(4)] timed_ok [OF timed_allows_principal assms(5)]
      ex [OF timed_ok [OF timed_compile assms(2)]] ex [OF timed_ok [OF timed_compile assms(3)]] assms(1)
    by (auto simp: list_ex_iff)
qed

text \<open>The Hub's project selectors are, without repetition, the projects of exactly those stored
  rules that select the caller and carry the hub capability; a matching rule without projects
  selects all of them.\<close>

theorem hub_selectors_exact:
  assumes "fst (hub_compile U glob snapshot dl w) = Inr rules"
    and "fst (selectors rules identity dl' w') = Inr selected"
  shows "distinct selected \<and> set selected =
     (\<Union>r\<in>set (sn_rules snapshot). hub_projects glob (principal_hub identity) r)"
proof -
  have c: "rmap (hub_rule_spec U glob) (sn_rules snapshot) = Inr rules"
    using timed_ok [OF timed_hub_compile assms(1)] .
  show ?thesis
    using selectors_fold [OF c, of "principal_hub identity" "[]"] timed_ok [OF timed_selectors assms(2)]
    by simp
qed

text \<open>The bytes hashed for the inference cache identify the caller: two callers with the same
  bytes are both anonymous, or have the same issuer, subject and organization.\<close>

theorem cache_scope_separates:
  assumes "cache_scope_input a = cache_scope_input b"
    and "\<forall>p. principal_inference a = Some p \<or> principal_inference b = Some p \<longrightarrow>
       length (pr_issuer p) < 2 ^ 64 \<and> length (pr_subject p) < 2 ^ 64
       \<and> length (case pr_organization p of None \<Rightarrow> [] | Some org \<Rightarrow> org) < 2 ^ 64"
  shows "(principal_inference a = None \<longleftrightarrow> principal_inference b = None)
     \<and> (\<forall>p q. principal_inference a = Some p \<and> principal_inference b = Some q \<longrightarrow>
          pr_issuer p = pr_issuer q \<and> pr_subject p = pr_subject q
          \<and> (case pr_organization p of None \<Rightarrow> [] | Some org \<Rightarrow> org)
            = (case pr_organization q of None \<Rightarrow> [] | Some org \<Rightarrow> org))"
proof (cases "principal_inference a"; cases "principal_inference b")
  fix p q assume pq: "principal_inference a = Some p" "principal_inference b = Some q"
  let ?org = "\<lambda>p. case pr_organization p of None \<Rightarrow> [] | Some org \<Rightarrow> org"
  have "[pr_issuer p, pr_subject p, ?org p] = [pr_issuer q, pr_subject q, ?org q]"
    by (rule le8.frames_inj) (use assms pq in \<open>auto simp: cache_scope_input_def\<close>)
  with pq show ?thesis by simp
qed (use assms(1) byte_inj [of 0 1] in \<open>auto simp: cache_scope_input_def\<close>)

subsection \<open>Witnesses\<close>

text \<open>A glob engine for the witnesses: the pattern \<^verbatim>\<open>*\<close> matches everything, an open bracket is rejected
  and any other text matches itself.\<close>

definition demo_glob :: glob_lib where
  "demo_glob p = (if CHR ''['' \<in> set p then None else if p = ''*'' then Some (\<lambda>_. True)
     else Some (\<lambda>s. s = p))"

definition demo_rule :: "string \<Rightarrow> string \<Rightarrow> string \<Rightarrow> ResourceGrantRule" where
  "demo_rule n kind who = \<lparr>rg_id = n, rg_name = n, rg_access_kind = kind, rg_principal = who,
     rg_s3_route = [], rg_capabilities = [''hub'', ''now''], rg_projects = [''*''],
     rg_s3_operations = [], rg_s3_prefixes = [], rg_created_at = 0, rg_updated_at = 0\<rparr>"

definition demo_snapshot :: "ResourceGrantRule list \<Rightarrow> ResourceGrantSnapshot" where
  "demo_snapshot rules = \<lparr>sn_revision = 1, sn_updated_at = 0, sn_rules = rules\<rparr>"

definition demo_user :: Principal where
  "demo_user = \<lparr>pr_issuer = ''op'', pr_subject = ''s'', pr_username = Some ''ann'',
     pr_organization = None, pr_teams = []\<rparr>"

lemma demo_within: "within 10 demo_world"
  by (simp add: within_def demo_defs)

lemma demo_rules_valid:
  "list_all (rule_valid demo_ulid demo_glob) [demo_rule ''a'' '' User'' ''ann'', demo_rule ''b'' ''team'' ''t'']"
  by code_simp

lemma demo_rule_grants:
  "rule_grants demo_glob (demo_rule ''a'' '' User'' ''ann'') demo_user ''now'' demo_project"
  by code_simp

lemma demo_compiles:
  assumes "list_all (rule_valid demo_ulid demo_glob) rs"
  obtains rules where "fst (compile demo_ulid demo_glob (demo_snapshot rs) 10 demo_world) = Inr rules"
proof -
  have "\<exists>rules. fst (compile demo_ulid demo_glob (demo_snapshot rs) 10 demo_world) = Inr rules"
    unfolding timed_within [OF timed_compile demo_within] rmap_exists compile_rule_spec_exists
    using assms by (simp add: demo_snapshot_def)
  then show thesis using that by blast
qed

lemma demo_decides:
  obtains allowed where "fst (allows_principal rules user capability project 10 demo_world) = Inr allowed"
  using timed_within [OF timed_allows_principal demo_within] by blast

theorem policy_decision_witness:
  "\<exists>rules allowed.
     fst (compile demo_ulid demo_glob (demo_snapshot [demo_rule ''a'' '' User'' ''ann'', demo_rule ''b'' ''team'' ''t''])
       10 demo_world) = Inr rules
     \<and> fst (allows_principal rules demo_user ''now'' demo_project 10 demo_world) = Inr allowed \<and> allowed"
proof -
  obtain rules where c: "fst (compile demo_ulid demo_glob
      (demo_snapshot [demo_rule ''a'' '' User'' ''ann'', demo_rule ''b'' ''team'' ''t'']) 10 demo_world) = Inr rules"
    using demo_compiles [OF demo_rules_valid] .
  obtain allowed where a: "fst (allows_principal rules demo_user ''now'' demo_project 10 demo_world) = Inr allowed"
    using demo_decides .
  show ?thesis
    using policy_decision [OF c a] c a demo_rule_grants by (auto simp: demo_snapshot_def)
qed

definition demo_upstream :: "string list \<Rightarrow> EmbeddingIdentity" where
  "demo_upstream teams = EI_Upstream \<lparr>up_issuer = ''op'', up_subject = ''s'', up_username = ''ann'',
     up_organization = ''o'', up_teams = teams\<rparr>"

end
