(* ===== verification/Storage_Scope.thy ===== *)
theory Storage_Scope
  imports Resource_Policy
begin

text \<open>
  Storage scopes and admitted callers, \<^verbatim>\<open>broker-control/src/storage_admission.rs\<close>: the modules and
  operations, the scope a caller asks for, the key prefixes that a scope stands for, and the
  authentication that every grant keeps checking.  SHA-256 is the parameter \<^verbatim>\<open>sha256\<close>.
\<close>

datatype StorageAdmissionError =
  SA_Native BrokerAccessError | SA_Local LocalBearerVerificationError
| SA_Grants ResourceGrantReadError | SA_Control ControlError
| SA_InvalidConfiguration | SA_InvalidScope | SA_InvalidPolicy | SA_ConflictingRoutes
| SA_Forbidden | SA_Deadline

fun SA_from_policy :: "ResourcePolicyError \<Rightarrow> StorageAdmissionError" where
  "SA_from_policy RP_InvalidPolicy = SA_InvalidPolicy"
| "SA_from_policy RP_Deadline = SA_Deadline"

datatype StorageModule = Mod_Hub | Mod_Task | Mod_Memory | Mod_Knowledge | Mod_Ast

fun module_str :: "StorageModule \<Rightarrow> string" where
  "module_str Mod_Hub = ''hub''"
| "module_str Mod_Task = ''task''"
| "module_str Mod_Memory = ''memory''"
| "module_str Mod_Knowledge = ''knowledge''"
| "module_str Mod_Ast = ''ast''"

datatype StorageScope =
  Scope_Project string StorageModule | Scope_UserMemory string | Scope_GlobalHub

definition scope_project ::
  "ulid_lib \<Rightarrow> string \<Rightarrow> StorageModule \<Rightarrow> StorageAdmissionError + StorageScope" where
  "scope_project U project m =
     (if \<not> canonical_project_id U project then Inl SA_InvalidScope
      else Inr (Scope_Project project m))"

definition scope_user_memory :: "string \<Rightarrow> StorageAdmissionError + StorageScope" where
  "scope_user_memory installation =
     (if \<not> (1 \<le> length installation \<and> length installation \<le> 128)
       \<or> \<not> is_ascii_alphanumeric (hd installation)
       \<or> \<not> is_ascii_alphanumeric (last installation)
       \<or> \<not> list_all id_char installation
      then Inl SA_InvalidScope
      else Inr (Scope_UserMemory installation))"

definition scope_global_hub :: StorageScope where
  "scope_global_hub = Scope_GlobalHub"

fun is_global_hub :: "StorageScope \<Rightarrow> bool" where
  "is_global_hub Scope_GlobalHub = True"
| "is_global_hub _ = False"

fun scope_project_id :: "StorageScope \<Rightarrow> string option" where
  "scope_project_id (Scope_Project project m) = Some project"
| "scope_project_id _ = None"

fun scope_installation_id :: "StorageScope \<Rightarrow> string option" where
  "scope_installation_id (Scope_UserMemory installation) = Some installation"
| "scope_installation_id _ = None"

fun scope_module :: "StorageScope \<Rightarrow> StorageModule" where
  "scope_module (Scope_Project project m) = m"
| "scope_module (Scope_UserMemory installation) = Mod_Memory"
| "scope_module Scope_GlobalHub = Mod_Hub"

text \<open>\<^verbatim>\<open>user_namespace\<close>: the lower-case hexadecimal SHA-256 of the framed issuer and subject.\<close>

definition hex_digit :: "nat \<Rightarrow> char" where
  "hex_digit n = ''0123456789abcdef'' ! n"

definition hex_encode :: "string \<Rightarrow> string" where
  "hex_encode bytes = concat (map (\<lambda>b. [hex_digit (byte_of b div 16), hex_digit (byte_of b mod 16)]) bytes)"

definition namespace_input :: "string \<Rightarrow> string \<Rightarrow> string" where
  "namespace_input issuer subject =
     ''graphit-user-namespace-v1'' @ [CHR 0x00] @ frames u64_to_be_bytes [issuer, subject]"

definition user_namespace :: "(string \<Rightarrow> string) \<Rightarrow> string \<Rightarrow> string \<Rightarrow> string" where
  "user_namespace sha256 issuer subject = hex_encode (sha256 (namespace_input issuer subject))"

definition identity_issuer_subject :: "StorageIdentity \<Rightarrow> string \<times> string" where
  "identity_issuer_subject identity = (case identity of
       SI_Native p \<Rightarrow> (ba_issuer p, ba_subject p)
     | SI_Local p \<Rightarrow> (LOCAL_ISSUER, lu_subject (vl_user p)))"

fun roots :: "(string \<Rightarrow> string) \<Rightarrow> StorageScope \<Rightarrow> StorageIdentity \<Rightarrow> string list" where
  "roots sha256 Scope_GlobalHub identity = [''v1/hub/global/registry'', ''v1/hub/global/rules'']"
| "roots sha256 (Scope_Project project m) identity =
     (if m = Mod_Hub then
        [''v1/projects/'' @ project @ ''/registry'', ''v1/projects/'' @ project @ ''/artifacts'',
         ''v1/projects/'' @ project @ ''/hub/metadata'', ''v1/projects/'' @ project @ ''/hub/events'']
      else [''v1/projects/'' @ project @ ''/corpora/'' @ module_str m])"
| "roots sha256 (Scope_UserMemory installation) identity =
     (let (issuer, subject) = identity_issuer_subject identity in
      [''v1/installations/'' @ installation @ ''/users/'' @ user_namespace sha256 issuer subject
         @ ''/corpora/memory''])"

datatype StorageOperation = Op_Read | Op_Write | Op_Publish | Op_Delete

definition ALL_OPERATIONS :: "StorageOperation list" where
  "ALL_OPERATIONS = [Op_Read, Op_Write, Op_Publish, Op_Delete]"

fun op_index :: "StorageOperation \<Rightarrow> nat" where
  "op_index Op_Read = 0"
| "op_index Op_Write = 1"
| "op_index Op_Publish = 2"
| "op_index Op_Delete = 3"

fun op_name :: "StorageOperation \<Rightarrow> string" where
  "op_name Op_Read = ''read''"
| "op_name Op_Write = ''write''"
| "op_name Op_Publish = ''publish''"
| "op_name Op_Delete = ''delete''"

subsection \<open>Authentication of a caller\<close>

record StorageAuthentication =
  sa_identity :: StorageIdentity
  sa_end :: nat
  sa_expires_at :: nat
  sa_expires_mono :: nat

definition auth_check :: "StorageAuthentication \<Rightarrow> ('x, StorageAdmissionError, unit) prog" where
  "auth_check a =
     (let expired = (case sa_identity a of SI_Native _ \<Rightarrow> SA_Native BA_Expired
                     | SI_Local _ \<Rightarrow> SA_Local LV_Unauthenticated) in
      pseq (deadline_check (sa_end a) SA_Deadline)
        (pbind now_tick (\<lambda>u.
         if int (sa_expires_at a) \<le> utc u then praise expired
         else pbind now_tick (\<lambda>m.
         if sa_expires_mono a \<le> mono m then praise expired
         else case sa_identity a of
                SI_Native p \<Rightarrow> pmap_err SA_Native (ba_check p)
              | SI_Local _ \<Rightarrow> pret ()))))"

definition auth_new ::
  "StorageIdentity \<Rightarrow> nat \<Rightarrow> ('x, StorageAdmissionError, StorageAuthentication) prog" where
  "auth_new identity dl =
     pbind (case identity of
        SI_Native p \<Rightarrow> pseq (pmap_err SA_Native (ba_check p)) (pret identity)
      | SI_Local p \<Rightarrow> pbind (pmap_err (\<lambda>e. SA_Local (LV_Control e)) now_micros) (\<lambda>now.
          pbind (pmap_err SA_Local (local_finish p now)) (\<lambda>p'. pret (SI_Local p'))))
     (\<lambda>identity'.
       let (expires_at, expires_mono) = (case identity' of
               SI_Native p \<Rightarrow> (ba_expires_at p, ba_expires_mono p)
             | SI_Local p \<Rightarrow> (vl_expires_utc p, vl_expires_mono p));
           auth = \<lparr>sa_identity = identity', sa_end = dl, sa_expires_at = expires_at,
                   sa_expires_mono = expires_mono\<rparr>
       in pseq (auth_check auth) (pret auth))"

definition auth_subject :: "StorageAuthentication \<Rightarrow> string" where
  "auth_subject a = (let (issuer, subject) = identity_issuer_subject (sa_identity a)
     in issuer @ ''|'' @ subject)"

record AuthorizedStorageGrant =
  gr_auth :: StorageAuthentication
  gr_scope :: StorageScope
  gr_route :: string
  gr_revision :: int
  gr_access :: "string list list"

definition grant_prefixes :: "AuthorizedStorageGrant \<Rightarrow> StorageOperation \<Rightarrow> string list" where
  "grant_prefixes g op = gr_access g ! op_index op"

definition grant_canonical_subject :: "AuthorizedStorageGrant \<Rightarrow> string" where
  "grant_canonical_subject g = auth_subject (gr_auth g)"

definition grant_request_deadline :: "AuthorizedStorageGrant \<Rightarrow> nat" where
  "grant_request_deadline g = sa_end (gr_auth g)"

definition grant_check :: "AuthorizedStorageGrant \<Rightarrow> ('x, StorageAdmissionError, unit) prog" where
  "grant_check g = auth_check (gr_auth g)"

subsection \<open>Safe paths\<close>

text \<open>\<^verbatim>\<open>storage_policy.rs: safe_segment, safe_path\<close>, used for the prefixes of a grant.\<close>

definition safe_segment :: "string \<Rightarrow> bool" where
  "safe_segment s \<longleftrightarrow> s \<noteq> [] \<and> length s \<le> 128 \<and> is_ascii_alphanumeric (hd s)
     \<and> list_all (\<lambda>b. is_ascii_alphanumeric b \<or> b \<in> set ''._-'') s \<and> s \<noteq> ''.'' \<and> s \<noteq> ''..''"

definition safe_path :: "string \<Rightarrow> bool" where
  "safe_path s \<longleftrightarrow> s \<noteq> [] \<and> list_all safe_segment (split_on (CHR ''/'') s)"

text \<open>\<^verbatim>\<open>p\<close> is \<^verbatim>\<open>root\<close> or lies below it, at a segment boundary.\<close>

definition under :: "string \<Rightarrow> string \<Rightarrow> bool" where
  "under root p \<longleftrightarrow> p = root \<or> starts_with p (root @ ''/'')"

definition scope_wf :: "ulid_lib \<Rightarrow> StorageScope \<Rightarrow> bool" where
  "scope_wf U scope = (case scope of
       Scope_Project project m \<Rightarrow> canonical_project_id U project
     | Scope_UserMemory installation \<Rightarrow> canonical_instance_id installation
     | Scope_GlobalHub \<Rightarrow> True)"

subsection \<open>Lemmas\<close>

lemma under_refl [simp]: "under root root"
  by (simp add: under_def)

lemma under_trans: "under a b \<Longrightarrow> under b c \<Longrightarrow> under a c"
  by (auto simp: under_def starts_with_iff)

lemma under_append: "under (a @ ''/'' @ b) (a @ ''/'' @ c) \<longleftrightarrow> under b c"
  by (simp add: under_def)

lemma scope_project_ok: "scope_project U project m = Inr s \<Longrightarrow> scope_wf U s"
  by (auto simp: scope_project_def scope_wf_def split: if_splits)

lemma scope_user_memory_ok: "scope_user_memory i = Inr s \<Longrightarrow> scope_wf U s"
  by (auto simp: scope_user_memory_def scope_wf_def canonical_instance_id_def split: if_splits)

lemma byte_of_less [simp]: "byte_of b < 256"
  by (simp add: byte_of_def)

lemma hex_digit_alnum: "n < 16 \<Longrightarrow> is_ascii_alphanumeric (hex_digit n)"
proof -
  have "\<forall>n\<in>set [0 ..< 16]. is_ascii_alphanumeric (hex_digit n)" by code_simp
  then show "n < 16 \<Longrightarrow> is_ascii_alphanumeric (hex_digit n)" by simp
qed

lemma hex_encode_alnum: "list_all is_ascii_alphanumeric (hex_encode bytes)"
proof -
  have "byte_of b div 16 < 16" for b
    using byte_of_less [of b] by (simp add: div_less_iff_less_mult)
  then show ?thesis
    by (auto simp: hex_encode_def list_all_iff intro!: hex_digit_alnum)
qed

lemma length_hex_encode [simp]: "length (hex_encode bytes) = 2 * length bytes"
  by (induction bytes) (auto simp: hex_encode_def)

lemma safe_segment_alnum:
  "s \<noteq> [] \<Longrightarrow> length s \<le> 128 \<Longrightarrow> list_all is_ascii_alphanumeric s \<Longrightarrow> safe_segment s"
proof -
  have "\<not> is_ascii_alphanumeric (CHR ''.'')" by code_simp
  then show "s \<noteq> [] \<Longrightarrow> length s \<le> 128 \<Longrightarrow> list_all is_ascii_alphanumeric s \<Longrightarrow> safe_segment s"
    by (cases s) (auto simp: safe_segment_def list_all_iff)
qed

lemma safe_path_join:
  assumes "ps \<noteq> []" "list_all safe_segment ps"
  shows "safe_path (join_with (CHR ''/'') ps)"
proof -
  have "CHR ''/'' \<notin> set p" if "p \<in> set ps" for p
  proof -
    have "\<not> (is_ascii_alphanumeric (CHR ''/'') \<or> CHR ''/'' \<in> set ''._-'')" by code_simp
    then show ?thesis using that assms(2) by (auto simp: list_all_iff safe_segment_def)
  qed
  then have "split_on (CHR ''/'') (join_with (CHR ''/'') ps) = ps"
    using assms(1) by (intro split_join) auto
  moreover have "join_with (CHR ''/'') ps \<noteq> []"
    using assms by (cases ps rule: list.exhaust; cases "tl ps") (auto simp: safe_segment_def)
  ultimately show ?thesis using assms by (simp add: safe_path_def)
qed

text \<open>Being below a root is a prefix relation on path segments.\<close>

definition segments :: "string \<Rightarrow> string list" where
  "segments p = split_on (CHR ''/'') p"

lemma under_segments: "under root p \<longleftrightarrow> prefix (segments root) (segments p)"
proof
  assume "under root p"
  then consider "p = root" | t where "p = root @ CHR ''/'' # t"
    by (auto simp: under_def starts_with_iff)
  then show "prefix (segments root) (segments p)"
    by cases (auto simp: segments_def)
next
  assume "prefix (segments root) (segments p)"
  then obtain rest where r: "segments p = segments root @ rest" by (auto simp: prefix_def)
  have "p = join_with (CHR ''/'') (segments p)" by (simp add: segments_def)
  then show "under root p"
  proof (cases rest)
    case Nil
    with r have "join_with (CHR ''/'') (segments p) = join_with (CHR ''/'') (segments root)" by simp
    then show ?thesis by (simp add: segments_def)
  next
    case (Cons x xs)
    with r have "join_with (CHR ''/'') (segments p)
        = join_with (CHR ''/'') (segments root) @ CHR ''/'' # join_with (CHR ''/'') rest"
      by (simp add: join_with_append segments_def)
    then show ?thesis by (simp add: segments_def under_def starts_with_iff)
  qed
qed

lemma under_common: "under r k \<Longrightarrow> under r' k \<Longrightarrow>
    prefix (segments r) (segments r') \<or> prefix (segments r') (segments r)"
  using prefix_same_cases by (auto simp: under_segments)

lemma segment_free:
  assumes "list_all id_char s \<or> list_all is_ascii_alphanumeric s"
  shows "CHR ''/'' \<notin> set s"
proof -
  have "\<not> id_char (CHR ''/'')" "\<not> is_ascii_alphanumeric (CHR ''/'')" by code_simp+
  then show ?thesis using assms by (auto simp: list_all_iff)
qed

lemma project_segment:
  assumes "ulid_text U" "canonical_project_id U p"
  shows "CHR ''/'' \<notin> set p" "safe_segment p"
proof -
  have "length p = 26" "list_all is_ascii_alphanumeric p"
    using canonical_project_id_chars assms by blast+
  moreover from this have "p \<noteq> []" by auto
  ultimately show "CHR ''/'' \<notin> set p" "safe_segment p"
    using safe_segment_alnum segment_free by auto
qed

lemma installation_segment:
  assumes "canonical_instance_id i"
  shows "CHR ''/'' \<notin> set i" "safe_segment i"
proof -
  have "\<not> is_ascii_alphanumeric (CHR ''.'')" by code_simp
  then show "safe_segment i"
    using assms by (cases i) (auto simp: canonical_instance_id_def safe_segment_def id_char_def list_all_iff)
  show "CHR ''/'' \<notin> set i"
    using assms segment_free by (simp add: canonical_instance_id_def)
qed

lemma namespace_segment:
  assumes "\<And>x. length (sha256 x) = 32"
  shows "CHR ''/'' \<notin> set (user_namespace sha256 i s)" "safe_segment (user_namespace sha256 i s)"
proof -
  have "length (user_namespace sha256 i s) = 64" "list_all is_ascii_alphanumeric (user_namespace sha256 i s)"
    by (simp_all add: user_namespace_def hex_encode_alnum assms)
  moreover from this have "user_namespace sha256 i s \<noteq> []" by auto
  ultimately show "CHR ''/'' \<notin> set (user_namespace sha256 i s)" "safe_segment (user_namespace sha256 i s)"
    using safe_segment_alnum segment_free by auto
qed

text \<open>The roots of a scope, segment by segment.\<close>

fun root_segments :: "(string \<Rightarrow> string) \<Rightarrow> StorageScope \<Rightarrow> StorageIdentity \<Rightarrow> string list list" where
  "root_segments sha256 Scope_GlobalHub identity =
     [[''v1'', ''hub'', ''global'', ''registry''], [''v1'', ''hub'', ''global'', ''rules'']]"
| "root_segments sha256 (Scope_Project project m) identity =
     (if m = Mod_Hub then
        [[''v1'', ''projects'', project, ''registry''], [''v1'', ''projects'', project, ''artifacts''],
         [''v1'', ''projects'', project, ''hub'', ''metadata''],
         [''v1'', ''projects'', project, ''hub'', ''events'']]
      else [[''v1'', ''projects'', project, ''corpora'', module_str m]])"
| "root_segments sha256 (Scope_UserMemory installation) identity =
     (let (issuer, subject) = identity_issuer_subject identity in
      [[''v1'', ''installations'', installation, ''users'', user_namespace sha256 issuer subject,
        ''corpora'', ''memory'']])"

lemma roots_join: "roots sha256 scope identity = map (join_with (CHR ''/'')) (root_segments sha256 scope identity)"
  by (cases scope) (auto split: prod.splits)

lemma root_segments_safe:
  assumes "ulid_text U" "scope_wf U scope" "\<And>x. length (sha256 x) = 32"
  shows "list_all (\<lambda>ps. ps \<noteq> [] \<and> list_all safe_segment ps) (root_segments sha256 scope identity)"
proof -
  have "list_all safe_segment [''v1'', ''hub'', ''global'', ''registry'', ''rules'', ''projects'',
      ''artifacts'', ''metadata'', ''events'', ''corpora'', ''installations'', ''users'', ''memory'']"
    by code_simp
  moreover have "list_all (\<lambda>m. safe_segment (module_str m)) [Mod_Hub, Mod_Task, Mod_Memory, Mod_Knowledge, Mod_Ast]"
    by code_simp
  then have "safe_segment (module_str m)" for m by (cases m) auto
  ultimately show ?thesis
    using assms project_segment installation_segment namespace_segment [OF assms(3)]
    by (cases scope) (auto simp: scope_wf_def split: prod.splits)
qed

lemma roots_safe:
  assumes "ulid_text U" "scope_wf U scope" "\<And>x. length (sha256 x) = 32"
    and "r \<in> set (roots sha256 scope identity)"
  shows "safe_path r"
  using root_segments_safe [OF assms(1-3), where identity = identity] assms(4) safe_path_join
  by (auto simp: roots_join list_all_iff)

lemma segments_join:
  assumes "ps \<noteq> []" "list_all safe_segment ps"
  shows "segments (join_with (CHR ''/'') ps) = ps"
proof -
  have "\<not> (is_ascii_alphanumeric (CHR ''/'') \<or> CHR ''/'' \<in> set ''._-'')" by code_simp
  then have "\<forall>p\<in>set ps. CHR ''/'' \<notin> set p"
    using assms(2) by (auto simp: list_all_iff safe_segment_def)
  then show ?thesis unfolding segments_def by (intro split_join assms(1))
qed

lemma hex_digit_inj: "m < 16 \<Longrightarrow> n < 16 \<Longrightarrow> hex_digit m = hex_digit n \<Longrightarrow> m = n"
proof -
  have "list_all (\<lambda>m. list_all (\<lambda>n. hex_digit m = hex_digit n \<longrightarrow> m = n) [0..<16]) [0..<16]" by code_simp
  then show "m < 16 \<Longrightarrow> n < 16 \<Longrightarrow> hex_digit m = hex_digit n \<Longrightarrow> m = n" by (simp add: list_all_iff)
qed

lemma byte_of_inj: "byte_of a = byte_of b \<Longrightarrow> a = b"
  by (simp add: byte_of_def)

lemma hex_encode_inj: "hex_encode a = hex_encode b \<Longrightarrow> a = b"
proof (induction a arbitrary: b)
  case Nil
  then show ?case by (cases b) (auto simp: hex_encode_def)
next
  case (Cons x xs)
  then obtain y ys where b: "b = y # ys" by (cases b) (auto simp: hex_encode_def)
  have small: "byte_of c div 16 < 16" for c
    using byte_of_less [of c] by (simp add: div_less_iff_less_mult)
  have "hex_digit (byte_of x div 16) = hex_digit (byte_of y div 16)"
    "hex_digit (byte_of x mod 16) = hex_digit (byte_of y mod 16)" "hex_encode xs = hex_encode ys"
    using Cons.prems b by (auto simp: hex_encode_def)
  then have "byte_of x div 16 = byte_of y div 16" "byte_of x mod 16 = byte_of y mod 16" "xs = ys"
    using small hex_digit_inj Cons.IH by auto
  then have "byte_of x = byte_of y" by (metis div_mult_mod_eq)
  with b \<open>xs = ys\<close> show ?case by (simp add: byte_of_inj)
qed

lemma module_str_inj: "module_str m = module_str m' \<longleftrightarrow> m = m'"
  by (cases m; cases m') auto

lemma root_segments_disjoint:
  assumes "s \<noteq> s'" "r \<in> set (root_segments sha256 s i)" "r' \<in> set (root_segments sha256 s' i)"
  shows "\<not> prefix r r'"
  using assms by (cases s; cases s') (auto simp: module_str_inj split: if_splits prod.splits)

subsection \<open>Properties\<close>

text \<open>C13: scopes are isolated: for one caller, no object key lies below the roots of two different
  well-formed scopes, so a grant for one project or module never reaches another.\<close>

theorem scopes_isolated:
  assumes "ulid_text U" "\<forall>x. length (sha256 x) = 32" "scope_wf U s" "scope_wf U s'" "s \<noteq> s'"
    and "r \<in> set (roots sha256 s identity)" "r' \<in> set (roots sha256 s' identity)"
  shows "\<not> (under r k \<and> under r' k)"
proof
  assume k: "under r k \<and> under r' k"
  obtain ps where ps: "ps \<in> set (root_segments sha256 s identity)" "r = join_with (CHR ''/'') ps"
    using assms(6) by (auto simp: roots_join)
  obtain ps' where ps': "ps' \<in> set (root_segments sha256 s' identity)" "r' = join_with (CHR ''/'') ps'"
    using assms(7) by (auto simp: roots_join)
  have "segments r = ps" "segments r' = ps'"
    using root_segments_safe [OF assms(1), of _ sha256 identity] assms(2-4) ps ps' segments_join
    by (simp_all add: list_all_iff)
  with k under_common have "prefix ps ps' \<or> prefix ps' ps" by blast
  then show False
    using root_segments_disjoint assms(5) ps(1) ps'(1) by metis
qed

text \<open>User memories are isolated: if SHA-256 does not collide on the two namespace inputs, two
  callers share a memory root only if they have the same issuer and subject.\<close>

theorem user_memory_isolated:
  assumes "\<forall>x. length (sha256 x) = 32"
    and "identity_issuer_subject a = (ia, sa)" "identity_issuer_subject b = (ib, sb)"
    and "sha256 (namespace_input ia sa) = sha256 (namespace_input ib sb)
           \<longrightarrow> namespace_input ia sa = namespace_input ib sb"
    and "length ia < 2 ^ 64" "length sa < 2 ^ 64" "length ib < 2 ^ 64" "length sb < 2 ^ 64"
    and "canonical_instance_id i" "canonical_instance_id j"
    and "r \<in> set (roots sha256 (Scope_UserMemory i) a)" "r' \<in> set (roots sha256 (Scope_UserMemory j) b)"
    and "under r k" "under r' k"
  shows "i = j \<and> ia = ib \<and> sa = sb"
proof -
  have safe: "list_all safe_segment [''v1'', ''installations'', x, ''users'', user_namespace sha256 y z, ''corpora'', ''memory'']"
    if "canonical_instance_id x" for x y z
  proof -
    have "list_all safe_segment [''v1'', ''installations'', ''users'', ''corpora'', ''memory'']" by code_simp
    then show ?thesis using that installation_segment namespace_segment [of sha256] assms(1) by simp
  qed
  have "r = join_with (CHR ''/'') [''v1'', ''installations'', i, ''users'', user_namespace sha256 ia sa, ''corpora'', ''memory'']"
    "r' = join_with (CHR ''/'') [''v1'', ''installations'', j, ''users'', user_namespace sha256 ib sb, ''corpora'', ''memory'']"
    using assms(2,3,11,12) by auto
  then have "segments r = [''v1'', ''installations'', i, ''users'', user_namespace sha256 ia sa, ''corpora'', ''memory'']"
    "segments r' = [''v1'', ''installations'', j, ''users'', user_namespace sha256 ib sb, ''corpora'', ''memory'']"
    using segments_join safe assms(9,10) by blast+
  with under_common [OF assms(13,14)] have "i = j" and ns: "user_namespace sha256 ia sa = user_namespace sha256 ib sb"
    by auto
  have "namespace_input ia sa = namespace_input ib sb"
    using hex_encode_inj [OF ns [unfolded user_namespace_def]] assms(4) by blast
  then have "[ia, sa] = [ib, sb]"
    by (intro be8.frames_inj) (use assms in \<open>auto simp: namespace_input_def\<close>)
  with \<open>i = j\<close> show ?thesis by simp
qed

text \<open>An admitted caller is current: when a grant's check passes, the readings it took were
  before the request's deadline and before both expiries of the caller's proof.\<close>

theorem auth_check_current:
  assumes "fst (auth_check a w) = Inr ()"
  shows "mono (env w 0) < sa_end a \<and> utc (env w 1) < int (sa_expires_at a)
     \<and> mono (env w 2) < sa_expires_mono a
     \<and> (\<forall>p. sa_identity a = SI_Native p \<longrightarrow> mono (env w 3) < ba_original p
           \<and> utc (env w 4) < int (ba_expires_at p) \<and> mono (env w 5) < ba_expires_mono p)"
proof -
  obtain w' where "auth_check a w = (Inr (), w')"
    using assms by (cases "auth_check a w") auto
  then show ?thesis
    by (auto simp: auth_check_def Let_def prog_ok numeral_eq_Suc split: if_splits StorageIdentity.splits)
qed

subsection \<open>Witnesses\<close>

definition demo_sha :: "string \<Rightarrow> string" where
  "demo_sha s = take 32 (rev s @ replicate 32 (CHR ''a''))"

definition demo_access :: VerifiedBrokerAccess where
  "demo_access = \<lparr>ba_issuer = ''op'', ba_api_audience = ''api'', ba_subject = ''s'', ba_client_id = ''c'',
      ba_jti = ''j'', ba_audience = AudOne ''api'', ba_username = Some ''ann'',
      ba_organization = Some ''org'', ba_teams = [], ba_scopes = [''a'', ''b''],
      ba_expires_at = 9, ba_expires_mono = 9, ba_original = 10\<rparr>"

definition demo_auth :: StorageAuthentication where
  "demo_auth = \<lparr>sa_identity = SI_Native demo_access, sa_end = 10, sa_expires_at = 9,
     sa_expires_mono = 9\<rparr>"

definition demo_early :: world where
  "demo_early = \<lparr>env = \<lambda>_. demo_tick\<lparr>utc := 2\<rparr>\<rparr>"

lemma length_demo_sha [simp]: "length (demo_sha x) = 32"
  by (simp add: demo_sha_def)

theorem scopes_isolated_witness:
  "\<forall>k. \<not> (under (''v1/projects/'' @ demo_project @ ''/corpora/task'') k
      \<and> under (''v1/projects/'' @ demo_project @ ''/corpora/ast'') k)"
  using scopes_isolated [OF demo_ulid_text, of demo_sha "Scope_Project demo_project Mod_Task"
      "Scope_Project demo_project Mod_Ast" _ "SI_Native demo_access"] demo_project_canonical
  by (simp add: scope_wf_def)

end
