(* ===== verification/Storage_Policy.thy ===== *)
theory Storage_Policy
  imports Storage_Scope
begin

text \<open>
  Storage policies, \<^verbatim>\<open>broker-control/src/storage_policy.rs\<close>: the compilation of the S3 part of a grant
  snapshot and its evaluation for a caller and a scope, which yields one route and, per operation,
  the key prefixes the caller may use.  The lemmas characterise the decision exactly: a prefix is
  granted for an operation if and only if some stored rule contributes it, every contributing rule
  names the same route, and every prefix is a safe path at or below a root of the scope.
\<close>

record StorageRule =
  sr_route :: string
  sr_operations :: "matcher list"
  sr_templates :: "string list"

record StoragePolicy =
  sp_hub :: "HubRule list"
  sp_rules :: "StorageRule list"

record StorageDecision =
  sd_route :: string
  sd_access :: "string list list"

definition sa_check_deadline :: "nat \<Rightarrow> ('x, StorageAdmissionError, unit) prog" where
  "sa_check_deadline dl = pmap_err SA_from_policy (check_deadline dl)"

definition PLACEHOLDERS :: "string list" where
  "PLACEHOLDERS = [''{project}'', ''{username}'', ''{organization}'', ''{subject}'']"

definition probe :: "string \<Rightarrow> string" where
  "probe template = fold (\<lambda>name t. replace_all t name ''validation'') PLACEHOLDERS template"

definition compile_template :: "nat \<Rightarrow> string \<Rightarrow> ('x, StorageAdmissionError, string) prog" where
  "compile_template dl raw =
     pseq (sa_check_deadline dl)
       (let template = trim_matches (CHR ''/'') (trim raw) in
        if \<not> safe_path (probe template) then praise SA_InvalidPolicy else pret template)"

definition compile_storage_rule ::
  "glob_lib \<Rightarrow> nat \<Rightarrow> ResourceGrantRule \<Rightarrow> ('x, StorageAdmissionError, StorageRule) prog" where
  "compile_storage_rule glob dl r =
     pseq (sa_check_deadline dl)
       (pbind (pmap_err SA_from_policy (ptraverse (\<lambda>s. pattern glob s dl) (rg_s3_operations r)))
         (\<lambda>operations. pbind (ptraverse (compile_template dl) (rg_s3_prefixes r)) (\<lambda>templates.
           pret \<lparr>sr_route = trim (rg_s3_route r), sr_operations = operations,
                 sr_templates = templates\<rparr>)))"

definition storage_compile ::
  "ulid_lib \<Rightarrow> glob_lib \<Rightarrow> ResourceGrantSnapshot \<Rightarrow> nat
     \<Rightarrow> ('x, StorageAdmissionError, StoragePolicy) prog" where
  "storage_compile U glob snapshot dl =
     pbind (pmap_err SA_from_policy (hub_compile U glob snapshot dl)) (\<lambda>hub.
     pbind (ptraverse (compile_storage_rule glob dl) (sn_rules snapshot)) (\<lambda>rules.
     pseq (sa_check_deadline dl) (pret \<lparr>sp_hub = hub, sp_rules = rules\<rparr>)))"

subsection \<open>Rendering and intersection\<close>

definition identity_fields :: "StorageIdentity \<Rightarrow> string option \<times> string option \<times> string" where
  "identity_fields identity = (case identity of
       SI_Native p \<Rightarrow> (ba_username p, ba_organization p, ba_subject p)
     | SI_Local p \<Rightarrow> (Some (lu_username (vl_user p)), Some (lu_organization (vl_user p)),
                      lu_subject (vl_user p)))"

fun render_fields :: "(string \<times> string option) list \<Rightarrow> string \<Rightarrow> StorageAdmissionError + string" where
  "render_fields [] rendered = Inr rendered"
| "render_fields ((name, value) # rest) rendered =
     (if contains_sub rendered name then
        (case value of
           Some v \<Rightarrow> if safe_segment v then render_fields rest (replace_all rendered name v)
                     else Inl SA_InvalidPolicy
         | None \<Rightarrow> Inl SA_InvalidPolicy)
      else render_fields rest rendered)"

definition render ::
  "string \<Rightarrow> StorageIdentity \<Rightarrow> string option \<Rightarrow> StorageAdmissionError + string option" where
  "render template identity project =
     (if project = None \<and> contains_sub template ''{project}'' then Inr None
      else let (username, organization, subject) = identity_fields identity in
        rbind (render_fields [(''{project}'', project), (''{username}'', username),
                 (''{organization}'', organization), (''{subject}'', Some subject)] template)
          (\<lambda>rendered. if \<not> safe_path rendered then Inl SA_InvalidPolicy else Inr (Some rendered)))"

definition below :: "string \<Rightarrow> string \<Rightarrow> bool" where
  "below s p = (case strip_prefix s p of None \<Rightarrow> False | Some t \<Rightarrow> starts_with t ''/'')"

definition intersect :: "string \<Rightarrow> string \<Rightarrow> string option" where
  "intersect candidate root =
     (if candidate = root \<or> below candidate root then Some candidate
      else if below root candidate then Some root
      else None)"

subsection \<open>Evaluation\<close>

text \<open>Which operations a matching rule allows, and the prefixes it contributes.\<close>

definition rule_allowed :: "StorageRule \<Rightarrow> bool list \<Rightarrow> bool list" where
  "rule_allowed rule caps = map (\<lambda>op. caps ! op_index op
      \<and> (sr_operations rule = [] \<or> list_ex (\<lambda>p. p (op_name op)) (sr_operations rule))) ALL_OPERATIONS"

definition add_intersections :: "string list \<Rightarrow> string \<Rightarrow> string list \<Rightarrow> string list" where
  "add_intersections rts candidate pfx =
     fold (\<lambda>root ps. case intersect candidate root of None \<Rightarrow> ps | Some p \<Rightarrow> btree_insert p ps) rts pfx"

definition rule_prefixes ::
  "StorageRule \<Rightarrow> string list \<Rightarrow> StorageIdentity \<Rightarrow> string option \<Rightarrow> nat
     \<Rightarrow> ('x, StorageAdmissionError, string list) prog" where
  "rule_prefixes rule rts identity project dl =
     pfold (\<lambda>template pfx. pseq (sa_check_deadline dl)
         (pbind (plift (render template identity project)) (\<lambda>rendered.
            case rendered of None \<Rightarrow> pret pfx
            | Some candidate \<Rightarrow> pret (add_intersections rts candidate pfx))))
       (sr_templates rule)
       (if sr_templates rule = [] then btree_extend rts [] else [])"

definition selected_route :: "StorageRule \<Rightarrow> string \<Rightarrow> string" where
  "selected_route rule default_route = (if sr_route rule = [] then default_route else sr_route rule)"

definition extend_access :: "bool list \<Rightarrow> string list \<Rightarrow> string list list \<Rightarrow> string list list" where
  "extend_access allowed pfx access =
     map (\<lambda>op. if allowed ! op_index op then btree_extend pfx (access ! op_index op)
               else access ! op_index op) ALL_OPERATIONS"

definition evaluate_rule ::
  "StoragePolicy \<Rightarrow> string list \<Rightarrow> StorageIdentity \<Rightarrow> string option \<Rightarrow> string \<Rightarrow> nat
     \<Rightarrow> nat \<times> bool list \<times> bool \<Rightarrow> string option \<times> string list list
     \<Rightarrow> ('x, StorageAdmissionError, string option \<times> string list list) prog" where
  "evaluate_rule policy rts identity project default_route dl m state =
     (case m of (index, caps, hub) \<Rightarrow> case state of (route, access) \<Rightarrow>
      pseq (sa_check_deadline dl)
        (let rule = sp_rules policy ! index; allowed = rule_allowed rule caps in
         if \<not> list_ex (\<lambda>x. x) allowed then pret state
         else pbind (rule_prefixes rule rts identity project dl) (\<lambda>pfx.
           if pfx = [] then pret state
           else let selected = selected_route rule default_route in
             if (case route of None \<Rightarrow> False | Some prior \<Rightarrow> prior \<noteq> selected)
             then praise SA_ConflictingRoutes
             else pret (Some selected, extend_access allowed pfx access))))"

definition evaluate ::
  "(string \<Rightarrow> string) \<Rightarrow> StoragePolicy \<Rightarrow> StorageIdentity \<Rightarrow> StorageScope \<Rightarrow> string \<Rightarrow> nat
     \<Rightarrow> ('x, StorageAdmissionError, StorageDecision option) prog" where
  "evaluate sha256 policy identity scope default_route dl =
     pbind (pmap_err SA_from_policy (storage_rules (sp_hub policy) identity (scope_project_id scope) dl))
       (\<lambda>matches.
     if is_global_hub scope \<and> \<not> list_ex (\<lambda>(_, _, hub). hub) matches
     then pseq (sa_check_deadline dl) (pret None)
     else pbind (pfold (evaluate_rule policy (roots sha256 scope identity) identity
                    (scope_project_id scope) default_route dl) matches (None, [[], [], [], []]))
       (\<lambda>(route, access).
        pseq (sa_check_deadline dl)
          (pret (map_option (\<lambda>route. \<lparr>sd_route = route, sd_access = access\<rparr>) route))))"

subsection \<open>Pure results\<close>

definition template_spec :: "string \<Rightarrow> StorageAdmissionError + string" where
  "template_spec raw = (let template = trim_matches (CHR ''/'') (trim raw) in
     if \<not> safe_path (probe template) then Inl SA_InvalidPolicy else Inr template)"

definition lift_policy :: "ResourcePolicyError + 'a \<Rightarrow> StorageAdmissionError + 'a" where
  "lift_policy r = (case r of Inl e \<Rightarrow> Inl (SA_from_policy e) | Inr x \<Rightarrow> Inr x)"

definition storage_rule_spec :: "glob_lib \<Rightarrow> ResourceGrantRule \<Rightarrow> StorageAdmissionError + StorageRule" where
  "storage_rule_spec glob r =
     rbind (lift_policy (rmap (pattern_spec glob) (rg_s3_operations r))) (\<lambda>operations.
     rbind (rmap template_spec (rg_s3_prefixes r)) (\<lambda>templates.
     Inr \<lparr>sr_route = trim (rg_s3_route r), sr_operations = operations, sr_templates = templates\<rparr>))"

definition prefixes_step ::
  "string list \<Rightarrow> StorageIdentity \<Rightarrow> string option \<Rightarrow> string \<Rightarrow> string list
     \<Rightarrow> StorageAdmissionError + string list" where
  "prefixes_step rts identity project template pfx =
     rbind (render template identity project) (\<lambda>rendered.
       Inr (case rendered of None \<Rightarrow> pfx | Some candidate \<Rightarrow> add_intersections rts candidate pfx))"

definition prefixes_spec ::
  "StorageRule \<Rightarrow> string list \<Rightarrow> StorageIdentity \<Rightarrow> string option \<Rightarrow> StorageAdmissionError + string list" where
  "prefixes_spec rule rts identity project =
     foldl (\<lambda>r t. rbind r (prefixes_step rts identity project t))
       (Inr (if sr_templates rule = [] then btree_extend rts [] else [])) (sr_templates rule)"

definition evaluate_step ::
  "StoragePolicy \<Rightarrow> string list \<Rightarrow> StorageIdentity \<Rightarrow> string option \<Rightarrow> string
     \<Rightarrow> nat \<times> bool list \<times> bool \<Rightarrow> string option \<times> string list list
     \<Rightarrow> StorageAdmissionError + (string option \<times> string list list)" where
  "evaluate_step policy rts identity project default_route m state =
     (case m of (index, caps, hub) \<Rightarrow> case state of (route, access) \<Rightarrow>
      let rule = sp_rules policy ! index; allowed = rule_allowed rule caps in
      if \<not> list_ex (\<lambda>x. x) allowed then Inr state
      else rbind (prefixes_spec rule rts identity project) (\<lambda>pfx.
        if pfx = [] then Inr state
        else let selected = selected_route rule default_route in
          if (case route of None \<Rightarrow> False | Some prior \<Rightarrow> prior \<noteq> selected)
          then Inl SA_ConflictingRoutes
          else Inr (Some selected, extend_access allowed pfx access)))"

definition storage_matches ::
  "StoragePolicy \<Rightarrow> StorageIdentity \<Rightarrow> StorageScope \<Rightarrow> (nat \<times> bool list \<times> bool) list" where
  "storage_matches policy identity scope =
     map (\<lambda>(index, rule). (index, storage_masks (hr_capabilities rule),
            has_capability (hr_capabilities rule) ''hub''))
       (filter (\<lambda>(index, rule). storage_rule_applies rule (principal_storage identity) (scope_project_id scope))
         (enumerate 0 (sp_hub policy)))"

definition evaluate_spec ::
  "(string \<Rightarrow> string) \<Rightarrow> StoragePolicy \<Rightarrow> StorageIdentity \<Rightarrow> StorageScope \<Rightarrow> string
     \<Rightarrow> StorageAdmissionError + StorageDecision option" where
  "evaluate_spec sha256 policy identity scope default_route =
     (let matches = storage_matches policy identity scope in
      if is_global_hub scope \<and> \<not> list_ex (\<lambda>(_, _, hub). hub) matches then Inr None
      else rbind (foldl (\<lambda>r m. rbind r (evaluate_step policy (roots sha256 scope identity) identity
                    (scope_project_id scope) default_route m)) (Inr (None, [[], [], [], []])) matches)
        (\<lambda>(route, access). Inr (map_option (\<lambda>route. \<lparr>sd_route = route, sd_access = access\<rparr>) route)))"

text \<open>A match contributes a prefix to an operation.\<close>

definition contributes ::
  "StoragePolicy \<Rightarrow> string list \<Rightarrow> StorageIdentity \<Rightarrow> string option
     \<Rightarrow> nat \<times> bool list \<times> bool \<Rightarrow> StorageOperation \<Rightarrow> string \<Rightarrow> bool" where
  "contributes policy rts identity project m op p \<longleftrightarrow>
     (case m of (index, caps, hub) \<Rightarrow>
        rule_allowed (sp_rules policy ! index) caps ! op_index op
        \<and> (case prefixes_spec (sp_rules policy ! index) rts identity project of
             Inl _ \<Rightarrow> False | Inr ps \<Rightarrow> p \<in> set ps))"

subsection \<open>The programs refine their pure results\<close>

lemma timed_sa_check_deadline [timed_intros]: "timed dl SA_Deadline (sa_check_deadline dl) (Inr ())"
  unfolding sa_check_deadline_def
  using timed_pmap_err [OF timed_check_deadline, of SA_from_policy SA_Deadline dl] by simp

lemma timed_lift_policy [timed_intros]:
  assumes "timed dl RP_Deadline p r"
  shows "timed dl SA_Deadline (pmap_err SA_from_policy p) (lift_policy r)"
  unfolding lift_policy_def using timed_pmap_err [OF assms, of SA_from_policy SA_Deadline] by simp

lemma timed_compile_template [timed_intros]:
  "timed dl SA_Deadline (compile_template dl raw) (template_spec raw)"
  unfolding compile_template_def template_spec_def Let_def by (intro timed_intros)

lemma timed_compile_storage_rule [timed_intros]:
  "timed dl SA_Deadline (compile_storage_rule glob dl r) (storage_rule_spec glob r)"
  unfolding compile_storage_rule_def storage_rule_spec_def by (intro timed_intros)

lemma timed_storage_compile:
  "timed dl SA_Deadline (storage_compile U glob snapshot dl)
     (rbind (lift_policy (rmap (hub_rule_spec U glob) (sn_rules snapshot))) (\<lambda>hub.
      rbind (rmap (storage_rule_spec glob) (sn_rules snapshot)) (\<lambda>rules.
      Inr \<lparr>sp_hub = hub, sp_rules = rules\<rparr>)))"
  unfolding storage_compile_def by (intro timed_intros timed_hub_compile)

lemma timed_rule_prefixes [timed_intros]:
  "timed dl SA_Deadline (rule_prefixes rule rts identity project dl) (prefixes_spec rule rts identity project)"
  unfolding rule_prefixes_def prefixes_spec_def prefixes_step_def
  by (intro timed_intros) (auto split: option.split intro: timed_intros)

lemma timed_evaluate_rule [timed_intros]:
  "timed dl SA_Deadline (evaluate_rule policy rts identity project default_route dl m state)
     (evaluate_step policy rts identity project default_route m state)"
  unfolding evaluate_rule_def evaluate_step_def Let_def
  by (cases m; cases state) (auto intro!: timed_intros)

lemma timed_evaluate:
  "timed dl SA_Deadline (evaluate sha256 policy identity scope default_route dl)
     (evaluate_spec sha256 policy identity scope default_route)"
proof -
  have "timed dl SA_Deadline (evaluate sha256 policy identity scope default_route dl)
     (rbind (lift_policy (Inr (storage_matches policy identity scope))) (\<lambda>matches.
      if is_global_hub scope \<and> \<not> list_ex (\<lambda>(_, _, hub). hub) matches then Inr None
      else rbind (foldl (\<lambda>r m. rbind r (evaluate_step policy (roots sha256 scope identity) identity
                    (scope_project_id scope) default_route m)) (Inr (None, [[], [], [], []])) matches)
        (\<lambda>(route, access). Inr (map_option (\<lambda>route. \<lparr>sd_route = route, sd_access = access\<rparr>) route))))"
    unfolding evaluate_def storage_matches_def
    by (intro timed_intros timed_storage_rules) (auto intro!: timed_intros)
  then show ?thesis
    by (simp add: evaluate_spec_def lift_policy_def Let_def)
qed

subsection \<open>Intersections and rendered prefixes\<close>

lemma below_iff: "below s p \<longleftrightarrow> starts_with s (p @ ''/'')"
  by (auto simp: below_def starts_with_iff split: option.splits)

lemma intersect_Some:
  "intersect candidate root = Some p \<Longrightarrow> under root p \<and> under candidate p \<and> (p = candidate \<or> p = root)"
  by (auto simp: intersect_def under_def below_iff split: if_splits)

lemma set_add_intersections:
  "set (add_intersections rts c pfx) = set pfx \<union> {p. \<exists>root\<in>set rts. intersect c root = Some p}"
proof (induction rts arbitrary: pfx)
  case (Cons r rts)
  show ?case
    using Cons.IH [of "case intersect c r of None \<Rightarrow> pfx | Some p \<Rightarrow> btree_insert p pfx"]
    by (auto simp: add_intersections_def split: option.splits)
qed (simp add: add_intersections_def)

lemma add_intersections_wf: "btree_wf pfx \<Longrightarrow> btree_wf (add_intersections rts c pfx)"
  by (induction rts arbitrary: pfx) (auto simp: add_intersections_def split: option.splits)

lemma render_safe: "render t identity project = Inr (Some c) \<Longrightarrow> safe_path c"
  by (auto simp: render_def split: if_splits prod.splits)

lemma foldl_rbind_Inl [simp]: "foldl (\<lambda>r x. rbind r (g x)) (Inl e) xs = Inl e"
  by (induction xs) auto

text \<open>An invariant of a fallible loop.\<close>

lemma foldl_rbind_invariant:
  assumes "foldl (\<lambda>r x. rbind r (g x)) (Inr s) xs = Inr t" "P [] s"
    and "\<And>ys x s s'. P ys s \<Longrightarrow> x \<in> set xs \<Longrightarrow> g x s = Inr s' \<Longrightarrow> P (ys @ [x]) s'"
  shows "P xs t"
proof -
  have "P (zs @ xs') t'" if "foldl (\<lambda>r x. rbind r (g x)) (Inr s) xs' = Inr t'" "P zs s"
    "set xs' \<subseteq> set xs" for zs xs' s t'
    using that
  proof (induction xs' arbitrary: s zs)
    case (Cons x xs')
    then obtain s' where s': "g x s = Inr s'" by (cases "g x s") auto
    with Cons.prems have "P (zs @ [x]) s'" by (intro assms(3)) auto
    with Cons.IH [of s' "zs @ [x]"] Cons.prems s' show ?case by simp
  qed simp
  from this [of s xs t "[]"] assms show ?thesis by simp
qed

lemma prefixes_spec_ok:
  assumes "prefixes_spec rule rts identity project = Inr ps"
  shows "btree_wf ps \<and> (\<forall>p\<in>set ps. \<exists>root\<in>set rts. under root p)
     \<and> (list_all safe_path rts \<longrightarrow> list_all safe_path ps)"
  using assms unfolding prefixes_spec_def
proof (rule foldl_rbind_invariant [where P = "\<lambda>_ ps. btree_wf ps \<and> (\<forall>p\<in>set ps. \<exists>root\<in>set rts. under root p)
     \<and> (list_all safe_path rts \<longrightarrow> list_all safe_path ps)"], goal_cases)
  case 1
  have "\<exists>root\<in>set rts. under root p" if "p \<in> set rts" for p
    using that under_refl by blast
  then show ?case by (auto simp: list_all_iff)
next
  case (2 ys t pfx pfx')
  then consider "pfx' = pfx" | c where "render t identity project = Inr (Some c)" "pfx' = add_intersections rts c pfx"
    by (auto simp: prefixes_step_def split: option.splits)
  then show ?case
  proof cases
    case (2 c)
    have "\<exists>root\<in>set rts. under root p" "p = c \<or> p \<in> set rts" if "intersect c r = Some p" "r \<in> set rts" for p r
      using that intersect_Some by blast+
    moreover have "safe_path c" using 2(1) by (rule render_safe)
    ultimately show ?thesis
      using 2(2) \<open>btree_wf pfx \<and> _\<close>
      by (auto simp: list_all_iff set_add_intersections add_intersections_wf) blast+
  qed (use 2 in simp)
qed

subsection \<open>The loop over the matching rules\<close>

lemma nth_operations [simp]: "map f ALL_OPERATIONS ! op_index op = f op"
  by (cases op) (simp_all add: ALL_OPERATIONS_def)

lemma list_ex_operations: "list_ex (\<lambda>x. x) (map f ALL_OPERATIONS) \<longleftrightarrow> (\<exists>op. f op)"
  by (auto simp: ALL_OPERATIONS_def) (metis StorageOperation.exhaust)

lemma rule_allowed_ex: "list_ex (\<lambda>x. x) (rule_allowed rule caps) \<longleftrightarrow> (\<exists>op. rule_allowed rule caps ! op_index op)"
  unfolding rule_allowed_def nth_operations list_ex_operations ..

definition evaluated ::
  "StoragePolicy \<Rightarrow> string list \<Rightarrow> StorageIdentity \<Rightarrow> string option \<Rightarrow> string
     \<Rightarrow> (nat \<times> bool list \<times> bool) list \<Rightarrow> string option \<times> string list list \<Rightarrow> bool" where
  "evaluated policy rts identity project default_route ms state \<longleftrightarrow>
     (\<forall>op. btree_wf (snd state ! op_index op))
     \<and> (\<forall>op. set (snd state ! op_index op) = {p. \<exists>m\<in>set ms. contributes policy rts identity project m op p})
     \<and> (fst state = None \<longrightarrow> (\<forall>m\<in>set ms. \<forall>op p. \<not> contributes policy rts identity project m op p))
     \<and> (\<forall>m\<in>set ms. (\<exists>op p. contributes policy rts identity project m op p) \<longrightarrow>
          fst state = Some (selected_route (sp_rules policy ! fst m) default_route))"

lemma evaluated_step:
  assumes "evaluated policy rts identity project default_route ms state"
    and "evaluate_step policy rts identity project default_route m state = Inr state'"
  shows "evaluated policy rts identity project default_route (ms @ [m]) state'"
proof -
  obtain index caps hub where m: "m = (index, caps, hub)" by (cases m)
  obtain route access where state: "state = (route, access)" by (cases state)
  let ?rule = "sp_rules policy ! index"
  let ?allowed = "rule_allowed ?rule caps"
  show ?thesis
  proof (cases "(\<exists>op. ?allowed ! op_index op) \<and> (\<exists>ps. prefixes_spec ?rule rts identity project = Inr ps \<and> ps \<noteq> [])")
    case True
    then obtain ps where ps: "prefixes_spec ?rule rts identity project = Inr ps" "ps \<noteq> []" by blast
    have c: "contributes policy rts identity project (index, caps, hub) op p
        \<longleftrightarrow> ?allowed ! op_index op \<and> p \<in> set ps" for op p
      by (simp add: contributes_def ps)
    have route: "route = None \<or> route = Some (selected_route ?rule default_route)"
      and state': "state' = (Some (selected_route ?rule default_route), extend_access ?allowed ps access)"
      using assms(2) True ps
      by (auto simp: evaluate_step_def m state Let_def rule_allowed_ex split: if_splits option.splits)
    have nth: "extend_access ?allowed ps access ! op_index op
        = (if ?allowed ! op_index op then btree_extend ps (access ! op_index op) else access ! op_index op)" for op
      by (simp add: extend_access_def)
    have old: "\<forall>op. btree_wf (access ! op_index op)"
      "\<forall>op. set (access ! op_index op) = {p. \<exists>m\<in>set ms. contributes policy rts identity project m op p}"
      "\<forall>m\<in>set ms. \<forall>op p. contributes policy rts identity project m op p \<longrightarrow>
          route = Some (selected_route (sp_rules policy ! fst m) default_route)"
      using assms(1) by (auto simp: evaluated_def state)
    show ?thesis
      unfolding evaluated_def state' fst_conv snd_conv nth m
    proof (intro conjI allI, goal_cases)
      case (2 op)
      then show ?case using old(2) by (auto simp: c)
    next
      case 4
      then show ?case using old(3) route by (auto simp: c)
    qed (use old(1) in auto)
  next
    case False
    then have none: "\<not> contributes policy rts identity project m op p" for op p
      by (auto simp: contributes_def m split: sum.splits)
    have "state' = state"
      using assms(2) False
      by (auto simp: evaluate_step_def m state Let_def rule_allowed_ex split: if_splits)
    with assms(1) none show ?thesis
      by (auto simp: evaluated_def)
  qed
qed

lemma evaluated_init: "evaluated policy rts identity project default_route [] (None, [[], [], [], []])"
proof -
  have "([[], [], [], []] :: string list list) ! op_index op = []" for op by (cases op) auto
  then show ?thesis by (simp add: evaluated_def)
qed

lemma evaluate_spec_evaluated:
  assumes "evaluate_spec sha256 policy identity scope default_route = Inr (Some d)"
  shows "evaluated policy (roots sha256 scope identity) identity (scope_project_id scope) default_route
     (storage_matches policy identity scope) (Some (sd_route d), sd_access d)"
proof -
  obtain route access where fold: "foldl (\<lambda>r m. rbind r (evaluate_step policy (roots sha256 scope identity) identity
          (scope_project_id scope) default_route m)) (Inr (None, [[], [], [], []]))
          (storage_matches policy identity scope) = Inr (route, access)"
    and d: "map_option (\<lambda>route. \<lparr>sd_route = route, sd_access = access\<rparr>) route = Some d"
    using assms by (auto simp: evaluate_spec_def Let_def split: if_splits)
  from fold have "evaluated policy (roots sha256 scope identity) identity (scope_project_id scope) default_route
     (storage_matches policy identity scope) (route, access)"
    by (rule foldl_rbind_invariant) (auto intro: evaluated_init evaluated_step)
  then show ?thesis using d by auto
qed

lemma evaluate_spec_none:
  assumes "evaluate_spec sha256 policy identity scope default_route = Inr None"
  shows "(is_global_hub scope \<and> (\<forall>(_, _, hub)\<in>set (storage_matches policy identity scope). \<not> hub))
     \<or> (\<forall>m\<in>set (storage_matches policy identity scope). \<forall>op p.
          \<not> contributes policy (roots sha256 scope identity) identity (scope_project_id scope) m op p)"
proof (cases "is_global_hub scope \<and> \<not> list_ex (\<lambda>(_, _, hub). hub) (storage_matches policy identity scope)")
  case True
  then show ?thesis by (auto simp: list_ex_iff)
next
  case False
  then obtain access where "foldl (\<lambda>r m. rbind r (evaluate_step policy (roots sha256 scope identity) identity
          (scope_project_id scope) default_route m)) (Inr (None, [[], [], [], []]))
          (storage_matches policy identity scope) = Inr (None, access)"
    using assms by (auto simp: evaluate_spec_def Let_def)
  then have "evaluated policy (roots sha256 scope identity) identity (scope_project_id scope) default_route
     (storage_matches policy identity scope) (None, access)"
    by (rule foldl_rbind_invariant) (auto intro: evaluated_init evaluated_step)
  then show ?thesis by (simp add: evaluated_def)
qed

subsection \<open>From a match back to the stored rule\<close>

lemma storage_masks_nth:
  "storage_masks caps ! op_index op \<longleftrightarrow> has_capability caps ''s3'' \<or> has_capability caps (''s3:'' @ op_name op)"
  by (cases op) (auto simp: storage_masks_def OPERATION_NAMES_def has_capability_def list_ex_iff)

lemma storage_compile_ok:
  assumes "fst (storage_compile U glob snapshot dl w) = Inr policy"
  shows "list_all2 (\<lambda>r h. hub_rule_spec U glob r = Inr h) (sn_rules snapshot) (sp_hub policy)"
    and "list_all2 (\<lambda>r s. storage_rule_spec glob r = Inr s) (sn_rules snapshot) (sp_rules policy)"
  using timed_ok [OF timed_storage_compile assms]
  by (auto simp: lift_policy_def rmap_eq_Inr split: sum.splits)

lemma storage_match_origin:
  assumes "fst (storage_compile U glob snapshot dl w) = Inr policy"
    and "(index, caps, hub) \<in> set (storage_matches policy identity scope)"
  obtains r h s where "r \<in> set (sn_rules snapshot)" "hub_rule_spec U glob r = Inr h"
    "storage_rule_spec glob r = Inr s" "sp_rules policy ! index = s" "caps = storage_masks (hr_capabilities h)"
    "storage_rule_applies h (principal_storage identity) (scope_project_id scope)"
proof -
  note lists = storage_compile_ok [OF assms(1)]
  obtain h where i: "index < length (sp_hub policy)" "sp_hub policy ! index = h"
    "storage_rule_applies h (principal_storage identity) (scope_project_id scope)"
    "caps = storage_masks (hr_capabilities h)"
    using assms(2) by (auto simp: storage_matches_def in_set_enumerate_eq)
  moreover have "index < length (sn_rules snapshot)"
    using i lists(1) by (simp add: list_all2_lengthD)
  ultimately show thesis
    using that [of "sn_rules snapshot ! index" h "sp_rules policy ! index"]
      list_all2_nthD [OF lists(1)] list_all2_nthD [OF lists(2)] by auto
qed

lemma storage_rule_spec_ok:
  assumes "storage_rule_spec glob r = Inr s"
  shows "sr_route s = trim (rg_s3_route r)"
    and "sr_operations s = [] \<longleftrightarrow> rg_s3_operations r = []"
    and "list_ex (\<lambda>p. p name) (sr_operations s) \<longleftrightarrow> list_ex (\<lambda>x. glob_hits glob x name) (rg_s3_operations r)"
proof -
  obtain ms where ms: "rmap (pattern_spec glob) (rg_s3_operations r) = Inr ms" "sr_operations s = ms"
    and "sr_route s = trim (rg_s3_route r)"
    using assms by (auto simp: storage_rule_spec_def lift_policy_def split: sum.splits)
  then show "sr_route s = trim (rg_s3_route r)"
    and "list_ex (\<lambda>p. p name) (sr_operations s) \<longleftrightarrow> list_ex (\<lambda>x. glob_hits glob x name) (rg_s3_operations r)"
    using capabilities_hits [OF ms(1), of name] by (simp_all add: has_capability_def)
  show "sr_operations s = [] \<longleftrightarrow> rg_s3_operations r = []"
    using ms by (auto simp: rmap_eq_Inr)
qed

subsection \<open>Properties\<close>

text \<open>The intersection of a rendered template with a scope root covers exactly the keys that lie
  below both.\<close>

theorem intersect_exact:
  "(\<exists>p. intersect candidate root = Some p \<and> under p k) \<longleftrightarrow> under candidate k \<and> under root k"
proof
  assume "\<exists>p. intersect candidate root = Some p \<and> under p k"
  then show "under candidate k \<and> under root k"
    using intersect_Some under_trans by blast
next
  assume k: "under candidate k \<and> under root k"
  then have "under root candidate \<or> under candidate root"
    using under_common [of candidate k root] by (auto simp: under_segments)
  then show "\<exists>p. intersect candidate root = Some p \<and> under p k"
    using k by (auto simp: intersect_def below_iff under_def)
qed

text \<open>C15: a decision is exact: for every operation the granted prefixes are those contributed by some
  matching rule, as a sorted set, and every rule that contributes anything selects the decision's
  route.\<close>

theorem storage_decision_exact:
  assumes "fst (evaluate sha256 policy identity scope default_route dl w) = Inr (Some d)"
  shows "(\<forall>op. btree_wf (sd_access d ! op_index op)
          \<and> set (sd_access d ! op_index op) = {p. \<exists>m\<in>set (storage_matches policy identity scope).
               contributes policy (roots sha256 scope identity) identity (scope_project_id scope) m op p})
     \<and> (\<forall>m\<in>set (storage_matches policy identity scope). \<forall>op p.
          contributes policy (roots sha256 scope identity) identity (scope_project_id scope) m op p
          \<longrightarrow> selected_route (sp_rules policy ! fst m) default_route = sd_route d)"
  using evaluate_spec_evaluated [OF timed_ok [OF timed_evaluate assms]]
  by (auto simp: evaluated_def)

text \<open>Without a contributing rule there is no decision, and a global Hub scope is refused unless
  some matching rule has the hub capability.\<close>

theorem storage_denied_by_default:
  assumes "within dl w"
    and "(is_global_hub scope \<and> (\<forall>(_, _, hub)\<in>set (storage_matches policy identity scope). \<not> hub))
      \<or> storage_matches policy identity scope = []"
  shows "fst (evaluate sha256 policy identity scope default_route dl w) = Inr None"
  using assms(2) unfolding timed_within [OF timed_evaluate assms(1)]
  by (auto simp: evaluate_spec_def Let_def list_ex_iff)

lemma prefixes_confined:
  assumes "ulid_text U" "\<forall>x. length (sha256 x) = 32" "scope_wf U scope"
    and "fst (evaluate sha256 policy identity scope default_route dl w) = Inr (Some d)"
    and "p \<in> set (sd_access d ! op_index op)"
  shows "safe_path p \<and> (\<exists>root\<in>set (roots sha256 scope identity). under root p)"
proof -
  obtain m where "contributes policy (roots sha256 scope identity) identity (scope_project_id scope) m op p"
    using evaluate_spec_evaluated [OF timed_ok [OF timed_evaluate assms(4)]] assms(5)
    by (auto simp: evaluated_def)
  then obtain index ps where ps: "prefixes_spec (sp_rules policy ! index) (roots sha256 scope identity)
      identity (scope_project_id scope) = Inr ps" "p \<in> set ps"
    by (auto simp: contributes_def split: prod.splits sum.splits)
  moreover have "list_all safe_path (roots sha256 scope identity)"
    using roots_safe [OF assms(1,3)] assms(2) by (auto simp: list_all_iff)
  ultimately show ?thesis
    using prefixes_spec_ok [OF ps(1)] by (auto simp: list_all_iff)
qed

text \<open>C14: a granted prefix is confined: it is a safe path, at or below a root of the requested
  scope.\<close>

theorem storage_prefixes_confined:
  assumes "ulid_text U" "\<forall>x. length (sha256 x) = 32" "scope_wf U scope"
    and "fst (evaluate sha256 policy identity scope default_route dl w) = Inr (Some d)"
    and "p \<in> set (sd_access d ! op_index op)"
  shows "safe_path p \<and> (\<exists>root\<in>set (roots sha256 scope identity). under root p)"
  using prefixes_confined [OF assms] .

text \<open>Every granted prefix comes from one stored rule that selects the caller, names the project or
  all projects, has the s3 capability for that operation, permits the operation, and gives the
  route.\<close>

theorem storage_grant_origin:
  assumes "fst (storage_compile U glob snapshot dl w) = Inr policy"
    and "fst (evaluate sha256 policy identity scope default_route dl' w') = Inr (Some d)"
    and "p \<in> set (sd_access d ! op_index op)"
  shows "\<exists>r\<in>set (sn_rules snapshot).
     hub_rule_selects r (Some (principal_storage identity))
     \<and> (rg_projects r = [] \<or> (\<exists>q\<in>set (rg_projects r). trim q = ''*'' \<or> scope_project_id scope = Some (trim q)))
     \<and> (hub_rule_has glob r ''s3'' \<or> hub_rule_has glob r (''s3:'' @ op_name op))
     \<and> (rg_s3_operations r = [] \<or> list_ex (\<lambda>x. glob_hits glob x (op_name op)) (rg_s3_operations r))
     \<and> sd_route d = (if trim (rg_s3_route r) = [] then default_route else trim (rg_s3_route r))"
proof -
  obtain index caps hub where m: "(index, caps, hub) \<in> set (storage_matches policy identity scope)"
    and c: "contributes policy (roots sha256 scope identity) identity (scope_project_id scope) (index, caps, hub) op p"
    and route: "sd_route d = selected_route (sp_rules policy ! index) default_route"
    using evaluate_spec_evaluated [OF timed_ok [OF timed_evaluate assms(2)]] assms(3)
    by (fastforce simp: evaluated_def)
  obtain r h s where r: "r \<in> set (sn_rules snapshot)" "hub_rule_spec U glob r = Inr h"
    "storage_rule_spec glob r = Inr s" "sp_rules policy ! index = s" "caps = storage_masks (hr_capabilities h)"
    "storage_rule_applies h (principal_storage identity) (scope_project_id scope)"
    using storage_match_origin [OF assms(1) m] .
  have "caps ! op_index op" "sr_operations s = [] \<or> list_ex (\<lambda>p. p (op_name op)) (sr_operations s)"
    using c r(4) by (simp_all add: contributes_def rule_allowed_def)
  moreover have "rg_projects r = [] \<or> (\<exists>q\<in>set (rg_projects r). trim q = ''*'' \<or> scope_project_id scope = Some (trim q))"
    using r(6) hub_rule_spec_ok(3) [OF r(2)]
    by (auto simp: storage_rule_applies_def list_ex_iff is_some_and_def split: option.splits)
  ultimately show ?thesis
    using r(1,4-6) route hub_rule_spec_ok [OF r(2)] storage_rule_spec_ok [OF r(3)]
    by (intro bexI [of _ r]) (simp_all add: storage_masks_nth storage_rule_applies_def selected_route_def)
qed

subsection \<open>Witnesses\<close>

definition demo_storage_snapshot :: ResourceGrantSnapshot where
  "demo_storage_snapshot = demo_snapshot
     [\<lparr>rg_id = ''r'', rg_name = ''r'', rg_access_kind = ''user'', rg_principal = ''ann'',
       rg_s3_route = [], rg_capabilities = [''s3''], rg_projects = [''*''],
       rg_s3_operations = [''read''], rg_s3_prefixes = [''/v1/projects/{project}/corpora/''],
       rg_created_at = 0, rg_updated_at = 0\<rparr>]"

definition demo_scope :: StorageScope where
  "demo_scope = Scope_Project demo_project Mod_Task"

definition demo_prefix :: string where
  "demo_prefix = ''v1/projects/'' @ demo_project @ ''/corpora/task''"

text \<open>The pure results on the sample policy, evaluated.\<close>

lemma demo_storage_spec:
  "case rbind (lift_policy (rmap (hub_rule_spec demo_ulid demo_glob) (sn_rules demo_storage_snapshot))) (\<lambda>hub.
        rbind (rmap (storage_rule_spec demo_glob) (sn_rules demo_storage_snapshot)) (\<lambda>rules.
        Inr \<lparr>sp_hub = hub, sp_rules = rules\<rparr>)) of
     Inl _ \<Rightarrow> False
   | Inr policy \<Rightarrow> (case evaluate_spec demo_sha policy (SI_Native demo_access) demo_scope ''main'' of
       Inr (Some d) \<Rightarrow> demo_prefix \<in> set (sd_access d ! op_index Op_Read) \<and> sd_route d = ''main''
     | _ \<Rightarrow> False)"
  by code_simp

lemma demo_storage_run:
  obtains policy d where
    "fst (storage_compile demo_ulid demo_glob demo_storage_snapshot 10 demo_world) = Inr policy"
    "fst (evaluate demo_sha policy (SI_Native demo_access) demo_scope ''main'' 10 demo_world) = Inr (Some d)"
    "demo_prefix \<in> set (sd_access d ! op_index Op_Read)" "sd_route d = ''main''"
  using demo_storage_spec
  unfolding timed_within [OF timed_storage_compile demo_within, symmetric]
    timed_within [OF timed_evaluate demo_within, symmetric]
  by (auto split: sum.splits option.splits)

lemma demo_scope_wf: "scope_wf demo_ulid demo_scope"
  by (simp add: demo_scope_def scope_wf_def demo_project_canonical)

theorem storage_decision_exact_witness:
  "\<exists>policy d. fst (evaluate demo_sha policy (SI_Native demo_access) demo_scope ''main'' 10 demo_world) = Inr (Some d)
     \<and> (\<exists>m\<in>set (storage_matches policy (SI_Native demo_access) demo_scope).
          contributes policy (roots demo_sha demo_scope (SI_Native demo_access)) (SI_Native demo_access)
            (scope_project_id demo_scope) m Op_Read demo_prefix)"
proof -
  obtain policy d where *: "fst (evaluate demo_sha policy (SI_Native demo_access) demo_scope ''main'' 10 demo_world) = Inr (Some d)"
    "demo_prefix \<in> set (sd_access d ! op_index Op_Read)"
    using demo_storage_run by metis
  show ?thesis
    using storage_decision_exact [OF *(1)] * by blast
qed

theorem storage_prefixes_confined_witness:
  "safe_path demo_prefix \<and> (\<exists>root\<in>set (roots demo_sha demo_scope (SI_Native demo_access)). under root demo_prefix)"
proof -
  obtain policy d where "fst (evaluate demo_sha policy (SI_Native demo_access) demo_scope ''main'' 10 demo_world) = Inr (Some d)"
    "demo_prefix \<in> set (sd_access d ! op_index Op_Read)"
    using demo_storage_run by metis
  then show ?thesis
    by (rule storage_prefixes_confined [OF demo_ulid_text _ demo_scope_wf, rotated]) simp
qed

end
