(* ===== verification/Fs_Session.thy ===== *)
theory Fs_Session
  imports Storage_Policy
begin

text \<open>
  Filesystem sessions, \<^verbatim>\<open>broker-storage/src/filesystem_session.rs\<close> and the credentials of
  \<^verbatim>\<open>issued.rs\<close>: route configuration, the signed session token, its verification and the access
  checks of a verified session.  Base64, HMAC-SHA256, the JSON codec of the payload, URL parsing
  and time formatting are fields of the parameter record \<^verbatim>\<open>session_lib\<close>.  The lemmas show that a
  token verifies only if the issuer's key made it, that issuing and verifying agree, and that a
  verified session allows an operation only on keys strictly below the route's base prefix and at
  or below a prefix of the grant that carries the operation.
\<close>

subsection \<open>Routes\<close>

datatype host = Host_Domain string | Host_Ipv4 nat nat nat nat | Host_Ipv6 nat

record url_view =
  url_scheme :: string
  url_username :: string
  url_password :: "string option"
  url_host :: "host option"
  url_path :: string
  url_query :: "string option"
  url_fragment :: "string option"

record FilesystemStorageRouteConfig =
  rc_name :: string
  rc_bucket :: string
  rc_region :: string
  rc_base_prefix :: string
  rc_endpoint :: string
  rc_session_secs :: nat
  rc_session_nanos :: nat
  rc_token_bytes :: nat

datatype SessionScope = SS_Project string | SS_User string | SS_Hub

record Payload =
  pl_access_key :: string
  pl_route :: string
  pl_bucket :: string
  pl_region :: string
  pl_subject :: string
  pl_scope :: SessionScope
  pl_module :: string
  pl_revision :: int
  pl_issued_at :: nat
  pl_expires_at :: nat
  pl_access :: "string list list"

record session_lib =
  url_parse :: "string \<Rightarrow> url_view option"
  b64_enc :: "string \<Rightarrow> string"
  b64_dec :: "string \<Rightarrow> string option"
  hmac :: "string \<Rightarrow> string \<Rightarrow> string option"
  json_enc :: "Payload \<Rightarrow> string option"
  json_dec :: "string \<Rightarrow> Payload option"
  format_time :: "nat \<Rightarrow> string option"

definition segment :: "string \<Rightarrow> bool" where
  "segment s \<longleftrightarrow> s \<noteq> [] \<and> length s \<le> 128 \<and> is_ascii_alphanumeric (hd s)
     \<and> list_all (\<lambda>b. is_ascii_alphanumeric b \<or> b \<in> set ''._-'') s"

definition reserved_buckets :: "string list" where
  "reserved_buckets = [''admin'', ''healthz'', ''readyz'', ''oauth'', ''v1'', ''favicon.svg'',
     ''.well-known'', ''metrics'', ''api'']"

definition bucket :: "string \<Rightarrow> bool" where
  "bucket s \<longleftrightarrow> 3 \<le> length s \<and> length s \<le> 63 \<and> is_ascii_alphanumeric (hd s)
     \<and> is_ascii_alphanumeric (last s) \<and> \<not> contains_sub s ''..''
     \<and> list_all (\<lambda>b. is_ascii_lower b \<or> is_ascii_digit b \<or> b \<in> set ''.-'') s
     \<and> s \<notin> set reserved_buckets"

fun host_is_local :: "host \<Rightarrow> bool" where
  "host_is_local (Host_Domain h) = (h = ''localhost'')"
| "host_is_local (Host_Ipv4 a b c d) = (a = 127)"
| "host_is_local (Host_Ipv6 ip) = (ip = 1)"

definition endpoint :: "session_lib \<Rightarrow> string \<Rightarrow> bool" where
  "endpoint L s = (case url_parse L s of None \<Rightarrow> False
     | Some u \<Rightarrow> url_username u = [] \<and> url_password u = None \<and> url_host u \<noteq> None
         \<and> url_query u = None \<and> url_fragment u = None \<and> url_path u = ''/''
         \<and> (url_scheme u = ''https''
            \<or> url_scheme u = ''http'' \<and> (case url_host u of None \<Rightarrow> False | Some h \<Rightarrow> host_is_local h)))"

text \<open>\<^verbatim>\<open>key\<close>: canonical object keys, checked before any path is built.\<close>

definition key_byte :: "char \<Rightarrow> bool" where
  "key_byte b \<longleftrightarrow> 0x20 \<le> byte_of b \<and> byte_of b \<le> 0x7e \<and> b \<noteq> CHR 0x5C \<and> b \<noteq> CHR 0x22"

definition key :: "string \<Rightarrow> bool" where
  "key s \<longleftrightarrow> s \<noteq> [] \<and> length s \<le> 1024 \<and> list_all key_byte s
     \<and> list_all (\<lambda>part. part \<noteq> [] \<and> part \<noteq> ''.'' \<and> part \<noteq> ''..'') (split_on (CHR ''/'') s)"

datatype StorageIssueError =
  IS_Admission StorageAdmissionError | IS_InvalidConfiguration | IS_RouteUnavailable
| IS_PolicyTooLarge | IS_Forbidden | IS_Deadline | IS_Provider | IS_Sdk | IS_InvalidResponse

definition route_new ::
  "session_lib \<Rightarrow> FilesystemStorageRouteConfig \<Rightarrow> StorageIssueError + FilesystemStorageRouteConfig" where
  "route_new L config =
     (if \<not> segment (rc_name config) \<or> \<not> bucket (rc_bucket config) \<or> \<not> endpoint L (rc_endpoint config)
       \<or> rc_region config = []
       \<or> \<not> list_all (\<lambda>b. is_ascii_alphanumeric b \<or> b = CHR ''-'') (rc_region config)
       \<or> \<not> key (rc_base_prefix config)
       \<or> \<not> list_all segment (split_on (CHR ''/'') (rc_base_prefix config))
       \<or> \<not> (900 \<le> rc_session_secs config \<and> rc_session_secs config \<le> 43200)
       \<or> rc_session_nanos config \<noteq> 0
      then Inl IS_InvalidConfiguration else Inr config)"

subsection \<open>Payloads\<close>

datatype FilesystemSessionError =
  FE_InvalidToken | FE_RouteUnavailable | FE_Expired | FE_Deadline | FE_Crypto

definition module_of_str :: "string \<Rightarrow> StorageModule option" where
  "module_of_str s =
     (if s = ''hub'' then Some Mod_Hub else if s = ''task'' then Some Mod_Task
      else if s = ''memory'' then Some Mod_Memory else if s = ''knowledge'' then Some Mod_Knowledge
      else if s = ''ast'' then Some Mod_Ast else None)"

definition validated_scope :: "ulid_lib \<Rightarrow> Payload \<Rightarrow> FilesystemSessionError + StorageScope" where
  "validated_scope U p = rbind (ok_or (module_of_str (pl_module p)) FE_InvalidToken) (\<lambda>m.
     case (case pl_scope p of
             SS_Project project \<Rightarrow> scope_project U project m
           | SS_User installation \<Rightarrow>
               if m = Mod_Memory then scope_user_memory installation else Inl SA_InvalidScope
           | SS_Hub \<Rightarrow> if m = Mod_Hub then Inr scope_global_hub else Inl SA_InvalidScope) of
       Inl _ \<Rightarrow> Inl FE_InvalidToken
     | Inr scope \<Rightarrow> Inr scope)"

definition root_ok :: "string \<Rightarrow> string \<Rightarrow> bool" where
  "root_ok base root \<longleftrightarrow> key root \<and> starts_with root base \<and> length base < length root"

definition payload_validate ::
  "ulid_lib \<Rightarrow> session_lib \<Rightarrow> Payload \<Rightarrow> FilesystemStorageRouteConfig \<Rightarrow> nat
     \<Rightarrow> FilesystemSessionError + StorageScope" where
  "payload_validate U L p cfg now = rbind (validated_scope U p) (\<lambda>scope.
     if pl_route p \<noteq> rc_name cfg \<or> pl_bucket p \<noteq> rc_bucket cfg \<or> pl_region p \<noteq> rc_region cfg
       \<or> pl_subject p = [] \<or> pl_revision p \<le> 0 \<or> now < pl_issued_at p
       \<or> \<not> (pl_issued_at p \<le> pl_expires_at p
            \<and> 900 \<le> pl_expires_at p - pl_issued_at p \<and> pl_expires_at p - pl_issued_at p \<le> 43200)
       \<or> b64_dec L (pl_access_key p) = None \<or> length (pl_access_key p) \<noteq> 43
       \<or> list_all (\<lambda>roots. roots = []) (pl_access p)
     then Inl FE_InvalidToken
     else if \<not> list_all (\<lambda>rts. list_all (root_ok (rc_base_prefix cfg @ ''/'')) rts \<and> distinct rts) (pl_access p)
     then Inl FE_InvalidToken
     else if pl_expires_at p \<le> now then Inl FE_Expired
     else Inr scope)"

definition seconds :: "int \<Rightarrow> FilesystemSessionError + nat" where
  "seconds t = (if t < 0 then Inl FE_InvalidToken else Inr (nat t div 1000000000))"

subsection \<open>Tokens\<close>

definition TOKEN_PREFIX :: string where
  "TOKEN_PREFIX = ''rust-fs1''"

definition TOKEN_DOMAIN :: string where
  "TOKEN_DOMAIN = ''graphit-broker/rust-filesystem-session/v1'' @ [CHR 0x00]"

definition SECRET_DOMAIN :: string where
  "SECRET_DOMAIN = ''graphit-broker/rust-filesystem-secret/v1'' @ [CHR 0x00]"

definition mac :: "session_lib \<Rightarrow> string \<Rightarrow> string \<Rightarrow> string list \<Rightarrow> FilesystemSessionError + string" where
  "mac L pepper domain parts = ok_or (hmac L pepper (domain @ frames u64_to_be_bytes parts)) FE_Crypto"

definition session_secret ::
  "session_lib \<Rightarrow> string \<Rightarrow> string \<Rightarrow> string \<Rightarrow> FilesystemSessionError + string" where
  "session_secret L pepper access_key tag =
     rbind (mac L pepper SECRET_DOMAIN [access_key, tag]) (\<lambda>digest. Inr (b64_enc L digest))"

record VerifiedFilesystemSession =
  fs_payload :: Payload
  fs_scope :: StorageScope
  fs_secret :: string
  fs_deadline :: nat

definition session_check ::
  "VerifiedFilesystemSession \<Rightarrow> nat \<Rightarrow> ('x, FilesystemSessionError, unit) prog" where
  "session_check s original =
     pbind now_tick (\<lambda>m.
     if fs_deadline s \<le> mono m then praise FE_Expired
     else pbind now_tick (\<lambda>u. pbind (plift (seconds (utc u))) (\<lambda>now.
     if pl_expires_at (fs_payload s) \<le> now then praise FE_Expired
     else pbind now_tick (\<lambda>m2. pguard (mono m2 < original) FE_Deadline))))"

definition covered :: "VerifiedFilesystemSession \<Rightarrow> nat list \<Rightarrow> string \<Rightarrow> bool" where
  "covered s indices target = list_ex (\<lambda>i. list_ex (\<lambda>root. target = root \<or> below target root)
     (pl_access (fs_payload s) ! i)) indices"

fun op_indices :: "StorageOperation \<Rightarrow> nat list" where
  "op_indices Op_Read = [0, 1, 2]"
| "op_indices Op_Write = [1, 2]"
| "op_indices Op_Publish = [2]"
| "op_indices Op_Delete = [2, 3]"

text \<open>\<^verbatim>\<open>allows\<close> reads the clocks; a failed check is a refusal, not an error.\<close>

definition allows ::
  "VerifiedFilesystemSession \<Rightarrow> StorageOperation \<Rightarrow> string \<Rightarrow> ('x, 'e, bool) prog" where
  "allows s operation target =
     (if \<not> key target then pret False
      else pbind (pattempt (session_check s (fs_deadline s))) (\<lambda>r.
        case r of Inl _ \<Rightarrow> pret False
        | Inr _ \<Rightarrow> pret (covered s (op_indices operation) target)))"

definition prefix_key :: "string \<Rightarrow> string" where
  "prefix_key p = (case strip_suffix p ''/'' of None \<Rightarrow> p | Some q \<Rightarrow> q)"

definition allows_list :: "VerifiedFilesystemSession \<Rightarrow> string \<Rightarrow> ('x, 'e, bool) prog" where
  "allows_list s p = allows s Op_Read (prefix_key p)"

subsection \<open>Issuing and verifying\<close>

record FilesystemStorageIssuer =
  is_routes :: "(string \<times> FilesystemStorageRouteConfig) list"
  is_pepper :: string

fun issuer_routes ::
  "FilesystemStorageRouteConfig list \<Rightarrow> string list \<Rightarrow> (string \<times> FilesystemStorageRouteConfig) list
     \<Rightarrow> StorageIssueError + (string \<times> FilesystemStorageRouteConfig) list" where
  "issuer_routes [] buckets named = Inr named"
| "issuer_routes (route # routes) buckets named =
     (if rc_bucket route \<in> set buckets \<or> map_of named (rc_name route) \<noteq> None
      then Inl IS_InvalidConfiguration
      else issuer_routes routes (rc_bucket route # buckets) ((rc_name route, route) # named))"

definition issuer_new ::
  "FilesystemStorageRouteConfig list \<Rightarrow> string \<Rightarrow> StorageIssueError + FilesystemStorageIssuer" where
  "issuer_new routes pepper =
     (if length pepper < 32 \<or> routes = [] then Inl IS_InvalidConfiguration
      else rbind (issuer_routes routes [] []) (\<lambda>named.
        Inr \<lparr>is_routes = named, is_pepper = pepper\<rparr>))"

definition token_encode ::
  "session_lib \<Rightarrow> FilesystemStorageIssuer \<Rightarrow> Payload \<Rightarrow> FilesystemSessionError + string" where
  "token_encode L issuer payload =
     rbind (ok_or (json_enc L payload) FE_InvalidToken) (\<lambda>bytes.
     rbind (mac L (is_pepper issuer) TOKEN_DOMAIN [bytes]) (\<lambda>tag.
     Inr (TOKEN_PREFIX @ ''.'' @ b64_enc L bytes @ ''.'' @ b64_enc L tag)))"

text \<open>The first part of \<^verbatim>\<open>verify_at\<close>: split the token, check the MAC and decode the payload.\<close>

definition token_open ::
  "session_lib \<Rightarrow> FilesystemStorageIssuer \<Rightarrow> string \<Rightarrow> FilesystemSessionError + (Payload \<times> string)" where
  "token_open L issuer token =
     (case split_on (CHR ''.'') token of
        [p, b, t] \<Rightarrow>
          if p \<noteq> TOKEN_PREFIX then Inl FE_InvalidToken
          else rbind (ok_or (b64_dec L b) FE_InvalidToken) (\<lambda>bytes.
            rbind (ok_or (b64_dec L t) FE_InvalidToken) (\<lambda>tag.
            rbind (mac L (is_pepper issuer) TOKEN_DOMAIN [bytes]) (\<lambda>expected.
            if expected \<noteq> tag then Inl FE_InvalidToken
            else rbind (ok_or (json_dec L bytes) FE_InvalidToken) (\<lambda>payload. Inr (payload, tag)))))
      | _ \<Rightarrow> Inl FE_InvalidToken)"

definition verify_at ::
  "ulid_lib \<Rightarrow> session_lib \<Rightarrow> FilesystemStorageIssuer \<Rightarrow> string \<Rightarrow> string \<Rightarrow> string \<Rightarrow> int \<Rightarrow> nat
     \<Rightarrow> ('x, FilesystemSessionError, VerifiedFilesystemSession) prog" where
  "verify_at U L issuer route access_key token utc_now monotonic =
     pbind (plift (rbind (ok_or (map_of (is_routes issuer) route) FE_RouteUnavailable) (\<lambda>cfg.
       if rc_token_bytes cfg < length token then Inl FE_InvalidToken
       else rbind (token_open L issuer token) (\<lambda>(payload, tag).
         rbind (seconds utc_now) (\<lambda>now.
         rbind (payload_validate U L payload cfg now) (\<lambda>scope.
         if pl_access_key payload \<noteq> access_key then Inl FE_InvalidToken
         else rbind (ok_or (time_checked_add 0 (pl_expires_at payload * 1000000000)) FE_InvalidToken) (\<lambda>expiry.
         if int expiry < utc_now then Inl FE_Expired
         else rbind (ok_or (time_checked_add monotonic (expiry - nat utc_now)) FE_InvalidToken) (\<lambda>deadline.
         rbind (session_secret L (is_pepper issuer) (pl_access_key payload) tag) (\<lambda>secret.
         Inr \<lparr>fs_payload = payload, fs_scope = scope, fs_secret = secret, fs_deadline = deadline\<rparr>)))))))))
     (\<lambda>verified. pseq (session_check verified (fs_deadline verified)) (pret verified))"

definition verify_session ::
  "ulid_lib \<Rightarrow> session_lib \<Rightarrow> FilesystemStorageIssuer \<Rightarrow> string \<Rightarrow> string \<Rightarrow> string
     \<Rightarrow> ('x, FilesystemSessionError, VerifiedFilesystemSession) prog" where
  "verify_session U L issuer route access_key token =
     pbind now_tick (\<lambda>m. pbind now_tick (\<lambda>u.
       verify_at U L issuer route access_key token (utc u) (mono m)))"

datatype StorageCopyIfNotExists = CI_Multipart | CI_IfNoneMatch

record IssuedStorageCredentials =
  ic_key :: string
  ic_secret :: string
  ic_token :: string
  ic_expires_at :: string
  ic_expiry :: nat
  ic_bucket :: string
  ic_region :: string
  ic_endpoint :: "string option"
  ic_conditional_delete :: bool
  ic_copy_if_not_exists :: StorageCopyIfNotExists
  ic_base_prefix :: string
  ic_project_id :: string
  ic_revision :: int

definition session_scope :: "StorageScope \<Rightarrow> StorageIssueError + SessionScope" where
  "session_scope scope = (case (scope_project_id scope, scope_installation_id scope) of
       (Some n, None) \<Rightarrow> Inr (SS_Project n)
     | (None, Some n) \<Rightarrow> Inr (SS_User n)
     | (None, None) \<Rightarrow> Inr SS_Hub
     | _ \<Rightarrow> Inl IS_InvalidConfiguration)"

definition grant_payload ::
  "session_lib \<Rightarrow> FilesystemStorageRouteConfig \<Rightarrow> AuthorizedStorageGrant \<Rightarrow> nat \<Rightarrow> nat \<Rightarrow> string
     \<Rightarrow> StorageIssueError + Payload" where
  "grant_payload L cfg grant now expires_at random =
     rbind (session_scope (gr_scope grant)) (\<lambda>scope.
     Inr \<lparr>pl_access_key = b64_enc L random, pl_route = rc_name cfg, pl_bucket = rc_bucket cfg,
          pl_region = rc_region cfg, pl_subject = grant_canonical_subject grant, pl_scope = scope,
          pl_module = module_str (scope_module (gr_scope grant)), pl_revision = gr_revision grant,
          pl_issued_at = now, pl_expires_at = expires_at,
          pl_access = map (\<lambda>op. map (\<lambda>p. rc_base_prefix cfg @ ''/'' @ p) (grant_prefixes grant op))
             ALL_OPERATIONS\<rparr>)"

text \<open>\<^verbatim>\<open>random\<close> is the outcome of \<^verbatim>\<open>getrandom::fill\<close> on 32 bytes.\<close>

definition issue_current ::
  "ulid_lib \<Rightarrow> session_lib \<Rightarrow> FilesystemStorageIssuer \<Rightarrow> string option \<Rightarrow> AuthorizedStorageGrant
     \<Rightarrow> ('x, StorageIssueError, IssuedStorageCredentials) prog" where
  "issue_current U L issuer random grant =
     pbind (plift (ok_or (map_of (is_routes issuer) (gr_route grant)) IS_RouteUnavailable)) (\<lambda>cfg.
     pbind now_tick (\<lambda>t. pbind (pmap_err (\<lambda>_. IS_InvalidResponse) (plift (seconds (utc t)))) (\<lambda>now.
     if u64_max < now + rc_session_secs cfg then praise IS_InvalidConfiguration
     else let expires_at = now + rc_session_secs cfg in
     pbind (plift (ok_or random IS_Provider)) (\<lambda>random.
     pbind (plift (grant_payload L cfg grant now expires_at random)) (\<lambda>payload.
     pbind (pmap_err (\<lambda>_. IS_InvalidConfiguration) (plift (payload_validate U L payload cfg now))) (\<lambda>_.
     pbind (pmap_err (\<lambda>_. IS_InvalidResponse) (plift (token_encode L issuer payload))) (\<lambda>token.
     if rc_token_bytes cfg < length token then praise IS_PolicyTooLarge
     else pbind (pmap_err (\<lambda>_. IS_InvalidResponse)
            (verify_session U L issuer (gr_route grant) (pl_access_key payload) token)) (\<lambda>verified.
     if i64_max < int expires_at then praise IS_InvalidResponse
     else pbind (plift (ok_or (format_time L expires_at) IS_InvalidResponse)) (\<lambda>text.
     pseq (pmap_err IS_Admission (grant_check grant))
     (pseq (pmap_err (\<lambda>_. IS_Deadline) (session_check verified (grant_request_deadline grant)))
     (let issued = \<lparr>ic_key = pl_access_key payload, ic_secret = fs_secret verified, ic_token = token,
            ic_expires_at = text, ic_expiry = pl_expires_at (fs_payload verified) * 1000000000,
            ic_bucket = rc_bucket cfg, ic_region = rc_region cfg, ic_endpoint = Some (rc_endpoint cfg),
            ic_conditional_delete = True, ic_copy_if_not_exists = CI_IfNoneMatch,
            ic_base_prefix = rc_base_prefix cfg,
            ic_project_id = (case scope_project_id (gr_scope grant) of None \<Rightarrow> [] | Some n \<Rightarrow> n),
            ic_revision = gr_revision grant\<rparr>
      in pseq (pmap_err IS_Admission (grant_check grant))
         (pbind now_tick (\<lambda>t. if int (ic_expiry issued) \<le> utc t then praise IS_InvalidResponse
            else pret issued)))))))))))))"

definition issue ::
  "ulid_lib \<Rightarrow> session_lib \<Rightarrow> FilesystemStorageIssuer \<Rightarrow> string option \<Rightarrow> AuthorizedStorageGrant
     \<Rightarrow> ('x, StorageIssueError, IssuedStorageCredentials) prog" where
  "issue U L issuer random grant =
     pseq (pmap_err IS_Admission (grant_check grant))
       (pbind (pattempt (issue_current U L issuer random grant)) (\<lambda>result.
        pseq (pmap_err IS_Admission (grant_check grant)) (plift result)))"

subsection \<open>What the libraries promise\<close>

text \<open>Base64 without padding is a left-inverse pair whose text has no dot and turns 32 bytes into 43;
  the JSON codec reads back the payloads it writes, whose access table has four rows.\<close>

definition session_lib_ok :: "session_lib \<Rightarrow> bool" where
  "session_lib_ok L \<longleftrightarrow>
     (\<forall>b. b64_dec L (b64_enc L b) = Some b \<and> CHR ''.'' \<notin> set (b64_enc L b))
     \<and> (\<forall>p b. length (pl_access p) = 4 \<and> json_enc L p = Some b \<longrightarrow> json_dec L b = Some p)
     \<and> (\<forall>p b. json_dec L b = Some p \<longrightarrow> length (pl_access p) = 4)"

text \<open>What the code relies on when it authorizes: coverage is closed under descending to a key below
  a covered key, publishing implies every other operation, and writing implies reading.\<close>

locale authorizer =
  fixes permits :: "StorageOperation \<Rightarrow> string \<Rightarrow> bool"
  assumes permits_descend: "permits op k \<Longrightarrow> under k k' \<Longrightarrow> permits op k'"
    and permits_publish: "permits Op_Publish k \<Longrightarrow> permits op k"
    and permits_write: "permits Op_Write k \<Longrightarrow> permits Op_Read k"
begin

lemma permits_read: "permits Op_Publish k \<or> permits Op_Write k \<Longrightarrow> permits Op_Read k"
  using permits_publish permits_write by blast

lemma permits_subtree: "permits op root \<Longrightarrow> permits op (root @ ''/'' @ rest)"
  by (rule permits_descend) (auto simp: under_def starts_with_iff)

lemma permits_copy_target:
  "permits Op_Publish root \<Longrightarrow> under root src \<Longrightarrow> under root dst \<Longrightarrow> permits Op_Read src \<and> permits Op_Write dst"
  using permits_publish permits_descend by blast

end

subsection \<open>Session checks\<close>

lemma session_check_ok [prog_ok]:
  "session_check s dl w = (Inr u, w') \<longleftrightarrow>
     mono (env w 0) < fs_deadline s \<and> 0 \<le> utc (env w 1)
     \<and> nat (utc (env w 1)) div 1000000000 < pl_expires_at (fs_payload s)
     \<and> mono (env w 2) < dl \<and> w' = w\<lparr>env := \<lambda>n. env w (n + 3)\<rparr>"
  by (auto simp: session_check_def seconds_def prog_ok numeral_2_eq_2 numeral_3_eq_3 not_le)

lemma reads_only_pattempt [intro]: "reads_only p \<Longrightarrow> reads_only (pattempt p)"
  unfolding reads_only_def pattempt_def by (auto split: prod.splits) (metis snd_conv)

lemma reads_only_session_check [simp]: "reads_only (session_check s dl)"
  unfolding session_check_def by (intro reads_only_pbind reads_only_if) simp_all

lemma reads_only_allows [simp]: "reads_only (allows s op k)"
  unfolding allows_def
  by (intro reads_only_if reads_only_pbind reads_only_pattempt) (auto split: sum.splits)

lemma allows_True:
  "fst (allows s op k w) = Inr True \<longleftrightarrow>
     key k \<and> covered s (op_indices op) k \<and> fst (session_check s (fs_deadline s) w) = Inr ()"
  by (cases "session_check s (fs_deadline s) w")
     (auto simp: allows_def pbind_def pattempt_def pret_def split: sum.splits)

lemma allows_never_fails: "\<exists>b. fst (allows s op k w) = Inr b"
  by (cases "session_check s (fs_deadline s) w")
     (auto simp: allows_def pbind_def pattempt_def pret_def split: sum.splits)

lemma below_under: "target = root \<or> below target root \<longleftrightarrow> under root target"
  by (simp add: below_iff under_def)

lemma covered_iff:
  "covered s is k \<longleftrightarrow> (\<exists>i\<in>set is. \<exists>root\<in>set (pl_access (fs_payload s) ! i). under root k)"
  by (simp add: covered_def list_ex_iff below_under)

interpretation session: authorizer "\<lambda>op k. covered s (op_indices op) k" for s
proof unfold_locales
  fix op k k'
  show "covered s (op_indices op) k \<Longrightarrow> under k k' \<Longrightarrow> covered s (op_indices op) k'"
    unfolding covered_iff using under_trans by blast
  show "covered s (op_indices Op_Publish) k \<Longrightarrow> covered s (op_indices op) k"
    by (cases op) (auto simp: covered_iff)
  show "covered s (op_indices Op_Write) k \<Longrightarrow> covered s (op_indices Op_Read) k"
    by (auto simp: covered_iff)
qed

subsection \<open>Verified sessions\<close>

lemma payload_validate_ok:
  assumes "payload_validate U L p cfg now = Inr scope"
  shows "validated_scope U p = Inr scope" "pl_route p = rc_name cfg" "pl_bucket p = rc_bucket cfg"
    "pl_region p = rc_region cfg" "pl_issued_at p \<le> now" "now < pl_expires_at p"
    "pl_expires_at p \<le> pl_issued_at p + 43200"
    "list_all (\<lambda>rts. list_all (root_ok (rc_base_prefix cfg @ ''/'')) rts \<and> distinct rts) (pl_access p)"
    "pl_issued_at p + 900 \<le> pl_expires_at p"
  using assms by (auto simp: payload_validate_def split: if_splits)

lemma verify_session_ok:
  assumes "fst (verify_session U L issuer route access_key token w) = Inr s"
  obtains cfg tag where "map_of (is_routes issuer) route = Some cfg"
    "length token \<le> rc_token_bytes cfg" "token_open L issuer token = Inr (fs_payload s, tag)"
    "payload_validate U L (fs_payload s) cfg (nat (utc (env w 1)) div 1000000000) = Inr (fs_scope s)"
    "pl_access_key (fs_payload s) = access_key" "0 \<le> utc (env w 1)"
    "fs_deadline s = mono (env w 0) + (pl_expires_at (fs_payload s) * 1000000000 - nat (utc (env w 1)))"
    "session_secret L (is_pepper issuer) access_key tag = Inr (fs_secret s)"
    "mono (env w 2) < fs_deadline s" "nat (utc (env w 3)) div 1000000000 < pl_expires_at (fs_payload s)"
    "mono (env w 4) < fs_deadline s"
proof -
  obtain w' where "verify_session U L issuer route access_key token w = (Inr s, w')"
    using assms by (cases "verify_session U L issuer route access_key token w") auto
  moreover have four: "(4::nat) = Suc (Suc (Suc (Suc 0)))" by simp
  ultimately show thesis
    by (auto simp: verify_session_def verify_at_def prog_ok seconds_def numeral_2_eq_2 numeral_3_eq_3 four
        split: if_splits prod.splits intro!: that)
qed

lemma session_lib_rows: "session_lib_ok L \<Longrightarrow> json_dec L b = Some p \<Longrightarrow> length (pl_access p) = 4"
  unfolding session_lib_ok_def by (elim conjE) (erule allE, erule allE, erule mp)

lemma session_lib_json:
  "session_lib_ok L \<Longrightarrow> length (pl_access p) = 4 \<Longrightarrow> json_enc L p = Some b \<Longrightarrow> json_dec L b = Some p"
  unfolding session_lib_ok_def by blast

lemma session_lib_b64: "session_lib_ok L \<Longrightarrow> b64_dec L (b64_enc L b) = Some b \<and> CHR ''.'' \<notin> set (b64_enc L b)"
  unfolding session_lib_ok_def by (elim conjE) (erule allE)

lemma token_open_ok:
  assumes "token_open L issuer token = Inr (p, tag)"
  obtains b t bytes where "split_on (CHR ''.'') token = [TOKEN_PREFIX, b, t]"
    "b64_dec L b = Some bytes" "b64_dec L t = Some tag"
    "mac L (is_pepper issuer) TOKEN_DOMAIN [bytes] = Inr tag" "json_dec L bytes = Some p"
proof (cases "split_on (CHR ''.'') token")
  case (Cons x xs)
  then show thesis
    using assms that
    by (cases xs; cases "tl xs"; cases "tl (tl xs)") (auto simp: token_open_def split: if_splits)
qed (use assms in \<open>simp add: token_open_def\<close>)

lemma session_root_ok:
  assumes "fst (verify_session U L issuer route access_key token w) = Inr s" "session_lib_ok L"
    and "i < 4" "root \<in> set (pl_access (fs_payload s) ! i)"
  obtains cfg where "map_of (is_routes issuer) route = Some cfg" "root_ok (rc_base_prefix cfg @ ''/'') root"
proof (rule verify_session_ok [OF assms(1)])
  fix cfg tag
  assume cfg: "map_of (is_routes issuer) route = Some cfg"
    and o: "token_open L issuer token = Inr (fs_payload s, tag)"
    and v: "payload_validate U L (fs_payload s) cfg (nat (utc (env w 1)) div 1000000000) = Inr (fs_scope s)"
  obtain bytes where "json_dec L bytes = Some (fs_payload s)"
    using token_open_ok [OF o] .
  then have "length (pl_access (fs_payload s)) = 4"
    by (rule session_lib_rows [OF assms(2)])
  then have "pl_access (fs_payload s) ! i \<in> set (pl_access (fs_payload s))"
    using assms(3) by (intro nth_mem) simp
  with payload_validate_ok(8) [OF v] assms(4) have "root_ok (rc_base_prefix cfg @ ''/'') root"
    by (simp add: list_all_iff)
  with cfg show thesis by (rule that)
qed

subsection \<open>Issued tokens\<close>

lemma validated_scope_of_grant:
  assumes "grant_payload L cfg grant now expires_at random = Inr p" "validated_scope U p = Inr scope"
  shows "scope = gr_scope grant"
proof (cases "gr_scope grant")
  case (Scope_Project project m)
  with assms show ?thesis
    by (cases m) (auto simp: grant_payload_def session_scope_def validated_scope_def scope_project_def
        module_of_str_def split: if_splits)
qed (use assms in \<open>auto simp: grant_payload_def session_scope_def validated_scope_def
        scope_user_memory_def scope_global_hub_def module_of_str_def split: if_splits\<close>)

lemma payload_validate_later:
  assumes "payload_validate U L p cfg now = Inr scope" "pl_issued_at p \<le> later" "later < pl_expires_at p"
  shows "payload_validate U L p cfg later = Inr scope"
  using assms by (auto simp: payload_validate_def split: if_splits)

lemma token_open_encode:
  assumes "session_lib_ok L" "length (pl_access p) = 4" "token_encode L issuer p = Inr token"
  shows "\<exists>tag. token_open L issuer token = Inr (p, tag)"
proof -
  obtain bytes tag where e: "json_enc L p = Some bytes" "mac L (is_pepper issuer) TOKEN_DOMAIN [bytes] = Inr tag"
    "token = TOKEN_PREFIX @ CHR ''.'' # b64_enc L bytes @ CHR ''.'' # b64_enc L tag"
    using assms(3) by (auto simp: token_encode_def)
  have "CHR ''.'' \<notin> set TOKEN_PREFIX" by code_simp
  then have "split_on (CHR ''.'') token = [TOKEN_PREFIX, b64_enc L bytes, b64_enc L tag]"
    using e(3) session_lib_b64 [OF assms(1)] by (simp add: split_on_absent)
  then show ?thesis
    using e session_lib_b64 [OF assms(1)] session_lib_json [OF assms(1,2) e(1)]
    by (simp add: token_open_def)
qed

lemma issue_current_ok:
  fixes w :: "'x world_scheme"
  assumes "issue_current U L issuer random grant w = (Inr c, w')"
  obtains cfg now r p verified and w1 w2 :: "'x world_scheme" where "map_of (is_routes issuer) (gr_route grant) = Some cfg"
    "grant_payload L cfg grant now (now + rc_session_secs cfg) r = Inr p"
    "\<exists>scope. payload_validate U L p cfg now = Inr scope" "token_encode L issuer p = Inr (ic_token c)"
    "verify_session U L issuer (gr_route grant) (pl_access_key p) (ic_token c) w1 = (Inr verified, w2)"
    "ic_key c = pl_access_key p" "ic_secret c = fs_secret verified" "length (ic_token c) \<le> rc_token_bytes cfg"
    "ic_expiry c = pl_expires_at (fs_payload verified) * 1000000000" "ic_base_prefix c = rc_base_prefix cfg"
proof -
  show thesis
    using assms unfolding issue_current_def Let_def
    by (auto simp: prog_ok split: if_splits intro!: that)
qed

lemma issue_ok:
  fixes w :: "'x world_scheme"
  assumes "issue U L issuer random grant w = (Inr c, w')"
  obtains w1 w2 :: "'x world_scheme" where "issue_current U L issuer random grant w1 = (Inr c, w2)"
  using assms by (auto simp: issue_def prog_ok)

text \<open>Surroundings in which both clocks stand still.\<close>

lemma session_check_frozen:
  assumes "m < fs_deadline s" "0 \<le> t" "nat t div 1000000000 < pl_expires_at (fs_payload s)" "m < dl"
  shows "session_check s dl (frozen m t) = (Inr (), frozen m t)"
  using assms
  by (simp add: session_check_def pbind_def now_tick_frozen seconds_def plift_def pguard_def require_def)

lemma verify_session_frozen:
  assumes "map_of (is_routes issuer) route = Some cfg" "length token \<le> rc_token_bytes cfg"
    and "token_open L issuer token = Inr (p, tag)" "payload_validate U L p cfg (nat t div 1000000000) = Inr scope"
    and "session_secret L (is_pepper issuer) (pl_access_key p) tag = Inr secret" "0 \<le> t"
    and "m + (pl_expires_at p * 1000000000 - nat t) \<le> time_max" "pl_expires_at p * 1000000000 \<le> time_max"
  shows "fst (verify_session U L issuer route (pl_access_key p) token (frozen m t)) = Inr
     \<lparr>fs_payload = p, fs_scope = scope, fs_secret = secret,
      fs_deadline = m + (pl_expires_at p * 1000000000 - nat t)\<rparr>"
proof -
  have live: "nat t div 1000000000 < pl_expires_at p" using payload_validate_ok(6) [OF assms(4)] .
  then have "nat t < pl_expires_at p * 1000000000" by (simp add: div_less_iff_less_mult)
  then have "t < int (pl_expires_at p * 1000000000)" using assms(6) by linarith
  with live assms \<open>nat t < _\<close> show ?thesis
    by (simp add: verify_session_def verify_at_def pbind_def pseq_def now_tick_frozen plift_def pret_def
        session_check_frozen seconds_def ok_or_def time_checked_add_def)
qed

subsection \<open>Properties\<close>

text \<open>C3: a verified session is confined: an operation it allows is on a canonical key strictly below
  the base prefix of the session's route, at or below a prefix the token grants for that
  operation, and the session was current when it was asked.\<close>

theorem session_confined:
  assumes "session_lib_ok L"
    and "fst (verify_session U L issuer route access_key token w) = Inr s"
    and "fst (allows s op k w') = Inr True"
  shows "\<exists>cfg. map_of (is_routes issuer) route = Some cfg \<and> key k
     \<and> starts_with k (rc_base_prefix cfg @ ''/'')
     \<and> (\<exists>i\<in>set (op_indices op). \<exists>root\<in>set (pl_access (fs_payload s) ! i). under root k)
     \<and> mono (env w' 0) < fs_deadline s
     \<and> nat (utc (env w' 1)) div 1000000000 < pl_expires_at (fs_payload s)"
proof -
  have k: "key k" and c: "covered s (op_indices op) k"
    and check: "fst (session_check s (fs_deadline s) w') = Inr ()"
    using assms(3) by (simp_all add: allows_True)
  obtain i root where i: "i \<in> set (op_indices op)" "root \<in> set (pl_access (fs_payload s) ! i)" "under root k"
    using c by (auto simp: covered_iff)
  have "i < 4" using i(1) by (cases op) auto
  then obtain cfg where cfg: "map_of (is_routes issuer) route = Some cfg" "root_ok (rc_base_prefix cfg @ ''/'') root"
    using session_root_ok [OF assms(2,1)] i(2) by blast
  then have "starts_with k (rc_base_prefix cfg @ ''/'')"
    using i(3) by (auto simp: root_ok_def under_def starts_with_iff)
  moreover have "mono (env w' 0) < fs_deadline s \<and> nat (utc (env w' 1)) div 1000000000 < pl_expires_at (fs_payload s)"
    using check session_check_ok by (metis prod.collapse)
  ultimately show ?thesis using cfg(1) k i by blast
qed

text \<open>C12: a token verifies only if it carries the issuer's MAC of the bytes its payload is decoded from, the
  caller presents that payload's access key, and the payload is for this route, its bucket and its
  region, was issued no later than now for a lifetime of fifteen minutes to twelve hours, and has not
  expired, neither at the reading at which it is validated nor at the reading after the session was
  built; the secret and the deadline of the session are those of this token at these readings, and
  the deadline is still ahead at the end.\<close>

theorem token_authentic:
  assumes "fst (verify_session U L issuer route access_key token w) = Inr s"
  shows "\<exists>cfg bytes tag. map_of (is_routes issuer) route = Some cfg \<and> length token \<le> rc_token_bytes cfg
     \<and> hmac L (is_pepper issuer) (TOKEN_DOMAIN @ frames u64_to_be_bytes [bytes]) = Some tag
     \<and> json_dec L bytes = Some (fs_payload s)
     \<and> (\<exists>b t. token = TOKEN_PREFIX @ ''.'' @ b @ ''.'' @ t \<and> b64_dec L b = Some bytes \<and> b64_dec L t = Some tag)
     \<and> pl_access_key (fs_payload s) = access_key \<and> session_secret L (is_pepper issuer) access_key tag = Inr (fs_secret s)
     \<and> pl_route (fs_payload s) = rc_name cfg \<and> pl_bucket (fs_payload s) = rc_bucket cfg \<and> pl_region (fs_payload s) = rc_region cfg
     \<and> 0 \<le> utc (env w 1) \<and> pl_issued_at (fs_payload s) \<le> nat (utc (env w 1)) div 1000000000
     \<and> nat (utc (env w 1)) div 1000000000 < pl_expires_at (fs_payload s)
     \<and> nat (utc (env w 3)) div 1000000000 < pl_expires_at (fs_payload s)
     \<and> pl_issued_at (fs_payload s) + 900 \<le> pl_expires_at (fs_payload s)
     \<and> pl_expires_at (fs_payload s) \<le> pl_issued_at (fs_payload s) + 43200
     \<and> fs_deadline s = mono (env w 0) + (pl_expires_at (fs_payload s) * 1000000000 - nat (utc (env w 1)))
     \<and> mono (env w 2) < fs_deadline s \<and> mono (env w 4) < fs_deadline s"
proof (rule verify_session_ok [OF assms], goal_cases)
  case (1 cfg tag)
  obtain b t bytes where t: "split_on (CHR ''.'') token = [TOKEN_PREFIX, b, t]" "b64_dec L b = Some bytes"
    "b64_dec L t = Some tag" "mac L (is_pepper issuer) TOKEN_DOMAIN [bytes] = Inr tag"
    "json_dec L bytes = Some (fs_payload s)"
    using token_open_ok [OF 1(3)] .
  have "token = join_with (CHR ''.'') [TOKEN_PREFIX, b, t]"
    using arg_cong [OF t(1), of "join_with (CHR ''.'')"] by simp
  then have "\<exists>b t. token = TOKEN_PREFIX @ ''.'' @ b @ ''.'' @ t \<and> b64_dec L b = Some bytes \<and> b64_dec L t = Some tag"
    using t(2,3) by auto
  moreover have "hmac L (is_pepper issuer) (TOKEN_DOMAIN @ frames u64_to_be_bytes [bytes]) = Some tag"
    using t(4) by (simp add: mac_def)
  ultimately show ?case
    using 1 t(5) payload_validate_ok [OF 1(4)] by (intro exI [of _ cfg] exI [of _ bytes] exI [of _ tag]) simp
qed

text \<open>C28: issuing and verifying agree: the token of issued credentials verifies at every moment of its
  lifetime, with the secret that was issued, the scope of the grant, and for every operation the
  grant's prefixes below the route's base prefix.\<close>

theorem issue_then_verify:
  fixes w :: "'x world_scheme"
  assumes "session_lib_ok L" "fst (issue U L issuer random grant w) = Inr c"
  shows "\<exists>p. pl_access p = map (\<lambda>op. map (\<lambda>q. ic_base_prefix c @ ''/'' @ q) (grant_prefixes grant op)) ALL_OPERATIONS
     \<and> pl_expires_at p * 1000000000 = ic_expiry c
     \<and> map_option rc_session_secs (map_of (is_routes issuer) (gr_route grant)) = Some (pl_expires_at p - pl_issued_at p)
     \<and> (\<forall>m t. 0 \<le> t \<and> pl_issued_at p \<le> nat t div 1000000000 \<and> nat t < ic_expiry c
          \<and> m + ic_expiry c \<le> time_max \<longrightarrow>
          (\<exists>s. fst (verify_session U L issuer (gr_route grant) (ic_key c) (ic_token c) (frozen m t)) = Inr s
             \<and> fs_payload s = p \<and> fs_scope s = gr_scope grant \<and> fs_secret s = ic_secret c))"
proof -
  obtain w' where "issue U L issuer random grant w = (Inr c, w')"
    using assms(2) by (cases "issue U L issuer random grant w") auto
  then obtain u u' :: "'x world_scheme" where "issue_current U L issuer random grant u = (Inr c, u')"
    by (rule issue_ok)
  then show ?thesis
  proof (rule issue_current_ok)
    fix cfg now r p verified and w1 w2 :: "'x world_scheme"
    assume cfg: "map_of (is_routes issuer) (gr_route grant) = Some cfg"
      and p: "grant_payload L cfg grant now (now + rc_session_secs cfg) r = Inr p"
      and v: "\<exists>scope. payload_validate U L p cfg now = Inr scope"
      and e: "token_encode L issuer p = Inr (ic_token c)"
      and vs: "verify_session U L issuer (gr_route grant) (pl_access_key p) (ic_token c) w1 = (Inr verified, w2)"
      and c: "ic_key c = pl_access_key p" "ic_secret c = fs_secret verified" "length (ic_token c) \<le> rc_token_bytes cfg"
        "ic_expiry c = pl_expires_at (fs_payload verified) * 1000000000" "ic_base_prefix c = rc_base_prefix cfg"
    have access: "pl_access p = map (\<lambda>op. map (\<lambda>q. ic_base_prefix c @ ''/'' @ q) (grant_prefixes grant op)) ALL_OPERATIONS"
      using p c(5) by (auto simp: grant_payload_def)
    then have "length (pl_access p) = 4" by (simp add: ALL_OPERATIONS_def)
    then obtain tag where o: "token_open L issuer (ic_token c) = Inr (p, tag)"
      using token_open_encode [OF assms(1) _ e] by blast
    obtain scope where scope: "payload_validate U L p cfg now = Inr scope" using v by blast
    have "scope = gr_scope grant"
      using validated_scope_of_grant [OF p payload_validate_ok(1) [OF scope]] .
    have same: "fs_payload verified = p" "session_secret L (is_pepper issuer) (pl_access_key p) tag = Inr (ic_secret c)"
      using verify_session_ok [of U L issuer "gr_route grant" "pl_access_key p" "ic_token c" w1 verified] vs o c(2)
      by (auto elim!: verify_session_ok)
    show ?thesis
    proof (intro exI [of _ p] conjI allI impI)
      show "pl_expires_at p * 1000000000 = ic_expiry c" using c(4) same(1) by simp
      show "map_option rc_session_secs (map_of (is_routes issuer) (gr_route grant)) = Some (pl_expires_at p - pl_issued_at p)"
        using p cfg by (auto simp: grant_payload_def)
      fix m :: nat and t :: int
      assume t: "0 \<le> t \<and> pl_issued_at p \<le> nat t div 1000000000 \<and> nat t < ic_expiry c \<and> m + ic_expiry c \<le> time_max"
      then have "nat t div 1000000000 < pl_expires_at p"
        using c(4) same(1) by (simp add: div_less_iff_less_mult)
      with t have "payload_validate U L p cfg (nat t div 1000000000) = Inr scope"
        using payload_validate_later [OF scope] by blast
      then have "fst (verify_session U L issuer (gr_route grant) (pl_access_key p) (ic_token c) (frozen m t)) = Inr
          \<lparr>fs_payload = p, fs_scope = scope, fs_secret = ic_secret c,
           fs_deadline = m + (pl_expires_at p * 1000000000 - nat t)\<rparr>"
        using t c(4) same by (intro verify_session_frozen [OF cfg c(3) o]) auto
      then show "\<exists>s. fst (verify_session U L issuer (gr_route grant) (ic_key c) (ic_token c) (frozen m t)) = Inr s
             \<and> fs_payload s = p \<and> fs_scope s = gr_scope grant \<and> fs_secret s = ic_secret c"
        using c(1) \<open>scope = _\<close> by simp
    qed (rule access)
  qed
qed

subsection \<open>Witnesses\<close>

text \<open>Small library instances: a dot-free escape for base64, a constant MAC, and a codec for one
  payload.\<close>

fun demo_esc :: "string \<Rightarrow> string" where
  "demo_esc [] = []"
| "demo_esc (c # cs) =
     (if c = CHR ''.'' then ''~1'' @ demo_esc cs
      else if c = CHR ''~'' then ''~0'' @ demo_esc cs else c # demo_esc cs)"

fun demo_unesc :: "string \<Rightarrow> string option" where
  "demo_unesc [] = Some []"
| "demo_unesc [c] = (if c = CHR ''~'' then None else Some [c])"
| "demo_unesc (c # d # cs) =
     (if c = CHR ''~'' then map_option (Cons (if d = CHR ''1'' then CHR ''.'' else CHR ''~'')) (demo_unesc cs)
      else map_option (Cons c) (demo_unesc (d # cs)))"

definition demo_key :: string where
  "demo_key = replicate 43 (CHR ''a'')"

definition demo_payload :: Payload where
  "demo_payload = \<lparr>pl_access_key = demo_key, pl_route = ''main'', pl_bucket = ''graphit'', pl_region = ''eu'',
     pl_subject = ''op|s'', pl_scope = SS_Project demo_project, pl_module = ''task'', pl_revision = 1,
     pl_issued_at = 1, pl_expires_at = 901, pl_access = [[''base/'' @ demo_prefix], [], [], []]\<rparr>"

definition demo_lib :: session_lib where
  "demo_lib = \<lparr>url_parse = \<lambda>_. None, b64_enc = demo_esc, b64_dec = demo_unesc, hmac = \<lambda>_ _. Some ''T'',
     json_enc = \<lambda>p. if p = demo_payload then Some ''P'' else None,
     json_dec = \<lambda>b. if b = ''P'' then Some demo_payload else None, format_time = \<lambda>_. Some ''t''\<rparr>"

definition demo_route :: FilesystemStorageRouteConfig where
  "demo_route = \<lparr>rc_name = ''main'', rc_bucket = ''graphit'', rc_region = ''eu'', rc_base_prefix = ''base'',
     rc_endpoint = ''https://x/'', rc_session_secs = 900, rc_session_nanos = 0, rc_token_bytes = 200\<rparr>"

definition demo_issuer :: FilesystemStorageIssuer where
  "demo_issuer = \<lparr>is_routes = [(''main'', demo_route)], is_pepper = replicate 32 (CHR ''p'')\<rparr>"

definition demo_grant :: AuthorizedStorageGrant where
  "demo_grant = \<lparr>gr_auth = \<lparr>sa_identity = SI_Native (demo_access\<lparr>ba_expires_at := 1000000000000,
         ba_expires_mono := 1000000000000, ba_original := 1000000000000\<rparr>), sa_end = 1000000000000,
       sa_expires_at = 1000000000000, sa_expires_mono = 1000000000000\<rparr>,
     gr_scope = demo_scope, gr_route = ''main'', gr_revision = 1, gr_access = [[demo_prefix], [], [], []]\<rparr>"

lemma demo_esc_dotfree: "CHR ''.'' \<notin> set (demo_esc s)"
  by (induction s) auto

lemma demo_unesc_esc: "demo_unesc (demo_esc s) = Some s"
proof (induction s)
  case (Cons c cs)
  then show ?case by (cases "demo_esc cs") auto
qed simp

lemma demo_lib_ok: "session_lib_ok demo_lib"
  by (auto simp: session_lib_ok_def demo_lib_def demo_esc_dotfree demo_unesc_esc demo_payload_def
      split: if_splits)

lemma auth_check_frozen:
  assumes "m < sa_end a" "t < int (sa_expires_at a)" "m < sa_expires_mono a"
    and "\<And>p. sa_identity a = SI_Native p \<Longrightarrow> m < ba_original p \<and> t < int (ba_expires_at p) \<and> m < ba_expires_mono p"
  shows "auth_check a (frozen m t) = (Inr (), frozen m t)"
  using assms
  by (cases "sa_identity a")
     (simp_all add: auth_check_def ba_check_def ba_check_deadline_def deadline_check_def pseq_def pbind_def
        now_tick_frozen pguard_def plift_def require_def pmap_err_def pret_def Let_def)

lemma demo_root_ok: "root_ok ''base/'' (''base/'' @ demo_prefix)"
proof -
  have "list_all key_byte (''base/'' @ demo_prefix)" by code_simp
  moreover have "list_all (\<lambda>part. part \<noteq> [] \<and> part \<noteq> ''.'' \<and> part \<noteq> ''..'')
      (split_on (CHR ''/'') (''base/'' @ demo_prefix))" by code_simp
  moreover have "length demo_prefix = 51" by (simp add: demo_prefix_def demo_project_def)
  ultimately show ?thesis by (simp add: root_ok_def key_def starts_with_def)
qed

lemma demo_validate: "payload_validate demo_ulid demo_lib demo_payload demo_route 1 = Inr demo_scope"
proof -
  have "demo_unesc demo_key = Some demo_key" by code_simp
  then show ?thesis
    using demo_root_ok demo_project_canonical
    by (simp add: payload_validate_def validated_scope_def module_of_str_def scope_project_def demo_payload_def
        demo_lib_def demo_route_def demo_scope_def demo_key_def)
qed

lemma demo_token: "token_encode demo_lib demo_issuer demo_payload = Inr ''rust-fs1.P.T''"
  by (simp add: token_encode_def mac_def demo_lib_def TOKEN_PREFIX_def ok_or_def)

lemma demo_verified:
  "fst (verify_session demo_ulid demo_lib demo_issuer ''main'' demo_key ''rust-fs1.P.T'' (frozen 5 1000000000)) = Inr
     \<lparr>fs_payload = demo_payload, fs_scope = demo_scope, fs_secret = ''T'', fs_deadline = 900000000005\<rparr>"
proof -
  have k: "pl_access_key demo_payload = demo_key" "pl_expires_at demo_payload = 901" by (simp_all add: demo_payload_def)
  obtain tag where o: "token_open demo_lib demo_issuer ''rust-fs1.P.T'' = Inr (demo_payload, tag)"
    using token_open_encode [OF demo_lib_ok _ demo_token] by (auto simp: demo_payload_def)
  have "map_of (is_routes demo_issuer) ''main'' = Some demo_route" by (simp add: demo_issuer_def)
  then show ?thesis
    using verify_session_frozen [OF _ _ o, of "''main''" demo_route demo_ulid 1000000000 demo_scope "''T''" 5]
      demo_validate k
    by (simp add: session_secret_def mac_def demo_lib_def ok_or_def demo_route_def time_max_def)
qed

lemma demo_verify_frozen:
  "verify_session demo_ulid demo_lib demo_issuer ''main'' demo_key ''rust-fs1.P.T'' (frozen 5 1000000000)
     = (Inr \<lparr>fs_payload = demo_payload, fs_scope = demo_scope, fs_secret = ''T'', fs_deadline = 900000000005\<rparr>,
        frozen 5 1000000000)"
proof -
  have stays: "snd (p (frozen m t)) = frozen m t" if "reads_only p" for p :: "(unit, 'e, 'a) prog" and m t
  proof -
    have "advances (frozen m t) (snd (p (frozen m t)))" using that by (simp add: reads_only_def)
    then show ?thesis by (auto simp: advances_def frozen_def)
  qed
  have "reads_only (verify_session demo_ulid demo_lib demo_issuer ''main'' demo_key ''rust-fs1.P.T''
      :: (unit, FilesystemSessionError, VerifiedFilesystemSession) prog)"
    unfolding verify_session_def verify_at_def pseq_def
    by (intro reads_only_pbind) simp_all
  from stays [OF this] demo_verified show ?thesis
    by (metis prod.collapse)
qed

lemma demo_issued:
  "\<exists>c. fst (issue demo_ulid demo_lib demo_issuer (Some demo_key) demo_grant (frozen 5 1000000000)) = Inr c
     \<and> ic_key c = demo_key \<and> ic_token c = ''rust-fs1.P.T'' \<and> ic_base_prefix c = ''base'' \<and> ic_expiry c = 901000000000"
proof -
  have k: "demo_esc demo_key = demo_key" by code_simp
  have p: "grant_payload demo_lib demo_route demo_grant 1 901 demo_key = Inr demo_payload"
    using k by (simp add: grant_payload_def session_scope_def demo_grant_def demo_scope_def demo_lib_def demo_route_def
        demo_payload_def grant_canonical_subject_def auth_subject_def identity_issuer_subject_def demo_access_def
        grant_prefixes_def ALL_OPERATIONS_def)
  have g: "grant_check demo_grant (frozen 5 1000000000) = (Inr (), frozen 5 1000000000)"
    unfolding grant_check_def by (rule auth_check_frozen) (auto simp: demo_grant_def)
  show ?thesis
    using p g demo_validate demo_token demo_verify_frozen
    by (simp add: issue_def issue_current_def pseq_def pbind_def pattempt_def plift_def pmap_err_def pret_def
        now_tick_frozen seconds_def ok_or_def demo_issuer_def demo_grant_def u64_max_def i64_max_def demo_route_def
        demo_payload_def demo_lib_def session_check_frozen grant_request_deadline_def Let_def)
qed

theorem issue_then_verify_witness:
  "\<exists>s. fst (verify_session demo_ulid demo_lib demo_issuer ''main'' demo_key ''rust-fs1.P.T'' (frozen 7 2000000000)) = Inr s
     \<and> pl_access (fs_payload s) ! 0 = [''base/'' @ demo_prefix]"
proof -
  obtain c where c: "fst (issue demo_ulid demo_lib demo_issuer (Some demo_key) demo_grant (frozen 5 1000000000)) = Inr c"
    "ic_key c = demo_key" "ic_token c = ''rust-fs1.P.T''" "ic_base_prefix c = ''base''" "ic_expiry c = 901000000000"
    using demo_issued by blast
  have g: "gr_route demo_grant = ''main''" "grant_prefixes demo_grant Op_Read = [demo_prefix]"
    by (simp_all add: demo_grant_def grant_prefixes_def)
  from issue_then_verify [OF demo_lib_ok c(1)] show ?thesis
  proof (elim exE conjE)
    fix p
    assume access: "pl_access p = map (\<lambda>op. map (\<lambda>q. ic_base_prefix c @ ''/'' @ q) (grant_prefixes demo_grant op)) ALL_OPERATIONS"
      and exp: "pl_expires_at p * 1000000000 = ic_expiry c"
      and secs: "map_option rc_session_secs (map_of (is_routes demo_issuer) (gr_route demo_grant)) = Some (pl_expires_at p - pl_issued_at p)"
      and v: "\<forall>m t. 0 \<le> t \<and> pl_issued_at p \<le> nat t div 1000000000 \<and> nat t < ic_expiry c \<and> m + ic_expiry c \<le> time_max \<longrightarrow>
          (\<exists>s. fst (verify_session demo_ulid demo_lib demo_issuer (gr_route demo_grant) (ic_key c) (ic_token c) (frozen m t)) = Inr s
             \<and> fs_payload s = p \<and> fs_scope s = gr_scope demo_grant \<and> fs_secret s = ic_secret c)"
    have "pl_issued_at p = 1"
      using exp secs c(5) g(1) by (simp add: demo_issuer_def demo_route_def)
    then obtain s where "fst (verify_session demo_ulid demo_lib demo_issuer ''main'' demo_key ''rust-fs1.P.T'' (frozen 7 2000000000)) = Inr s"
      "fs_payload s = p"
      using v [rule_format, of 2000000000 7] c(2,3,5) g(1) by (auto simp: time_max_def)
    then show ?thesis
      using access c(4) g(2) by (simp add: ALL_OPERATIONS_def)
  qed
qed

theorem token_authentic_witness:
  "\<exists>bytes tag. hmac demo_lib (is_pepper demo_issuer) (TOKEN_DOMAIN @ frames u64_to_be_bytes [bytes]) = Some tag
     \<and> json_dec demo_lib bytes = Some demo_payload \<and> 1 < pl_expires_at demo_payload"
  using token_authentic [OF demo_verified] by (auto simp: frozen_def)

theorem session_confined_witness:
  "\<exists>s. fst (allows s Op_Read (''base/'' @ demo_prefix @ ''/x'') (frozen 5 1000000000)) = Inr True
     \<and> starts_with (''base/'' @ demo_prefix @ ''/x'') (rc_base_prefix demo_route @ ''/'')"
proof -
  let ?s = "\<lparr>fs_payload = demo_payload, fs_scope = demo_scope, fs_secret = ''T'', fs_deadline = 900000000005\<rparr>"
  have "list_all key_byte (''base/'' @ demo_prefix @ ''/x'')"
    "list_all (\<lambda>part. part \<noteq> [] \<and> part \<noteq> ''.'' \<and> part \<noteq> ''..'') (split_on (CHR ''/'') (''base/'' @ demo_prefix @ ''/x''))"
    by code_simp+
  then have "key (''base/'' @ demo_prefix @ ''/x'')"
    by (simp add: key_def demo_prefix_def demo_project_def)
  moreover have "covered ?s (op_indices Op_Read) (''base/'' @ demo_prefix @ ''/x'')"
    by (simp add: covered_iff demo_payload_def under_def)
  ultimately have a: "fst (allows ?s Op_Read (''base/'' @ demo_prefix @ ''/x'') (frozen 5 1000000000)) = Inr True"
    by (simp add: allows_True session_check_frozen demo_payload_def)
  from session_confined [OF demo_lib_ok demo_verified a] show ?thesis
    using a by (auto simp: demo_issuer_def)
qed

end
