(* ===== verification/Fs_Tree.thy ===== *)
theory Fs_Tree
  imports Prelude "HOL-Library.AList"
begin

text \<open>
  The directory trees that the filesystem store keeps its objects in, as far as the store's system
  calls can see them: regular files with their contents and modification times, directories with
  named entries, symbolic links and special files.  An open directory handle is the path of the
  directory; the store never removes or renames a directory of its trees, so a handle stays valid.
  The locale states what the object operations rely on (what a slot holds after a file is placed in
  it or removed from it, and that no other slot changes) and proves their consequences once; it is
  interpreted on the tree operations.
\<close>

record inode =
  f_content :: string
  f_modified :: int

datatype node = FileN inode | DirN "(string \<times> node) list" | LinkN | SpecialN

fun lookup :: "node \<Rightarrow> string list \<Rightarrow> node option" where
  "lookup n [] = Some n"
| "lookup (DirN es) (p # ps) = (case map_of es p of None \<Rightarrow> None | Some c \<Rightarrow> lookup c ps)"
| "lookup _ (p # ps) = None"

text \<open>Replace, add or remove the entry at a path whose directory exists.\<close>

fun update_at :: "string list \<Rightarrow> node option \<Rightarrow> node \<Rightarrow> node" where
  "update_at [] v n = n"
| "update_at [p] v (DirN es) =
     (case v of None \<Rightarrow> DirN (AList.delete p es) | Some c \<Rightarrow> DirN (AList.update p c es))"
| "update_at (p # q # ps) v (DirN es) =
     (case map_of es p of None \<Rightarrow> DirN es
      | Some c \<Rightarrow> DirN (AList.update p (update_at (q # ps) v c) es))"
| "update_at (p # ps) v n = n"

definition is_dir :: "node option \<Rightarrow> bool" where
  "is_dir n = (case n of Some (DirN _) \<Rightarrow> True | _ \<Rightarrow> False)"

text \<open>What a node is, without what it contains.\<close>

definition shape :: "node option \<Rightarrow> node option" where
  "shape n = (case n of Some (DirN _) \<Rightarrow> Some (DirN []) | _ \<Rightarrow> n)"

definition as_file :: "node option \<Rightarrow> inode option" where
  "as_file n = (case n of Some (FileN f) \<Rightarrow> Some f | _ \<Rightarrow> None)"

text \<open>The objects of a tree: the regular files by path.\<close>

definition objects :: "node \<Rightarrow> string list \<Rightarrow> inode option" where
  "objects t p = as_file (lookup t p)"

text \<open>A path is a slot for an object: its directory exists, and it holds a regular file or nothing.\<close>

definition slot :: "node \<Rightarrow> string list \<Rightarrow> bool" where
  "slot t p \<longleftrightarrow> p \<noteq> [] \<and> is_dir (lookup t (butlast p))
     \<and> (lookup t p = None \<or> (\<exists>f. lookup t p = Some (FileN f)))"

definition put_file :: "string list \<Rightarrow> inode \<Rightarrow> node \<Rightarrow> node" where
  "put_file p f t = update_at p (Some (FileN f)) t"

definition remove_file :: "string list \<Rightarrow> node \<Rightarrow> node" where
  "remove_file p t = update_at p None t"

definition make_dir :: "string list \<Rightarrow> node \<Rightarrow> node" where
  "make_dir p t = update_at p (Some (DirN [])) t"

text \<open>No directory has two entries of one name.\<close>

fun node_wf :: "node \<Rightarrow> bool" where
  "node_wf (DirN es) \<longleftrightarrow> distinct (map fst es) \<and> (\<forall>e\<in>set es. node_wf (snd e))"
| "node_wf _ \<longleftrightarrow> True"

text \<open>A tree that has gained directories only.\<close>

definition extends :: "node \<Rightarrow> node \<Rightarrow> bool" where
  "extends t t' \<longleftrightarrow> objects t' = objects t \<and> (\<forall>q. is_dir (lookup t q) \<longrightarrow> is_dir (lookup t' q))
     \<and> (node_wf t \<longrightarrow> node_wf t')"

subsection \<open>Laws of the tree\<close>

lemma as_file_simps [simp]:
  "as_file None = None" "as_file (Some (FileN f)) = Some f" "as_file (Some (DirN es)) = None"
  "as_file (Some LinkN) = None" "as_file (Some SpecialN) = None"
  by (simp_all add: as_file_def)

lemma is_dir_simps [simp]:
  "\<not> is_dir None" "\<not> is_dir (Some (FileN f))" "is_dir (Some (DirN es))"
  "\<not> is_dir (Some LinkN)" "\<not> is_dir (Some SpecialN)"
  by (simp_all add: is_dir_def)

lemma shape_simps [simp]:
  "shape None = None" "shape (Some (FileN f)) = Some (FileN f)" "shape (Some (DirN es)) = Some (DirN [])"
  "shape (Some LinkN) = Some LinkN" "shape (Some SpecialN) = Some SpecialN"
  by (simp_all add: shape_def)

lemma shape_eqD:
  assumes "shape m = shape n"
  shows "as_file m = as_file n" "is_dir m = is_dir n" "m = None \<longleftrightarrow> n = None"
    "m = Some (FileN f) \<longleftrightarrow> n = Some (FileN f)"
  using assms by (auto simp: shape_def as_file_def is_dir_def split: option.splits node.splits)

lemma is_dir_iff: "is_dir n \<longleftrightarrow> (\<exists>es. n = Some (DirN es))"
  by (auto simp: is_dir_def split: option.splits node.splits)

lemma lookup_Cons_not_dir: "\<not> is_dir (Some t) \<Longrightarrow> lookup t (p # ps) = None"
  by (cases t) auto

lemma lookup_append: "lookup t (ps @ qs) = Option.bind (lookup t ps) (\<lambda>n. lookup n qs)"
proof (induction t ps rule: lookup.induct)
  case (2 es p ps)
  then show ?case by (auto split: option.splits)
qed auto

lemma lookup_update_same:
  assumes "p \<noteq> []" "is_dir (lookup t (butlast p))"
  shows "lookup (update_at p v t) p = v"
  using assms
proof (induction p v t rule: update_at.induct)
  case (2 p v es)
  then show ?case by (cases v) (auto simp: update_conv' delete_conv')
next
  case (3 p q ps v es)
  then show ?case by (auto simp: update_conv' split: option.splits)
qed (auto simp: lookup_Cons_not_dir split: if_splits)

lemma lookup_update_other:
  assumes "\<not> (\<exists>r. q = p @ r)" "p \<noteq> []"
  shows "shape (lookup (update_at p v t) q) = shape (lookup t q)"
  using assms
proof (induction p v t arbitrary: q rule: update_at.induct)
  case (2 p v es)
  then show ?case
    by (cases q; cases v) (auto simp: update_conv' delete_conv' split: option.splits)
next
  case (3 p q' ps v es)
  show ?case
  proof (cases q)
    case (Cons r rs)
    show ?thesis
    proof (cases "map_of es p")
      case (Some c)
      then show ?thesis
        using Cons "3.IH" [OF Some, of rs] "3.prems"
        by (auto simp: update_conv' split: option.splits)
    qed simp
  qed (auto split: option.splits)
qed auto

lemma lookup_update_below:
  assumes "p \<noteq> []" "is_dir (lookup t (butlast p))" "\<not> is_dir v" "r \<noteq> []"
  shows "lookup (update_at p v t) (p @ r) = None"
proof -
  have "lookup (update_at p v t) (p @ r) = Option.bind v (\<lambda>n. lookup n r)"
    using lookup_append lookup_update_same [OF assms(1,2)] by simp
  then show ?thesis
    using assms(3,4) by (cases v; cases r) (auto simp: lookup_Cons_not_dir)
qed

lemma lookup_below_slot:
  assumes "\<not> is_dir (lookup t p)" "r \<noteq> []"
  shows "lookup t (p @ r) = None"
proof (cases "lookup t p")
  case (Some n)
  then show ?thesis
    using assms by (cases r) (auto simp: lookup_append lookup_Cons_not_dir)
qed (simp add: lookup_append)

lemma slot_not_dir: "slot t p \<Longrightarrow> \<not> is_dir (lookup t p)"
  by (auto simp: slot_def)

lemma objects_replace:
  assumes p: "p \<noteq> []" "is_dir (lookup t (butlast p))" and n: "\<not> is_dir (lookup t p)" "\<not> is_dir v"
  shows "objects (update_at p v t) = (objects t)(p := as_file v)"
proof
  fix q
  show "objects (update_at p v t) q = ((objects t)(p := as_file v)) q"
  proof (cases "\<exists>r. q = p @ r")
    case True
    then obtain r where r: "q = p @ r" by blast
    show ?thesis
    proof (cases "r = []")
      case True
      then show ?thesis using r p by (simp add: objects_def lookup_update_same)
    next
      case False
      then show ?thesis
        using r p n(2) lookup_below_slot [OF n(1) False] by (simp add: objects_def lookup_update_below)
    qed
  next
    case False
    then show ?thesis
      using shape_eqD(1) [OF lookup_update_other [OF False p(1)]] by (auto simp: objects_def)
  qed
qed

lemma objects_update:
  "slot t p \<Longrightarrow> \<not> is_dir v \<Longrightarrow> objects (update_at p v t) = (objects t)(p := as_file v)"
  using slot_not_dir by (auto simp: slot_def intro!: objects_replace)

text \<open>Creating a directory in an empty slot leaves the objects as they are.\<close>

lemma objects_make_dir:
  assumes "p \<noteq> []" "lookup t p = None"
  shows "objects (make_dir p t) = objects t"
proof
  fix q
  show "objects (make_dir p t) q = objects t q"
  proof (cases "\<exists>r. q = p @ r")
    case True
    then obtain r where r: "q = p @ r" by blast
    have "lookup t q = None" using r assms(2) by (simp add: lookup_append)
    moreover have "as_file (lookup (make_dir p t) q) = None"
    proof (cases "is_dir (lookup t (butlast p))")
      case True
      then have "lookup (make_dir p t) q = lookup (DirN []) r"
        using r assms(1) lookup_append lookup_update_same by (simp add: make_dir_def)
      then show ?thesis by (cases r) auto
    next
      case False
      have "update_at p v t = t" if "\<not> is_dir (lookup t (butlast p))" for v p t
        using that
      proof (induction p v t rule: update_at.induct)
        case (3 p q ps v es)
        then show ?case
          by (auto split: option.splits simp: update_triv)
      qed auto
      then show ?thesis using False \<open>lookup t q = None\<close> by (simp add: make_dir_def)
    qed
    ultimately show ?thesis by (simp add: objects_def)
  next
    case False
    then show ?thesis
      using shape_eqD(1) [OF lookup_update_other [OF False assms(1)]] by (simp add: objects_def make_dir_def)
  qed
qed

lemma replace_is_dir:
  assumes p: "p \<noteq> []" "is_dir (lookup t (butlast p))" and n: "\<not> is_dir (lookup t p)" "\<not> is_dir v"
  shows "is_dir (lookup (update_at p v t) q) = is_dir (lookup t q)"
proof (cases "\<exists>r. q = p @ r")
  case True
  then obtain r where r: "q = p @ r" by blast
  show ?thesis
  proof (cases "r = []")
    case True
    then show ?thesis using r p n by (simp add: lookup_update_same)
  next
    case False
    then show ?thesis
      using r p n(2) lookup_below_slot [OF n(1) False] by (simp add: lookup_update_below)
  qed
next
  case False
  then show ?thesis using shape_eqD(2) [OF lookup_update_other [OF False p(1)]] by simp
qed

lemma update_is_dir:
  "slot t p \<Longrightarrow> \<not> is_dir v \<Longrightarrow> is_dir (lookup (update_at p v t) q) = is_dir (lookup t q)"
  using slot_not_dir by (intro replace_is_dir) (auto simp: slot_def)

lemma slot_update:
  assumes "slot t p" "slot t q" "\<not> is_dir v" "v \<noteq> Some LinkN" "v \<noteq> Some SpecialN"
  shows "slot (update_at p v t) q"
proof -
  have p: "p \<noteq> []" "is_dir (lookup t (butlast p))" using assms(1) by (simp_all add: slot_def)
  have "lookup (update_at p v t) q = None \<or> (\<exists>f. lookup (update_at p v t) q = Some (FileN f))"
  proof (cases "\<exists>r. q = p @ r")
    case True
    then obtain r where r: "q = p @ r" by blast
    show ?thesis
    proof (cases "r = []")
      case True
      then show ?thesis
        using r p assms(3-5) by (cases v rule: option.exhaust)
          (auto simp: lookup_update_same is_dir_def split: node.splits)
    qed (use r p assms(3) lookup_update_below in simp)
  next
    case False
    then show ?thesis
      using assms(2) shape_eqD(3,4) [OF lookup_update_other [OF False p(1)]] by (auto simp: slot_def)
  qed
  then show ?thesis
    using assms(2) update_is_dir [OF assms(1,3)] by (simp add: slot_def)
qed

lemma node_wf_child: "node_wf (DirN es) \<Longrightarrow> map_of es p = Some c \<Longrightarrow> node_wf c"
  by (auto dest: map_of_SomeD)

lemma node_wf_AList_update:
  assumes "node_wf (DirN es)" "node_wf c"
  shows "node_wf (DirN (AList.update p c es))"
proof -
  have "node_wf (snd e)" if "e \<in> set (AList.update p c es)" for e
    using that assms by (induction es) (auto split: if_splits)
  then show ?thesis using assms(1) by (simp add: distinct_update)
qed

lemma node_wf_update:
  assumes "node_wf t" "\<And>n. v = Some n \<Longrightarrow> node_wf n"
  shows "node_wf (update_at p v t)"
  using assms
proof (induction p v t rule: update_at.induct)
  case (2 p v es)
  show ?case
  proof (cases v)
    case None
    then show ?thesis
      using "2.prems"(1) distinct_delete [of es p] by (auto simp: AList.delete_eq)
  next
    case (Some c)
    then show ?thesis
      using node_wf_AList_update [OF "2.prems"(1), of c p] "2.prems"(2) by simp
  qed
next
  case (3 p q ps v es)
  show ?case
  proof (cases "map_of es p")
    case (Some c)
    then show ?thesis
      using node_wf_AList_update [OF "3.prems"(1) "3.IH" [OF Some]] "3.prems" node_wf_child [OF "3.prems"(1) Some]
      by simp
  qed (use 3 in simp)
qed simp_all

lemma extends_refl [simp]: "extends t t"
  by (simp add: extends_def)

lemma extends_trans: "extends t u \<Longrightarrow> extends u v \<Longrightarrow> extends t v"
  by (simp add: extends_def)

lemma extends_make_dir:
  assumes "p \<noteq> []" "lookup t p = None"
  shows "extends t (make_dir p t)"
proof -
  have "is_dir (lookup (make_dir p t) q)" if "is_dir (lookup t q)" for q
  proof (cases "\<exists>r. q = p @ r")
    case True
    then show ?thesis using that assms(2) by (auto simp: lookup_append)
  next
    case False
    then show ?thesis
      using that shape_eqD(2) [OF lookup_update_other [OF False assms(1)]] by (simp add: make_dir_def)
  qed
  then show ?thesis
    using objects_make_dir [OF assms] node_wf_update [of t "Some (DirN [])" p]
    by (auto simp: extends_def make_dir_def)
qed

subsection \<open>The contract of object slots\<close>

locale object_slots =
  fixes held :: "'s \<Rightarrow> 'k \<Rightarrow> 'v option"
    and place :: "'k \<Rightarrow> 'v \<Rightarrow> 's \<Rightarrow> 's"
    and drop_at :: "'k \<Rightarrow> 's \<Rightarrow> 's"
    and usable :: "'s \<Rightarrow> 'k \<Rightarrow> bool"
  assumes held_place: "usable s k \<Longrightarrow> held (place k v s) = (held s)(k := Some v)"
    and held_drop: "usable s k \<Longrightarrow> held (drop_at k s) = (held s)(k := None)"
    and usable_place: "usable s k \<Longrightarrow> usable s j \<Longrightarrow> usable (place k v s) j"
    and usable_drop: "usable s k \<Longrightarrow> usable s j \<Longrightarrow> usable (drop_at k s) j"
begin

lemma place_other: "usable s k \<Longrightarrow> j \<noteq> k \<Longrightarrow> held (place k v s) j = held s j"
  by (simp add: held_place)

lemma last_place_wins: "usable s k \<Longrightarrow> held (place k v (place k u s)) = held (place k v s)"
  by (simp add: held_place usable_place)

lemma place_drop: "usable s k \<Longrightarrow> held s k = None \<Longrightarrow> held (drop_at k (place k v s)) = held s"
  by (auto simp: held_place held_drop usable_place)

lemma places_commute:
  "usable s j \<Longrightarrow> usable s k \<Longrightarrow> j \<noteq> k \<Longrightarrow>
     held (place j u (place k v s)) = held (place k v (place j u s))"
  by (simp add: held_place usable_place fun_upd_twist)

lemma drop_all:
  "(\<And>k. k \<in> set ks \<Longrightarrow> usable s k) \<Longrightarrow> held (fold drop_at ks s) = held s |` (- set ks)"
proof (induction ks arbitrary: s)
  case (Cons k ks)
  then have "held (fold drop_at ks (drop_at k s)) = held (drop_at k s) |` (- set ks)"
    by (simp add: usable_drop)
  then show ?case
    using Cons.prems by (auto simp: held_drop restrict_map_def)
qed (simp add: restrict_map_def)

end

interpretation tree: object_slots objects put_file remove_file slot
  by unfold_locales (simp_all add: put_file_def remove_file_def objects_update slot_update)

end
