(* ===== verification/Fs_Store.thy ===== *)
theory Fs_Store
  imports Fs_Session Fs_Tree
begin

text \<open>
  The native filesystem object store of \<^verbatim>\<open>filesystem_store.rs\<close>: requests, conditions,
  ETags, path resolution below the data and metadata directories, object descriptions, reads, the
  staged write with its two renames, and deletion.  The state is the two directory trees; every
  system call takes one reading of the environment and fails without effect when that reading
  reports a fault (a rename or an unlink is atomic).  A shard lock is taken after as many failed
  rounds as the environment reports.  An operation is one sequential run: the shard locks serialise
  the operations on one key.  The staging directory is the value the writer holds, since nothing
  else reads it.  SHA-256, the JSON form of the metadata, the header-value syntax and the MIME
  guess are parameters.
\<close>

subsection \<open>State, parameters and errors\<close>

record fs = world +
  fs_data :: node
  fs_meta :: node

datatype io_kind = Io_NotFound | Io_InvalidPartBody | Io_Other

datatype FilesystemStoreError =
    SE_InvalidConfiguration | SE_VolumeBusy | SE_InvalidKey | SE_Forbidden | SE_NotFound
  | SE_InvalidRange | SE_InvalidArgument | SE_NoSuchUpload | SE_InvalidPart | SE_InvalidPartOrder
  | SE_Crypto | SE_InvalidMetadata | SE_Precondition | SE_BadDigest | SE_TooLarge | SE_Cancelled
  | SE_Session FilesystemSessionError | SE_Io io_kind | SE_CommitUncertain FilesystemStoreError

datatype content_value = CV_Null | CV_String string | CV_Other

record derived =
  dv_etag :: "string option"
  dv_size :: "nat option"
  dv_modified :: "int option"

record Metadata =
  md_content_type :: content_value
  md_derived :: "derived option"

record store_lib =
  sha256 :: "string \<Rightarrow> string"
  header_value :: "string \<Rightarrow> bool"
  mime :: "string \<Rightarrow> string"
  meta_enc :: "Metadata \<Rightarrow> string option"
  meta_dec :: "string \<Rightarrow> Metadata option"

record FilesystemStoreConfig =
  sc_bucket :: string
  sc_max_object_bytes :: nat
  sc_metadata_bytes :: nat

record FilesystemConditions =
  if_match :: "string option"
  if_none_match :: "string option"

record FilesystemPutOptions =
  po_content_type :: "string option"
  po_expected_digest :: "string option"
  po_conditions :: FilesystemConditions

record FilesystemObjectInfo =
  oi_size :: nat
  oi_etag :: string
  oi_content_type :: string
  oi_modified :: int

record FilesystemObjectRead =
  or_file :: inode
  or_info :: FilesystemObjectInfo
  or_offset :: nat
  or_length :: nat

record PreparedObject =
  pr_payload :: inode
  pr_metadata :: inode
  pr_info :: FilesystemObjectInfo

text \<open>The original deadline of a request; its cancellation token is read from the environment.\<close>

type_synonym FilesystemRequest = nat

type_synonym ('x, 'a) sprog = "('x, FilesystemStoreError, 'a) prog"

definition request_check :: "FilesystemRequest \<Rightarrow> VerifiedFilesystemSession \<Rightarrow> ('x, unit) sprog" where
  "request_check rq s =
     pseq (pmap_err SE_Session (session_check s rq))
     (pbind now_tick (\<lambda>t. pguard (\<not> cancelled t) SE_Cancelled))"

subsection \<open>Conditions and ETags\<close>

definition header :: "store_lib \<Rightarrow> string \<Rightarrow> bool" where
  "header S v \<longleftrightarrow> v \<noteq> [] \<and> header_value S v"

definition HEX :: string where
  "HEX = ''0123456789abcdef''"

definition is_ascii_hexdigit :: "char \<Rightarrow> bool" where
  "is_ascii_hexdigit c \<longleftrightarrow> c \<in> set ''0123456789abcdefABCDEF''"

definition etag :: "string \<Rightarrow> string" where
  "etag hash = [CHR 0x22] @ concat (map (\<lambda>b. [HEX ! (byte_of b div 16), HEX ! (byte_of b mod 16)]) hash) @ [CHR 0x22]"

definition valid_etag :: "string \<Rightarrow> bool" where
  "valid_etag v \<longleftrightarrow> length v = 66 \<and> starts_with v [CHR 0x22] \<and> ends_with v [CHR 0x22]
     \<and> list_all is_ascii_hexdigit (take 64 (drop 1 v))"

definition condition :: "string \<Rightarrow> string option \<Rightarrow> bool" where
  "condition v current = list_ex (\<lambda>x. if x = ''*'' then current \<noteq> None else valid_etag x \<and> current = Some x)
     (map trim (split_on (CHR '','') v))"

definition conditions_check :: "FilesystemConditions \<Rightarrow> string option \<Rightarrow> FilesystemStoreError + unit" where
  "conditions_check c current =
     require (\<not> ((case if_match c of None \<Rightarrow> False | Some v \<Rightarrow> \<not> condition v current)
               \<or> (case if_none_match c of None \<Rightarrow> False | Some v \<Rightarrow> condition v current))) SE_Precondition"

subsection \<open>System calls\<close>

datatype area = Data | Meta

definition tree_of :: "area \<Rightarrow> 'y fs_scheme \<Rightarrow> node" where
  "tree_of a w = (case a of Data \<Rightarrow> fs_data w | Meta \<Rightarrow> fs_meta w)"

definition set_tree :: "area \<Rightarrow> node \<Rightarrow> 'y fs_scheme \<Rightarrow> 'y fs_scheme" where
  "set_tree a t w = (case a of Data \<Rightarrow> w\<lparr>fs_data := t\<rparr> | Meta \<Rightarrow> w\<lparr>fs_meta := t\<rparr>)"

definition sys :: "('x, unit) sprog" where
  "sys = pbind now_tick (\<lambda>t. pguard (\<not> fault t) (SE_Io Io_Other))"

definition stat :: "area \<Rightarrow> string list \<Rightarrow> ('y fs_ext, node option) sprog" where
  "stat a p = (\<lambda>w. (Inr (lookup (tree_of a w) p), w))"

definition change :: "area \<Rightarrow> (node \<Rightarrow> node) \<Rightarrow> ('y fs_ext, unit) sprog" where
  "change a f = (\<lambda>w. (Inr (), set_tree a (f (tree_of a w)) w))"

text \<open>Reopening a held directory and flushing it.\<close>

definition sync_dir :: "('x, unit) sprog" where
  "sync_dir = pseq sys sys"

definition open_dir_nofollow :: "area \<Rightarrow> string list \<Rightarrow> ('y fs_ext, unit) sprog" where
  "open_dir_nofollow a p = pseq sys (pbind (stat a p) (\<lambda>n. case n of
       Some (DirN _) \<Rightarrow> pret () | None \<Rightarrow> praise (SE_Io Io_NotFound) | Some _ \<Rightarrow> praise (SE_Io Io_Other)))"

definition owned_dir :: "area \<Rightarrow> string list \<Rightarrow> string \<Rightarrow> ('y fs_ext, string list) sprog" where
  "owned_dir a parent name =
     pseq sys (pbind (stat a (parent @ [name])) (\<lambda>n.
     pseq (case n of None \<Rightarrow> pseq (change a (make_dir (parent @ [name]))) sync_dir | Some _ \<Rightarrow> pret ())
     (pseq (open_dir_nofollow a (parent @ [name])) (pret (parent @ [name])))))"

definition missing :: "FilesystemStoreError \<Rightarrow> FilesystemStoreError" where
  "missing e = (if e = SE_Io Io_NotFound then SE_NotFound else e)"

text \<open>Opening an entry for reading without following links; a directory opens as well.\<close>

definition open_entry :: "area \<Rightarrow> string list \<Rightarrow> ('y fs_ext, node) sprog" where
  "open_entry a p = pseq sys (pbind (stat a p) (\<lambda>n. case n of
       None \<Rightarrow> praise (SE_Io Io_NotFound) | Some LinkN \<Rightarrow> praise (SE_Io Io_Other) | Some m \<Rightarrow> pret m))"

definition symlink_metadata :: "area \<Rightarrow> string list \<Rightarrow> ('y fs_ext, node) sprog" where
  "symlink_metadata a p = pseq sys (pbind (stat a p) (\<lambda>n. case n of
       None \<Rightarrow> praise (SE_Io Io_NotFound) | Some m \<Rightarrow> pret m))"

definition is_file :: "node \<Rightarrow> bool" where
  "is_file n = (case n of FileN _ \<Rightarrow> True | _ \<Rightarrow> False)"

subsection \<open>Locks, authority and path resolution\<close>

definition shard :: "store_lib \<Rightarrow> string \<Rightarrow> nat" where
  "shard S k = byte_of (sha256 S k ! 0)"

text \<open>Each failed round of ten milliseconds starts the loop again with a request check.\<close>

primrec lock_rounds :: "nat \<Rightarrow> VerifiedFilesystemSession \<Rightarrow> FilesystemRequest \<Rightarrow> ('x, unit) sprog" where
  "lock_rounds 0 s rq = pseq (request_check rq s) (request_check rq s)"
| "lock_rounds (Suc n) s rq = pseq (request_check rq s) (lock_rounds n s rq)"

definition lock :: "VerifiedFilesystemSession \<Rightarrow> FilesystemRequest \<Rightarrow> ('x, unit) sprog" where
  "lock s rq = pbind now_tick (\<lambda>t. lock_rounds (contended t) s rq)"

definition authorize ::
  "FilesystemStoreConfig \<Rightarrow> VerifiedFilesystemSession \<Rightarrow> FilesystemRequest \<Rightarrow> StorageOperation \<Rightarrow> string
     \<Rightarrow> ('x, unit) sprog" where
  "authorize cfg s rq operation k =
     pseq (request_check rq s)
     (if pl_bucket (fs_payload s) \<noteq> sc_bucket cfg then praise SE_Forbidden
      else if \<not> key k then praise SE_InvalidKey
      else pbind (pmap_err SE_Session (allows s operation k)) (\<lambda>b. pguard b SE_Forbidden))"

fun descend :: "area \<Rightarrow> bool \<Rightarrow> string list \<Rightarrow> string list \<Rightarrow> ('y fs_ext, string list) sprog" where
  "descend a create dir [] = praise SE_InvalidKey"
| "descend a create dir [part] = pret (dir @ [part])"
| "descend a create dir (part # q # parts) =
     pbind (if create then owned_dir a dir part
            else pmap_err missing (pseq (open_dir_nofollow a (dir @ [part])) (pret (dir @ [part]))))
     (\<lambda>d. descend a create d (q # parts))"

text \<open>The directory of a key and the key's name in it, as one path.\<close>

definition parent :: "area \<Rightarrow> string \<Rightarrow> bool \<Rightarrow> ('y fs_ext, string list) sprog" where
  "parent a k create =
     (if \<not> key k then praise SE_InvalidKey
      else pseq sys (descend a create [] (split_on (CHR ''/'') k)))"

definition data_file :: "string \<Rightarrow> ('y fs_ext, inode) sprog" where
  "data_file k =
     pbind (parent Data k False) (\<lambda>p.
     pbind (pmap_err missing (open_entry Data p)) (\<lambda>n.
     pseq sys (case n of FileN f \<Rightarrow> pret f | _ \<Rightarrow> praise SE_InvalidKey)))"

definition parse_metadata :: "store_lib \<Rightarrow> FilesystemStoreConfig \<Rightarrow> string \<Rightarrow> FilesystemStoreError + Metadata" where
  "parse_metadata S cfg content =
     (let bytes = take (sc_metadata_bytes cfg + 1) content
      in if length bytes > sc_metadata_bytes cfg then Inl SE_InvalidMetadata
         else rbind (ok_or (meta_dec S bytes) SE_InvalidMetadata) (\<lambda>meta.
           case md_content_type meta of
             CV_Null \<Rightarrow> Inr meta
           | CV_String v \<Rightarrow> if header S v then Inr meta else Inl SE_InvalidMetadata
           | CV_Other \<Rightarrow> Inl SE_InvalidMetadata))"

definition metadata :: "store_lib \<Rightarrow> FilesystemStoreConfig \<Rightarrow> string \<Rightarrow> ('y fs_ext, Metadata option) sprog" where
  "metadata S cfg k =
     pbind (pattempt (parent Meta k False)) (\<lambda>r. case r of
       Inl e \<Rightarrow> if e = SE_NotFound then pret None else praise e
     | Inr p \<Rightarrow>
         pbind (pattempt (open_entry Meta p)) (\<lambda>opened. case opened of
           Inl e \<Rightarrow> if e = SE_Io Io_NotFound then pret None else praise e
         | Inr n \<Rightarrow> pseq sys (case n of
             FileN f \<Rightarrow> pseq sys (pbind (plift (parse_metadata S cfg (f_content f))) (\<lambda>m. pret (Some m)))
           | _ \<Rightarrow> praise SE_InvalidMetadata)))"

subsection \<open>Describing and reading objects\<close>

definition BUFFER :: nat where
  "BUFFER = 16384"

text \<open>What successive reads of a file return before the end of the file.\<close>

function file_reads :: "string \<Rightarrow> string list" where
  "file_reads c = (if c = [] then [] else take BUFFER c # file_reads (drop BUFFER c))"
  by pat_completeness auto
termination
  by (relation "measure length") (auto simp: BUFFER_def)

declare file_reads.simps [simp del]

text \<open>The system time as JSON exists from the epoch on.\<close>

definition json_time :: "int \<Rightarrow> int option" where
  "json_time t = (if 0 \<le> t then Some t else None)"

definition cached_etag :: "Metadata option \<Rightarrow> inode \<Rightarrow> string option" where
  "cached_etag meta f =
     Option.bind (json_time (f_modified f)) (\<lambda>time. Option.bind meta (\<lambda>m. Option.bind (md_derived m) (\<lambda>v.
     Option.bind (dv_etag v) (\<lambda>e.
       if valid_etag e \<and> dv_size v = Some (length (f_content f)) \<and> dv_modified v = Some time
       then Some e else None))))"

definition meta_content_type :: "store_lib \<Rightarrow> string \<Rightarrow> Metadata option \<Rightarrow> string" where
  "meta_content_type S k meta =
     (case meta of Some m \<Rightarrow> (case md_content_type m of CV_String v \<Rightarrow> v | _ \<Rightarrow> mime S k) | None \<Rightarrow> mime S k)"

fun digest_loop :: "VerifiedFilesystemSession \<Rightarrow> FilesystemRequest \<Rightarrow> string list \<Rightarrow> string \<Rightarrow> ('x, string) sprog" where
  "digest_loop s rq [] seen = pseq (request_check rq s) (pseq sys (pret seen))"
| "digest_loop s rq (c # cs) seen =
     pseq (request_check rq s) (pseq sys (if c = [] then pret seen else digest_loop s rq cs (seen @ c)))"

definition describe ::
  "store_lib \<Rightarrow> FilesystemStoreConfig \<Rightarrow> string \<Rightarrow> inode \<Rightarrow> VerifiedFilesystemSession \<Rightarrow> FilesystemRequest
     \<Rightarrow> ('y fs_ext, FilesystemObjectInfo) sprog" where
  "describe S cfg k f s rq =
     pseq (request_check rq s) (pseq sys
     (pbind (metadata S cfg k) (\<lambda>meta.
      pbind (case cached_etag meta f of
               Some e \<Rightarrow> pret e
             | None \<Rightarrow> pseq sys (pbind (digest_loop s rq (file_reads (f_content f)) []) (\<lambda>seen.
                 pret (etag (sha256 S seen))))) (\<lambda>e.
      pseq sys (pseq (request_check rq s)
      (pret \<lparr>oi_size = length (f_content f), oi_etag = e,
             oi_content_type = meta_content_type S k meta, oi_modified = f_modified f\<rparr>))))))"

text \<open>Run the body, check the request once more whatever the body returned, and give its result.\<close>

definition checked :: "FilesystemRequest \<Rightarrow> VerifiedFilesystemSession \<Rightarrow> ('x, 'a) sprog \<Rightarrow> ('x, 'a) sprog" where
  "checked rq s body = pbind (pattempt body) (\<lambda>r. pseq (request_check rq s) (plift r))"

definition store_head ::
  "store_lib \<Rightarrow> FilesystemStoreConfig \<Rightarrow> VerifiedFilesystemSession \<Rightarrow> string \<Rightarrow> FilesystemRequest
     \<Rightarrow> ('y fs_ext, FilesystemObjectInfo) sprog" where
  "store_head S cfg s k rq =
     pseq (authorize cfg s rq Op_Read k)
     (checked rq s (pseq (lock s rq) (pbind (data_file k) (\<lambda>f. describe S cfg k f s rq))))"

definition byte_range :: "(nat \<times> nat) option \<Rightarrow> nat \<Rightarrow> FilesystemStoreError + nat \<times> nat" where
  "byte_range wanted bytes = (case wanted of
       None \<Rightarrow> Inr (0, bytes)
     | Some (start, stop) \<Rightarrow>
         if start < bytes \<and> start < stop then Inr (start, min stop bytes - start) else Inl SE_InvalidRange)"

definition open_range ::
  "store_lib \<Rightarrow> FilesystemStoreConfig \<Rightarrow> VerifiedFilesystemSession \<Rightarrow> string \<Rightarrow> (nat \<times> nat) option
     \<Rightarrow> FilesystemRequest \<Rightarrow> ('y fs_ext, FilesystemObjectRead) sprog" where
  "open_range S cfg s k wanted rq =
     pseq (authorize cfg s rq Op_Read k)
     (checked rq s (pseq (lock s rq) (pbind (data_file k) (\<lambda>f. pbind (describe S cfg k f s rq) (\<lambda>info.
        pbind (plift (byte_range wanted (oi_size info))) (\<lambda>(offset, len).
        pseq sys (pret \<lparr>or_file = f, or_info = info, or_offset = offset, or_length = len\<rparr>)))))))"

subsection \<open>Staged writes\<close>

text \<open>Copy the chunks the body yields into the staged payload; an empty read ends the body.  A body is the
  chunks its reads return and, if a read fails by itself, the error after them.\<close>

fun copy_loop ::
  "FilesystemStoreConfig \<Rightarrow> VerifiedFilesystemSession \<Rightarrow> FilesystemRequest \<Rightarrow> string list
     \<Rightarrow> FilesystemStoreError option \<Rightarrow> string \<Rightarrow> ('x, string) sprog" where
  "copy_loop cfg s rq [] broken written =
     pseq (request_check rq s) (pseq sys (case broken of None \<Rightarrow> pret written | Some e \<Rightarrow> praise e))"
| "copy_loop cfg s rq (c # cs) broken written =
     pseq (request_check rq s) (pseq sys
     (if c = [] then pret written
      else if u64_max < length written + length c then praise SE_TooLarge
      else if sc_max_object_bytes cfg < length written + length c then praise SE_TooLarge
      else pseq sys (copy_loop cfg s rq cs broken (written @ c))))"

definition hex_digest :: "string \<Rightarrow> bool" where
  "hex_digest d \<longleftrightarrow> length d = 64 \<and> list_all is_ascii_hexdigit d"

definition author :: "string option \<Rightarrow> content_value" where
  "author content_type = (case content_type of None \<Rightarrow> CV_Null | Some v \<Rightarrow> CV_String v)"

definition encode_metadata :: "store_lib \<Rightarrow> FilesystemStoreConfig \<Rightarrow> Metadata \<Rightarrow> FilesystemStoreError + string" where
  "encode_metadata S cfg m =
     rbind (ok_or (meta_enc S m) SE_InvalidMetadata) (\<lambda>bytes.
       if length bytes > sc_metadata_bytes cfg then Inl SE_InvalidMetadata else Inr bytes)"

definition derive :: "string \<Rightarrow> string \<Rightarrow> int \<Rightarrow> derived option" where
  "derive hash content modified = map_option (\<lambda>time.
     \<lparr>dv_etag = Some hash, dv_size = Some (length content), dv_modified = Some time\<rparr>) (json_time modified)"

definition prepare ::
  "store_lib \<Rightarrow> FilesystemStoreConfig \<Rightarrow> VerifiedFilesystemSession \<Rightarrow> string \<Rightarrow> string list
     \<Rightarrow> FilesystemStoreError option \<Rightarrow> string option \<Rightarrow> string option \<Rightarrow> FilesystemRequest \<Rightarrow> ('x, PreparedObject) sprog" where
  "prepare S cfg s k body broken content_type expected_digest rq =
     pseq (request_check rq s)
     (if (case content_type of None \<Rightarrow> False | Some v \<Rightarrow> \<not> header S v) then praise SE_InvalidMetadata
      else if (case expected_digest of None \<Rightarrow> False | Some d \<Rightarrow> \<not> hex_digest d) then praise SE_BadDigest
      else pbind (plift (encode_metadata S cfg \<lparr>md_content_type = author content_type, md_derived = None\<rparr>)) (\<lambda>_.
      pseq sys (pseq sys
      (pbind (copy_loop cfg s rq body broken []) (\<lambda>content.
       let hash = etag (sha256 S content) in
       if (case expected_digest of None \<Rightarrow> False
           | Some d \<Rightarrow> to_ascii_lowercase d \<noteq> to_ascii_lowercase (take 64 (drop 1 hash))) then praise SE_BadDigest
       else pseq sys (pseq sys (pbind now_tick (\<lambda>t.
       pbind (plift (encode_metadata S cfg
         \<lparr>md_content_type = author content_type, md_derived = derive hash content (utc t)\<rparr>)) (\<lambda>bytes.
       pseq sys (pseq sys (pseq sys (pseq (request_check rq s)
       (pret \<lparr>pr_payload = \<lparr>f_content = content, f_modified = utc t\<rparr>,
              pr_metadata = \<lparr>f_content = bytes, f_modified = utc t\<rparr>,
              pr_info = \<lparr>oi_size = length content, oi_etag = hash,
                oi_content_type = (case content_type of Some v \<Rightarrow> v | None \<Rightarrow> mime S k),
                oi_modified = utc t\<rparr>\<rparr>)))))))))))))"

text \<open>The ETag of the current object, if there is one.\<close>

definition current_etag ::
  "store_lib \<Rightarrow> FilesystemStoreConfig \<Rightarrow> string \<Rightarrow> VerifiedFilesystemSession \<Rightarrow> FilesystemRequest
     \<Rightarrow> ('y fs_ext, string option) sprog" where
  "current_etag S cfg k s rq =
     pbind (pattempt (data_file k)) (\<lambda>r. case r of
       Inr f \<Rightarrow> pbind (describe S cfg k f s rq) (\<lambda>info. pret (Some (oi_etag info)))
     | Inl e \<Rightarrow> if e = SE_NotFound then pret None else praise e)"

definition check_conditions ::
  "store_lib \<Rightarrow> FilesystemStoreConfig \<Rightarrow> VerifiedFilesystemSession \<Rightarrow> string \<Rightarrow> FilesystemConditions
     \<Rightarrow> FilesystemRequest \<Rightarrow> ('y fs_ext, unit) sprog" where
  "check_conditions S cfg s k conditions rq =
     (if if_match conditions \<noteq> None \<or> if_none_match conditions \<noteq> None
      then pbind (current_etag S cfg k s rq) (\<lambda>current. plift (conditions_check conditions current))
      else pret ())"

text \<open>The target of a publication is a regular file or absent.\<close>

definition replaceable :: "area \<Rightarrow> string list \<Rightarrow> ('y fs_ext, unit) sprog" where
  "replaceable a p = pbind (pattempt (symlink_metadata a p)) (\<lambda>r. case r of
       Inr n \<Rightarrow> pguard (is_file n) SE_InvalidKey
     | Inl e \<Rightarrow> if e = SE_Io Io_NotFound then pret () else praise e)"

definition publish_locked ::
  "store_lib \<Rightarrow> FilesystemStoreConfig \<Rightarrow> VerifiedFilesystemSession \<Rightarrow> string \<Rightarrow> PreparedObject
     \<Rightarrow> FilesystemConditions \<Rightarrow> FilesystemRequest \<Rightarrow> ('y fs_ext, FilesystemObjectInfo) sprog" where
  "publish_locked S cfg s k prepared conditions rq =
     pseq (request_check rq s)
     (pseq (check_conditions S cfg s k conditions rq)
     (pbind (parent Data k True) (\<lambda>data. pbind (parent Meta k True) (\<lambda>meta.
      pseq (replaceable Data data) (pseq (replaceable Meta meta) (pseq (request_check rq s)
      (pseq sys (pseq (change Data (put_file data (pr_payload prepared)))
      (pseq (pmap_err SE_CommitUncertain
         (pseq sys (pseq (change Meta (put_file meta (pr_metadata prepared)))
          (pseq sync_dir (pseq sync_dir (pseq (request_check rq s) sys))))))
      (pret (pr_info prepared)))))))))))"

text \<open>After the body: a late expiry or cancellation turns a committed result into an uncertain one.\<close>

definition settled :: "FilesystemRequest \<Rightarrow> VerifiedFilesystemSession \<Rightarrow> ('a \<Rightarrow> bool) \<Rightarrow> ('x, 'a) sprog \<Rightarrow> ('x, 'a) sprog" where
  "settled rq s committed body = pbind (pattempt body) (\<lambda>r. case r of
       Inr x \<Rightarrow> pseq (if committed x then pmap_err SE_CommitUncertain (request_check rq s)
                      else request_check rq s) (pret x)
     | Inl (SE_CommitUncertain e) \<Rightarrow> praise (SE_CommitUncertain e)
     | Inl e \<Rightarrow> pseq (request_check rq s) (praise e))"

definition store_put ::
  "store_lib \<Rightarrow> FilesystemStoreConfig \<Rightarrow> VerifiedFilesystemSession \<Rightarrow> string \<Rightarrow> string list
     \<Rightarrow> FilesystemPutOptions \<Rightarrow> FilesystemRequest \<Rightarrow> ('y fs_ext, FilesystemObjectInfo) sprog" where
  "store_put S cfg s k body opts rq =
     pseq (authorize cfg s rq Op_Write k)
     (settled rq s (\<lambda>_. True)
        (pbind (prepare S cfg s k body None (po_content_type opts) (po_expected_digest opts) rq) (\<lambda>prepared.
         pseq (lock s rq) (publish_locked S cfg s k prepared (po_conditions opts) rq))))"

subsection \<open>Deletion\<close>

text \<open>Removing an entry: absent entries and directories are refused by the system call.\<close>

definition unlink :: "area \<Rightarrow> string list \<Rightarrow> ('y fs_ext, unit) sprog" where
  "unlink a p = pseq sys (pbind (stat a p) (\<lambda>n. case n of
       None \<Rightarrow> praise (SE_Io Io_NotFound) | Some (DirN _) \<Rightarrow> praise (SE_Io Io_Other)
     | Some _ \<Rightarrow> change a (remove_file p)))"

definition drop_metadata :: "string \<Rightarrow> ('y fs_ext, unit) sprog" where
  "drop_metadata k = pbind (pattempt (parent Meta k False)) (\<lambda>r. case r of
       Inr p \<Rightarrow> pbind (pattempt (unlink Meta p)) (\<lambda>u. case u of
           Inr _ \<Rightarrow> sync_dir
         | Inl e \<Rightarrow> if e = SE_Io Io_NotFound then pret () else praise e)
     | Inl e \<Rightarrow> if e = SE_NotFound then pret () else praise e)"

definition remove_object :: "VerifiedFilesystemSession \<Rightarrow> string \<Rightarrow> FilesystemRequest \<Rightarrow> ('y fs_ext, bool) sprog" where
  "remove_object s k rq = pbind (pattempt (parent Data k False)) (\<lambda>r. case r of
       Inl e \<Rightarrow> if e = SE_NotFound then pret False else praise e
     | Inr p \<Rightarrow> pbind (pattempt (symlink_metadata Data p)) (\<lambda>m. case m of
           Inl e \<Rightarrow> if e = SE_Io Io_NotFound then pret False else praise e
         | Inr n \<Rightarrow> if \<not> is_file n then praise SE_InvalidKey
             else pseq (request_check rq s) (pseq (unlink Data p)
               (pseq (pmap_err SE_CommitUncertain
                  (pseq (drop_metadata k) (pseq sync_dir (request_check rq s))))
                (pret True)))))"

definition delete_condition ::
  "store_lib \<Rightarrow> FilesystemStoreConfig \<Rightarrow> VerifiedFilesystemSession \<Rightarrow> string \<Rightarrow> string option
     \<Rightarrow> FilesystemRequest \<Rightarrow> ('y fs_ext, unit) sprog" where
  "delete_condition S cfg s k expected rq = (case expected of None \<Rightarrow> pret ()
     | Some v \<Rightarrow> pbind (current_etag S cfg k s rq) (\<lambda>current.
         plift (conditions_check \<lparr>if_match = Some v, if_none_match = None\<rparr> current)))"

definition delete_inner ::
  "store_lib \<Rightarrow> FilesystemStoreConfig \<Rightarrow> VerifiedFilesystemSession \<Rightarrow> string \<Rightarrow> string option
     \<Rightarrow> FilesystemRequest \<Rightarrow> ('y fs_ext, unit) sprog" where
  "delete_inner S cfg s k expected rq =
     pseq (authorize cfg s rq Op_Delete k)
     (pseq (settled rq s (\<lambda>removed. removed) (pseq (lock s rq)
        (pseq (delete_condition S cfg s k expected rq) (remove_object s k rq))))
      (pret ()))"

definition store_delete ::
  "store_lib \<Rightarrow> FilesystemStoreConfig \<Rightarrow> VerifiedFilesystemSession \<Rightarrow> string \<Rightarrow> FilesystemRequest
     \<Rightarrow> ('y fs_ext, unit) sprog" where
  "store_delete S cfg s k rq = delete_inner S cfg s k None rq"

definition delete_if_match ::
  "store_lib \<Rightarrow> FilesystemStoreConfig \<Rightarrow> VerifiedFilesystemSession \<Rightarrow> string \<Rightarrow> string \<Rightarrow> FilesystemRequest
     \<Rightarrow> ('y fs_ext, unit) sprog" where
  "delete_if_match S cfg s k expected rq = delete_inner S cfg s k (Some expected) rq"

subsection \<open>Programs that leave the stored objects alone\<close>

definition same_objects :: "'y fs_scheme \<Rightarrow> 'y fs_scheme \<Rightarrow> bool" where
  "same_objects w w' \<longleftrightarrow> extends (fs_data w) (fs_data w') \<and> extends (fs_meta w) (fs_meta w')"

definition keeps :: "('y fs_ext, 'e, 'a) prog \<Rightarrow> bool" where
  "keeps p \<longleftrightarrow> (\<forall>w. same_objects w (snd (p w)))"

definition uncertain :: "FilesystemStoreError \<Rightarrow> bool" where
  "uncertain e = (case e of SE_CommitUncertain _ \<Rightarrow> True | _ \<Rightarrow> False)"

text \<open>Every error that does not announce an uncertain commit leaves the objects as they were.\<close>

definition certain :: "('y fs_ext, 'a) sprog \<Rightarrow> bool" where
  "certain p \<longleftrightarrow> (\<forall>w e. fst (p w) = Inl e \<longrightarrow> \<not> uncertain e \<longrightarrow> same_objects w (snd (p w)))"

named_theorems keeps_intros
named_theorems certain_intros
named_theorems quiet

lemma same_objects_refl [simp]: "same_objects w w"
  by (simp add: same_objects_def)

lemma same_objects_trans: "same_objects u v \<Longrightarrow> same_objects v w \<Longrightarrow> same_objects u w"
  by (auto simp: same_objects_def intro: extends_trans)

lemma advances_trees:
  fixes w :: "'y fs_scheme"
  shows "advances w w' \<Longrightarrow> fs_data w' = fs_data w \<and> fs_meta w' = fs_meta w"
  by (auto simp: advances_def)

lemma reads_only_keeps: "reads_only p \<Longrightarrow> keeps p"
  unfolding reads_only_def keeps_def same_objects_def by (metis advances_trees extends_refl)

lemma keeps_pbind [keeps_intros]: "keeps p \<Longrightarrow> (\<And>x. keeps (f x)) \<Longrightarrow> keeps (pbind p f)"
  unfolding keeps_def pbind_def
  by (auto split: prod.splits sum.splits) (metis same_objects_trans snd_conv)+

lemma keeps_pseq [keeps_intros]: "keeps p \<Longrightarrow> keeps q \<Longrightarrow> keeps (pseq p q)"
  by (simp add: pseq_def keeps_pbind)

lemma keeps_pattempt [keeps_intros]: "keeps p \<Longrightarrow> keeps (pattempt p)"
  unfolding keeps_def pattempt_def by (auto split: prod.splits) (metis snd_conv)

lemma keeps_pmap_err [keeps_intros]: "keeps p \<Longrightarrow> keeps (pmap_err g p)"
  unfolding keeps_def pmap_err_def by (auto split: prod.splits sum.splits) (metis snd_conv)+

lemma reads_only_pseq [intro, quiet]: "reads_only p \<Longrightarrow> reads_only q \<Longrightarrow> reads_only (pseq p q)"
  unfolding pseq_def by (intro reads_only_pbind)

lemma reads_only_sum_case [intro, quiet]:
  "(\<And>x. reads_only (f x)) \<Longrightarrow> (\<And>y. reads_only (g y)) \<Longrightarrow> reads_only (case r of Inl x \<Rightarrow> f x | Inr y \<Rightarrow> g y)"
  by (cases r) auto

lemma reads_only_option_case [intro, quiet]:
  "reads_only p \<Longrightarrow> (\<And>y. reads_only (g y)) \<Longrightarrow> reads_only (case r of None \<Rightarrow> p | Some y \<Rightarrow> g y)"
  by (cases r) auto

lemma reads_only_node_case [intro, quiet]:
  "(\<And>f. reads_only (p f)) \<Longrightarrow> (\<And>es. reads_only (q es)) \<Longrightarrow> reads_only r \<Longrightarrow> reads_only s \<Longrightarrow>
     reads_only (case n of FileN f \<Rightarrow> p f | DirN es \<Rightarrow> q es | LinkN \<Rightarrow> r | SpecialN \<Rightarrow> s)"
  by (cases n) auto

declare reads_only_pret [quiet] reads_only_praise [quiet] reads_only_plift [quiet]
  reads_only_now_tick [quiet] reads_only_pbind [quiet] reads_only_pmap_err [quiet]
  reads_only_pattempt [quiet] reads_only_pguard [quiet] reads_only_if [quiet]
  reads_only_session_check [quiet] reads_only_allows [quiet]

lemma reads_only_request_check [simp, quiet]: "reads_only (request_check rq s)"
  unfolding request_check_def by (intro quiet)

lemma reads_only_sys [simp, quiet]: "reads_only sys"
  unfolding sys_def by (intro quiet)

lemma reads_only_stat [simp, quiet]: "reads_only (stat a p)"
  by (simp add: reads_only_def stat_def)

lemma reads_only_sync_dir [simp, quiet]: "reads_only sync_dir"
  unfolding sync_dir_def by (intro quiet)

lemma reads_only_lock_rounds [simp, quiet]: "reads_only (lock_rounds n s rq)"
  by (induction n) (auto intro: quiet)

lemma reads_only_lock [simp, quiet]: "reads_only (lock s rq)"
  unfolding lock_def by (intro quiet)

lemma reads_only_authorize [simp, quiet]: "reads_only (authorize cfg s rq operation k)"
  unfolding authorize_def by (intro quiet)

lemma reads_only_open_dir [simp, quiet]: "reads_only (open_dir_nofollow a p)"
  unfolding open_dir_nofollow_def by (intro quiet)

lemma reads_only_descend [simp, quiet]: "reads_only (descend a False d parts)"
  by (induction a False d parts rule: descend.induct) (auto intro!: quiet)

lemma reads_only_parent [simp, quiet]: "reads_only (parent a k False)"
  unfolding parent_def by (intro quiet)

lemma reads_only_entries [simp, quiet]: "reads_only (open_entry a p)" "reads_only (symlink_metadata a p)"
  unfolding open_entry_def symlink_metadata_def by (intro quiet)+

lemma reads_only_data_file [simp, quiet]: "reads_only (data_file k)"
  unfolding data_file_def by (intro quiet)

lemma reads_only_metadata [simp, quiet]: "reads_only (metadata S cfg k)"
  unfolding metadata_def by (intro quiet)

lemma reads_only_digest_loop [simp, quiet]: "reads_only (digest_loop s rq cs seen)"
  by (induction s rq cs seen rule: digest_loop.induct) (auto intro!: quiet)

lemma reads_only_describe [simp, quiet]: "reads_only (describe S cfg k f s rq)"
  unfolding describe_def by (intro quiet)

lemma reads_only_current_etag [simp, quiet]: "reads_only (current_etag S cfg k s rq)"
  unfolding current_etag_def by (intro quiet)

lemma reads_only_check_conditions [simp, quiet]: "reads_only (check_conditions S cfg s k c rq)"
  unfolding check_conditions_def by (intro quiet)

lemma reads_only_delete_condition [simp, quiet]: "reads_only (delete_condition S cfg s k expected rq)"
  unfolding delete_condition_def by (intro quiet)

lemma reads_only_copy_loop [simp, quiet]: "reads_only (copy_loop cfg s rq body broken written)"
  by (induction cfg s rq body broken written rule: copy_loop.induct) (auto intro!: quiet split: option.splits)

lemma reads_only_prepare [simp, quiet]: "reads_only (prepare S cfg s k body broken ct dg rq)"
  unfolding prepare_def Let_def by (intro quiet)

lemma reads_only_replaceable [simp, quiet]: "reads_only (replaceable a p)"
  unfolding replaceable_def by (intro quiet)

lemma reads_only_checked [quiet]: "reads_only body \<Longrightarrow> reads_only (checked rq s body)"
  unfolding checked_def by (intro quiet)

lemma reads_only_store_head [simp, quiet]: "reads_only (store_head S cfg s k rq)"
  unfolding store_head_def by (intro quiet)

lemma reads_only_open_range [simp, quiet]: "reads_only (open_range S cfg s k wanted rq)"
  unfolding open_range_def split_def by (intro quiet)

lemmas keeps_atoms [keeps_intros] =
  reads_only_pret [THEN reads_only_keeps] reads_only_praise [THEN reads_only_keeps]
  reads_only_plift [THEN reads_only_keeps] reads_only_pguard [THEN reads_only_keeps]
  reads_only_request_check [THEN reads_only_keeps] reads_only_sys [THEN reads_only_keeps]
  reads_only_stat [THEN reads_only_keeps] reads_only_sync_dir [THEN reads_only_keeps]
  reads_only_lock [THEN reads_only_keeps] reads_only_authorize [THEN reads_only_keeps]
  reads_only_open_dir [THEN reads_only_keeps] reads_only_entries [THEN reads_only_keeps]
  reads_only_data_file [THEN reads_only_keeps] reads_only_describe [THEN reads_only_keeps]
  reads_only_current_etag [THEN reads_only_keeps] reads_only_prepare [THEN reads_only_keeps]
  reads_only_replaceable [THEN reads_only_keeps]

subsection \<open>Creating the directories of a key\<close>

lemma pbind_stat: "pbind (stat a p) f w = f (lookup (tree_of a w) p) w"
  by (simp add: pbind_def stat_def)

lemma tree_of_set_tree [simp]:
  "tree_of a (set_tree b t w) = (if a = b then t else tree_of a w)" "env (set_tree b t w) = env w"
  by (cases a; cases b; simp add: tree_of_def set_tree_def)+

lemma same_objects_set_tree: "extends (tree_of a w) t \<Longrightarrow> same_objects w (set_tree a t w)"
  by (cases a) (simp_all add: same_objects_def tree_of_def set_tree_def)

lemma keepsD: "keeps p \<Longrightarrow> p w = (r, w') \<Longrightarrow> same_objects w w'"
  by (metis keeps_def snd_conv)

lemma keeps_ensure_dir:
  fixes q :: "('y fs_ext, 'a) sprog"
  assumes "p \<noteq> []" "keeps q"
  shows "keeps (pbind (stat a p) (\<lambda>n.
     pseq (case n of None \<Rightarrow> pseq (change a (make_dir p)) sync_dir | Some _ \<Rightarrow> pret ()) q))"
  unfolding keeps_def
proof
  fix w :: "'y fs_scheme"
  let ?w1 = "set_tree a (make_dir p (tree_of a w)) w"
  let ?r = "\<lambda>n. pseq (case n of None \<Rightarrow> pseq (change a (make_dir p)) sync_dir | Some _ \<Rightarrow> pret ()) q"
  show "same_objects w (snd (pbind (stat a p) ?r w))"
  proof (cases "lookup (tree_of a w) p")
    case None
    have "?r None w = pseq sync_dir q ?w1"
      by (simp add: pseq_def change_def pbind_def)
    moreover have "keeps (pseq sync_dir q)" using assms(2) by (auto intro: keeps_intros)
    ultimately have "same_objects ?w1 (snd (?r None w))" by (simp add: keeps_def)
    then show ?thesis
      using None same_objects_set_tree [OF extends_make_dir [OF assms(1) None]] same_objects_trans
      by (auto simp: pbind_stat)
  next
    case (Some n)
    then show ?thesis using assms(2) by (simp add: pbind_stat keeps_def pseq_def)
  qed
qed

lemma keeps_owned_dir [keeps_intros]: "keeps (owned_dir a d name)"
  unfolding owned_dir_def
  by (rule keeps_pseq, rule reads_only_keeps, simp, rule keeps_ensure_dir, simp)
     (intro keeps_intros)

lemma keeps_descend [keeps_intros]: "keeps (descend a create d parts)"
proof (induction a create d parts rule: descend.induct)
  case (3 a create d part q parts)
  then show ?case
    by (cases create) (auto intro!: keeps_intros)
qed (auto intro: keeps_intros)

lemma keeps_parent [keeps_intros]: "keeps (parent a k create)"
  unfolding parent_def by (auto intro!: keeps_intros)

subsection \<open>What successful path operations establish\<close>

definition rooted :: "'y fs_scheme \<Rightarrow> bool" where
  "rooted w \<longleftrightarrow> is_dir (Some (fs_data w)) \<and> is_dir (Some (fs_meta w))"

definition path :: "string \<Rightarrow> string list" where
  "path k = split_on (CHR ''/'') k"

lemma reads_onlyD:
  fixes w :: "'y fs_scheme"
  assumes "reads_only p" "p w = (r, w')"
  shows "fs_data w' = fs_data w" "fs_meta w' = fs_meta w" "tree_of a w' = tree_of a w"
proof -
  have "advances w w'" using assms by (metis reads_only_def snd_conv)
  then show "fs_data w' = fs_data w" "fs_meta w' = fs_meta w" using advances_trees by blast+
  then show "tree_of a w' = tree_of a w" by (simp add: tree_of_def split: area.splits)
qed

lemma reads_only_trees:
  fixes w :: "'y fs_scheme"
  shows "reads_only p \<Longrightarrow> p w = (r, w') \<Longrightarrow> fs_data w' = fs_data w \<and> fs_meta w' = fs_meta w"
  using reads_onlyD by blast

lemmas check_trees = reads_only_trees [OF reads_only_request_check] reads_only_trees [OF reads_only_sync_dir]

lemma rooted_tree: "rooted w \<Longrightarrow> is_dir (lookup (tree_of a w) [])"
  by (cases a) (simp_all add: rooted_def tree_of_def)

lemma extends_dir: "extends t t' \<Longrightarrow> is_dir (lookup t q) \<Longrightarrow> is_dir (lookup t' q)"
  by (simp add: extends_def)

lemma extends_objects: "extends t t' \<Longrightarrow> objects t' = objects t"
  by (simp add: extends_def)

lemma same_objects_tree: "same_objects w w' \<Longrightarrow> extends (tree_of a w) (tree_of a w')"
  by (cases a) (simp_all add: same_objects_def tree_of_def)

lemma same_objects_rooted: "same_objects w w' \<Longrightarrow> rooted w \<Longrightarrow> rooted w'"
  unfolding rooted_def same_objects_def by (metis extends_dir lookup.simps(1))

lemma open_dir_ok:
  fixes w :: "'y fs_scheme"
  assumes "open_dir_nofollow a p w = (Inr u, w')"
  shows "is_dir (lookup (tree_of a w') p)"
proof -
  obtain w1 :: "'y fs_scheme" where s: "sys w = (Inr (), w1)"
    using assms by (auto simp: open_dir_nofollow_def prog_ok)
  have "tree_of a w1 = tree_of a w" using reads_onlyD(3) [OF reads_only_sys s] .
  moreover have "tree_of a w' = tree_of a w" using reads_onlyD(3) [OF reads_only_open_dir assms] .
  ultimately show ?thesis
    using assms s by (auto simp: open_dir_nofollow_def pseq_def pbind_def stat_def praise_def is_dir_def
        split: option.splits node.splits)
qed

lemma owned_dir_ok:
  fixes w :: "'y fs_scheme"
  assumes "owned_dir a d n w = (Inr x, w')"
  shows "x = d @ [n]" "is_dir (lookup (tree_of a w') x)"
  using assms open_dir_ok by (auto simp: owned_dir_def prog_ok)

lemma descend_ok:
  assumes "descend a create d parts w = (Inr p, w')" "is_dir (lookup (tree_of a w) d)"
  shows "p = d @ parts \<and> parts \<noteq> [] \<and> is_dir (lookup (tree_of a w') (butlast p))"
  using assms
proof (induction a create d parts arbitrary: w rule: descend.induct)
  case (3 a create d part q parts)
  then obtain x w1 where
    x: "(if create then owned_dir a d part
          else pmap_err missing (pseq (open_dir_nofollow a (d @ [part])) (pret (d @ [part])))) w = (Inr x, w1)"
    and rest: "descend a create x (q # parts) w1 = (Inr p, w')"
    by (auto simp: pbind_ok)
  have "x = d @ [part] \<and> is_dir (lookup (tree_of a w1) x)"
    using x owned_dir_ok open_dir_ok by (auto simp: prog_ok split: if_splits)
  then show ?case using "3.IH" [OF rest] by auto
qed (auto simp: prog_ok)

lemma parent_ok:
  fixes w :: "'y fs_scheme"
  assumes "parent a k create w = (Inr p, w')" "rooted w"
  shows "key k" "p = path k" "p \<noteq> []" "is_dir (lookup (tree_of a w') (butlast p))"
proof -
  show k: "key k" using assms(1) by (auto simp: parent_def prog_ok split: if_splits)
  then obtain w1 :: "'y fs_scheme" where s: "sys w = (Inr (), w1)"
    and d: "descend a create [] (path k) w1 = (Inr p, w')"
    using assms(1) by (auto simp: parent_def path_def prog_ok)
  have "is_dir (lookup (tree_of a w1) [])"
    using rooted_tree [OF assms(2)] reads_onlyD(3) [OF reads_only_sys s] by metis
  from descend_ok [OF d this]
  show "p = path k" "p \<noteq> []" "is_dir (lookup (tree_of a w') (butlast p))" by auto
qed

lemma sys_ok [prog_ok]: "sys w = (Inr u, w') \<longleftrightarrow> \<not> fault (env w 0) \<and> w' = w\<lparr>env := \<lambda>n. env w (Suc n)\<rparr>"
  by (auto simp: sys_def prog_ok)

lemma replaceable_ok:
  fixes w :: "'y fs_scheme"
  assumes "replaceable a p w = (Inr u, w')"
  shows "lookup (tree_of a w) p = None \<or> (\<exists>f. lookup (tree_of a w) p = Some (FileN f))"
proof (cases "sys w :: (FilesystemStoreError + unit) \<times> 'y fs_scheme")
  case (Pair r w1)
  then have t: "tree_of a w1 = tree_of a w" using reads_onlyD(3) [OF reads_only_sys] by blast
  show ?thesis
  proof (cases r)
    case (Inl e)
    then show ?thesis
      using assms Pair by (auto simp: replaceable_def symlink_metadata_def pseq_def pbind_def pattempt_def
          sys_def now_tick_def pguard_def plift_def require_def praise_def split: if_splits)
  next
    case (Inr x)
    then show ?thesis
      using assms Pair t by (auto simp: replaceable_def symlink_metadata_def pseq_def pbind_def pattempt_def
          stat_def praise_def pret_def pguard_def plift_def require_def is_file_def
          split: option.splits node.splits if_splits)
  qed
qed

subsection \<open>Publication\<close>

lemma quietD: "reads_only p \<Longrightarrow> p w = (r, w') \<Longrightarrow> same_objects w w'"
  using keepsD [OF reads_only_keeps] .

text \<open>The steps before the payload is renamed establish the two slots.\<close>

lemma publish_ok:
  fixes w :: "'y fs_scheme"
  assumes "publish_locked S cfg s k prepared c rq w = (Inr info, w')" "rooted w"
  obtains w1 :: "'y fs_scheme" where "same_objects w w1" "key k" "slot (fs_data w1) (path k)" "slot (fs_meta w1) (path k)"
    "fs_data w' = put_file (path k) (pr_payload prepared) (fs_data w1)"
    "fs_meta w' = put_file (path k) (pr_metadata prepared) (fs_meta w1)"
    "info = pr_info prepared"
proof -
  obtain w1 w2 w3 w4 w5 w6 w7 w8 :: "'y fs_scheme" and x d m where
    r1: "request_check rq s w = (Inr (), w1)"
    and c1: "check_conditions S cfg s k c rq w1 = (Inr (), w2)"
    and d: "parent Data k True w2 = (Inr d, w3)" and m: "parent Meta k True w3 = (Inr m, w4)"
    and rd: "replaceable Data d w4 = (Inr (), w5)" and rm: "replaceable Meta m w5 = (Inr (), w6)"
    and r2: "request_check rq s w6 = (Inr (), w7)" and y: "sys w7 = (Inr (), w8)"
    and rest: "pseq (change Data (put_file d (pr_payload prepared)))
      (pseq (pmap_err SE_CommitUncertain
         (pseq sys (pseq (change Meta (put_file m (pr_metadata prepared)))
          (pseq sync_dir (pseq sync_dir (pseq (request_check rq s) sys))))))
      (pret (pr_info prepared))) w8 = (Inr info, w')"
    using assms(1) unfolding publish_locked_def pseq_ok pbind_ok by (auto simp del: pret_ok)
  have a1: "same_objects w w1" using quietD [OF reads_only_request_check r1] .
  have a2: "same_objects w w2"
    using quietD [OF reads_only_check_conditions c1] a1 same_objects_trans by blast
  have a3: "same_objects w2 w3" using keepsD [OF keeps_parent d] .
  have a4: "same_objects w3 w4" using keepsD [OF keeps_parent m] .
  have ro2: "rooted w2" using same_objects_rooted [OF a2 assms(2)] .
  have ro3: "rooted w3" using same_objects_rooted [OF a3 ro2] .
  note pd = parent_ok [OF d ro2] and pm = parent_ok [OF m ro3]
  have dd: "is_dir (lookup (fs_data w4) (butlast d))"
    using extends_dir [OF same_objects_tree [OF a4, of Data]] pd(4) by (simp add: tree_of_def)
  note t5 = reads_onlyD(1,2) [OF reads_only_replaceable rd] and t6 = reads_onlyD(1,2) [OF reads_only_replaceable rm]
    and t7 = reads_onlyD(1,2) [OF reads_only_request_check r2] and t8 = reads_onlyD(1,2) [OF reads_only_sys y]
  have s1: "slot (fs_data w8) (path k)"
    using replaceable_ok [OF rd] dd pd t5 t6 t7 t8 by (auto simp: slot_def tree_of_def)
  have s2: "slot (fs_meta w8) (path k)"
    using replaceable_ok [OF rm] pm t5 t6 t7 t8 by (auto simp: slot_def tree_of_def)
  have a8: "same_objects w w8"
    using a2 a3 a4 t5 t6 t7 t8 by (simp add: same_objects_def) (blast intro: extends_trans)
  show ?thesis
  proof (rule that [OF a8 pd(1) s1 s2])
    show "info = pr_info prepared" using rest by (auto simp: prog_ok)
    note ch = change_def set_tree_def tree_of_def
    show "fs_data w' = put_file (path k) (pr_payload prepared) (fs_data w8)"
      "fs_meta w' = put_file (path k) (pr_metadata prepared) (fs_meta w8)"
      using rest pd(2) pm(2) by (auto simp: prog_ok ch dest!: check_trees)
  qed
qed

subsection \<open>Failures before and after the commit point\<close>

lemma keeps_certain: "keeps p \<Longrightarrow> certain p"
  by (simp add: keeps_def certain_def)

lemma certain_pbind: "keeps p \<Longrightarrow> (\<And>x. certain (f x)) \<Longrightarrow> certain (pbind p f)"
  unfolding certain_def keeps_def pbind_def
  by (auto split: prod.splits sum.splits) (metis fst_conv same_objects_trans snd_conv)+

lemma certain_pseq: "keeps p \<Longrightarrow> certain q \<Longrightarrow> certain (pseq p q)"
  by (simp add: pseq_def certain_pbind)

text \<open>Past the commit point every error is an uncertain one.\<close>

lemma certain_commit: "certain (pseq (change a f) (pseq (pmap_err SE_CommitUncertain p) (pret x)))"
  by (auto simp: certain_def pseq_def pbind_def change_def pmap_err_def pret_def uncertain_def
      split: prod.splits sum.splits)

lemma certain_settled:
  fixes body :: "('y fs_ext, 'a) sprog"
  assumes "certain body"
    and "\<And>w x w'. body w = (Inr x, w') \<Longrightarrow> \<not> committed x \<Longrightarrow> same_objects w w'"
  shows "certain (settled rq s committed body)"
  unfolding certain_def
proof (intro allI impI)
  fix w :: "'y fs_scheme" and e
  assume e: "fst (settled rq s committed body w) = Inl e" and u: "\<not> uncertain e"
  obtain r w1 where b: "body w = (r, w1)" by (cases "body w")
  have k: "same_objects w1 (snd (request_check rq s w1))"
    by (rule quietD [OF reads_only_request_check prod.collapse [symmetric]])
  have "same_objects w w1"
  proof (cases r)
    case (Inl e')
    moreover have "\<not> uncertain e'"
      using e u b Inl by (auto simp: settled_def pbind_def pattempt_def praise_def uncertain_def
          split: FilesystemStoreError.splits)
    ultimately show ?thesis using assms(1) b by (metis certain_def fst_conv snd_conv)
  next
    case (Inr x)
    moreover have "\<not> committed x"
      using e u b Inr by (auto simp: settled_def pbind_def pattempt_def pseq_def pmap_err_def pret_def uncertain_def
          split: prod.splits sum.splits if_splits)
    ultimately show ?thesis using assms(2) b by blast
  qed
  moreover have "snd (settled rq s committed body w) = w1 \<or> snd (settled rq s committed body w) = snd (request_check rq s w1)"
    using b by (auto simp: settled_def pbind_def pattempt_def pseq_def pmap_err_def pret_def praise_def
        split: prod.splits sum.splits FilesystemStoreError.splits)
  ultimately show "same_objects w (snd (settled rq s committed body w))"
    using k same_objects_trans by metis
qed

lemma certain_publish_locked: "certain (publish_locked S cfg s k prepared c rq)"
  unfolding publish_locked_def
  by (intro certain_pseq certain_pbind certain_commit keeps_intros reads_only_keeps [OF reads_only_check_conditions])

lemma certain_store_put: "certain (store_put S cfg s k body opts rq)"
  unfolding store_put_def
  by (rule certain_pseq, intro keeps_intros, rule certain_settled)
     (intro certain_pbind certain_pseq certain_publish_locked keeps_intros, simp)

lemma unlink_certain: "certain (unlink a p)"
  by (auto simp: certain_def unlink_def pseq_def pbind_def sys_def now_tick_def pguard_def plift_def require_def
      stat_def change_def praise_def same_objects_def split: option.splits node.splits)

end
