(* ===== verification/Fs_Reads.thy ===== *)
theory Fs_Reads
  imports Fs_Store
begin

text \<open>
  What the reading operations of the filesystem store return, as functions of the two trees: a
  program settles on a result when, on any state with those trees, it returns that result or a
  refusal that only expiry, cancellation or a failed system call can cause.  The reference
  functions describe the resolution of a key, the object metadata, the description of an object
  and a range read; the program definitions refine them.
\<close>

text \<open>Errors that the passing of time, a cancellation or a failing system call can cause.\<close>

definition transient :: "FilesystemStoreError \<Rightarrow> bool" where
  "transient e = (case e of SE_Session _ \<Rightarrow> True | SE_Cancelled \<Rightarrow> True | SE_Io Io_Other \<Rightarrow> True
     | SE_Forbidden \<Rightarrow> True | _ \<Rightarrow> False)"

text \<open>From now on the session lives, the request is not cancelled and no system call fails.\<close>

definition calm :: "VerifiedFilesystemSession \<Rightarrow> FilesystemRequest \<Rightarrow> 'x world_scheme \<Rightarrow> bool" where
  "calm s rq w \<longleftrightarrow> (\<forall>n. \<not> fault (env w n) \<and> \<not> cancelled (env w n) \<and> mono (env w n) < fs_deadline s
     \<and> mono (env w n) < rq \<and> 0 \<le> utc (env w n)
     \<and> nat (utc (env w n)) div 1000000000 < pl_expires_at (fs_payload s))"

definition settles ::
  "VerifiedFilesystemSession \<Rightarrow> FilesystemRequest \<Rightarrow> node \<Rightarrow> node \<Rightarrow> ('y fs_ext, 'a) sprog
     \<Rightarrow> FilesystemStoreError + 'a \<Rightarrow> bool" where
  "settles s rq d m p r \<longleftrightarrow> reads_only p \<and> (\<forall>w. fs_data w = d \<longrightarrow> fs_meta w = m \<longrightarrow>
     fst (p w) = r \<or> (\<exists>e. fst (p w) = Inl e \<and> transient e \<and> \<not> calm s rq w))"

named_theorems settle_intros

subsection \<open>Rules for settling\<close>

lemma transient_simps [simp]:
  "transient (SE_Session x)" "transient SE_Cancelled" "transient (SE_Io Io_Other)" "transient SE_Forbidden"
  "\<not> transient SE_NotFound" "\<not> transient (SE_Io Io_NotFound)" "\<not> transient SE_InvalidKey"
  "\<not> transient SE_InvalidMetadata" "\<not> transient SE_Precondition" "\<not> transient (SE_CommitUncertain e)"
  by (simp_all add: transient_def)

lemma transient_missing: "transient e \<Longrightarrow> missing e = e"
  by (auto simp: missing_def)

lemma fst_praise [simp]: "fst (praise e w) = Inl e"
  by (simp add: praise_def)

lemma advances_calm: "advances w w' \<Longrightarrow> calm s rq w \<Longrightarrow> calm s rq w'"
  by (auto simp: advances_def calm_def)

lemma settles_reads_only: "settles s rq d m p r \<Longrightarrow> reads_only p"
  by (simp add: settles_def)

lemma settles_result:
  "settles s rq d m p r \<Longrightarrow> fs_data w = d \<Longrightarrow> fs_meta w = m \<Longrightarrow>
     fst (p w) = r \<or> (\<exists>e. fst (p w) = Inl e \<and> transient e \<and> \<not> calm s rq w)"
  by (simp add: settles_def)

lemma settles_calm: "settles s rq (fs_data w) (fs_meta w) p r \<Longrightarrow> calm s rq w \<Longrightarrow> fst (p w) = r"
  by (auto simp: settles_def)

lemma settles_ok: "settles s rq (fs_data w) (fs_meta w) p r \<Longrightarrow> p w = (Inr x, w') \<Longrightarrow> r = Inr x"
  by (fastforce simp: settles_def)

lemma settles_error:
  "settles s rq (fs_data w) (fs_meta w) p r \<Longrightarrow> p w = (Inl e, w') \<Longrightarrow> \<not> transient e \<Longrightarrow> r = Inl e"
  by (fastforce simp: settles_def)

lemma settles_eq: "settles s rq d m p r \<Longrightarrow> r = r' \<Longrightarrow> settles s rq d m p r'"
  by simp

lemma settles_plift [settle_intros]: "settles s rq d m (plift r) r"
  by (simp add: settles_def plift_def reads_only_def)

lemma settles_pret [settle_intros]: "settles s rq d m (pret x) (Inr x)"
  by (simp add: settles_def pret_def reads_only_def)

lemma settles_praise [settle_intros]: "settles s rq d m (praise e) (Inl e)"
  by (simp add: settles_def praise_def reads_only_def)

lemma settles_pguard [settle_intros]: "settles s rq d m (pguard b e) (require b e)"
  by (simp add: pguard_def settles_plift)

lemma settles_attempt:
  fixes p :: "('y fs_ext, 'a) sprog"
  assumes p: "settles s rq d m p r" and f: "settles s rq d m (f r) r'"
    and ro: "\<And>x. reads_only (f x)"
    and err: "\<And>e w. transient e \<Longrightarrow> \<exists>e'. fst (f (Inl e) w) = Inl e' \<and> transient e'"
  shows "settles s rq d m (pbind (pattempt p) f) r'"
proof -
  have "reads_only (pbind (pattempt p) f)"
    using settles_reads_only [OF p] ro by (intro quiet)
  moreover have "fst (pbind (pattempt p) f w) = r' \<or>
      (\<exists>e. fst (pbind (pattempt p) f w) = Inl e \<and> transient e \<and> \<not> calm s rq w)"
    if w: "fs_data w = d" "fs_meta w = m" for w :: "'y fs_scheme"
  proof -
    obtain q w1 where pw: "p w = (q, w1)" by (cases "p w")
    have adv: "advances w w1" using settles_reads_only [OF p] pw by (metis reads_only_def snd_conv)
    have w1: "fs_data w1 = d" "fs_meta w1 = m" using advances_trees [OF adv] w by simp_all
    have run: "fst (pbind (pattempt p) f w) = fst (f q w1)" using pw by (simp add: pbind_def pattempt_def)
    consider "q = r" | e where "q = Inl e" "transient e" "\<not> calm s rq w"
      using settles_result [OF p w] pw by auto
    then show ?thesis
    proof cases
      case 1
      then show ?thesis using run settles_result [OF f w1] advances_calm [OF adv] by auto
    next
      case 2
      then show ?thesis using run err by metis
    qed
  qed
  ultimately show ?thesis by (simp add: settles_def)
qed

lemma settles_pbind [settle_intros]:
  fixes p :: "('y fs_ext, 'a) sprog"
  assumes p: "settles s rq d m p r" and f: "\<And>x. r = Inr x \<Longrightarrow> settles s rq d m (f x) (g x)"
    and ro: "\<And>x. reads_only (f x)"
  shows "settles s rq d m (pbind p f) (rbind r g)"
proof -
  let ?f = "\<lambda>r. case r of Inl e \<Rightarrow> praise e | Inr x \<Rightarrow> f x"
  have "pbind p f = pbind (pattempt p) ?f"
    by (rule ext) (auto simp: pbind_def pattempt_def praise_def split: prod.splits sum.splits)
  moreover have "settles s rq d m (?f r) (rbind r g)"
    using f by (cases r) (auto simp: settles_praise)
  moreover have "reads_only (?f x)" for x using ro by (intro quiet)
  ultimately show ?thesis
    using settles_attempt [OF p, of ?f "rbind r g"] by simp
qed

lemma settles_pseq [settle_intros]:
  assumes "settles s rq d m p (Inr ())" "settles s rq d m q r"
  shows "settles s rq d m (pseq p q) r"
  using settles_pbind [OF assms(1), of "\<lambda>_. q" "\<lambda>_. r"] assms(2) settles_reads_only [OF assms(2)]
  by (simp add: pseq_def)

lemma settles_missing [settle_intros]:
  fixes p :: "('y fs_ext, 'a) sprog"
  assumes "settles s rq d m p r"
  shows "settles s rq d m (pmap_err missing p) (case r of Inl e \<Rightarrow> Inl (missing e) | Inr x \<Rightarrow> Inr x)"
proof -
  let ?f = "\<lambda>r. case r of Inl e \<Rightarrow> praise (missing e) | Inr x \<Rightarrow> pret x"
  have eq: "pmap_err missing p = pbind (pattempt p) ?f"
    by (rule ext) (auto simp: pbind_def pattempt_def praise_def pret_def pmap_err_def split: prod.splits sum.splits)
  show ?thesis
    unfolding eq
  proof (rule settles_attempt [OF assms])
    show "settles s rq d m (?f r) (case r of Inl e \<Rightarrow> Inl (missing e) | Inr x \<Rightarrow> Inr x)"
      by (cases r) (auto intro: settle_intros)
    show "reads_only (?f x)" for x by (intro quiet)
  qed (simp add: transient_missing)
qed

lemma settlesI:
  assumes "reads_only p"
    and "\<And>w. fs_data w = d \<Longrightarrow> fs_meta w = m \<Longrightarrow>
       fst (p w) = r \<or> (\<exists>e. fst (p w) = Inl e \<and> transient e \<and> \<not> calm s rq w)"
  shows "settles s rq d m p r"
  using assms by (simp add: settles_def)

lemma settles_sys [settle_intros]: "settles s rq d m sys (Inr ())"
proof (rule settlesI)
  fix w :: "'a fs_scheme"
  show "fst (sys w) = Inr () \<or> (\<exists>e. fst (sys w) = Inl e \<and> transient e \<and> \<not> calm s rq w)"
    by (auto simp: sys_def pbind_def now_tick_def pguard_def plift_def require_def calm_def)
qed simp

lemma settles_stat [settle_intros]:
  "settles s rq d m (stat a p) (Inr (lookup (case a of Data \<Rightarrow> d | Meta \<Rightarrow> m) p))"
  by (cases a) (auto simp: settles_def stat_def tree_of_def reads_only_def)

lemma session_check_calm:
  assumes "calm s rq w" "dl = rq \<or> dl = fs_deadline s"
  shows "fst (session_check s dl w) = Inr ()"
  using assms by (auto simp: calm_def session_check_def pbind_def now_tick_def seconds_def pguard_def plift_def
      require_def praise_def not_le [symmetric])

lemma settles_request_check [settle_intros]: "settles s rq d m (request_check rq s :: ('y fs_ext, unit) sprog) (Inr ())"
proof -
  have "fst (request_check rq s w) = Inr () \<or>
      (\<exists>e. fst (request_check rq s w) = Inl e \<and> transient e \<and> \<not> calm s rq w)" for w :: "'y fs_scheme"
  proof (cases "session_check s rq w")
    case (Pair r w1)
    have adv: "advances w w1" using Pair by (metis reads_only_def reads_only_session_check snd_conv)
    show ?thesis
    proof (cases r)
      case (Inl e)
      then show ?thesis using Pair session_check_calm [of s rq w rq]
        by (auto simp: request_check_def pseq_def pbind_def pmap_err_def)
    next
      case (Inr u)
      then show ?thesis using Pair advances_calm [OF adv]
        by (auto simp: request_check_def pseq_def pbind_def pmap_err_def now_tick_def pguard_def plift_def
            require_def calm_def)
    qed
  qed
  then show ?thesis by (simp add: settles_def)
qed

lemma settles_lock_rounds: "settles s rq d m (lock_rounds n s rq) (Inr ())"
  by (induction n) (auto intro: settle_intros)

lemma settles_now_tick:
  assumes "\<And>t. settles s rq d m (f t) r"
  shows "settles s rq d m (pbind now_tick f) r"
proof -
  have ro: "reads_only (pbind now_tick f)" using settles_reads_only [OF assms] by (intro quiet)
  have "fst (pbind now_tick f w) = r \<or> (\<exists>e. fst (pbind now_tick f w) = Inl e \<and> transient e \<and> \<not> calm s rq w)"
    if "fs_data w = d" "fs_meta w = m" for w :: "'a fs_scheme"
  proof -
    let ?w = "w\<lparr>env := \<lambda>n. env w (Suc n)\<rparr>"
    have "calm s rq w \<Longrightarrow> calm s rq ?w" by (auto simp: calm_def)
    then show ?thesis
      using settles_result [OF assms, of ?w "env w 0"] that by (auto simp: pbind_def now_tick_def)
  qed
  with ro show ?thesis by (simp add: settles_def)
qed

lemma settles_lock [settle_intros]: "settles s rq d m (lock s rq) (Inr ())"
  unfolding lock_def by (rule settles_now_tick) (rule settles_lock_rounds)

lemma settles_checked [settle_intros]:
  assumes "settles s rq d m p r"
  shows "settles s rq d m (checked rq s p) r"
  unfolding checked_def
proof (rule settles_attempt [OF assms])
  show "settles s rq d m (pseq (request_check rq s) (plift r)) r" by (intro settle_intros)
  show "reads_only (pseq (request_check rq s) (plift x))" for x by (intro quiet)
  fix e and w :: "'a fs_scheme"
  assume "transient e"
  have "settles s rq (fs_data w) (fs_meta w) (pseq (request_check rq s) (plift (Inl e))) (Inl e)"
    by (intro settle_intros)
  from settles_result [OF this] \<open>transient e\<close>
  show "\<exists>e'. fst (pseq (request_check rq s) (plift (Inl e)) w) = Inl e' \<and> transient e'" by auto
qed

text \<open>Authority as a function of the session and the key.\<close>

definition authority :: "FilesystemStoreConfig \<Rightarrow> VerifiedFilesystemSession \<Rightarrow> StorageOperation \<Rightarrow> string
    \<Rightarrow> FilesystemStoreError + unit" where
  "authority cfg s operation k =
     (if pl_bucket (fs_payload s) \<noteq> sc_bucket cfg then Inl SE_Forbidden
      else if \<not> key k then Inl SE_InvalidKey
      else require (covered s (op_indices operation) k) SE_Forbidden)"

lemma settles_allows:
  assumes "key k"
  shows "settles s rq d m (pbind (pmap_err SE_Session (allows s operation k)) (\<lambda>b. pguard b SE_Forbidden))
     (require (covered s (op_indices operation) k) SE_Forbidden)"
proof -
  let ?p = "pbind (pmap_err SE_Session (allows s operation k)) (\<lambda>b. pguard b SE_Forbidden)"
  have "fst (?p w) = require (covered s (op_indices operation) k) SE_Forbidden \<or>
     (\<exists>e. fst (?p w) = Inl e \<and> transient e \<and> \<not> calm s rq w)" for w :: "'a fs_scheme"
  proof (cases "session_check s (fs_deadline s) w")
    case (Pair r w1)
    then show ?thesis
      using assms session_check_calm [of s rq w "fs_deadline s"]
      by (cases r) (auto simp: allows_def pbind_def pattempt_def pret_def pmap_err_def pguard_def plift_def require_def)
  qed
  moreover have "reads_only ?p" by (intro quiet)
  ultimately show ?thesis by (simp add: settles_def)
qed

lemma settles_authorize [settle_intros]: "settles s rq d m (authorize cfg s rq operation k) (authority cfg s operation k)"
  unfolding authorize_def authority_def
  by (rule settles_pseq, rule settles_request_check) (auto intro: settle_intros settles_allows)

subsection \<open>Reference functions\<close>

fun seek :: "node \<Rightarrow> string list \<Rightarrow> string list \<Rightarrow> FilesystemStoreError + string list" where
  "seek t d [] = Inl SE_InvalidKey"
| "seek t d [part] = Inr (d @ [part])"
| "seek t d (part # q # parts) = (case lookup t (d @ [part]) of
       Some (DirN _) \<Rightarrow> seek t (d @ [part]) (q # parts) | None \<Rightarrow> Inl SE_NotFound | Some _ \<Rightarrow> Inl (SE_Io Io_Other))"

definition seek_key :: "node \<Rightarrow> string \<Rightarrow> FilesystemStoreError + string list" where
  "seek_key t k = (if \<not> key k then Inl SE_InvalidKey else seek t [] (path k))"

definition found_file :: "node \<Rightarrow> string \<Rightarrow> FilesystemStoreError + inode" where
  "found_file t k = rbind (seek_key t k) (\<lambda>p. case lookup t p of
       None \<Rightarrow> Inl SE_NotFound | Some (FileN f) \<Rightarrow> Inr f | Some LinkN \<Rightarrow> Inl (SE_Io Io_Other)
     | Some _ \<Rightarrow> Inl SE_InvalidKey)"

definition found_metadata ::
  "store_lib \<Rightarrow> FilesystemStoreConfig \<Rightarrow> node \<Rightarrow> string \<Rightarrow> FilesystemStoreError + Metadata option" where
  "found_metadata S cfg t k = (case seek_key t k of
       Inl e \<Rightarrow> if e = SE_NotFound then Inr None else Inl e
     | Inr p \<Rightarrow> (case lookup t p of
         None \<Rightarrow> Inr None
       | Some (FileN f) \<Rightarrow> rbind (parse_metadata S cfg (f_content f)) (\<lambda>m. Inr (Some m))
       | Some LinkN \<Rightarrow> Inl (SE_Io Io_Other)
       | Some _ \<Rightarrow> Inl SE_InvalidMetadata))"

definition object_info :: "store_lib \<Rightarrow> string \<Rightarrow> inode \<Rightarrow> Metadata option \<Rightarrow> FilesystemObjectInfo" where
  "object_info S k f meta =
     \<lparr>oi_size = length (f_content f),
      oi_etag = (case cached_etag meta f of Some e \<Rightarrow> e | None \<Rightarrow> etag (sha256 S (f_content f))),
      oi_content_type = meta_content_type S k meta, oi_modified = f_modified f\<rparr>"

definition described ::
  "store_lib \<Rightarrow> FilesystemStoreConfig \<Rightarrow> node \<Rightarrow> string \<Rightarrow> inode \<Rightarrow> FilesystemStoreError + FilesystemObjectInfo" where
  "described S cfg m k f = rbind (found_metadata S cfg m k) (\<lambda>meta. Inr (object_info S k f meta))"

definition current_result ::
  "store_lib \<Rightarrow> FilesystemStoreConfig \<Rightarrow> string \<Rightarrow> node \<Rightarrow> node \<Rightarrow> FilesystemStoreError + string option" where
  "current_result S cfg k d m = (case found_file d k of
     Inr f \<Rightarrow> rbind (described S cfg m k f) (\<lambda>info. Inr (Some (oi_etag info)))
   | Inl e \<Rightarrow> if e = SE_NotFound then Inr None else Inl e)"

definition head_result ::
  "store_lib \<Rightarrow> FilesystemStoreConfig \<Rightarrow> VerifiedFilesystemSession \<Rightarrow> string \<Rightarrow> node \<Rightarrow> node
     \<Rightarrow> FilesystemStoreError + FilesystemObjectInfo" where
  "head_result S cfg s k d m = rbind (authority cfg s Op_Read k) (\<lambda>_.
     rbind (found_file d k) (described S cfg m k))"

definition range_result ::
  "store_lib \<Rightarrow> FilesystemStoreConfig \<Rightarrow> VerifiedFilesystemSession \<Rightarrow> string \<Rightarrow> (nat \<times> nat) option \<Rightarrow> node \<Rightarrow> node
     \<Rightarrow> FilesystemStoreError + FilesystemObjectRead" where
  "range_result S cfg s k wanted d m = rbind (authority cfg s Op_Read k) (\<lambda>_.
     rbind (found_file d k) (\<lambda>f. rbind (described S cfg m k f) (\<lambda>info.
     rbind (byte_range wanted (oi_size info)) (\<lambda>(offset, len).
     Inr \<lparr>or_file = f, or_info = info, or_offset = offset, or_length = len\<rparr>))))"

lemma seek_Inr: "seek t d parts = Inr p \<Longrightarrow> p = d @ parts"
  by (induction t d parts rule: seek.induct) (auto split: option.splits node.splits)

lemma seek_NotFound: "seek t d parts = Inl SE_NotFound \<Longrightarrow> lookup t (d @ parts) = None"
proof (induction t d parts rule: seek.induct)
  case (3 t d part q parts)
  show ?case
  proof (cases "lookup t (d @ [part])")
    case None
    then show ?thesis using lookup_append [of t "d @ [part]" "q # parts"] by simp
  next
    case (Some n)
    then show ?thesis using 3 by (cases n) auto
  qed
qed auto

lemma lookup_prefix_dir: "is_dir (lookup t (p @ r)) \<Longrightarrow> is_dir (lookup t p)"
  by (cases "is_dir (lookup t p) \<or> r = []") (auto simp: lookup_below_slot)

lemma seek_reaches:
  assumes "is_dir (lookup t (butlast (d @ parts)))" "parts \<noteq> []"
  shows "seek t d parts = Inr (d @ parts)"
  using assms
proof (induction t d parts rule: seek.induct)
  case (3 t d part q parts)
  have "butlast (d @ part # q # parts) = (d @ [part]) @ butlast (q # parts)" by (simp add: butlast_append)
  then have "is_dir (lookup t (d @ [part]))"
    using "3.prems"(1) lookup_prefix_dir by metis
  then obtain es where "lookup t (d @ [part]) = Some (DirN es)" by (auto simp: is_dir_iff)
  then show ?case using 3 by simp
qed auto

subsection \<open>The programs refine the reference functions\<close>

abbreviation tree_in :: "area \<Rightarrow> node \<Rightarrow> node \<Rightarrow> node" where
  "tree_in a d m \<equiv> (case a of Data \<Rightarrow> d | Meta \<Rightarrow> m)"

lemma settles_stat_case:
  assumes "settles s rq d m (f (lookup (tree_in a d m) p)) r" "\<And>n. reads_only (f n)"
  shows "settles s rq d m (pbind (stat a p) f) r"
  by (rule settles_eq [OF settles_pbind [OF settles_stat, where g = "\<lambda>_. r"]]) (use assms in auto)

lemma settles_open_dir:
  "settles s rq d m (open_dir_nofollow a p) (case lookup (tree_in a d m) p of
     Some (DirN _) \<Rightarrow> Inr () | None \<Rightarrow> Inl (SE_Io Io_NotFound) | Some _ \<Rightarrow> Inl (SE_Io Io_Other))"
  unfolding open_dir_nofollow_def
  by (rule settles_pseq, rule settles_sys, rule settles_stat_case)
     (auto split: option.splits node.splits intro: settle_intros intro!: quiet)

lemma settles_open_entry:
  "settles s rq d m (open_entry a p) (case lookup (tree_in a d m) p of
     None \<Rightarrow> Inl (SE_Io Io_NotFound) | Some LinkN \<Rightarrow> Inl (SE_Io Io_Other) | Some n \<Rightarrow> Inr n)"
  unfolding open_entry_def
  by (rule settles_pseq, rule settles_sys, rule settles_stat_case)
     (auto split: option.splits node.splits intro: settle_intros intro!: quiet)

lemma settles_descend:
  "settles s rq d m (descend a False p parts :: ('y fs_ext, string list) sprog) (seek (tree_in a d m) p parts)"
proof (induction "tree_in a d m" p parts rule: seek.induct)
  case (3 p part q parts)
  let ?open = "pseq (open_dir_nofollow a (p @ [part])) (pret (p @ [part])) :: ('y fs_ext, string list) sprog"
  let ?n = "lookup (tree_in a d m) (p @ [part])"
  have o: "settles s rq d m ?open (rbind (case ?n of
     Some (DirN _) \<Rightarrow> Inr () | None \<Rightarrow> Inl (SE_Io Io_NotFound) | Some _ \<Rightarrow> Inl (SE_Io Io_Other)) (\<lambda>_. Inr (p @ [part])))"
    unfolding pseq_def by (rule settles_pbind [OF settles_open_dir]) (auto intro: settle_intros)
  have "settles s rq d m (pbind (pmap_err missing ?open) (\<lambda>x. descend a False x (q # parts)))
      (rbind (case ?n of Some (DirN _) \<Rightarrow> Inr (p @ [part]) | None \<Rightarrow> Inl SE_NotFound | Some _ \<Rightarrow> Inl (SE_Io Io_Other))
        (\<lambda>x. seek (tree_in a d m) x (q # parts)))"
  proof (rule settles_pbind)
    show "settles s rq d m (pmap_err missing ?open)
      (case ?n of Some (DirN _) \<Rightarrow> Inr (p @ [part]) | None \<Rightarrow> Inl SE_NotFound | Some _ \<Rightarrow> Inl (SE_Io Io_Other))"
      by (rule settles_eq [OF settles_missing [OF o]]) (auto simp: missing_def split: option.splits node.splits)
  qed (use 3 in \<open>auto split: option.splits node.splits\<close>)
  then show ?case by (auto split: option.splits node.splits)
qed (auto intro: settle_intros)

lemma settles_parent: "settles s rq d m (parent a k False) (seek_key (tree_in a d m) k)"
  unfolding parent_def seek_key_def path_def by (auto intro: settle_intros settles_descend)

lemma settles_data_file [settle_intros]: "settles s rq d m (data_file k) (found_file d k)"
proof -
  have o: "settles s rq d m (pbind (pmap_err missing (open_entry Data p)) (\<lambda>n.
      pseq sys (case n of FileN f \<Rightarrow> pret f | _ \<Rightarrow> praise SE_InvalidKey)))
     (case lookup d p of None \<Rightarrow> Inl SE_NotFound | Some (FileN f) \<Rightarrow> Inr f | Some LinkN \<Rightarrow> Inl (SE_Io Io_Other)
      | Some _ \<Rightarrow> Inl SE_InvalidKey)" for p
  proof (rule settles_eq [OF settles_pbind [OF settles_missing [OF settles_open_entry]]])
    show "settles s rq d m (pseq sys (case n of FileN f \<Rightarrow> pret f | _ \<Rightarrow> praise SE_InvalidKey))
       (case n of FileN f \<Rightarrow> Inr f | _ \<Rightarrow> Inl SE_InvalidKey)" for n
      by (cases n) (auto intro: settle_intros)
  qed (auto simp: missing_def split: option.splits node.splits intro!: quiet)
  show ?thesis
    unfolding data_file_def found_file_def
    by (rule settles_pbind [OF settles_eq [OF settles_parent]]) (auto intro: o intro!: quiet)
qed

lemma settles_metadata [settle_intros]: "settles s rq d m (metadata S cfg k) (found_metadata S cfg m k)"
proof -
  let ?file = "\<lambda>n. pseq sys (case n of
             FileN f \<Rightarrow> pseq sys (pbind (plift (parse_metadata S cfg (f_content f))) (\<lambda>m. pret (Some m)))
           | _ \<Rightarrow> praise SE_InvalidMetadata) :: ('y fs_ext, Metadata option) sprog"
  let ?open = "\<lambda>r. case r of
           Inl e \<Rightarrow> if e = SE_Io Io_NotFound then pret None else praise e
         | Inr n \<Rightarrow> ?file n"
  let ?entry = "\<lambda>p. case lookup m p of
         None \<Rightarrow> Inr None
       | Some (FileN f) \<Rightarrow> rbind (parse_metadata S cfg (f_content f)) (\<lambda>m. Inr (Some m))
       | Some LinkN \<Rightarrow> Inl (SE_Io Io_Other)
       | Some _ \<Rightarrow> Inl SE_InvalidMetadata"
  have f: "settles s rq d m (?file n) (case n of
      FileN f \<Rightarrow> rbind (parse_metadata S cfg (f_content f)) (\<lambda>m. Inr (Some m)) | _ \<Rightarrow> Inl SE_InvalidMetadata)" for n
    by (cases n) (auto intro!: settle_intros quiet)
  have ro: "reads_only (?open r)" for r by (intro quiet)
  have o: "settles s rq d m (pbind (pattempt (open_entry Meta p)) ?open) (?entry p)" for p
  proof (rule settles_attempt [OF settles_open_entry])
    show "settles s rq d m (?open (case lookup (tree_in Meta d m) p of
       None \<Rightarrow> Inl (SE_Io Io_NotFound) | Some LinkN \<Rightarrow> Inl (SE_Io Io_Other) | Some n \<Rightarrow> Inr n)) (?entry p)"
    proof (cases "lookup m p")
      case (Some n)
      then show ?thesis using f [of n] by (cases n) (auto intro: settle_intros)
    qed (auto intro: settle_intros)
  qed (use ro in auto)
  show ?thesis
    unfolding metadata_def found_metadata_def
  proof (rule settles_attempt [OF settles_eq [OF settles_parent]])
    show "settles s rq d m (case r of
         Inl e \<Rightarrow> if e = SE_NotFound then pret None else praise e
       | Inr p \<Rightarrow> pbind (pattempt (open_entry Meta p)) ?open)
       (case r of Inl e \<Rightarrow> if e = SE_NotFound then Inr None else Inl e | Inr p \<Rightarrow> ?entry p)" for r
      using o by (cases r) (auto intro: settle_intros)
  qed (auto intro!: quiet)
qed

lemma concat_file_reads: "concat (file_reads c) = c"
  by (induction c rule: file_reads.induct) (subst file_reads.simps, auto)

lemma file_reads_nonempty: "c \<in> set (file_reads t) \<Longrightarrow> c \<noteq> []"
  by (induction t rule: file_reads.induct) (subst (asm) (2) file_reads.simps, auto simp: BUFFER_def split: if_splits)

lemma settles_digest_loop:
  "settles s rq d m (digest_loop s rq cs seen) (Inr (seen @ concat (takeWhile (\<lambda>c. c \<noteq> []) cs)))"
proof (induction cs arbitrary: seen)
  case (Cons c cs)
  then show ?case using Cons.IH [of "seen @ c"] by (cases "c = []") (auto intro!: settle_intros)
qed (auto intro: settle_intros)

lemma settles_digest_file:
  "settles s rq d m (digest_loop s rq (file_reads c) []) (Inr c)"
proof -
  have "takeWhile (\<lambda>c. c \<noteq> []) (file_reads c) = file_reads c"
    using file_reads_nonempty by (simp add: takeWhile_eq_all_conv)
  then have "concat (takeWhile (\<lambda>c. c \<noteq> []) (file_reads c)) = c" by (simp only: concat_file_reads)
  then show ?thesis by (intro settles_eq [OF settles_digest_loop]) (simp only: append_Nil)
qed

lemma settles_describe [settle_intros]: "settles s rq d m (describe S cfg k f s rq) (described S cfg m k f)"
proof -
  let ?etag = "\<lambda>meta. case cached_etag meta f of Some e \<Rightarrow> e | None \<Rightarrow> etag (sha256 S (f_content f))"
  have e: "settles s rq d m (case cached_etag meta f of
               Some e \<Rightarrow> pret e
             | None \<Rightarrow> pseq sys (pbind (digest_loop s rq (file_reads (f_content f)) []) (\<lambda>seen.
                 pret (etag (sha256 S seen))))) (Inr (?etag meta))" for meta
    by (auto split: option.splits intro!: settles_pseq settles_sys settles_pret
        settles_eq [OF settles_pbind [OF settles_digest_file, where g = "\<lambda>c. Inr (etag (sha256 S c))"]])
  show ?thesis
    unfolding describe_def described_def object_info_def
    by (intro settles_pseq settles_request_check settles_sys settles_pbind [OF settles_metadata] quiet)
       (rule settles_eq [OF settles_pbind [OF e]], auto intro!: settle_intros quiet)
qed

lemma settles_head: "settles s rq d m (store_head S cfg s k rq) (head_result S cfg s k d m)"
proof -
  have "settles s rq d m (checked rq s (pseq (lock s rq) (pbind (data_file k) (\<lambda>f. describe S cfg k f s rq))))
      (rbind (found_file d k) (described S cfg m k))"
    by (intro settle_intros quiet)
  then show ?thesis
    unfolding store_head_def head_result_def pseq_def
    by (intro settles_pbind [OF settles_authorize] quiet) (simp_all add: pseq_def)
qed

lemma settles_current_etag:
  "settles s rq d m (current_etag S cfg k s rq) (current_result S cfg k d m)"
  unfolding current_etag_def current_result_def
  by (rule settles_attempt [OF settles_data_file])
     (auto split: sum.splits intro!: settle_intros quiet)

lemma settles_open_range: "settles s rq d m (open_range S cfg s k wanted rq) (range_result S cfg s k wanted d m)"
proof -
  have "settles s rq d m (checked rq s (pseq (lock s rq) (pbind (data_file k) (\<lambda>f. pbind (describe S cfg k f s rq) (\<lambda>info.
        pbind (plift (byte_range wanted (oi_size info))) (\<lambda>(offset, len).
        pseq sys (pret \<lparr>or_file = f, or_info = info, or_offset = offset, or_length = len\<rparr>)))))))
      (rbind (found_file d k) (\<lambda>f. rbind (described S cfg m k f) (\<lambda>info.
       rbind (byte_range wanted (oi_size info)) (\<lambda>(offset, len).
       Inr \<lparr>or_file = f, or_info = info, or_offset = offset, or_length = len\<rparr>))))"
    unfolding split_def by (intro settle_intros quiet)
  then show ?thesis
    unfolding open_range_def range_result_def pseq_def
    by (intro settles_pbind [OF settles_authorize] quiet) (simp_all add: pseq_def split_def quiet)
qed

end
