(* ===== verification/Fs_Writes.thy ===== *)
theory Fs_Writes
  imports Fs_Reads
begin

text \<open>
  What the writing operations of the filesystem store do to the stored objects.  A successful
  write replaces exactly one object, whose content, size, digest and type are those of the request;
  a failed one changes nothing unless it reports an uncertain commit; a read that follows returns
  what the write announced; the metadata kept beside an object never vouches for other content.
\<close>

text \<open>The bytes a request body yields before its first empty read.\<close>

definition body_content :: "string list \<Rightarrow> string" where
  "body_content body = concat (takeWhile (\<lambda>c. c \<noteq> []) body)"

lemma copy_loop_ok:
  assumes "copy_loop cfg s rq body broken written w = (Inr x, w')"
  shows "x = written @ body_content body \<and> (x = written \<or> length x \<le> sc_max_object_bytes cfg)
    \<and> (broken = None \<or> [] \<in> set body)"
  using assms
proof (induction cfg s rq body broken written arbitrary: w rule: copy_loop.induct)
  case (2 cfg s rq c cs broken written)
  show ?case
  proof (cases "c = []")
    case False
    then obtain w1 where "copy_loop cfg s rq cs broken (written @ c) w1 = (Inr x, w')"
      and l: "length written + length c \<le> u64_max" "length written + length c \<le> sc_max_object_bytes cfg"
      using "2.prems" by (auto simp: prog_ok not_less split: if_splits)
    then show ?thesis using "2.IH" False by (force simp: body_content_def)
  qed (use "2.prems" in \<open>auto simp: prog_ok body_content_def split: if_splits\<close>)
qed (auto simp: prog_ok body_content_def split: option.splits)

text \<open>What a prepared object holds.\<close>

definition prepared_object ::
  "store_lib \<Rightarrow> FilesystemStoreConfig \<Rightarrow> string \<Rightarrow> string \<Rightarrow> string option \<Rightarrow> PreparedObject \<Rightarrow> bool" where
  "prepared_object S cfg k content ct p \<longleftrightarrow>
     (\<exists>time bytes. p = \<lparr>pr_payload = \<lparr>f_content = content, f_modified = time\<rparr>,
        pr_metadata = \<lparr>f_content = bytes, f_modified = time\<rparr>,
        pr_info = \<lparr>oi_size = length content, oi_etag = etag (sha256 S content),
          oi_content_type = (case ct of Some v \<Rightarrow> v | None \<Rightarrow> mime S k), oi_modified = time\<rparr>\<rparr>
      \<and> encode_metadata S cfg \<lparr>md_content_type = author ct,
          md_derived = derive (etag (sha256 S content)) content time\<rparr> = Inr bytes)
     \<and> (\<forall>v. ct = Some v \<longrightarrow> header S v) \<and> (content = [] \<or> length content \<le> sc_max_object_bytes cfg)"

lemma prepare_ok:
  fixes w :: "'x world_scheme"
  assumes "prepare S cfg s k body broken ct dg rq w = (Inr p, w')"
  shows "prepared_object S cfg k (body_content body) ct p"
    and "\<And>d. dg = Some d \<Longrightarrow>
      to_ascii_lowercase d = to_ascii_lowercase (take 64 (drop 1 (etag (sha256 S (body_content body)))))"
    and "broken = None \<or> [] \<in> set body"
proof -
  have h: "\<not> (case ct of None \<Rightarrow> False | Some v \<Rightarrow> \<not> header S v)"
    using assms by (auto simp: prepare_def prog_ok split: if_splits)
  have x: "\<not> (case dg of None \<Rightarrow> False | Some d \<Rightarrow> \<not> hex_digest d)"
    using assms h by (auto simp: prepare_def prog_ok split: if_splits)
  obtain content and w1 w2 :: "'x world_scheme" where
    c: "copy_loop cfg s rq body broken [] w1 = (Inr content, w2)"
    and rest: "(let hash = etag (sha256 S content) in
       if (case dg of None \<Rightarrow> False
           | Some d \<Rightarrow> to_ascii_lowercase d \<noteq> to_ascii_lowercase (take 64 (drop 1 hash))) then praise SE_BadDigest
       else pseq sys (pseq sys (pbind now_tick (\<lambda>t.
       pbind (plift (encode_metadata S cfg
         \<lparr>md_content_type = author ct, md_derived = derive hash content (utc t)\<rparr>)) (\<lambda>bytes.
       pseq sys (pseq sys (pseq sys (pseq (request_check rq s)
       (pret \<lparr>pr_payload = \<lparr>f_content = content, f_modified = utc t\<rparr>,
              pr_metadata = \<lparr>f_content = bytes, f_modified = utc t\<rparr>,
              pr_info = \<lparr>oi_size = length content, oi_etag = hash,
                oi_content_type = (case ct of Some v \<Rightarrow> v | None \<Rightarrow> mime S k),
                oi_modified = utc t\<rparr>\<rparr>))))))))) w2 = (Inr p, w')"
    using assms h x unfolding prepare_def pseq_ok pbind_ok if_prog_ok by (auto simp: if_False)
  have content: "content = body_content body" "content = [] \<or> length content \<le> sc_max_object_bytes cfg"
    using copy_loop_ok [OF c] by auto
  show "prepared_object S cfg k (body_content body) ct p"
    using rest h content by (auto simp: prepared_object_def prog_ok Let_def split: if_splits option.splits)
  show "to_ascii_lowercase d = to_ascii_lowercase (take 64 (drop 1 (etag (sha256 S (body_content body)))))"
    if "dg = Some d" for d
    using rest that content by (auto simp: prog_ok Let_def split: if_splits)
  show "broken = None \<or> [] \<in> set body" using copy_loop_ok [OF c] by blast
qed

lemma settled_ok:
  fixes w :: "'y fs_scheme"
  assumes "settled rq s committed body w = (Inr x, w')"
  obtains w1 :: "'y fs_scheme" where "body w = (Inr x, w1)" "fs_data w' = fs_data w1" "fs_meta w' = fs_meta w1"
proof -
  obtain r w1 where b: "body w = (r, w1)" by (cases "body w")
  have "r = Inr x \<and> fs_data w' = fs_data w1 \<and> fs_meta w' = fs_meta w1"
    using assms b check_trees(1) [of rq s w1]
    by (auto simp: settled_def prog_ok split: sum.splits FilesystemStoreError.splits if_splits)
  then show ?thesis using that b by blast
qed

text \<open>Conditions are judged against the current object.\<close>

definition conditions_held ::
  "store_lib \<Rightarrow> FilesystemStoreConfig \<Rightarrow> string \<Rightarrow> FilesystemConditions \<Rightarrow> node \<Rightarrow> node \<Rightarrow> bool" where
  "conditions_held S cfg k c d m \<longleftrightarrow> (if_match c = None \<and> if_none_match c = None) \<or>
     (\<exists>current. current_result S cfg k d m = Inr current \<and> conditions_check c current = Inr ())"

lemma check_conditions_ok:
  assumes "check_conditions S cfg s k c rq w = (Inr u, w')"
  shows "conditions_held S cfg k c (fs_data w) (fs_meta w)"
  using assms by (auto simp: check_conditions_def conditions_held_def prog_ok split: if_splits
      dest!: settles_ok [OF settles_current_etag])

lemma publish_conditions:
  fixes w :: "'y fs_scheme"
  assumes "publish_locked S cfg s k p c rq w = (Inr info, w')"
  shows "conditions_held S cfg k c (fs_data w) (fs_meta w)"
proof -
  obtain w1 w2 :: "'y fs_scheme" where r: "request_check rq s w = (Inr (), w1)"
    and c: "check_conditions S cfg s k c rq w1 = (Inr (), w2)"
    using assms unfolding publish_locked_def pseq_ok by auto
  show ?thesis using check_conditions_ok [OF c] check_trees(1) [OF r] by simp
qed

text \<open>The effect of a successful publication on both trees.\<close>

definition stored :: "string \<Rightarrow> PreparedObject \<Rightarrow> 'y fs_scheme \<Rightarrow> 'y fs_scheme \<Rightarrow> bool" where
  "stored k p w w' \<longleftrightarrow>
     objects (fs_data w') = (objects (fs_data w))(path k := Some (pr_payload p))
   \<and> objects (fs_meta w') = (objects (fs_meta w))(path k := Some (pr_metadata p))
   \<and> slot (fs_data w') (path k) \<and> slot (fs_meta w') (path k) \<and> rooted w'"

lemma publish_stored:
  fixes w :: "'y fs_scheme"
  assumes "publish_locked S cfg s k p c rq w = (Inr info, w')" "rooted w"
  shows "stored k p w w'" "key k" "info = pr_info p"
proof -
  obtain w1 :: "'y fs_scheme" where w1: "same_objects w w1" "key k" "slot (fs_data w1) (path k)" "slot (fs_meta w1) (path k)"
    "fs_data w' = put_file (path k) (pr_payload p) (fs_data w1)"
    "fs_meta w' = put_file (path k) (pr_metadata p) (fs_meta w1)" "info = pr_info p"
    using publish_ok [OF assms] by metis
  have o: "objects (fs_data w1) = objects (fs_data w)" "objects (fs_meta w1) = objects (fs_meta w)"
    using w1(1) extends_objects by (auto simp: same_objects_def)
  have "rooted w'"
    using same_objects_rooted [OF w1(1) assms(2)] w1(3-6) update_is_dir [of _ "path k" "Some (FileN _)" "[]"]
    by (simp add: rooted_def put_file_def)
  then show "stored k p w w'"
    using w1(3-6) o by (simp add: stored_def tree.held_place tree.usable_place)
  show "key k" "info = pr_info p" using w1 by simp_all
qed

lemma put_ok:
  fixes w :: "'y fs_scheme"
  assumes "store_put S cfg s k body opts rq w = (Inr info, w')" "rooted w"
  obtains p where "prepared_object S cfg k (body_content body) (po_content_type opts) p" "info = pr_info p"
    "stored k p w w'" "key k" "authority cfg s Op_Write k = Inr ()"
    "conditions_held S cfg k (po_conditions opts) (fs_data w) (fs_meta w)"
    "\<And>d. po_expected_digest opts = Some d \<Longrightarrow>
      to_ascii_lowercase d = to_ascii_lowercase (take 64 (drop 1 (etag (sha256 S (body_content body)))))"
proof -
  obtain w1 :: "'y fs_scheme" where a: "authorize cfg s rq Op_Write k w = (Inr (), w1)"
    and st: "settled rq s (\<lambda>_. True)
        (pbind (prepare S cfg s k body None (po_content_type opts) (po_expected_digest opts) rq) (\<lambda>prepared.
         pseq (lock s rq) (publish_locked S cfg s k prepared (po_conditions opts) rq))) w1 = (Inr info, w')"
    using assms(1) by (auto simp: store_put_def pseq_ok)
  obtain w4 :: "'y fs_scheme" where b: "pbind (prepare S cfg s k body None (po_content_type opts) (po_expected_digest opts) rq) (\<lambda>prepared.
         pseq (lock s rq) (publish_locked S cfg s k prepared (po_conditions opts) rq)) w1 = (Inr info, w4)"
    and t4: "fs_data w' = fs_data w4" "fs_meta w' = fs_meta w4"
    using settled_ok [OF st] by blast
  obtain p and w2 w3 :: "'y fs_scheme" where
    pr: "prepare S cfg s k body None (po_content_type opts) (po_expected_digest opts) rq w1 = (Inr p, w2)"
    and l: "lock s rq w2 = (Inr (), w3)"
    and pb: "publish_locked S cfg s k p (po_conditions opts) rq w3 = (Inr info, w4)"
    using b by (auto simp: pbind_ok pseq_ok)
  have t3: "fs_data w3 = fs_data w" "fs_meta w3 = fs_meta w"
    using reads_only_trees [OF reads_only_authorize a] reads_only_trees [OF reads_only_prepare pr]
      reads_only_trees [OF reads_only_lock l] by simp_all
  then have "rooted w3" using assms(2) by (simp add: rooted_def)
  note ps = publish_stored [OF pb this]
  have "stored k p w w'" using ps(1) t3 t4 by (simp add: stored_def rooted_def)
  moreover have "authority cfg s Op_Write k = Inr ()" using settles_ok [OF settles_authorize a] .
  ultimately show ?thesis
    using that [OF prepare_ok(1) [OF pr] ps(3) _ ps(2)] prepare_ok(2) [OF pr] publish_conditions [OF pb] t3 by simp
qed

subsection \<open>Reading back what was stored\<close>

text \<open>The JSON form of the metadata the store writes is read back as it was.\<close>

definition store_lib_ok :: "store_lib \<Rightarrow> bool" where
  "store_lib_ok S \<longleftrightarrow> (\<forall>m b. md_content_type m \<noteq> CV_Other \<longrightarrow> meta_enc S m = Some b \<longrightarrow> meta_dec S b = Some m)"

lemma slot_seek:
  assumes "slot t (path k)" "key k"
  shows "seek_key t k = Inr (path k)"
  using assms seek_reaches [of t "[]" "path k"] by (simp add: seek_key_def slot_def)

lemma objects_lookup: "slot t p \<Longrightarrow> objects t p = Some f \<longleftrightarrow> lookup t p = Some (FileN f)"
  by (auto simp: slot_def objects_def)

lemma found_file_stored: "slot t (path k) \<Longrightarrow> key k \<Longrightarrow> objects t (path k) = Some f \<Longrightarrow> found_file t k = Inr f"
  by (simp add: found_file_def slot_seek objects_lookup)

lemma parse_encode:
  assumes "store_lib_ok S" "encode_metadata S cfg m = Inr bytes" "m = \<lparr>md_content_type = author ct, md_derived = dv\<rparr>"
    and "\<And>v. ct = Some v \<Longrightarrow> header S v"
  shows "parse_metadata S cfg bytes = Inr m"
proof -
  have l: "length bytes \<le> sc_metadata_bytes cfg" "meta_enc S m = Some bytes"
    using assms(2) by (auto simp: encode_metadata_def ok_or_def not_less split: option.splits if_splits)
  moreover have "md_content_type m \<noteq> CV_Other" using assms(3) by (auto simp: author_def split: option.splits)
  ultimately have "meta_dec S bytes = Some m" using assms(1) by (simp add: store_lib_ok_def)
  then show ?thesis
    using l assms(3,4) by (auto simp: parse_metadata_def Let_def ok_or_def author_def split: option.splits)
qed

lemma described_prepared:
  assumes "prepared_object S cfg k content ct p" "store_lib_ok S"
    and "slot m (path k)" "key k" "objects m (path k) = Some (pr_metadata p)"
  shows "described S cfg m k (pr_payload p) = Inr (pr_info p)"
proof -
  obtain time bytes where p: "p = \<lparr>pr_payload = \<lparr>f_content = content, f_modified = time\<rparr>,
        pr_metadata = \<lparr>f_content = bytes, f_modified = time\<rparr>,
        pr_info = \<lparr>oi_size = length content, oi_etag = etag (sha256 S content),
          oi_content_type = (case ct of Some v \<Rightarrow> v | None \<Rightarrow> mime S k), oi_modified = time\<rparr>\<rparr>"
    and e: "encode_metadata S cfg \<lparr>md_content_type = author ct,
          md_derived = derive (etag (sha256 S content)) content time\<rparr> = Inr bytes"
    and h: "\<And>v. ct = Some v \<Longrightarrow> header S v"
    using assms(1) unfolding prepared_object_def by blast
  have "parse_metadata S cfg bytes = Inr \<lparr>md_content_type = author ct,
      md_derived = derive (etag (sha256 S content)) content time\<rparr>"
    by (rule parse_encode [OF assms(2) e refl]) (rule h)
  then have "found_metadata S cfg m k = Inr (Some \<lparr>md_content_type = author ct,
      md_derived = derive (etag (sha256 S content)) content time\<rparr>)"
    using assms(3-5) p by (simp add: found_metadata_def slot_seek objects_lookup)
  then show ?thesis
    by (auto simp: described_def object_info_def p cached_etag_def derive_def meta_content_type_def author_def
        bind_eq_Some_conv split: option.splits if_splits)
qed

subsection \<open>Deletion\<close>

lemma certain_then:
  assumes "certain p" "\<And>w e. fst (q w) = Inl e \<Longrightarrow> uncertain e"
  shows "certain (pseq p q)"
  using assms unfolding certain_def pseq_def pbind_def
  by (auto split: prod.splits sum.splits) (metis fst_conv snd_conv)+

lemma unlink_ok:
  fixes w :: "'y fs_scheme"
  assumes "unlink a p w = (Inr u, w')"
  shows "tree_of a w' = remove_file p (tree_of a w)" "\<not> is_dir (lookup (tree_of a w) p)"
    "b \<noteq> a \<Longrightarrow> tree_of b w' = tree_of b w"
proof -
  obtain w1 :: "'y fs_scheme" where s: "sys w = (Inr (), w1)" using assms by (auto simp: unlink_def pseq_ok)
  have t: "tree_of c w1 = tree_of c w" for c using reads_onlyD(3) [OF reads_only_sys s] .
  have r: "\<not> is_dir (lookup (tree_of a w1) p) \<and> w' = set_tree a (remove_file p (tree_of a w1)) w1"
    using assms s by (auto simp: unlink_def pseq_def pbind_def stat_def change_def praise_def
        split: option.splits node.splits)
  then show "tree_of a w' = remove_file p (tree_of a w)" "\<not> is_dir (lookup (tree_of a w) p)" using t by simp_all
  show "tree_of b w' = tree_of b w" if "b \<noteq> a" using r t that by simp
qed

lemma drop_metadata_ok:
  fixes w :: "'y fs_scheme"
  assumes "drop_metadata k w = (Inr u, w')" "rooted w"
  shows "fs_data w' = fs_data w \<and> objects (fs_meta w') = (objects (fs_meta w))(path k := None) \<and> rooted w'"
proof -
  obtain r and w1 :: "'y fs_scheme" where p: "parent Meta k False w = (r, w1)" by (cases "parent Meta k False w")
  note t1 = reads_only_trees [OF reads_only_parent p]
  show ?thesis
  proof (cases r)
    case (Inl e)
    then have "e = SE_NotFound" "w' = w1"
      using assms(1) p by (auto simp: drop_metadata_def prog_ok split: if_splits)
    then have "seek_key (fs_meta w) k = Inl SE_NotFound"
      using settles_error [OF settles_parent p [unfolded Inl]] by simp
    then have "objects (fs_meta w) (path k) = None"
      using seek_NotFound [of "fs_meta w" "[]" "path k"] by (auto simp: seek_key_def objects_def split: if_splits)
    then show ?thesis using t1 \<open>w' = w1\<close> assms(2) by (auto simp: rooted_def)
  next
    case (Inr q)
    have ro1: "rooted w1" using assms(2) t1 by (simp add: rooted_def)
    note q = parent_ok [OF p [unfolded Inr] assms(2)]
    obtain x and w2 :: "'y fs_scheme" where u: "unlink Meta q w1 = (x, w2)" by (cases "unlink Meta q w1")
    show ?thesis
    proof (cases x)
      case (Inl e)
      then have e: "e = SE_Io Io_NotFound" "w' = w2"
        using assms(1) p Inr u by (auto simp: drop_metadata_def prog_ok split: if_splits)
      have "lookup (fs_meta w1) q = None \<and> fs_data w2 = fs_data w1 \<and> fs_meta w2 = fs_meta w1"
        using u Inl e(1) by (auto simp: unlink_def pseq_def pbind_def sys_def now_tick_def pguard_def plift_def
            require_def stat_def change_def praise_def tree_of_def split: option.splits node.splits if_splits)
      then show ?thesis using e(2) t1 q(2) assms(2) by (auto simp: objects_def rooted_def)
    next
      case (Inr y)
      then have "sync_dir w2 = (Inr (), w')"
        using assms(1) p \<open>r = Inr q\<close> u by (auto simp: drop_metadata_def prog_ok)
      from check_trees(2) [OF this] have t2: "fs_data w' = fs_data w2" "fs_meta w' = fs_meta w2" by simp_all
      note ul = unlink_ok [OF u [unfolded Inr]]
      have d: "fs_data w2 = fs_data w1" "fs_meta w2 = remove_file q (fs_meta w1)" "\<not> is_dir (lookup (fs_meta w1) q)"
        using ul(1,2) ul(3) [of Data] by (simp_all add: tree_of_def)
      have par: "is_dir (lookup (fs_meta w1) (butlast q))" using q(4) by (simp add: tree_of_def)
      show ?thesis
        using t1 t2 d q(2,3) par ro1 objects_replace [OF q(3) par d(3), of None] replace_is_dir [OF q(3) par d(3), of None "[]"]
        by (simp add: remove_file_def rooted_def)
    qed
  qed
qed

text \<open>The effect of a deletion: the object and its metadata go, nothing else changes.\<close>

definition removed :: "string \<Rightarrow> 'y fs_scheme \<Rightarrow> 'y fs_scheme \<Rightarrow> bool" where
  "removed k w w' \<longleftrightarrow>
     objects (fs_data w') = (objects (fs_data w))(path k := None)
   \<and> objects (fs_meta w') = (objects (fs_meta w))(path k := None) \<and> rooted w'"

lemma settles_symlink_metadata:
  "settles s rq d m (symlink_metadata a p) (case lookup (tree_in a d m) p of
     None \<Rightarrow> Inl (SE_Io Io_NotFound) | Some n \<Rightarrow> Inr n)"
  unfolding symlink_metadata_def
  by (rule settles_pseq, rule settles_sys, rule settles_stat_case)
     (auto split: option.splits intro: settle_intros intro!: quiet)

lemma remove_object_absent:
  fixes w :: "'y fs_scheme"
  assumes "remove_object s k rq w = (Inr False, w')"
  shows "fs_data w' = fs_data w \<and> fs_meta w' = fs_meta w \<and> (rooted w \<longrightarrow> objects (fs_data w) (path k) = None)"
proof -
  obtain r and w1 :: "'y fs_scheme" where p: "parent Data k False w = (r, w1)" by (cases "parent Data k False w")
  note t1 = reads_only_trees [OF reads_only_parent p]
  show ?thesis
  proof (cases r)
    case (Inl e)
    then have "e = SE_NotFound" "w' = w1"
      using assms(1) p by (auto simp: remove_object_def prog_ok split: if_splits)
    then have "seek_key (fs_data w) k = Inl SE_NotFound" using settles_error [OF settles_parent p [unfolded Inl]] by simp
    then show ?thesis
      using t1 \<open>w' = w1\<close> seek_NotFound [of "fs_data w" "[]" "path k"]
      by (auto simp: seek_key_def objects_def split: if_splits)
  next
    case (Inr q)
    obtain x and w2 :: "'y fs_scheme" where y: "symlink_metadata Data q w1 = (x, w2)" by (cases "symlink_metadata Data q w1")
    have x: "x = Inl (SE_Io Io_NotFound)" "w' = w2"
      using assms(1) p Inr y by (auto simp: remove_object_def prog_ok split: sum.splits if_splits)
    then have "lookup (fs_data w1) q = None"
      using settles_error [OF settles_symlink_metadata y [unfolded x(1)]] by (auto split: option.splits)
    then show ?thesis
      using t1 x(2) reads_only_trees [OF reads_only_entries(2) y] parent_ok(2) [OF p [unfolded Inr]]
      by (auto simp: objects_def)
  qed
qed

lemma remove_object_removes:
  fixes w :: "'y fs_scheme"
  assumes "remove_object s k rq w = (Inr True, w')" "rooted w"
  shows "objects (fs_data w) (path k) \<noteq> None \<and> removed k w w'"
proof -
  obtain x and w1 :: "'y fs_scheme" where p0: "parent Data k False w = (x, w1)" by (cases "parent Data k False w")
  then obtain q where x: "x = Inr q"
    using assms(1) by (cases x) (auto simp: remove_object_def prog_ok split: if_splits)
  note p = p0 [unfolded x]
  obtain z and w2 :: "'y fs_scheme" where y0: "symlink_metadata Data q w1 = (z, w2)" by (cases "symlink_metadata Data q w1")
  then obtain n where z: "z = Inr n"
    using assms(1) p by (cases z) (auto simp: remove_object_def prog_ok split: if_splits)
  note y = y0 [unfolded z]
  obtain w3 w4 w5 :: "'y fs_scheme" where
    n: "is_file n" and r: "request_check rq s w2 = (Inr (), w3)" and u: "unlink Data q w3 = (Inr (), w4)"
    and dm: "drop_metadata k w4 = (Inr (), w5)" and sy: "pseq sync_dir (request_check rq s) w5 = (Inr (), w')"
    using assms(1) p y by (auto simp: remove_object_def prog_ok split: if_splits)
  have t: "fs_data w3 = fs_data w" "fs_meta w3 = fs_meta w"
    using reads_only_trees [OF reads_only_parent p] reads_only_trees [OF reads_only_entries(2) y]
      check_trees(1) [OF r] by simp_all
  have t': "fs_data w' = fs_data w5" "fs_meta w' = fs_meta w5"
    using reads_only_trees [OF reads_only_pseq [OF reads_only_sync_dir reads_only_request_check] sy] by simp_all
  note q = parent_ok [OF p assms(2)]
  have lk: "lookup (fs_data w) q = Some n"
    using settles_ok [OF settles_symlink_metadata y] reads_only_trees [OF reads_only_parent p] by (auto split: option.splits)
  then obtain f where f: "n = FileN f" using n by (cases n) (auto simp: is_file_def)
  have sl: "slot (fs_data w) (path k)"
    using q lk f reads_only_trees [OF reads_only_parent p] by (auto simp: slot_def tree_of_def)
  have d4: "fs_data w4 = remove_file (path k) (fs_data w)" "fs_meta w4 = fs_meta w"
    using unlink_ok(1) [OF u] unlink_ok(3) [OF u, of Meta] t q(2) by (simp_all add: tree_of_def)
  have "rooted w4"
    using assms(2) d4 update_is_dir [OF sl, of None "[]"] by (simp add: rooted_def remove_file_def)
  note dm = drop_metadata_ok [OF dm this]
  have "objects (fs_data w4) = (objects (fs_data w))(path k := None)" using tree.held_drop [OF sl] d4 by simp
  moreover have "rooted w'" using dm t' unfolding rooted_def by metis
  ultimately have "removed k w w'" using dm d4 t' by (simp add: removed_def)
  then show ?thesis using lk f q(2) by (simp add: objects_def)
qed

lemma certain_remove_object: "certain (remove_object s k rq)"
proof -
  have tail: "certain (pseq (unlink Data p) (pseq (pmap_err SE_CommitUncertain q) (pret True)))" for p q
    by (rule certain_then [OF unlink_certain])
       (auto simp: pseq_def pbind_def pmap_err_def pret_def uncertain_def split: prod.splits sum.splits)
  have inner: "certain (case m of Inl e \<Rightarrow> if e = SE_Io Io_NotFound then pret False else praise e
         | Inr n \<Rightarrow> if \<not> is_file n then praise SE_InvalidKey
             else pseq (request_check rq s) (pseq (unlink Data p)
               (pseq (pmap_err SE_CommitUncertain
                  (pseq (drop_metadata k) (pseq sync_dir (request_check rq s)))) (pret True))))" for m p
    by (cases m) (auto intro!: certain_pseq tail keeps_intros intro: keeps_certain keeps_intros)
  show ?thesis
    unfolding remove_object_def
  proof (rule certain_pbind)
    show "certain (case r of Inl e \<Rightarrow> if e = SE_NotFound then pret False else praise e
      | Inr p \<Rightarrow> pbind (pattempt (symlink_metadata Data p)) (\<lambda>m. case m of
           Inl e \<Rightarrow> if e = SE_Io Io_NotFound then pret False else praise e
         | Inr n \<Rightarrow> if \<not> is_file n then praise SE_InvalidKey
             else pseq (request_check rq s) (pseq (unlink Data p)
               (pseq (pmap_err SE_CommitUncertain
                  (pseq (drop_metadata k) (pseq sync_dir (request_check rq s)))) (pret True)))))" for r
    proof (cases r)
      case (Inr p)
      show ?thesis unfolding Inr sum.case by (rule certain_pbind [OF _ inner]) (intro keeps_intros)
    qed (auto intro: keeps_certain keeps_intros)
  qed (intro keeps_intros)
qed

lemma certain_delete_inner: "certain (delete_inner S cfg s k expected rq :: ('y fs_ext, unit) sprog)"
proof -
  let ?body = "pseq (lock s rq) (pseq (delete_condition S cfg s k expected rq) (remove_object s k rq))
     :: ('y fs_ext, bool) sprog"
  have body: "certain ?body"
    by (intro certain_pseq keeps_intros certain_remove_object reads_only_keeps [OF reads_only_delete_condition])
  have none: "same_objects w w'" if ran: "?body w = (Inr x, w')" "\<not> x" for w w' :: "'y fs_scheme" and x
  proof -
    obtain w1 w2 :: "'y fs_scheme" where l: "lock s rq w = (Inr (), w1)"
      and c: "delete_condition S cfg s k expected rq w1 = (Inr (), w2)"
      and r: "remove_object s k rq w2 = (Inr False, w')"
      using ran unfolding pseq_ok by auto
    show ?thesis
      using reads_only_trees [OF reads_only_lock l] reads_only_trees [OF reads_only_delete_condition c]
        remove_object_absent [OF r] by (simp add: same_objects_def)
  qed
  have "certain (pseq (settled rq s (\<lambda>removed. removed) ?body) (pret ()))"
  proof (rule certain_then)
    show "certain (settled rq s (\<lambda>removed. removed) ?body)" by (rule certain_settled [OF body]) (rule none)
  qed (simp add: pret_def)
  then show ?thesis
    unfolding delete_inner_def by (rule certain_pseq [rotated]) (intro keeps_intros)
qed

lemma delete_ok:
  fixes w :: "'y fs_scheme"
  assumes "delete_inner S cfg s k expected rq w = (Inr u, w')" "rooted w"
  shows "authority cfg s Op_Delete k = Inr ()"
    "removed k w w' \<or> (objects (fs_data w) (path k) = None \<and> fs_data w' = fs_data w \<and> fs_meta w' = fs_meta w)"
    "\<And>v. expected = Some v \<Longrightarrow> conditions_held S cfg k \<lparr>if_match = Some v, if_none_match = None\<rparr> (fs_data w) (fs_meta w)"
proof -
  let ?c = "delete_condition S cfg s k expected rq :: ('y fs_ext, unit) sprog"
  obtain x and w1 w5 :: "'y fs_scheme" where a: "authorize cfg s rq Op_Delete k w = (Inr (), w1)"
    and st: "settled rq s (\<lambda>removed. removed) (pseq (lock s rq) (pseq ?c (remove_object s k rq))) w1 = (Inr x, w')"
    using assms(1) by (auto simp: delete_inner_def pseq_ok pret_ok)
  obtain w4 :: "'y fs_scheme" where b: "pseq (lock s rq) (pseq ?c (remove_object s k rq)) w1 = (Inr x, w4)"
    and t4: "fs_data w' = fs_data w4" "fs_meta w' = fs_meta w4"
    using settled_ok [OF st] by blast
  obtain w2 w3 :: "'y fs_scheme" where l: "lock s rq w1 = (Inr (), w2)" and c: "?c w2 = (Inr (), w3)"
    and r: "remove_object s k rq w3 = (Inr x, w4)"
    using b unfolding pseq_ok by auto
  have t2: "fs_data w2 = fs_data w" "fs_meta w2 = fs_meta w"
    using reads_only_trees [OF reads_only_authorize a] reads_only_trees [OF reads_only_lock l] by simp_all
  have t3: "fs_data w3 = fs_data w" "fs_meta w3 = fs_meta w"
    using t2 reads_only_trees [OF reads_only_delete_condition c] by simp_all
  have ro: "rooted w3" using assms(2) t3 by (simp add: rooted_def)
  show "authority cfg s Op_Delete k = Inr ()" using settles_ok [OF settles_authorize a] .
  show "removed k w w' \<or> (objects (fs_data w) (path k) = None \<and> fs_data w' = fs_data w \<and> fs_meta w' = fs_meta w)"
    using remove_object_removes [of s k rq w3 w4] remove_object_absent [of s k rq w3 w4] r ro t3 t4
    by (cases x) (auto simp: removed_def rooted_def)
  show "conditions_held S cfg k \<lparr>if_match = Some v, if_none_match = None\<rparr> (fs_data w) (fs_meta w)"
    if "expected = Some v" for v
    using c that t2 by (auto simp: delete_condition_def conditions_held_def prog_ok dest!: settles_ok [OF settles_current_etag])
qed

subsection \<open>Coherence of the kept metadata\<close>

text \<open>Whenever the metadata kept beside an object is accepted for it, the ETag it carries is the
  one of the object's content.\<close>

definition vouched :: "store_lib \<Rightarrow> FilesystemStoreConfig \<Rightarrow> inode \<Rightarrow> inode \<Rightarrow> bool" where
  "vouched S cfg f m \<longleftrightarrow> (\<forall>meta e. parse_metadata S cfg (f_content m) = Inr meta \<longrightarrow>
     cached_etag (Some meta) f = Some e \<longrightarrow> e = etag (sha256 S (f_content f)))"

definition coherent :: "store_lib \<Rightarrow> FilesystemStoreConfig \<Rightarrow> 'y fs_scheme \<Rightarrow> bool" where
  "coherent S cfg w \<longleftrightarrow> (\<forall>p f m. objects (fs_data w) p = Some f \<longrightarrow> objects (fs_meta w) p = Some m \<longrightarrow> vouched S cfg f m)"

lemma coherent_same: "same_objects w w' \<Longrightarrow> coherent S cfg w \<Longrightarrow> coherent S cfg w'"
  by (simp add: same_objects_def coherent_def extends_def)

lemma vouched_prepared:
  assumes "prepared_object S cfg k content ct p" "store_lib_ok S"
  shows "vouched S cfg (pr_payload p) (pr_metadata p)"
proof -
  obtain time bytes where p: "pr_payload p = \<lparr>f_content = content, f_modified = time\<rparr>"
        "f_content (pr_metadata p) = bytes"
    and e: "encode_metadata S cfg \<lparr>md_content_type = author ct,
          md_derived = derive (etag (sha256 S content)) content time\<rparr> = Inr bytes"
    and h: "\<And>v. ct = Some v \<Longrightarrow> header S v"
    using assms(1) unfolding prepared_object_def by force
  have "parse_metadata S cfg bytes = Inr \<lparr>md_content_type = author ct,
      md_derived = derive (etag (sha256 S content)) content time\<rparr>"
    by (rule parse_encode [OF assms(2) e refl]) (rule h)
  then show ?thesis
    by (auto simp: vouched_def p cached_etag_def derive_def bind_eq_Some_conv split: if_splits)
qed

lemma coherent_stored:
  assumes "coherent S cfg w" "stored k p w w'" "vouched S cfg (pr_payload p) (pr_metadata p)"
  shows "coherent S cfg w'"
  using assms by (auto simp: coherent_def stored_def split: if_splits)

lemma coherent_removed: "coherent S cfg w \<Longrightarrow> removed k w w' \<Longrightarrow> coherent S cfg w'"
  by (auto simp: coherent_def removed_def split: if_splits)

lemma seek_key_Inr: "seek_key t k = Inr p \<Longrightarrow> p = path k"
  using seek_Inr [of t "[]" "path k" p] by (auto simp: seek_key_def split: if_splits)

lemma found_fileD: "found_file t k = Inr f \<Longrightarrow> objects t (path k) = Some f"
  by (cases "seek_key t k")
     (auto simp: found_file_def objects_def dest: seek_key_Inr split: option.splits node.splits)

lemma found_metadataD:
  assumes "found_metadata S cfg t k = Inr (Some m)"
  shows "\<exists>n. objects t (path k) = Some n \<and> parse_metadata S cfg (f_content n) = Inr m"
proof (cases "seek_key t k")
  case (Inr p)
  then show ?thesis
    using assms seek_key_Inr [OF Inr]
    by (cases "lookup t p") (auto simp: found_metadata_def objects_def rbind_def split: node.splits sum.splits)
qed (use assms in \<open>auto simp: found_metadata_def split: if_splits\<close>)

lemma coherent_etag:
  assumes "coherent S cfg w" "found_file (fs_data w) k = Inr f" "described S cfg (fs_meta w) k f = Inr info"
  shows "oi_etag info = etag (sha256 S (f_content f))"
proof -
  have f: "objects (fs_data w) (path k) = Some f"
    using found_fileD [OF assms(2)] .
  obtain meta where m: "found_metadata S cfg (fs_meta w) k = Inr meta" "info = object_info S k f meta"
    using assms(3) by (auto simp: described_def split: sum.splits)
  show ?thesis
  proof (cases "cached_etag meta f")
    case (Some e)
    then obtain mt where mt: "meta = Some mt" by (cases meta) (auto simp: cached_etag_def bind_eq_Some_conv)
    then obtain n where "objects (fs_meta w) (path k) = Some n" "parse_metadata S cfg (f_content n) = Inr mt"
      using found_metadataD [of S cfg "fs_meta w" k mt] m(1) by auto
    then show ?thesis
      using assms(1) f Some mt m(2) by (auto simp: coherent_def vouched_def object_info_def)
  qed (simp add: m(2) object_info_def)
qed

end
