(* ===== verification/Fs_Guarantees.thy ===== *)
theory Fs_Guarantees
  imports Fs_Writes
begin

text \<open>
  The guarantees of the filesystem store: completion of a write in a calm environment, and the
  properties of writes, reads, conditions and deletions, each with an instance on a concrete store.
\<close>

subsection \<open>Writes complete in a calm environment\<close>

text \<open>The directories of a path exist or can be made, and its last name is free or a file.\<close>

definition open_path :: "node \<Rightarrow> string list \<Rightarrow> bool" where
  "open_path t p \<longleftrightarrow> (\<forall>q r. p = q @ r \<longrightarrow> q \<noteq> [] \<longrightarrow> r \<noteq> [] \<longrightarrow> lookup t q = None \<or> is_dir (lookup t q))
     \<and> (lookup t p = None \<or> (\<exists>f. lookup t p = Some (FileN f)))"

lemma settles_run:
  fixes w :: "'y fs_scheme"
  assumes "settles s rq (fs_data w) (fs_meta w) p (Inr x)" "calm s rq w"
  obtains w' :: "'y fs_scheme" where "p w = (Inr x, w')" "calm s rq w'" "fs_data w' = fs_data w" "fs_meta w' = fs_meta w"
    "advances w w'"
proof -
  obtain r w' where pw: "p w = (r, w')" by (cases "p w")
  have "advances w w'" using settles_reads_only [OF assms(1)] pw by (metis reads_only_def snd_conv)
  then show ?thesis
    using that pw settles_calm [OF assms] advances_calm assms(2) advances_trees by fastforce
qed

lemma tree_of_eqI: "fs_data w' = fs_data w \<Longrightarrow> fs_meta w' = fs_meta w \<Longrightarrow> tree_of a w' = tree_of a w"
  by (cases a) (simp_all add: tree_of_def)

lemma calm_set_tree [simp]: "calm s rq (set_tree a t w) = calm s rq w"
  by (simp add: calm_def)

lemma owned_dir_completes:
  fixes w :: "'y fs_scheme"
  assumes "calm s rq w" "lookup (tree_of a w) (d @ [n]) = None \<or> is_dir (lookup (tree_of a w) (d @ [n]))"
    and "is_dir (lookup (tree_of a w) d)"
  obtains w' :: "'y fs_scheme" where "owned_dir a d n w = (Inr (d @ [n]), w')" "calm s rq w'"
    "tree_of a w' = (if lookup (tree_of a w) (d @ [n]) = None then make_dir (d @ [n]) (tree_of a w) else tree_of a w)"
    "\<And>b. b \<noteq> a \<Longrightarrow> tree_of b w' = tree_of b w"
proof -
  let ?p = "d @ [n]"
  obtain w1 :: "'y fs_scheme" where s: "sys w = (Inr (), w1)" "calm s rq w1" "fs_data w1 = fs_data w" "fs_meta w1 = fs_meta w"
    using settles_run [OF settles_sys assms(1)] by blast
  have t1: "tree_of c w1 = tree_of c w" for c using s tree_of_eqI by blast
  have op: "\<exists>v' :: 'y fs_scheme. open_dir_nofollow a ?p v = (Inr (), v') \<and> calm s rq v' \<and> (\<forall>c. tree_of c v' = tree_of c v)"
    if dir: "is_dir (lookup (tree_of a v) ?p)" and c: "calm s rq v" for v :: "'y fs_scheme"
  proof -
    have "settles s rq (fs_data v) (fs_meta v) (open_dir_nofollow a ?p) (Inr ())"
      by (rule settles_eq [OF settles_open_dir]) (use dir in \<open>cases a; auto simp: is_dir_iff tree_of_def\<close>)
    from settles_run [OF this c] show ?thesis using tree_of_eqI by metis
  qed
  show ?thesis
  proof (cases "lookup (tree_of a w) ?p")
    case (Some x)
    then have "is_dir (lookup (tree_of a w1) ?p)" using assms(2) t1 by simp
    then obtain v where "open_dir_nofollow a ?p w1 = (Inr (), v)" "calm s rq v" "\<forall>c. tree_of c v = tree_of c w1"
      using op s(2) by blast
    then show ?thesis
      using that [of v] s(1) t1 Some
      by (simp add: owned_dir_def pseq_def pbind_def stat_def pret_def)
  next
    case None
    let ?v = "set_tree a (make_dir ?p (tree_of a w1)) w1"
    obtain w3 :: "'y fs_scheme" where w3: "sync_dir ?v = (Inr (), w3)" "calm s rq w3" "fs_data w3 = fs_data ?v" "fs_meta w3 = fs_meta ?v"
      using settles_run [of s rq ?v sync_dir "()"] s(2) unfolding sync_dir_def
      by (metis calm_set_tree settles_pseq settles_sys)
    have t3: "tree_of c w3 = tree_of c ?v" for c using w3 tree_of_eqI by blast
    have "lookup (make_dir ?p (tree_of a w1)) ?p = Some (DirN [])"
      unfolding make_dir_def by (rule lookup_update_same) (use assms(3) t1 in simp_all)
    then have "is_dir (lookup (tree_of a w3) ?p)" using t3 by simp
    then obtain v where "open_dir_nofollow a ?p w3 = (Inr (), v)" "calm s rq v" "\<forall>c. tree_of c v = tree_of c w3"
      using op w3(2) by blast
    then show ?thesis
      using that [of v] s(1) t1 t3 w3(1) None
      by (simp add: owned_dir_def pseq_def pbind_def stat_def pret_def change_def)
  qed
qed

lemma make_dir_below:
  assumes "p \<noteq> []" "is_dir (lookup t (butlast p))" "r \<noteq> []"
  shows "lookup (make_dir p t) (p @ r) = None"
  using lookup_update_same [OF assms(1,2), of "Some (DirN [])"] assms(3)
  by (cases r) (simp_all add: make_dir_def lookup_append)

lemma descend_completes:
  fixes w :: "'y fs_scheme"
  assumes "calm s rq w" "is_dir (lookup (tree_of a w) d)" "parts \<noteq> []"
    and "\<And>q r. parts = q @ r \<Longrightarrow> q \<noteq> [] \<Longrightarrow> r \<noteq> [] \<Longrightarrow>
       lookup (tree_of a w) (d @ q) = None \<or> is_dir (lookup (tree_of a w) (d @ q))"
  shows "\<exists>w' :: 'y fs_scheme. descend a True d parts w = (Inr (d @ parts), w') \<and> calm s rq w'
     \<and> lookup (tree_of a w') (d @ parts) = lookup (tree_of a w) (d @ parts)
     \<and> (\<forall>b. b \<noteq> a \<longrightarrow> tree_of b w' = tree_of b w)"
  using assms
proof (induction a True d parts arbitrary: w rule: descend.induct)
  case (3 a d part q parts)
  let ?p = "d @ [part]" and ?t = "tree_of a w"
  have open1: "lookup ?t ?p = None \<or> is_dir (lookup ?t ?p)"
    using "3.prems"(4) [of "[part]" "q # parts"] by simp
  obtain w1 :: "'y fs_scheme" where w1: "owned_dir a d part w = (Inr ?p, w1)" "calm s rq w1"
    "tree_of a w1 = (if lookup ?t ?p = None then make_dir ?p ?t else ?t)" "\<And>b. b \<noteq> a \<Longrightarrow> tree_of b w1 = tree_of b w"
    using owned_dir_completes [OF "3.prems"(1) open1 "3.prems"(2)] by metis
  have deep: "lookup (tree_of a w1) (?p @ r) = lookup ?t (?p @ r)" if "r \<noteq> []" for r
  proof (cases "lookup ?t ?p")
    case None
    have "lookup ?t (?p @ r) = None" using None lookup_append [of ?t ?p r] by simp
    then show ?thesis
      using None w1(3) make_dir_below [of ?p ?t r] "3.prems"(2) that by simp
  qed (use w1(3) in simp)
  have dir: "is_dir (lookup (tree_of a w1) ?p)"
    using owned_dir_ok(2) [OF w1(1)] .
  have "\<exists>w'. descend a True ?p (q # parts) w1 = (Inr (?p @ q # parts), w') \<and> calm s rq w'
     \<and> lookup (tree_of a w') (?p @ q # parts) = lookup (tree_of a w1) (?p @ q # parts)
     \<and> (\<forall>b. b \<noteq> a \<longrightarrow> tree_of b w' = tree_of b w1)"
  proof (rule "3.hyps" [OF w1(2) dir])
    fix x r
    assume x: "q # parts = x @ r" "x \<noteq> []" "r \<noteq> []"
    then show "lookup (tree_of a w1) (?p @ x) = None \<or> is_dir (lookup (tree_of a w1) (?p @ x))"
      using deep [of x] "3.prems"(4) [of "part # x" r] by simp
  qed simp
  then show ?case
    using w1(1,4) deep [of "q # parts"] by (auto simp: pbind_def)
qed (auto simp: pret_def)

lemma parent_completes:
  fixes w :: "'y fs_scheme"
  assumes "calm s rq w" "rooted w" "key k" "open_path (tree_of a w) (path k)"
  obtains w' :: "'y fs_scheme" where "parent a k True w = (Inr (path k), w')" "calm s rq w'"
    "lookup (tree_of a w') (path k) = lookup (tree_of a w) (path k)" "\<And>b. b \<noteq> a \<Longrightarrow> tree_of b w' = tree_of b w"
proof -
  obtain w1 :: "'y fs_scheme" where s: "sys w = (Inr (), w1)" "calm s rq w1" "fs_data w1 = fs_data w" "fs_meta w1 = fs_meta w"
    using settles_run [OF settles_sys assms(1)] by blast
  have t1: "tree_of c w1 = tree_of c w" for c using s tree_of_eqI by blast
  have "path k \<noteq> []" by (simp add: path_def)
  then have "\<exists>w' :: 'y fs_scheme. descend a True [] (path k) w1 = (Inr ([] @ path k), w') \<and> calm s rq w'
     \<and> lookup (tree_of a w') ([] @ path k) = lookup (tree_of a w1) ([] @ path k) \<and> (\<forall>b. b \<noteq> a \<longrightarrow> tree_of b w' = tree_of b w1)"
    using rooted_tree [OF assms(2), of a] assms(4) t1
    by (intro descend_completes [OF s(2)]) (auto simp: open_path_def)
  then show ?thesis
    using that s(1) t1 assms(3) by (auto simp: parent_def pseq_def pbind_def path_def)
qed

lemma settles_replaceable:
  assumes "lookup (tree_in a d m) p = None \<or> (\<exists>f. lookup (tree_in a d m) p = Some (FileN f))"
  shows "settles s rq d m (replaceable a p) (Inr ())"
  unfolding replaceable_def
  by (rule settles_attempt [OF settles_symlink_metadata])
     (use assms in \<open>auto simp: is_file_def intro!: settle_intros quiet\<close>)

lemma settles_check_conditions:
  assumes "conditions_held S cfg k c d m"
  shows "settles s rq d m (check_conditions S cfg s k c rq) (Inr ())"
proof (cases "if_match c = None \<and> if_none_match c = None")
  case False
  then obtain current where c: "current_result S cfg k d m = Inr current" "conditions_check c current = Inr ()"
    using assms by (auto simp: conditions_held_def)
  show ?thesis
    unfolding check_conditions_def
    using False c settles_pbind [OF settles_current_etag, where g = "conditions_check c"]
    by (auto intro!: settles_eq [OF settles_pbind [OF settles_current_etag, where g = "conditions_check c"]]
        settle_intros quiet)
qed (auto simp: check_conditions_def intro: settle_intros)

lemma run_pseq:
  "p w = (Inr x, w1) \<Longrightarrow> pseq p q w = q w1"
  by (simp add: pseq_def pbind_def)

lemma run_pbind:
  "p w = (Inr x, w1) \<Longrightarrow> pbind p f w = f x w1"
  by (simp add: pbind_def)

lemma commit_completes:
  fixes w :: "'y fs_scheme"
  assumes "calm s rq w"
  shows "\<exists>w' :: 'y fs_scheme. pseq sys (pseq (change Data f) (pseq (pmap_err SE_CommitUncertain
      (pseq sys (pseq (change Meta g) (pseq sync_dir (pseq sync_dir (pseq (request_check rq s) sys)))))) (pret x))) w
     = (Inr x, w') \<and> calm s rq w'"
proof -
  let ?tail = "pseq sync_dir (pseq sync_dir (pseq (request_check rq s) sys)) :: ('y fs_ext, unit) sprog"
  obtain w1 :: "'y fs_scheme" where w1: "sys w = (Inr (), w1)" "calm s rq w1"
    using settles_run [OF settles_sys assms] by metis
  let ?v = "set_tree Data (f (tree_of Data w1)) w1"
  have cv: "calm s rq ?v" using w1(2) by simp
  obtain w2 :: "'y fs_scheme" where w2: "sys ?v = (Inr (), w2)" "calm s rq w2"
    using settles_run [OF settles_sys cv] by metis
  let ?u = "set_tree Meta (g (tree_of Meta w2)) w2"
  have cu: "calm s rq ?u" using w2(2) by simp
  have "settles s rq (fs_data ?u) (fs_meta ?u) ?tail (Inr ())"
    unfolding sync_dir_def by (intro settles_pseq settles_sys settles_request_check)
  from settles_run [OF this cu] obtain w3 :: "'y fs_scheme" where w3: "?tail ?u = (Inr (), w3)" "calm s rq w3"
    by metis
  show ?thesis
    using w1 w2 w3 by (intro exI [of _ w3]) (simp add: pseq_def pbind_def change_def pmap_err_def pret_def)
qed

lemma publish_completes:
  fixes w :: "'y fs_scheme"
  assumes "calm s rq w" "rooted w" "key k" "open_path (fs_data w) (path k)" "open_path (fs_meta w) (path k)"
    and "conditions_held S cfg k c (fs_data w) (fs_meta w)"
  obtains w' :: "'y fs_scheme" where "publish_locked S cfg s k p c rq w = (Inr (pr_info p), w')" "calm s rq w'"
proof -
  obtain w1 :: "'y fs_scheme" where w1: "request_check rq s w = (Inr (), w1)" "calm s rq w1"
    "fs_data w1 = fs_data w" "fs_meta w1 = fs_meta w"
    using settles_run [OF settles_request_check assms(1)] by blast
  have held: "conditions_held S cfg k c (fs_data w1) (fs_meta w1)" using assms(6) w1 by simp
  obtain w2 :: "'y fs_scheme" where w2: "check_conditions S cfg s k c rq w1 = (Inr (), w2)" "calm s rq w2"
    "fs_data w2 = fs_data w1" "fs_meta w2 = fs_meta w1"
    using settles_run [OF settles_check_conditions [OF held] w1(2)] by blast
  have r2: "rooted w2" "open_path (tree_of Data w2) (path k)" "open_path (tree_of Meta w2) (path k)"
    using assms(2,4,5) w1 w2 by (simp_all add: rooted_def tree_of_def)
  obtain w3 :: "'y fs_scheme" where w3: "parent Data k True w2 = (Inr (path k), w3)" "calm s rq w3"
    "lookup (tree_of Data w3) (path k) = lookup (tree_of Data w2) (path k)" "\<And>b. b \<noteq> Data \<Longrightarrow> tree_of b w3 = tree_of b w2"
    using parent_completes [OF w2(2) r2(1) assms(3) r2(2)] by blast
  have r3: "rooted w3" "open_path (tree_of Meta w3) (path k)"
    using same_objects_rooted [OF keepsD [OF keeps_parent w3(1)] r2(1)] r2(3) w3(4) by simp_all
  obtain w4 :: "'y fs_scheme" where w4: "parent Meta k True w3 = (Inr (path k), w4)" "calm s rq w4"
    "lookup (tree_of Meta w4) (path k) = lookup (tree_of Meta w3) (path k)" "\<And>b. b \<noteq> Meta \<Longrightarrow> tree_of b w4 = tree_of b w3"
    using parent_completes [OF w3(2) r3(1) assms(3) r3(2)] by blast
  have free: "lookup (fs_data w4) (path k) = None \<or> (\<exists>f. lookup (fs_data w4) (path k) = Some (FileN f))"
    "lookup (fs_meta w4) (path k) = None \<or> (\<exists>f. lookup (fs_meta w4) (path k) = Some (FileN f))"
    using assms(4,5) w1(3,4) w2(3,4) w3(3) w3(4) [of Meta] w4(3) w4(4) [of Data]
    by (simp_all add: tree_of_def open_path_def)
  have "settles s rq (fs_data w4) (fs_meta w4)
      (pseq (replaceable Data (path k)) (pseq (replaceable Meta (path k)) (request_check rq s))) (Inr ())"
    using free by (intro settles_pseq settles_replaceable settles_request_check) simp_all
  from settles_run [OF this w4(2)] obtain w5 :: "'y fs_scheme" where
    w5: "pseq (replaceable Data (path k)) (pseq (replaceable Meta (path k)) (request_check rq s)) w4 = (Inr (), w5)"
    "calm s rq w5" by metis
  then obtain v1 v2 :: "'y fs_scheme" where v: "replaceable Data (path k) w4 = (Inr (), v1)"
      "replaceable Meta (path k) v1 = (Inr (), v2)" "request_check rq s v2 = (Inr (), w5)"
    by (auto simp: pseq_ok)
  have "\<exists>w6 :: 'y fs_scheme. pseq sys (pseq (change Data (put_file (path k) (pr_payload p)))
      (pseq (pmap_err SE_CommitUncertain (pseq sys (pseq (change Meta (put_file (path k) (pr_metadata p)))
        (pseq sync_dir (pseq sync_dir (pseq (request_check rq s) sys)))))) (pret (pr_info p)))) w5
     = (Inr (pr_info p), w6) \<and> calm s rq w6"
    by (rule commit_completes [OF w5(2)])
  then obtain w6 :: "'y fs_scheme" where w6: "pseq sys (pseq (change Data (put_file (path k) (pr_payload p)))
      (pseq (pmap_err SE_CommitUncertain (pseq sys (pseq (change Meta (put_file (path k) (pr_metadata p)))
        (pseq sync_dir (pseq sync_dir (pseq (request_check rq s) sys)))))) (pret (pr_info p)))) w5
     = (Inr (pr_info p), w6)" "calm s rq w6" by blast
  show ?thesis
    using that [of w6] w6 w1(1) w2(1) w3(1) w4(1) v by (simp add: publish_locked_def run_pseq run_pbind)
qed

lemma settles_copy_loop:
  assumes "length (written @ body_content body) \<le> sc_max_object_bytes cfg" "sc_max_object_bytes cfg \<le> u64_max"
  shows "settles s rq d m (copy_loop cfg s rq body None written :: ('y fs_ext, string) sprog)
     (Inr (written @ body_content body))"
  using assms
proof (induction body arbitrary: written)
  case (Cons c cs)
  show ?case
  proof (cases "c = []")
    case False
    then have "settles s rq d m (copy_loop cfg s rq cs None (written @ c) :: ('y fs_ext, string) sprog) (Inr ((written @ c) @ body_content cs))"
      using Cons.prems by (intro Cons.IH) (simp_all add: body_content_def)
    then show ?thesis
      using False Cons.prems by (auto simp: body_content_def intro!: settle_intros)
  qed (auto simp: body_content_def intro!: settle_intros)
qed (auto simp: body_content_def intro: settle_intros)

text \<open>A request body and its declarations that the store accepts at the given times.\<close>

abbreviation times_of :: "'x world_scheme \<Rightarrow> int set" where
  "times_of w \<equiv> {utc (env w n) | n. True}"

definition acceptable ::
  "store_lib \<Rightarrow> FilesystemStoreConfig \<Rightarrow> int set \<Rightarrow> string list \<Rightarrow> string option \<Rightarrow> string option \<Rightarrow> bool" where
  "acceptable S cfg clock body ct dg \<longleftrightarrow>
     length (body_content body) \<le> sc_max_object_bytes cfg \<and> sc_max_object_bytes cfg \<le> u64_max
   \<and> (\<forall>v. ct = Some v \<longrightarrow> header S v)
   \<and> (\<forall>d. dg = Some d \<longrightarrow> hex_digest d \<and>
        to_ascii_lowercase d = to_ascii_lowercase (take 64 (drop 1 (etag (sha256 S (body_content body))))))
   \<and> (\<forall>dv. dv = None \<or> (\<exists>t \<in> clock. dv = derive (etag (sha256 S (body_content body))) (body_content body) t) \<longrightarrow>
        (\<exists>b. encode_metadata S cfg \<lparr>md_content_type = author ct, md_derived = dv\<rparr> = Inr b))"

lemma acceptable_mono:
  assumes "acceptable S cfg T body ct dg" "U \<subseteq> T"
  shows "acceptable S cfg U body ct dg"
proof -
  have "\<exists>b. encode_metadata S cfg \<lparr>md_content_type = author ct, md_derived = dv\<rparr> = Inr b"
    if "dv = None \<or> (\<exists>t \<in> U. dv = derive (etag (sha256 S (body_content body))) (body_content body) t)" for dv
  proof -
    have "dv = None \<or> (\<exists>t \<in> T. dv = derive (etag (sha256 S (body_content body))) (body_content body) t)"
      using that assms(2) by blast
    then show ?thesis using assms(1) unfolding acceptable_def by blast
  qed
  then show ?thesis using assms(1) unfolding acceptable_def by simp
qed

lemma prepare_completes:
  fixes w :: "'y fs_scheme"
  assumes "calm s rq w" "acceptable S cfg (times_of w) body ct dg"
  obtains p and w' :: "'y fs_scheme" where "prepare S cfg s k body None ct dg rq w = (Inr p, w')" "calm s rq w'"
    "fs_data w' = fs_data w" "fs_meta w' = fs_meta w"
proof -
  let ?c = "body_content body"
  have copy: "settles s rq d m (copy_loop cfg s rq body None []) (Inr ?c)" for d m
    using settles_copy_loop [of "[]" body cfg] assms(2) by (simp add: acceptable_def)
  obtain b0 where b0: "encode_metadata S cfg \<lparr>md_content_type = author ct, md_derived = None\<rparr> = Inr b0"
    using assms(2) unfolding acceptable_def by blast
  obtain w1 :: "'y fs_scheme" where w1: "request_check rq s w = (Inr (), w1)" "calm s rq w1"
    "fs_data w1 = fs_data w" "fs_meta w1 = fs_meta w" "advances w w1"
    using settles_run [OF settles_request_check assms(1)] by blast
  have "settles s rq (fs_data w1) (fs_meta w1) (pseq sys (pseq sys (pbind (copy_loop cfg s rq body None []) (\<lambda>c.
      pseq sys (pseq sys (pret c)))))) (Inr ?c)"
    by (rule settles_pseq, rule settles_sys, rule settles_pseq, rule settles_sys,
        rule settles_eq [OF settles_pbind [OF copy, where g = Inr]]) (auto intro!: settle_intros quiet)
  from settles_run [OF this w1(2)] obtain w2 :: "'y fs_scheme" where
    w2: "pseq sys (pseq sys (pbind (copy_loop cfg s rq body None []) (\<lambda>c. pseq sys (pseq sys (pret c))))) w1 = (Inr ?c, w2)"
    "calm s rq w2" "fs_data w2 = fs_data w1" "fs_meta w2 = fs_meta w1" "advances w1 w2" .
  then obtain v1 v2 v3 v4 :: "'y fs_scheme" where v: "sys w1 = (Inr (), v1)" "sys v1 = (Inr (), v2)"
    "copy_loop cfg s rq body None [] v2 = (Inr ?c, v3)" "sys v3 = (Inr (), v4)" "sys v4 = (Inr (), w2)"
    unfolding pseq_ok pbind_ok pret_ok by auto
  let ?t = "env w2 0"
  have "advances w w2" using advances_trans w1(5) w2(5) by blast
  then have "utc ?t \<in> times_of w" by (auto simp: advances_def)
  then obtain b where b: "encode_metadata S cfg \<lparr>md_content_type = author ct,
      md_derived = derive (etag (sha256 S ?c)) ?c (utc ?t)\<rparr> = Inr b"
    using assms(2) unfolding acceptable_def by blast
  let ?w3 = "w2\<lparr>env := \<lambda>n. env w2 (Suc n)\<rparr>"
  have c3: "calm s rq ?w3" using w2(2) by (auto simp: calm_def)
  have "settles s rq (fs_data ?w3) (fs_meta ?w3) (pseq sys (pseq sys (pseq sys (request_check rq s)))) (Inr ())"
    by (intro settle_intros)
  from settles_run [OF this c3] obtain w4 :: "'y fs_scheme" where
    w4: "pseq sys (pseq sys (pseq sys (request_check rq s))) ?w3 = (Inr (), w4)" "calm s rq w4"
    "fs_data w4 = fs_data ?w3" "fs_meta w4 = fs_meta ?w3" by blast
  then obtain u1 u2 u3 :: "'y fs_scheme" where u: "sys ?w3 = (Inr (), u1)" "sys u1 = (Inr (), u2)" "sys u2 = (Inr (), u3)"
    "request_check rq s u3 = (Inr (), w4)"
    unfolding pseq_ok by auto
  have ok: "\<not> (case ct of None \<Rightarrow> False | Some v \<Rightarrow> \<not> header S v)" "\<not> (case dg of None \<Rightarrow> False | Some d \<Rightarrow> \<not> hex_digest d)"
    "\<not> (case dg of None \<Rightarrow> False | Some d \<Rightarrow> to_ascii_lowercase d \<noteq> to_ascii_lowercase (take 64 (drop 1 (etag (sha256 S ?c)))))"
    using assms(2) by (auto simp: acceptable_def split: option.splits)
  have n: "now_tick w2 = (Inr ?t :: FilesystemStoreError + tick, ?w3)" by (simp add: now_tick_def)
  show ?thesis
    using that [of _ w4] w1(3,4) w2(3,4) w4(2-4)
      w1(1) ok b0 b v n u
    by (simp add: prepare_def run_pseq run_pbind pret_def Let_def)
qed

lemma put_completes:
  fixes w :: "'y fs_scheme"
  assumes "calm s rq w" "rooted w" "authority cfg s Op_Write k = Inr ()"
    and "acceptable S cfg (times_of w) body (po_content_type opts) (po_expected_digest opts)"
    and "open_path (fs_data w) (path k)" "open_path (fs_meta w) (path k)"
    and "conditions_held S cfg k (po_conditions opts) (fs_data w) (fs_meta w)"
  shows "\<exists>info w'. store_put S cfg s k body opts rq w = (Inr info, w') \<and> calm s rq w'"
proof -
  have k: "key k" using assms(3) by (auto simp: authority_def split: if_splits)
  obtain w1 :: "'y fs_scheme" where w1: "authorize cfg s rq Op_Write k w = (Inr (), w1)" "calm s rq w1"
    "fs_data w1 = fs_data w" "fs_meta w1 = fs_meta w" "advances w w1"
    using settles_run [OF settles_eq [OF settles_authorize assms(3)] assms(1)] by blast
  have "times_of w1 \<subseteq> times_of w" using w1(5) by (auto simp: advances_def)
  then have acc: "acceptable S cfg (times_of w1) body (po_content_type opts) (po_expected_digest opts)"
    using acceptable_mono [OF assms(4)] by blast
  obtain p and w2 :: "'y fs_scheme" where
    w2: "prepare S cfg s k body None (po_content_type opts) (po_expected_digest opts) rq w1 = (Inr p, w2)"
    "calm s rq w2" "fs_data w2 = fs_data w1" "fs_meta w2 = fs_meta w1"
    using prepare_completes [OF w1(2) acc] by blast
  obtain w3 :: "'y fs_scheme" where w3: "lock s rq w2 = (Inr (), w3)" "calm s rq w3"
    "fs_data w3 = fs_data w2" "fs_meta w3 = fs_meta w2"
    using settles_run [OF settles_lock w2(2)] by blast
  have t: "fs_data w3 = fs_data w" "fs_meta w3 = fs_meta w" using w1 w2 w3 by simp_all
  then have "rooted w3" using assms(2) by (simp add: rooted_def)
  then obtain w4 :: "'y fs_scheme" where w4: "publish_locked S cfg s k p (po_conditions opts) rq w3 = (Inr (pr_info p), w4)"
    "calm s rq w4"
    using publish_completes [OF w3(2) _ k, of S cfg "po_conditions opts" p] assms(5-7) t by auto
  obtain w5 :: "'y fs_scheme" where w5: "request_check rq s w4 = (Inr (), w5)" "calm s rq w5"
    using settles_run [OF settles_request_check w4(2)] by metis
  show ?thesis
    using w1(1) w2(1) w3(1) w4(1) w5
    by (auto simp: store_put_def run_pseq run_pbind settled_def pattempt_def pmap_err_def pbind_def pseq_def pret_def)
qed

subsection \<open>Conditions\<close>

lemma strip_any_none:
  assumes "\<And>w. w \<in> set ws \<Longrightarrow> w = [] \<or> \<not> starts_with s w"
  shows "strip_any ws s = s"
proof -
  have "find (\<lambda>w. w \<noteq> [] \<and> starts_with s w) ws = None" using assms by (auto simp: find_None_iff)
  then show ?thesis by (subst strip_any.simps) simp
qed

lemma trim_quoted: "trim (CHR 0x22 # v @ [CHR 0x22]) = CHR 0x22 # v @ [CHR 0x22]"
  unfolding trim_def trim_start_def trim_end_def
  by (subst strip_any_none, (auto simp: ws_encodings_def) [1])+ simp

lemma valid_etag_form:
  assumes "valid_etag e"
  obtains h where "e = CHR 0x22 # h @ [CHR 0x22]" "list_all is_ascii_hexdigit h"
proof -
  have l: "length e = 66" and s: "starts_with e [CHR 0x22]" "ends_with e [CHR 0x22]"
    and h: "list_all is_ascii_hexdigit (take 64 (drop 1 e))"
    using assms by (simp_all add: valid_etag_def)
  obtain t where t: "e = CHR 0x22 # t" using s(1) by (auto simp: starts_with_iff)
  obtain u where u: "e = u @ [CHR 0x22]" using s(2) by (auto simp: ends_with_iff)
  have "t \<noteq> []" using t l by auto
  then have "e = CHR 0x22 # butlast t @ [CHR 0x22]" using t u by (metis append_butlast_last_id last.simps last_snoc)
  moreover have "butlast t = take 64 (drop 1 e)" using t l by (simp add: butlast_conv_take)
  ultimately show ?thesis using that h by metis
qed

lemma condition_star: "condition ''*'' current \<longleftrightarrow> current \<noteq> None"
proof -
  have "trim ''*'' = ''*''" by code_simp
  then show ?thesis by (simp add: condition_def)
qed

lemma condition_etag:
  assumes "valid_etag e"
  shows "condition e current \<longleftrightarrow> current = Some e"
proof -
  obtain h where h: "e = CHR 0x22 # h @ [CHR 0x22]" "list_all is_ascii_hexdigit h" using valid_etag_form [OF assms] .
  have "\<not> is_ascii_hexdigit (CHR '','')" by code_simp
  then have "CHR '','' \<notin> set h" using h(2) by (metis list_all_iff)
  then have "CHR '','' \<notin> set e" unfolding h(1) by simp
  then have "split_on (CHR '','') e = [e]" by (rule split_on_absent)
  moreover have "trim e = e" unfolding h(1) by (rule trim_quoted)
  moreover have "e \<noteq> ''*''" unfolding h(1) by simp
  ultimately show ?thesis using assms by (simp add: condition_def)
qed

lemma current_result_None:
  assumes "current_result S cfg k d m = Inr None"
  shows "objects d (path k) = None"
proof -
  have nf: "found_file d k = Inl SE_NotFound"
    using assms by (auto simp: current_result_def split: sum.splits if_splits)
  show ?thesis
  proof (cases "seek_key d k")
    case (Inl e)
    then have "seek d [] (path k) = Inl SE_NotFound"
      using nf by (auto simp: found_file_def seek_key_def split: if_splits)
    then show ?thesis using seek_NotFound [of d "[]" "path k"] by (simp add: objects_def)
  next
    case (Inr p)
    then show ?thesis
      using nf seek_key_Inr [OF Inr] by (auto simp: found_file_def objects_def split: option.splits node.splits)
  qed
qed

lemma current_result_Some:
  assumes "current_result S cfg k (fs_data w) (fs_meta w) = Inr (Some e)" "coherent S cfg w"
  shows "\<exists>f. objects (fs_data w) (path k) = Some f \<and> e = etag (sha256 S (f_content f))"
proof -
  obtain f info where "found_file (fs_data w) k = Inr f" "described S cfg (fs_meta w) k f = Inr info" "e = oi_etag info"
    using assms(1) by (auto simp: current_result_def split: sum.splits if_splits)
  then show ?thesis using coherent_etag [OF assms(2)] found_fileD by metis
qed

lemma path_inj: "path j = path k \<Longrightarrow> j = k"
  unfolding path_def by (metis join_split)

subsection \<open>Properties\<close>

text \<open>C2: a write or a deletion that fails with anything but an uncertain commit has changed no object and
  no kept metadata.\<close>

theorem failed_write_changes_nothing:
  assumes "store_put S cfg s k body opts rq w = (Inl e, w') \<or> delete_inner S cfg s k expected rq w = (Inl e, w')"
    and "\<not> uncertain e"
  shows "objects (fs_data w') = objects (fs_data w) \<and> objects (fs_meta w') = objects (fs_meta w)"
proof -
  have "same_objects w w'"
    using assms certain_store_put [of S cfg s k body opts rq] certain_delete_inner [of S cfg s k expected rq]
    unfolding certain_def by (metis fst_conv snd_conv)
  then show ?thesis by (simp add: same_objects_def extends_objects)
qed

text \<open>C6: a successful write needs write authority on a canonical key and replaces exactly that object by
  the bytes of the body; the announced size, ETag and digest are those of the bytes, and the bytes
  are within the configured limit.\<close>

theorem put_replaces_one_object:
  assumes "store_put S cfg s k body opts rq w = (Inr info, w')" "rooted w"
  shows "objects (fs_data w') = (objects (fs_data w))(path k :=
      Some \<lparr>f_content = body_content body, f_modified = oi_modified info\<rparr>)
    \<and> (\<forall>j. j \<noteq> k \<longrightarrow> objects (fs_data w') (path j) = objects (fs_data w) (path j)
           \<and> objects (fs_meta w') (path j) = objects (fs_meta w) (path j))
    \<and> oi_size info = length (body_content body) \<and> oi_etag info = etag (sha256 S (body_content body))
    \<and> (body_content body = [] \<or> length (body_content body) \<le> sc_max_object_bytes cfg)
    \<and> (\<forall>d. po_expected_digest opts = Some d \<longrightarrow>
         to_ascii_lowercase d = to_ascii_lowercase (take 64 (drop 1 (oi_etag info))))
    \<and> key k \<and> pl_bucket (fs_payload s) = sc_bucket cfg \<and> covered s (op_indices Op_Write) k"
proof -
  obtain p where p: "prepared_object S cfg k (body_content body) (po_content_type opts) p" "info = pr_info p"
    "stored k p w w'" "key k" "authority cfg s Op_Write k = Inr ()"
    and dg: "\<And>d. po_expected_digest opts = Some d \<Longrightarrow>
      to_ascii_lowercase d = to_ascii_lowercase (take 64 (drop 1 (etag (sha256 S (body_content body)))))"
    using put_ok [OF assms] by metis
  have "pr_payload p = \<lparr>f_content = body_content body, f_modified = oi_modified info\<rparr>"
    "oi_size info = length (body_content body)" "oi_etag info = etag (sha256 S (body_content body))"
    "body_content body = [] \<or> length (body_content body) \<le> sc_max_object_bytes cfg"
    using p(1,2) by (auto simp: prepared_object_def)
  moreover have "objects (fs_data w') (path j) = objects (fs_data w) (path j)
      \<and> objects (fs_meta w') (path j) = objects (fs_meta w) (path j)" if "j \<noteq> k" for j
    using p(3) path_inj [of j k] that by (auto simp: stored_def)
  moreover have "pl_bucket (fs_payload s) = sc_bucket cfg \<and> covered s (op_indices Op_Write) k"
    using p(5) by (auto simp: authority_def require_def split: if_splits)
  ultimately show ?thesis using p(3,4) dg by (simp add: stored_def)
qed

text \<open>C29: after a successful write, a read of the description by any session that may read the key
  returns exactly what the write announced, as long as the session lives, the request is not
  cancelled and no system call fails.\<close>

theorem put_then_head:
  assumes "store_lib_ok S" "store_put S cfg s k body opts rq w = (Inr info, w')" "rooted w"
    and "authority cfg s' Op_Read k = Inr ()" "calm s' rq' w'"
  shows "fst (store_head S cfg s' k rq' w') = Inr info"
proof -
  obtain p where p: "prepared_object S cfg k (body_content body) (po_content_type opts) p" "info = pr_info p"
    "stored k p w w'" "key k"
    using put_ok [OF assms(2,3)] by metis
  have "found_file (fs_data w') k = Inr (pr_payload p)"
    using p(3,4) by (intro found_file_stored) (simp_all add: stored_def)
  moreover have "described S cfg (fs_meta w') k (pr_payload p) = Inr (pr_info p)"
    using p(3,4) by (intro described_prepared [OF p(1) assms(1)]) (simp_all add: stored_def)
  ultimately have "head_result S cfg s' k (fs_data w') (fs_meta w') = Inr info"
    using assms(4) p(2) by (simp add: head_result_def)
  then show ?thesis using settles_calm [OF settles_head assms(5)] by metis
qed

text \<open>C30: reading a description refines the reference function of the two trees: it returns that result,
  or a refusal caused by expiry, cancellation or a failed system call, and never changes a tree.\<close>

theorem head_refines:
  fixes w :: "'y fs_scheme"
  shows "fs_data (snd (store_head S cfg s k rq w)) = fs_data w \<and> fs_meta (snd (store_head S cfg s k rq w)) = fs_meta w
   \<and> (fst (store_head S cfg s k rq w) = head_result S cfg s k (fs_data w) (fs_meta w)
     \<or> (\<exists>e. fst (store_head S cfg s k rq w) = Inl e \<and> transient e \<and> \<not> calm s rq w))"
proof -
  have "advances w (snd (store_head S cfg s k rq w))" by (rule reads_only_store_head [unfolded reads_only_def, rule_format])
  then show ?thesis using advances_trees settles_result [OF settles_head, of w] by metis
qed

text \<open>C32: a range that is served lies inside the object: it starts at the requested offset, is not empty
  unless the whole of an empty object was asked for, ends where asked or at the end of the object,
  and is cut from the object currently stored under the key.\<close>

theorem range_inside_object:
  assumes "open_range S cfg s k wanted rq w = (Inr r, w')"
  shows "or_offset r + or_length r \<le> length (f_content (or_file r))
    \<and> objects (fs_data w) (path k) = Some (or_file r)
    \<and> (wanted = None \<longrightarrow> or_offset r = 0 \<and> or_length r = length (f_content (or_file r)))
    \<and> (\<forall>a b. wanted = Some (a, b) \<longrightarrow>
       or_offset r = a \<and> 0 < or_length r \<and> or_offset r + or_length r = min b (length (f_content (or_file r))))"
proof -
  have r: "range_result S cfg s k wanted (fs_data w) (fs_meta w) = Inr r"
    using settles_ok [OF settles_open_range assms] .
  then obtain f info offset len where f: "found_file (fs_data w) k = Inr f" "described S cfg (fs_meta w) k f = Inr info"
    "byte_range wanted (oi_size info) = Inr (offset, len)"
    "r = \<lparr>or_file = f, or_info = info, or_offset = offset, or_length = len\<rparr>"
    by (auto simp: range_result_def)
  have size: "oi_size info = length (f_content f)" using f(2) by (auto simp: described_def object_info_def)
  show ?thesis
    using f(3,4) size found_fileD [OF f(1)] by (auto simp: byte_range_def split: option.splits if_splits)
qed

text \<open>C21: conditional writes and deletions judge the object they replace: a write that forbids an existing
  object succeeds only where there was none, and a write or deletion that names an ETag succeeds only
  on an object whose content has that ETag.\<close>

theorem conditions_protect_objects:
  assumes "coherent S cfg w" "rooted w" "valid_etag t"
  shows "(store_put S cfg s k body opts rq w = (Inr info, w') \<and> if_none_match (po_conditions opts) = Some ''*''
       \<longrightarrow> objects (fs_data w) (path k) = None)
   \<and> (store_put S cfg s k body opts rq w = (Inr info, w') \<and> if_match (po_conditions opts) = Some t
       \<or> delete_if_match S cfg s k t rq w = (Inr (), w')
       \<longrightarrow> (\<exists>f. objects (fs_data w) (path k) = Some f \<and> t = etag (sha256 S (f_content f))))"
proof -
  have held: "conditions_held S cfg k (po_conditions opts) (fs_data w) (fs_meta w)"
    if "store_put S cfg s k body opts rq w = (Inr info, w')"
    using put_ok [OF that assms(2)] by metis
  have delheld: "conditions_held S cfg k \<lparr>if_match = Some t, if_none_match = None\<rparr> (fs_data w) (fs_meta w)"
    if "delete_if_match S cfg s k t rq w = (Inr (), w')"
    using delete_ok(3) [OF that [unfolded delete_if_match_def] assms(2)] by simp
  have some: "\<exists>f. objects (fs_data w) (path k) = Some f \<and> t = etag (sha256 S (f_content f))"
    if "conditions_held S cfg k c (fs_data w) (fs_meta w)" "if_match c = Some t" for c
    using that current_result_Some [OF _ assms(1)] condition_etag [OF assms(3)]
    by (auto simp: conditions_held_def conditions_check_def require_def split: if_splits)
  have none: "objects (fs_data w) (path k) = None"
    if "conditions_held S cfg k c (fs_data w) (fs_meta w)" "if_none_match c = Some ''*''" for c
    using that current_result_None condition_star
    by (auto simp: conditions_held_def conditions_check_def require_def split: if_splits)
  show ?thesis using held delheld some none by (metis FilesystemConditions.select_convs(1))
qed

text \<open>C33: a successful deletion needs delete authority and leaves no object under the key and every other
  object and its metadata as they were; a key that held nothing leaves both trees untouched.\<close>

theorem delete_removes_one_object:
  assumes "delete_inner S cfg s k expected rq w = (Inr u, w')" "rooted w"
  shows "objects (fs_data w') = (objects (fs_data w))(path k := None)
    \<and> (\<forall>j. j \<noteq> k \<longrightarrow> objects (fs_meta w') (path j) = objects (fs_meta w) (path j))
    \<and> (objects (fs_data w) (path k) = None \<longrightarrow> objects (fs_data w') = objects (fs_data w))
    \<and> (objects (fs_data w) (path k) \<noteq> None \<longrightarrow> objects (fs_meta w') (path k) = None)
    \<and> key k \<and> pl_bucket (fs_payload s) = sc_bucket cfg \<and> covered s (op_indices Op_Delete) k"
proof -
  have a: "key k \<and> pl_bucket (fs_payload s) = sc_bucket cfg \<and> covered s (op_indices Op_Delete) k"
    using delete_ok(1) [OF assms] by (auto simp: authority_def require_def split: if_splits)
  have other: "path j \<noteq> path k" if "j \<noteq> k" for j using that path_inj by blast
  from delete_ok(2) [OF assms] show ?thesis
  proof
    assume "removed k w w'"
    then show ?thesis using a other by (auto simp: removed_def)
  next
    assume "objects (fs_data w) (path k) = None \<and> fs_data w' = fs_data w \<and> fs_meta w' = fs_meta w"
    then show ?thesis using a by (auto simp: fun_upd_idem)
  qed
qed

text \<open>C11: the store keeps its trees rooted and its metadata coherent: every write and deletion whose outcome
  is not an uncertain commit preserves both, and on a coherent store the ETag a read reports is the
  ETag of the stored content.\<close>

theorem store_stays_coherent:
  assumes "store_lib_ok S" "rooted w" "coherent S cfg w"
  shows "(store_put S cfg s k body opts rq w = (r, w') \<and> (\<forall>e. r = Inl e \<longrightarrow> \<not> uncertain e)
       \<or> delete_inner S cfg s k expected rq w = (q, w') \<and> (\<forall>e. q = Inl e \<longrightarrow> \<not> uncertain e)
       \<longrightarrow> rooted w' \<and> coherent S cfg w')
   \<and> (store_head S cfg s k rq w = (Inr info, w')
       \<longrightarrow> (\<exists>f. objects (fs_data w) (path k) = Some f \<and> oi_etag info = etag (sha256 S (f_content f))
             \<and> oi_size info = length (f_content f)))"
proof -
  have same: "rooted w' \<and> coherent S cfg w'" if "same_objects w w'"
    using that same_objects_rooted coherent_same assms(2,3) by blast
  have put: "rooted w' \<and> coherent S cfg w'"
    if p: "store_put S cfg s k body opts rq w = (r, w')" "\<forall>e. r = Inl e \<longrightarrow> \<not> uncertain e"
  proof (cases r)
    case (Inl e)
    then show ?thesis
      using p same certain_store_put [of S cfg s k body opts rq] unfolding certain_def by (metis fst_conv snd_conv)
  next
    case (Inr info')
    then show ?thesis
      using put_ok [OF p(1) [unfolded Inr] assms(2)] coherent_stored [OF assms(3)] vouched_prepared [OF _ assms(1)]
      by (metis stored_def)
  qed
  have del: "rooted w' \<and> coherent S cfg w'"
    if d: "delete_inner S cfg s k expected rq w = (q, w')" "\<forall>e. q = Inl e \<longrightarrow> \<not> uncertain e"
  proof (cases q)
    case (Inl e)
    then show ?thesis
      using d same certain_delete_inner [of S cfg s k expected rq] unfolding certain_def by (metis fst_conv snd_conv)
  next
    case (Inr u)
    from delete_ok(2) [OF d(1) [unfolded Inr] assms(2)] show ?thesis
      using coherent_removed [OF assms(3)] same by (auto simp: removed_def same_objects_def)
  qed
  have "\<exists>f. objects (fs_data w) (path k) = Some f \<and> oi_etag info = etag (sha256 S (f_content f))
      \<and> oi_size info = length (f_content f)" if "store_head S cfg s k rq w = (Inr info, w')"
  proof -
    have "head_result S cfg s k (fs_data w) (fs_meta w) = Inr info" using settles_ok [OF settles_head that] .
    then obtain f where "found_file (fs_data w) k = Inr f" "described S cfg (fs_meta w) k f = Inr info"
      by (auto simp: head_result_def)
    then show ?thesis
      using coherent_etag [OF assms(3)] found_fileD by (fastforce simp: described_def object_info_def)
  qed
  then show ?thesis using put del by blast
qed

text \<open>C31: in a calm environment an authorised write of an acceptable body onto a path that is free or a file,
  with its conditions met, returns, and the object is stored.\<close>

theorem calm_put_stores:
  assumes "calm s rq w" "rooted w" "authority cfg s Op_Write k = Inr ()"
    and "acceptable S cfg (times_of w) body (po_content_type opts) (po_expected_digest opts)"
    and "open_path (fs_data w) (path k)" "open_path (fs_meta w) (path k)"
    and "conditions_held S cfg k (po_conditions opts) (fs_data w) (fs_meta w)"
  shows "\<exists>info w'. store_put S cfg s k body opts rq w = (Inr info, w')
     \<and> map_option f_content (objects (fs_data w') (path k)) = Some (body_content body)"
proof -
  obtain info w' where p: "store_put S cfg s k body opts rq w = (Inr info, w')"
    using put_completes [OF assms] by blast
  obtain p where "prepared_object S cfg k (body_content body) (po_content_type opts) p" "stored k p w w'"
    using put_ok [OF p assms(2)] by metis
  then show ?thesis using p by (auto simp: prepared_object_def stored_def)
qed

subsection \<open>Witnesses\<close>

text \<open>A store that holds at most one object, a session that may publish below \<^verbatim>\<open>b\<close>, and an environment in
  which time stands still.\<close>

definition demo_session :: VerifiedFilesystemSession where
  "demo_session = \<lparr>fs_payload = demo_payload\<lparr>pl_access := [[], [], [''b''], []]\<rparr>, fs_scope = demo_scope,
     fs_secret = ''T'', fs_deadline = 100\<rparr>"

definition demo_fs :: "node \<Rightarrow> node \<Rightarrow> fs" where
  "demo_fs d m = \<lparr>env = \<lambda>_. frozen_tick 5 1000000000, fs_data = d, fs_meta = m\<rparr>"

definition demo_hash :: "string \<Rightarrow> string" where
  "demo_hash c = take 32 (c @ replicate 32 (CHR ''0''))"

definition demo_meta :: Metadata where
  "demo_meta = \<lparr>md_content_type = CV_Null, md_derived = derive (etag (demo_hash ''hi'')) ''hi'' 1000000000\<rparr>"

definition demo_store :: store_lib where
  "demo_store = \<lparr>sha256 = demo_hash, header_value = \<lambda>_. True, mime = \<lambda>_. ''text/plain'',
     meta_enc = \<lambda>m. if m = demo_meta then Some ''1'' else if m = \<lparr>md_content_type = CV_Null, md_derived = None\<rparr> then Some ''0'' else None,
     meta_dec = \<lambda>b. if b = ''1'' then Some demo_meta
       else if b = ''0'' then Some \<lparr>md_content_type = CV_Null, md_derived = None\<rparr> else None\<rparr>"

definition demo_config :: FilesystemStoreConfig where
  "demo_config = \<lparr>sc_bucket = ''graphit'', sc_max_object_bytes = 100, sc_metadata_bytes = 100\<rparr>"

definition demo_opts :: FilesystemPutOptions where
  "demo_opts = \<lparr>po_content_type = None, po_expected_digest = None,
     po_conditions = \<lparr>if_match = None, if_none_match = Some ''*''\<rparr>\<rparr>"

definition demo_tree :: node where
  "demo_tree = DirN [(''b'', DirN [(''x'', FileN \<lparr>f_content = ''hi'', f_modified = 7\<rparr>)])]"

lemma demo_fs_simps [simp]: "fs_data (demo_fs d m) = d" "fs_meta (demo_fs d m) = m" "env (demo_fs d m) n = frozen_tick 5 1000000000"
  by (simp_all add: demo_fs_def)

lemma demo_calm [simp]: "calm demo_session 50 (demo_fs d m)"
  by (simp add: calm_def frozen_tick_def demo_session_def demo_payload_def)

lemma demo_still: "advances (demo_fs d m) w \<Longrightarrow> w = demo_fs d m"
  by (auto simp: advances_def demo_fs_def)

lemma demo_run:
  assumes "settles demo_session 50 d m p r"
  shows "p (demo_fs d m) = (r, demo_fs d m)"
proof -
  have "fst (p (demo_fs d m)) = r" using settles_calm [of demo_session 50 "demo_fs d m" p r] assms by simp
  moreover have "advances (demo_fs d m) (snd (p (demo_fs d m)))"
    using settles_reads_only [OF assms] by (simp add: reads_only_def)
  ultimately show ?thesis using demo_still by (metis prod.collapse)
qed

lemma demo_key_ok [simp]: "key ''b/x''"
proof -
  have "list_all key_byte ''b/x''" "split_on (CHR ''/'') ''b/x'' = [''b'', ''x'']" by code_simp+
  then show ?thesis by (simp add: key_def)
qed

lemma demo_path [simp]: "path ''b/x'' = [''b'', ''x'']"
  unfolding path_def by code_simp

lemma demo_authority [simp]:
  "authority demo_config demo_session Op_Read ''b/x'' = Inr ()" "authority demo_config demo_session Op_Write ''b/x'' = Inr ()"
  "authority demo_config demo_session Op_Delete ''b/x'' = Inr ()"
  by (simp_all add: authority_def require_def covered_iff demo_session_def demo_payload_def demo_config_def under_def)

lemma demo_store_ok: "store_lib_ok demo_store"
  by (simp add: store_lib_ok_def demo_store_def)

lemma demo_open: "open_path (DirN []) [''b'', ''x'']"
  by (auto simp: open_path_def neq_Nil_conv)

lemma demo_current: "current_result demo_store demo_config ''b/x'' (DirN []) (DirN []) = Inr None"
  by (simp add: current_result_def found_file_def seek_key_def)

lemma demo_acceptable:
  "acceptable demo_store demo_config (times_of (demo_fs d m)) [''hi''] None None"
proof -
  have "encode_metadata demo_store demo_config \<lparr>md_content_type = CV_Null, md_derived = None\<rparr> = Inr ''0''"
    "encode_metadata demo_store demo_config demo_meta = Inr ''1''"
    by (simp_all add: encode_metadata_def ok_or_def demo_store_def demo_config_def demo_meta_def derive_def json_time_def)
  then show ?thesis
    by (auto simp: acceptable_def demo_config_def u64_max_def body_content_def author_def demo_store_def demo_meta_def
        frozen_tick_def)
qed

lemma demo_put:
  obtains info w where "store_put demo_store demo_config demo_session ''b/x'' [''hi''] demo_opts 50 (demo_fs (DirN []) (DirN [])) = (Inr info, w)"
    "calm demo_session 50 w"
proof -
  have "conditions_held demo_store demo_config ''b/x'' (po_conditions demo_opts) (DirN []) (DirN [])"
    using demo_current condition_star [of None]
    by (auto simp: conditions_held_def demo_opts_def conditions_check_def require_def)
  then have "\<exists>info w. store_put demo_store demo_config demo_session ''b/x'' [''hi''] demo_opts 50 (demo_fs (DirN []) (DirN [])) = (Inr info, w)
      \<and> calm demo_session 50 w"
    using demo_open demo_acceptable [of "DirN []" "DirN []"]
    by (intro put_completes) (simp_all add: rooted_def demo_opts_def)
  then show ?thesis using that by blast
qed

lemma demo_tag: "valid_etag (etag (demo_hash ''hi''))"
  unfolding valid_etag_def by code_simp

lemma demo_coherent: "coherent demo_store demo_config (demo_fs d (DirN []))"
proof -
  have "objects (DirN []) p = None" for p by (cases p) (simp_all add: objects_def)
  then show ?thesis by (simp add: coherent_def)
qed

lemma demo_rooted: "rooted (demo_fs (DirN es) (DirN fs))"
  by (simp add: rooted_def)

theorem put_replaces_one_object_witness:
  "\<exists>(info :: FilesystemObjectInfo) (w :: fs). objects (fs_data w) [''b'', ''x''] = Some \<lparr>f_content = ''hi'', f_modified = oi_modified info\<rparr>
     \<and> oi_size info = 2"
proof -
  obtain info w where p: "store_put demo_store demo_config demo_session ''b/x'' [''hi''] demo_opts 50 (demo_fs (DirN []) (DirN [])) = (Inr info, w)"
    using demo_put by metis
  have "objects (fs_data w) [''b'', ''x''] = Some \<lparr>f_content = ''hi'', f_modified = oi_modified info\<rparr> \<and> oi_size info = 2"
    using put_replaces_one_object [OF p demo_rooted] by (simp add: body_content_def)
  then show ?thesis by blast
qed

theorem put_then_head_witness:
  "\<exists>info w. fst (store_head demo_store demo_config demo_session ''b/x'' 50 w) = Inr info
     \<and> store_put demo_store demo_config demo_session ''b/x'' [''hi''] demo_opts 50 (demo_fs (DirN []) (DirN [])) = (Inr info, w)"
proof -
  obtain info w where p: "store_put demo_store demo_config demo_session ''b/x'' [''hi''] demo_opts 50 (demo_fs (DirN []) (DirN [])) = (Inr info, w)"
    "calm demo_session 50 w"
    using demo_put by metis
  from put_then_head [OF demo_store_ok p(1) demo_rooted demo_authority(1) p(2)] show ?thesis using p(1) by blast
qed

theorem calm_put_stores_witness:
  "\<exists>info w. store_put demo_store demo_config demo_session ''b/x'' [''hi'']
      (demo_opts\<lparr>po_conditions := \<lparr>if_match = None, if_none_match = None\<rparr>\<rparr>) 50 (demo_fs (DirN []) (DirN [])) = (Inr info, w)
     \<and> map_option f_content (objects (fs_data w) [''b'', ''x'']) = Some ''hi''"
  using calm_put_stores [of demo_session 50 "demo_fs (DirN []) (DirN [])" demo_config "''b/x''" demo_store "[''hi'']"
      "demo_opts\<lparr>po_conditions := \<lparr>if_match = None, if_none_match = None\<rparr>\<rparr>"] demo_open demo_acceptable [of "DirN []" "DirN []"] demo_rooted
  by (simp add: demo_opts_def conditions_held_def body_content_def)

theorem failed_write_changes_nothing_witness:
  "\<exists>w. store_put demo_store demo_config demo_session [] [''hi''] demo_opts 50 (demo_fs demo_tree (DirN [])) = (Inl SE_InvalidKey, w)
     \<and> objects (fs_data w) [''b'', ''x''] = Some \<lparr>f_content = ''hi'', f_modified = 7\<rparr>"
proof -
  have "authority demo_config demo_session Op_Write [] = Inl SE_InvalidKey"
    by (simp add: authority_def key_def demo_config_def demo_session_def demo_payload_def)
  then have "authorize demo_config demo_session 50 Op_Write [] (demo_fs demo_tree (DirN []))
      = (Inl SE_InvalidKey, demo_fs demo_tree (DirN []))"
    using demo_run [OF settles_authorize] by metis
  then have p: "store_put demo_store demo_config demo_session [] [''hi''] demo_opts 50 (demo_fs demo_tree (DirN []))
      = (Inl SE_InvalidKey, demo_fs demo_tree (DirN []))"
    by (simp add: store_put_def pseq_def pbind_def)
  have "objects demo_tree [''b'', ''x''] = Some \<lparr>f_content = ''hi'', f_modified = 7\<rparr>"
    by (simp add: demo_tree_def objects_def)
  then show ?thesis
    using failed_write_changes_nothing [OF disjI1 [OF p]] p by (simp add: uncertain_def)
qed

theorem range_inside_object_witness:
  "\<exists>r. fst (open_range demo_store demo_config demo_session ''b/x'' (Some (1, 9)) 50 (demo_fs demo_tree (DirN []))) = Inr r
     \<and> or_offset r = 1 \<and> or_length r = 1"
proof -
  have "\<exists>r. range_result demo_store demo_config demo_session ''b/x'' (Some (1, 9)) demo_tree (DirN []) = Inr r
     \<and> or_file r = \<lparr>f_content = ''hi'', f_modified = 7\<rparr>"
    by (simp add: range_result_def found_file_def seek_key_def demo_tree_def described_def found_metadata_def
        object_info_def byte_range_def)
  then obtain r where r: "open_range demo_store demo_config demo_session ''b/x'' (Some (1, 9)) 50 (demo_fs demo_tree (DirN []))
      = (Inr r, demo_fs demo_tree (DirN []))" "or_file r = \<lparr>f_content = ''hi'', f_modified = 7\<rparr>"
    using demo_run [OF settles_open_range] by metis
  from range_inside_object [OF r(1)] r show ?thesis by (simp add: min_def)
qed

theorem conditions_protect_objects_witness:
  "\<exists>info w. store_put demo_store demo_config demo_session ''b/x'' [''hi''] demo_opts 50 (demo_fs (DirN []) (DirN [])) = (Inr info, w)
     \<and> if_none_match (po_conditions demo_opts) = Some ''*'' \<and> objects (DirN []) [''b'', ''x''] = None"
proof -
  obtain info w where p: "store_put demo_store demo_config demo_session ''b/x'' [''hi''] demo_opts 50 (demo_fs (DirN []) (DirN [])) = (Inr info, w)"
    using demo_put by metis
  then show ?thesis
    using conditions_protect_objects [OF demo_coherent [of "DirN []"] demo_rooted demo_tag,
        of demo_session "''b/x''" "[''hi'']" demo_opts 50 info w]
    by (simp add: demo_opts_def)
qed

theorem delete_removes_one_object_witness:
  "\<exists>w. delete_inner demo_store demo_config demo_session ''b/x'' None 50 (demo_fs (DirN []) (DirN [])) = (Inr (), w)
     \<and> objects (fs_data w) [''b'', ''x''] = None"
proof -
  let ?w = "demo_fs (DirN []) (DirN [])"
  have a: "authorize demo_config demo_session 50 Op_Delete ''b/x'' ?w = (Inr (), ?w)"
    using demo_run [OF settles_authorize] demo_authority(3) by metis
  have l: "lock demo_session 50 ?w = (Inr (), ?w)" "request_check 50 demo_session ?w = (Inr (), ?w)"
    using demo_run [OF settles_lock] demo_run [OF settles_request_check] by blast+
  have "seek_key (DirN []) ''b/x'' = Inl SE_NotFound" by (simp add: seek_key_def)
  then have "parent Data ''b/x'' False ?w = (Inl SE_NotFound, ?w)"
    using demo_run [OF settles_parent [where a = Data]] by (metis area.case(1))
  then have d: "delete_inner demo_store demo_config demo_session ''b/x'' None 50 ?w = (Inr (), ?w)"
    using a l by (simp add: delete_inner_def pseq_def pbind_def settled_def pattempt_def remove_object_def pret_def
        delete_condition_def)
  from delete_removes_one_object [OF d demo_rooted] d show ?thesis by auto
qed

theorem store_stays_coherent_witness:
  "\<exists>info w. store_put demo_store demo_config demo_session ''b/x'' [''hi''] demo_opts 50 (demo_fs (DirN []) (DirN [])) = (Inr info, w)
     \<and> rooted w \<and> coherent demo_store demo_config w"
proof -
  obtain info w where p: "store_put demo_store demo_config demo_session ''b/x'' [''hi''] demo_opts 50 (demo_fs (DirN []) (DirN [])) = (Inr info, w)"
    using demo_put by metis
  then show ?thesis
    using store_stays_coherent [OF demo_store_ok demo_rooted demo_coherent,
        of demo_session "''b/x''" "[''hi'']" demo_opts 50 "[]" "Inr info" w]
    by auto
qed

end
