(* ===== verification/Fs_Listing.thy ===== *)
theory Fs_Listing
  imports Fs_Guarantees
begin

text \<open>
  Listing, copying and batch deletion, \<^verbatim>\<open>filesystem_listing.rs\<close>.  The walk visits the entries of the data
  tree and keeps the smallest candidate keys after the marker in an ordered set of bounded size; the
  page is cut from that set and its cursor names the last key.  The lemmas of the theories on pages
  and batches show that the walk keeps
  exactly the first keys of the reference listing, that consecutive pages neither skip nor repeat a
  key, that a copy stores the source's bytes and takes its locks in shard order, and that a batch
  deletion never hides a change behind a certain error.  The JSON form of a cursor and the URL
  encoding of a key are parameters.
\<close>

subsection \<open>Candidates\<close>

datatype Candidate = Candidate (c_key: string) (c_common: bool)

instantiation Candidate :: linorder
begin

definition less_eq_Candidate :: "Candidate \<Rightarrow> Candidate \<Rightarrow> bool" where
  "less_eq_Candidate a b \<longleftrightarrow> c_key a < c_key b \<or> (c_key a = c_key b \<and> c_common a \<le> c_common b)"

definition less_Candidate :: "Candidate \<Rightarrow> Candidate \<Rightarrow> bool" where
  "less_Candidate a b \<longleftrightarrow> c_key a < c_key b \<or> (c_key a = c_key b \<and> c_common a < c_common b)"

instance
  by standard (auto simp: less_eq_Candidate_def less_Candidate_def Candidate.expand)

end

datatype FilesystemListEncoding = LE_Plain | LE_Url

record FilesystemListRequest =
  lr_prefix :: string
  lr_delimiter :: "string option"
  lr_start_after :: "string option"
  lr_continuation_token :: "string option"
  lr_max_keys :: "int option"
  lr_encoding :: FilesystemListEncoding

record FilesystemListPage =
  lp_objects :: "(string \<times> FilesystemObjectInfo) list"
  lp_common_prefixes :: "string list"
  lp_key_count :: nat
  lp_is_truncated :: bool
  lp_next_token :: "string option"

record FilesystemCopyOptions =
  source_conditions :: FilesystemConditions
  target_conditions :: FilesystemConditions

record Cursor =
  cu_prefix :: string
  cu_delimiter :: "string option"
  cu_marker :: string

record list_lib =
  cursor_enc :: "Cursor \<Rightarrow> string option"
  cursor_dec :: "string \<Rightarrow> Cursor option"
  token_enc :: "string \<Rightarrow> string"
  token_dec :: "string \<Rightarrow> string option"
  byte_serialize :: "string \<Rightarrow> string"

text \<open>The byte sequences that are UTF-8, as \<^verbatim>\<open>OsStr::to_str\<close> decides.\<close>

definition cont :: "char \<Rightarrow> bool" where
  "cont c \<longleftrightarrow> 0x80 \<le> byte_of c \<and> byte_of c \<le> 0xBF"

fun utf8 :: "string \<Rightarrow> bool" where
  "utf8 [] \<longleftrightarrow> True"
| "utf8 (a # s) \<longleftrightarrow>
     (if byte_of a < 0x80 then utf8 s
      else case s of
        [] \<Rightarrow> False
      | b # s2 \<Rightarrow>
          if 0xC2 \<le> byte_of a \<and> byte_of a \<le> 0xDF then cont b \<and> utf8 s2
          else case s2 of
            [] \<Rightarrow> False
          | c # s3 \<Rightarrow>
              if 0xE0 \<le> byte_of a \<and> byte_of a \<le> 0xEF
              then cont b \<and> cont c \<and> (byte_of a = 0xE0 \<longrightarrow> 0xA0 \<le> byte_of b) \<and> (byte_of a = 0xED \<longrightarrow> byte_of b \<le> 0x9F) \<and> utf8 s3
              else case s3 of
                [] \<Rightarrow> False
              | d # s4 \<Rightarrow>
                  0xF0 \<le> byte_of a \<and> byte_of a \<le> 0xF4 \<and> cont b \<and> cont c \<and> cont d
                  \<and> (byte_of a = 0xF0 \<longrightarrow> 0x90 \<le> byte_of b) \<and> (byte_of a = 0xF4 \<longrightarrow> byte_of b \<le> 0x8F) \<and> utf8 s4)"

definition encoded :: "list_lib \<Rightarrow> string \<Rightarrow> FilesystemListEncoding \<Rightarrow> string" where
  "encoded K v e = (case e of LE_Plain \<Rightarrow> v
     | LE_Url \<Rightarrow> replace_all (replace_all (byte_serialize K v) ''+'' ''%20'') ''%2F'' ''/'')"

subsection \<open>The walk\<close>

record Selection =
  se_prefix :: string
  se_delimiter :: bool
  se_marker :: string
  se_limit :: nat

definition child_key :: "string \<Rightarrow> string \<Rightarrow> string" where
  "child_key par name = (if par = [] then name else par @ ''/'' @ name)"

text \<open>The key itself, or the common prefix up to the next delimiter after the prefix.\<close>

definition candidate_of :: "Selection \<Rightarrow> string \<Rightarrow> Candidate" where
  "candidate_of sel k =
     (let rest = drop (length (se_prefix sel)) k
      in if se_delimiter sel \<and> CHR ''/'' \<in> set rest
         then Candidate (take (length (se_prefix sel)) k @ takeWhile (\<lambda>c. c \<noteq> CHR ''/'') rest @ ''/'') True
         else Candidate k False)"

definition add_candidate :: "Selection \<Rightarrow> Candidate \<Rightarrow> Candidate list \<Rightarrow> Candidate list" where
  "add_candidate sel c cs =
     (if c_key c \<le> se_marker sel then cs
      else let more = btree_insert c cs in if se_limit sel < length more then butlast more else more)"

definition allowed :: "VerifiedFilesystemSession \<Rightarrow> StorageOperation \<Rightarrow> string \<Rightarrow> ('x, bool) sprog" where
  "allowed s operation k = pmap_err SE_Session (allows s operation k)"

text \<open>Entries outside the prefix are skipped; so are entries the session reaches neither by themselves nor
  through their directory.\<close>

definition skips :: "VerifiedFilesystemSession \<Rightarrow> Selection \<Rightarrow> string \<Rightarrow> string \<Rightarrow> ('x, bool) sprog" where
  "skips s sel par k =
     (if starts_with (se_prefix sel) (k @ ''/'') then pret False
      else if \<not> starts_with k (se_prefix sel) then pret True
      else pbind (allowed s Op_Read par) (\<lambda>p.
        if p then pret False else pbind (allowed s Op_Read k) (\<lambda>q. pret (\<not> q))))"

definition visit_file ::
  "VerifiedFilesystemSession \<Rightarrow> Selection \<Rightarrow> string \<Rightarrow> Candidate list \<Rightarrow> ('x, Candidate list) sprog" where
  "visit_file s sel k cs =
     (if \<not> starts_with k (se_prefix sel) then pret cs
      else if \<not> key k then praise SE_Forbidden
      else pbind (allowed s Op_Read k) (\<lambda>a.
        if \<not> a then praise SE_Forbidden else pret (add_candidate sel (candidate_of sel k) cs)))"

function walk ::
  "VerifiedFilesystemSession \<Rightarrow> FilesystemRequest \<Rightarrow> Selection \<Rightarrow> (string \<times> node) list \<Rightarrow> string
     \<Rightarrow> Candidate list \<Rightarrow> ('x, Candidate list) sprog" where
  "walk s rq sel [] par cs = pret cs"
| "walk s rq sel ((name, n) # es) par cs =
     pseq (request_check rq s) (pseq sys
     (if \<not> utf8 name then praise SE_InvalidKey
      else let k = child_key par name in
       pbind (skips s sel par k) (\<lambda>skip.
       if skip then walk s rq sel es par cs
       else if \<not> key k then praise SE_InvalidKey
       else pseq sys (case n of
           DirN children \<Rightarrow>
             pseq sys (pseq sys (pbind (walk s rq sel children k cs) (\<lambda>cs'. walk s rq sel es par cs')))
         | FileN f \<Rightarrow> pbind (visit_file s sel k cs) (\<lambda>cs'. walk s rq sel es par cs')
         | _ \<Rightarrow> praise SE_InvalidKey))))"
  by pat_completeness auto
termination
  by (relation "measure (\<lambda>(s, rq, sel, es, par, cs). size_list (size_prod (\<lambda>_. 0) size) es)") auto

subsection \<open>Pages\<close>

definition max_keys :: "int option \<Rightarrow> FilesystemStoreError + nat" where
  "max_keys m = (case m of None \<Rightarrow> Inr 1000
     | Some v \<Rightarrow> if v = 0 then Inr 1000 else if 1 \<le> v \<and> v \<le> 1000 then Inr (nat v) else Inl SE_InvalidArgument)"

text \<open>The length of the longest token: base64 of the JSON of two keys of 1024 bytes.\<close>

definition maximum_cursor :: "list_lib \<Rightarrow> FilesystemStoreError + nat" where
  "maximum_cursor K =
     rbind (ok_or (cursor_enc K \<lparr>cu_prefix = replicate 1024 (CHR ''a''), cu_delimiter = Some ''/'',
         cu_marker = replicate 1024 (CHR ''a'')\<rparr>) SE_InvalidArgument)
       (\<lambda>bytes. Inr ((length bytes + 2) div 3 * 4))"

definition list_cursor ::
  "list_lib \<Rightarrow> VerifiedFilesystemSession \<Rightarrow> FilesystemListRequest \<Rightarrow> ('x, Cursor option) sprog" where
  "list_cursor K s input = (case lr_continuation_token input of
       None \<Rightarrow> pret None
     | Some token \<Rightarrow>
         pbind (plift (maximum_cursor K)) (\<lambda>limit.
         if limit < length token then praise SE_InvalidArgument
         else pbind (plift (ok_or (token_dec K token) SE_InvalidArgument)) (\<lambda>bytes.
         pbind (plift (ok_or (cursor_dec K bytes) SE_InvalidArgument)) (\<lambda>cursor.
         if cu_prefix cursor \<noteq> lr_prefix input \<or> cu_delimiter cursor \<noteq> lr_delimiter input
            \<or> 1024 < length (cu_marker cursor) \<or> \<not> key (prefix_key (cu_marker cursor))
            \<or> \<not> starts_with (cu_marker cursor) (lr_prefix input)
         then praise SE_InvalidArgument
         else pbind (allowed s Op_Read (prefix_key (cu_marker cursor))) (\<lambda>a.
           if a then pret (Some cursor) else praise SE_InvalidArgument)))))"

definition marker_of :: "Cursor option \<Rightarrow> FilesystemListRequest \<Rightarrow> string" where
  "marker_of cursor input = (case cursor of Some c \<Rightarrow> cu_marker c
     | None \<Rightarrow> (case lr_start_after input of Some v \<Rightarrow> v | None \<Rightarrow> []))"

definition next_token ::
  "list_lib \<Rightarrow> FilesystemListRequest \<Rightarrow> Candidate list \<Rightarrow> bool \<Rightarrow> FilesystemStoreError + string option" where
  "next_token K input cs truncated =
     (if \<not> truncated then Inr None
      else if cs = [] then Inl SE_InvalidArgument
      else rbind (ok_or (cursor_enc K \<lparr>cu_prefix = lr_prefix input, cu_delimiter = lr_delimiter input,
          cu_marker = c_key (last cs)\<rparr>) SE_InvalidArgument) (\<lambda>bytes. Inr (Some (token_enc K bytes))))"

text \<open>Describe the objects of a page in order.\<close>

fun describe_page ::
  "store_lib \<Rightarrow> list_lib \<Rightarrow> FilesystemStoreConfig \<Rightarrow> VerifiedFilesystemSession \<Rightarrow> FilesystemRequest
     \<Rightarrow> FilesystemListEncoding \<Rightarrow> Candidate list
     \<Rightarrow> ('y fs_ext, (string \<times> FilesystemObjectInfo) list \<times> string list) sprog" where
  "describe_page S K cfg s rq enc [] = pret ([], [])"
| "describe_page S K cfg s rq enc (c # cs) =
     (if c_common c
      then pbind (describe_page S K cfg s rq enc cs) (\<lambda>(os, ps). pret (os, encoded K (c_key c) enc # ps))
      else pbind (store_head S cfg s (c_key c) rq) (\<lambda>info.
           pbind (describe_page S K cfg s rq enc cs) (\<lambda>(os, ps). pret ((encoded K (c_key c) enc, info) # os, ps))))"

definition entries_of :: "node \<Rightarrow> (string \<times> node) list" where
  "entries_of n = (case n of DirN es \<Rightarrow> es | _ \<Rightarrow> [])"

definition list_body ::
  "store_lib \<Rightarrow> list_lib \<Rightarrow> FilesystemStoreConfig \<Rightarrow> VerifiedFilesystemSession \<Rightarrow> FilesystemListRequest
     \<Rightarrow> FilesystemRequest \<Rightarrow> ('y fs_ext, FilesystemListPage) sprog" where
  "list_body S K cfg s input rq =
     (if 1024 < length (lr_prefix input) \<or> (lr_delimiter input \<noteq> None \<and> lr_delimiter input \<noteq> Some ''/'')
      then praise SE_InvalidArgument
      else pbind (plift (max_keys (lr_max_keys input))) (\<lambda>maximum.
       pbind (list_cursor K s input) (\<lambda>cursor.
       let marker = marker_of cursor input in
       if marker \<noteq> [] \<and> (1024 < length marker \<or> \<not> key (prefix_key marker)) then praise SE_InvalidArgument
       else pseq sys (pbind (stat Data []) (\<lambda>root.
       pbind (walk s rq \<lparr>se_prefix = lr_prefix input, se_delimiter = (lr_delimiter input \<noteq> None),
           se_marker = marker, se_limit = maximum + 1\<rparr> (entries_of (the root)) [] []) (\<lambda>found.
       let truncated = maximum < length found;
           cs = (if truncated then butlast found else found) in
       pbind (plift (next_token K input cs truncated)) (\<lambda>token.
       pbind (describe_page S K cfg s rq (lr_encoding input) cs) (\<lambda>(os, ps).
       pret \<lparr>lp_objects = os, lp_common_prefixes = ps, lp_key_count = length cs, lp_is_truncated = truncated,
             lp_next_token = token\<rparr>))))))))"

definition store_list ::
  "store_lib \<Rightarrow> list_lib \<Rightarrow> FilesystemStoreConfig \<Rightarrow> VerifiedFilesystemSession \<Rightarrow> FilesystemListRequest
     \<Rightarrow> FilesystemRequest \<Rightarrow> ('y fs_ext, FilesystemListPage) sprog" where
  "store_list S K cfg s input rq =
     pseq (authorize cfg s rq Op_Read (prefix_key (lr_prefix input))) (checked rq s (list_body S K cfg s input rq))"

subsection \<open>Copy and batch deletion\<close>

text \<open>The two shards of a copy, in the order their locks are taken; one shard is locked once.\<close>

definition lock_order :: "store_lib \<Rightarrow> string \<Rightarrow> string \<Rightarrow> nat list" where
  "lock_order S source target =
     (let (first, second) = (if shard S source \<le> shard S target then (source, target) else (target, source))
      in if shard S first \<noteq> shard S second then [shard S first, shard S second] else [shard S first])"

fun lock_shards :: "nat list \<Rightarrow> VerifiedFilesystemSession \<Rightarrow> FilesystemRequest \<Rightarrow> ('x, unit) sprog" where
  "lock_shards [] s rq = pret ()"
| "lock_shards (n # ns) s rq = pseq (lock s rq) (lock_shards ns s rq)"

definition store_copy ::
  "store_lib \<Rightarrow> FilesystemStoreConfig \<Rightarrow> VerifiedFilesystemSession \<Rightarrow> string \<Rightarrow> string \<Rightarrow> FilesystemCopyOptions
     \<Rightarrow> FilesystemRequest \<Rightarrow> ('y fs_ext, FilesystemObjectInfo) sprog" where
  "store_copy S cfg s source target opts rq =
     pseq (authorize cfg s rq Op_Read source) (pseq (authorize cfg s rq Op_Write target)
     (settled rq s (\<lambda>_. True)
        (pseq (lock_shards (lock_order S source target) s rq)
        (pbind (data_file source) (\<lambda>f. pbind (describe S cfg source f s rq) (\<lambda>info.
         pseq (plift (conditions_check (source_conditions opts) (Some (oi_etag info))))
         (pbind (prepare S cfg s target (file_reads (f_content f)) None (Some (oi_content_type info)) None rq) (\<lambda>prepared.
          publish_locked S cfg s target prepared (target_conditions opts) rq))))))))"

type_synonym FilesystemDeleteResult = "string \<times> (FilesystemStoreError + unit)"

definition interrupted_batch ::
  "FilesystemDeleteResult list \<Rightarrow> FilesystemStoreError \<Rightarrow> bool \<Rightarrow> FilesystemStoreError" where
  "interrupted_batch results cause processed =
     (case find (\<lambda>(k, r). case r of Inl e \<Rightarrow> uncertain e | Inr _ \<Rightarrow> False) results of
        Some (k, Inl e) \<Rightarrow> e
      | _ \<Rightarrow> if processed then SE_CommitUncertain cause else cause)"

definition check_batch ::
  "VerifiedFilesystemSession \<Rightarrow> FilesystemRequest \<Rightarrow> FilesystemDeleteResult list \<Rightarrow> bool \<Rightarrow> ('x, unit) sprog" where
  "check_batch s rq results processed =
     pmap_err (\<lambda>cause. interrupted_batch results cause processed) (request_check rq s)"

fun delete_loop ::
  "store_lib \<Rightarrow> FilesystemStoreConfig \<Rightarrow> VerifiedFilesystemSession \<Rightarrow> bool \<Rightarrow> FilesystemRequest \<Rightarrow> string list
     \<Rightarrow> FilesystemDeleteResult list \<Rightarrow> bool \<Rightarrow> ('y fs_ext, FilesystemDeleteResult list) sprog" where
  "delete_loop S cfg s quiet_mode rq [] results processed =
     pseq (check_batch s rq results processed) (pret results)"
| "delete_loop S cfg s quiet_mode rq (k # ks) results processed =
     pseq (check_batch s rq results processed)
     (pbind (pattempt (store_delete S cfg s k rq)) (\<lambda>r.
      delete_loop S cfg s quiet_mode rq ks
        (if \<not> quiet_mode \<or> (case r of Inl _ \<Rightarrow> True | Inr _ \<Rightarrow> False) then results @ [(k, r)] else results)
        (processed \<or> (case r of Inr _ \<Rightarrow> True | Inl e \<Rightarrow> uncertain e))))"

definition delete_batch ::
  "store_lib \<Rightarrow> FilesystemStoreConfig \<Rightarrow> VerifiedFilesystemSession \<Rightarrow> string list \<Rightarrow> bool \<Rightarrow> FilesystemRequest
     \<Rightarrow> ('y fs_ext, FilesystemDeleteResult list) sprog" where
  "delete_batch S cfg s keys quiet_mode rq =
     pseq (request_check rq s)
     (if pl_bucket (fs_payload s) \<noteq> sc_bucket cfg then praise SE_Forbidden
      else delete_loop S cfg s quiet_mode rq keys [] False)"

end
