(* ===== verification/Fs_Pages.thy ===== *)
theory Fs_Pages
  imports Fs_Listing
begin

text \<open>
  Correctness of listing: the bounded ordered set of the walk holds the first keys of the reference
  listing, a page is a slice of that listing, and the cursor of a truncated page continues exactly
  behind it.
\<close>

subsection \<open>The bounded ordered set\<close>

lemma take_insort_insert:
  "take n (insort_insert c (take n xs)) = take n (insort_insert c xs)" if "sorted xs"
  using that
proof (induction xs arbitrary: n)
  case (Cons x xs)
  show ?case
  proof (cases n)
    case (Suc m)
    have le: "x \<le> y" if "y \<in> set xs" for y using Cons.prems that by simp
    have "c \<in> set xs \<Longrightarrow> c \<noteq> x \<Longrightarrow> \<not> c \<le> x" using le by fastforce
    moreover have "c \<in> set (take m xs) \<Longrightarrow> c \<in> set xs" by (meson in_set_takeD)
    ultimately show ?thesis
      using Suc Cons.IH [of m] Cons.prems le
      by (cases "c = x") (auto simp: insort_insert_key_def take_Cons' split: if_splits)
  qed simp
qed simp

text \<open>The first candidates after the marker, in order.\<close>

definition firsts :: "Selection \<Rightarrow> Candidate set \<Rightarrow> Candidate list" where
  "firsts sel X = take (se_limit sel) (sorted_list_of_set {c \<in> X. se_marker sel < c_key c})"

lemma length_insort_insert: "length (insort_insert c xs) \<le> Suc (length xs)"
  by (simp add: insort_insert_key_def)

lemma insort_insert_sorted_list:
  "finite X \<Longrightarrow> insort_insert c (sorted_list_of_set X) = sorted_list_of_set (insert c X)"
  by (cases "c \<in> X") (simp_all add: insort_insert_key_def insert_absorb)

lemma add_candidate_firsts:
  assumes "finite X"
  shows "add_candidate sel c (firsts sel X) = firsts sel (insert c X)"
proof (cases "c_key c \<le> se_marker sel")
  case True
  then have "{d \<in> insert c X. se_marker sel < c_key d} = {d \<in> X. se_marker sel < c_key d}" by auto
  then show ?thesis using True by (simp add: add_candidate_def firsts_def)
next
  case False
  let ?Y = "{d \<in> X. se_marker sel < c_key d}" and ?n = "se_limit sel"
  have "{d \<in> insert c X. se_marker sel < c_key d} = insert c ?Y" using False by auto
  then have r: "firsts sel (insert c X) = take ?n (insort_insert c (sorted_list_of_set ?Y))"
    using assms by (simp add: firsts_def insort_insert_sorted_list)
  have "length (firsts sel X) \<le> ?n" by (simp add: firsts_def)
  then have l: "length (insort_insert c (firsts sel X)) \<le> Suc ?n"
    using length_insort_insert [of c "firsts sel X"] by linarith
  have "(if ?n < length xs then butlast xs else xs) = take ?n xs" if "length xs \<le> Suc ?n" for xs :: "Candidate list"
  proof (cases "?n < length xs")
    case True
    then have "length xs - 1 = ?n" using that by linarith
    then show ?thesis using True by (simp add: butlast_conv_take)
  qed simp
  then have "add_candidate sel c (firsts sel X) = take ?n (insort_insert c (firsts sel X))"
    using False l unfolding add_candidate_def btree_insert_def Let_def by simp
  also have "\<dots> = take ?n (insort_insert c (sorted_list_of_set ?Y))"
    unfolding firsts_def by (rule take_insort_insert) simp
  finally show ?thesis using r by simp
qed

lemma fold_add_candidate:
  "finite X \<Longrightarrow> fold (\<lambda>k. add_candidate sel (candidate_of sel k)) ks (firsts sel X)
     = firsts sel (candidate_of sel ` set ks \<union> X)"
proof (induction ks arbitrary: X)
  case (Cons k ks)
  then show ?case using Cons.IH [of "insert (candidate_of sel k) X"] by (simp add: add_candidate_firsts)
qed simp

subsection \<open>The reference walk\<close>

definition may_read :: "VerifiedFilesystemSession \<Rightarrow> string \<Rightarrow> bool" where
  "may_read s k \<longleftrightarrow> key k \<and> covered s (op_indices Op_Read) k"

definition skipped :: "VerifiedFilesystemSession \<Rightarrow> string \<Rightarrow> string \<Rightarrow> string \<Rightarrow> bool" where
  "skipped s pre par k \<longleftrightarrow> \<not> starts_with pre (k @ ''/'')
     \<and> (\<not> starts_with k pre \<or> (\<not> may_read s par \<and> \<not> may_read s k))"

text \<open>The keys of the files the walk offers, in the order of the entries, or the error it stops with.\<close>

function reach ::
  "VerifiedFilesystemSession \<Rightarrow> string \<Rightarrow> (string \<times> node) list \<Rightarrow> string \<Rightarrow> FilesystemStoreError + string list" where
  "reach s pre [] par = Inr []"
| "reach s pre ((name, n) # es) par =
     (let k = child_key par name in
      if \<not> utf8 name then Inl SE_InvalidKey
      else if skipped s pre par k then reach s pre es par
      else if \<not> key k then Inl SE_InvalidKey
      else case n of
          DirN children \<Rightarrow> rbind (reach s pre children k) (\<lambda>a. rbind (reach s pre es par) (\<lambda>b. Inr (a @ b)))
        | FileN f \<Rightarrow> if \<not> starts_with k pre then reach s pre es par
            else if \<not> may_read s k then Inl SE_Forbidden
            else rbind (reach s pre es par) (\<lambda>b. Inr (k # b))
        | _ \<Rightarrow> Inl SE_InvalidKey)"
  by pat_completeness auto
termination
  by (relation "measure (\<lambda>(s, pre, es, par). size_list (size_prod (\<lambda>_. 0) size) es)") auto

text \<open>In a calm environment a program that only reads has one result.\<close>

definition calmly ::
  "VerifiedFilesystemSession \<Rightarrow> FilesystemRequest \<Rightarrow> node \<Rightarrow> node \<Rightarrow> ('y fs_ext, 'a) sprog
     \<Rightarrow> FilesystemStoreError + 'a \<Rightarrow> bool" where
  "calmly s rq d m p r \<longleftrightarrow> (\<forall>w. calm s rq w \<longrightarrow> fs_data w = d \<longrightarrow> fs_meta w = m \<longrightarrow>
     (\<exists>w'. p w = (r, w') \<and> calm s rq w' \<and> fs_data w' = d \<and> fs_meta w' = m))"

named_theorems calm_intros

lemma settles_calmly: "settles s rq d m p r \<Longrightarrow> calmly s rq d m p r"
  unfolding calmly_def
proof (intro allI impI)
  fix w :: "'a fs_scheme"
  assume p: "settles s rq d m p r" and c: "calm s rq w" and t: "fs_data w = d" "fs_meta w = m"
  obtain q w' where pw: "p w = (q, w')" by (cases "p w")
  have "advances w w'" using settles_reads_only [OF p] pw by (metis reads_only_def snd_conv)
  moreover have "q = r" using settles_calm [of s rq w p r] p c t pw by simp
  ultimately show "\<exists>w'. p w = (r, w') \<and> calm s rq w' \<and> fs_data w' = d \<and> fs_meta w' = m"
    using pw advances_calm [OF _ c] advances_trees t by blast
qed

lemma calmly_pbind [calm_intros]:
  assumes "calmly s rq d m p r" "\<And>x. r = Inr x \<Longrightarrow> calmly s rq d m (f x) (g x)"
  shows "calmly s rq d m (pbind p f) (rbind r g)"
  unfolding calmly_def
proof (intro allI impI)
  fix w :: "'a fs_scheme"
  assume w: "calm s rq w" "fs_data w = d" "fs_meta w = m"
  then obtain w1 where w1: "p w = (r, w1)" "calm s rq w1" "fs_data w1 = d" "fs_meta w1 = m"
    using assms(1) by (auto simp: calmly_def)
  show "\<exists>w'. pbind p f w = (rbind r g, w') \<and> calm s rq w' \<and> fs_data w' = d \<and> fs_meta w' = m"
  proof (cases r)
    case (Inr x)
    then obtain w2 where "f x w1 = (g x, w2)" "calm s rq w2" "fs_data w2 = d" "fs_meta w2 = m"
      using assms(2) [OF Inr] w1 by (auto simp: calmly_def)
    then show ?thesis using Inr w1 by (simp add: pbind_def)
  qed (use w1 in \<open>simp add: pbind_def\<close>)
qed

lemma calmly_eq: "calmly s rq d m p r \<Longrightarrow> r = r' \<Longrightarrow> calmly s rq d m p r'"
  by simp

lemma calmly_atoms [calm_intros]:
  "calmly s rq d m (pret x) (Inr x)" "calmly s rq d m (praise e) (Inl e)" "calmly s rq d m (plift r) r"
  "calmly s rq d m sys (Inr ())" "calmly s rq d m (request_check rq s) (Inr ())"
  "calmly s rq d m (authorize cfg s rq operation k) (authority cfg s operation k)"
  "calmly s rq d m (stat a p) (Inr (lookup (tree_in a d m) p))"
  by (rule settles_calmly, intro settle_intros)+

lemma calmly_pseq [calm_intros]:
  assumes "calmly s rq d m p (Inr ())" "calmly s rq d m q r"
  shows "calmly s rq d m (pseq p q) r"
  using calmly_pbind [OF assms(1), of "\<lambda>_. q" "\<lambda>_. r"] assms(2) by (simp add: pseq_def)

lemma calmly_allowed [calm_intros]:
  "calmly s rq d m (allowed s operation k) (Inr (key k \<and> covered s (op_indices operation) k))"
  unfolding calmly_def
proof (intro allI impI)
  fix w :: "'a fs_scheme"
  assume w: "calm s rq w" "fs_data w = d" "fs_meta w = m"
  have "fst (session_check s (fs_deadline s) w) = Inr ()" using session_check_calm [OF w(1)] by simp
  then have "fst (allowed s operation k w) = Inr (key k \<and> covered s (op_indices operation) k)"
    by (cases "session_check s (fs_deadline s) w")
       (auto simp: allowed_def pmap_err_def allows_def pbind_def pattempt_def pret_def split: if_splits)
  moreover have "advances w (snd (allowed s operation k w))"
    unfolding allowed_def by (rule reads_only_pmap_err [OF reads_only_allows, unfolded reads_only_def, rule_format])
  ultimately show "\<exists>w'. allowed s operation k w = (Inr (key k \<and> covered s (op_indices operation) k), w')
      \<and> calm s rq w' \<and> fs_data w' = d \<and> fs_meta w' = m"
    using advances_calm [OF _ w(1)] advances_trees w(2,3) by (metis prod.collapse)
qed

lemma calmly_skips: "calmly s rq d m (skips s sel par k) (Inr (skipped s (se_prefix sel) par k))"
  unfolding skips_def
proof -
  let ?p = "may_read s par" and ?q = "may_read s k"
  have "calmly s rq d m (pbind (allowed s Op_Read par) (\<lambda>p.
        if p then pret False else pbind (allowed s Op_Read k) (\<lambda>q. pret (\<not> q)))) (Inr (\<not> ?p \<and> \<not> ?q))"
    by (rule calmly_eq [OF calmly_pbind [OF calmly_allowed, where g = "\<lambda>p. Inr (\<not> p \<and> \<not> ?q)"]])
       (auto simp: may_read_def intro!: calm_intros calmly_eq [OF calmly_pbind [OF calmly_allowed, where g = "\<lambda>q. Inr (\<not> q)"]])
  then show "calmly s rq d m
     (if starts_with (se_prefix sel) (k @ ''/'') then pret False
      else if \<not> starts_with k (se_prefix sel) then pret True
      else pbind (allowed s Op_Read par) (\<lambda>p.
        if p then pret False else pbind (allowed s Op_Read k) (\<lambda>q. pret (\<not> q))))
     (Inr (skipped s (se_prefix sel) par k))"
    by (auto simp: skipped_def intro: calm_intros)
qed

lemma calmly_visit_file:
  "key k \<Longrightarrow> calmly s rq d m (visit_file s sel k cs)
     (if \<not> starts_with k (se_prefix sel) then Inr cs else if \<not> may_read s k then Inl SE_Forbidden
      else Inr (add_candidate sel (candidate_of sel k) cs))"
  unfolding visit_file_def
  by (auto simp: may_read_def intro!: calm_intros calmly_eq [OF calmly_pbind [OF calmly_allowed,
        where g = "\<lambda>a. if a then Inr (add_candidate sel (candidate_of sel k) cs) else Inl SE_Forbidden"]])

definition offered :: "Selection \<Rightarrow> Candidate list \<Rightarrow> string list \<Rightarrow> Candidate list" where
  "offered sel cs ks = fold (\<lambda>k. add_candidate sel (candidate_of sel k)) ks cs"

lemma calmly_known:
  assumes "calmly s rq d m p (Inr x)" "calmly s rq d m (f x) r"
  shows "calmly s rq d m (pbind p f) r"
  using calmly_eq [OF calmly_pbind [OF assms(1), of f "\<lambda>_. r"]] assms(2) by auto

lemma rbind_assoc: "rbind (rbind r f) g = rbind r (\<lambda>x. rbind (f x) g)"
  by (cases r) simp_all

lemma offered_append: "offered sel cs (a @ b) = offered sel (offered sel cs a) b"
  by (simp add: offered_def)

text \<open>One entry of the walk, given the walk of its children and of the entries that follow.\<close>

lemma walk_step:
  assumes rest: "\<And>cs. calmly s rq d m (walk s rq sel es par cs :: ('y fs_ext, Candidate list) sprog)
     (rbind (reach s (se_prefix sel) es par) (\<lambda>ks. Inr (offered sel cs ks)))"
    and children: "\<And>children. n = DirN children \<Longrightarrow>
     calmly s rq d m (walk s rq sel children (child_key par name) cs :: ('y fs_ext, Candidate list) sprog)
       (rbind (reach s (se_prefix sel) children (child_key par name)) (\<lambda>ks. Inr (offered sel cs ks)))"
  shows "calmly s rq d m (walk s rq sel ((name, n) # es) par cs :: ('y fs_ext, Candidate list) sprog)
     (rbind (reach s (se_prefix sel) ((name, n) # es) par) (\<lambda>ks. Inr (offered sel cs ks)))"
proof -
  let ?k = "child_key par name"
  let ?r = "\<lambda>cs. rbind (reach s (se_prefix sel) es par) (\<lambda>ks. Inr (offered sel cs ks))"
  show ?thesis
  proof (cases "utf8 name \<and> \<not> skipped s (se_prefix sel) par ?k \<and> key ?k")
    case True
    have step: "calmly s rq d m (walk s rq sel ((name, n) # es) par cs :: ('y fs_ext, Candidate list) sprog) r"
      if "calmly s rq d m (case n of
           DirN children \<Rightarrow>
             pseq sys (pseq sys (pbind (walk s rq sel children ?k cs) (\<lambda>cs'. walk s rq sel es par cs')))
         | FileN f \<Rightarrow> pbind (visit_file s sel ?k cs) (\<lambda>cs'. walk s rq sel es par cs')
         | _ \<Rightarrow> (praise SE_InvalidKey :: ('y fs_ext, Candidate list) sprog)) r" for r
      using that True by (auto simp: Let_def intro!: calmly_pseq calmly_atoms calmly_known [OF calmly_skips])
    have "calmly s rq d m (case n of
           DirN children \<Rightarrow>
             pseq sys (pseq sys (pbind (walk s rq sel children ?k cs) (\<lambda>cs'. walk s rq sel es par cs')))
         | FileN f \<Rightarrow> pbind (visit_file s sel ?k cs) (\<lambda>cs'. walk s rq sel es par cs')
         | _ \<Rightarrow> (praise SE_InvalidKey :: ('y fs_ext, Candidate list) sprog))
       (rbind (reach s (se_prefix sel) ((name, n) # es) par) (\<lambda>ks. Inr (offered sel cs ks)))"
    proof (cases n)
      case (FileN f)
      have "calmly s rq d m (pbind (visit_file s sel ?k cs) (\<lambda>cs'. walk s rq sel es par cs') :: ('y fs_ext, Candidate list) sprog)
        (rbind (if \<not> starts_with ?k (se_prefix sel) then Inr cs else if \<not> may_read s ?k then Inl SE_Forbidden
          else Inr (add_candidate sel (candidate_of sel ?k) cs)) ?r)"
        using True FileN by (intro calmly_pbind calmly_visit_file) (auto intro!: rest split: if_splits)
      then show ?thesis using FileN True by (auto simp: offered_def rbind_assoc elim!: calmly_eq)
    next
      case (DirN children)
      have "calmly s rq d m (pbind (walk s rq sel children ?k cs) (\<lambda>cs'. walk s rq sel es par cs') :: ('y fs_ext, Candidate list) sprog)
        (rbind (rbind (reach s (se_prefix sel) children ?k) (\<lambda>ks. Inr (offered sel cs ks))) ?r)"
        using True DirN by (intro calmly_pbind rest children)
      then show ?thesis
        using DirN True by (auto simp: offered_append rbind_assoc intro!: calmly_pseq calmly_atoms elim!: calmly_eq)
    qed (use True in \<open>auto intro: calm_intros\<close>)
    then show ?thesis by (rule step)
  next
    case False
    then show ?thesis
      using rest by (auto simp: Let_def intro!: calmly_pseq calmly_atoms calmly_known [OF calmly_skips])
  qed
qed

lemma calmly_walk:
  "calmly s rq d m (walk s rq sel es par cs :: ('y fs_ext, Candidate list) sprog)
     (rbind (reach s (se_prefix sel) es par) (\<lambda>ks. Inr (offered sel cs ks)))"
proof (induction "size_list (size_prod (\<lambda>_. 0) size) es" arbitrary: es par cs rule: less_induct)
  case less
  show ?case
  proof (cases es)
    case (Cons e es')
    obtain name n where e: "e = (name, n)" by (cases e)
    show ?thesis
      unfolding Cons e by (rule walk_step; rule less) (simp_all add: Cons e)
  qed (auto simp: offered_def intro: calm_intros)
qed

subsection \<open>Pages in a calm environment\<close>

definition cursor_result ::
  "list_lib \<Rightarrow> VerifiedFilesystemSession \<Rightarrow> FilesystemListRequest \<Rightarrow> FilesystemStoreError + Cursor option" where
  "cursor_result K s input = (case lr_continuation_token input of
       None \<Rightarrow> Inr None
     | Some token \<Rightarrow>
         rbind (maximum_cursor K) (\<lambda>limit.
         rbind (require (length token \<le> limit) SE_InvalidArgument) (\<lambda>_.
         rbind (ok_or (token_dec K token) SE_InvalidArgument) (\<lambda>bytes.
         rbind (ok_or (cursor_dec K bytes) SE_InvalidArgument) (\<lambda>cursor.
         rbind (require (cu_prefix cursor = lr_prefix input \<and> cu_delimiter cursor = lr_delimiter input
            \<and> length (cu_marker cursor) \<le> 1024 \<and> starts_with (cu_marker cursor) (lr_prefix input)
            \<and> may_read s (prefix_key (cu_marker cursor))) SE_InvalidArgument) (\<lambda>_. Inr (Some cursor)))))))"

fun page_result ::
  "store_lib \<Rightarrow> list_lib \<Rightarrow> FilesystemStoreConfig \<Rightarrow> VerifiedFilesystemSession \<Rightarrow> node \<Rightarrow> node
     \<Rightarrow> FilesystemListEncoding \<Rightarrow> Candidate list
     \<Rightarrow> FilesystemStoreError + (string \<times> FilesystemObjectInfo) list \<times> string list" where
  "page_result S K cfg s d m enc [] = Inr ([], [])"
| "page_result S K cfg s d m enc (c # cs) =
     (if c_common c
      then rbind (page_result S K cfg s d m enc cs) (\<lambda>(os, ps). Inr (os, encoded K (c_key c) enc # ps))
      else rbind (head_result S cfg s (c_key c) d m) (\<lambda>info.
           rbind (page_result S K cfg s d m enc cs) (\<lambda>(os, ps). Inr ((encoded K (c_key c) enc, info) # os, ps))))"

text \<open>The candidates of a page and whether more follow.\<close>

definition all_candidates :: "FilesystemListRequest \<Rightarrow> string list \<Rightarrow> Candidate set" where
  "all_candidates input ks = candidate_of \<lparr>se_prefix = lr_prefix input,
     se_delimiter = (lr_delimiter input \<noteq> None), se_marker = [], se_limit = 0\<rparr> ` set ks"

definition after :: "string \<Rightarrow> Candidate set \<Rightarrow> Candidate list" where
  "after marker X = sorted_list_of_set {c \<in> X. marker < c_key c}"

definition slice_page ::
  "store_lib \<Rightarrow> list_lib \<Rightarrow> FilesystemStoreConfig \<Rightarrow> VerifiedFilesystemSession \<Rightarrow> FilesystemListRequest
     \<Rightarrow> node \<Rightarrow> node \<Rightarrow> nat \<Rightarrow> Candidate list \<Rightarrow> FilesystemStoreError + FilesystemListPage" where
  "slice_page S K cfg s input d m maximum rest =
     rbind (next_token K input (take maximum rest) (maximum < length rest)) (\<lambda>token.
     rbind (page_result S K cfg s d m (lr_encoding input) (take maximum rest)) (\<lambda>(os, ps).
     Inr \<lparr>lp_objects = os, lp_common_prefixes = ps, lp_key_count = length (take maximum rest),
          lp_is_truncated = (maximum < length rest), lp_next_token = token\<rparr>))"

definition list_result ::
  "store_lib \<Rightarrow> list_lib \<Rightarrow> FilesystemStoreConfig \<Rightarrow> VerifiedFilesystemSession \<Rightarrow> FilesystemListRequest
     \<Rightarrow> node \<Rightarrow> node \<Rightarrow> FilesystemStoreError + FilesystemListPage" where
  "list_result S K cfg s input d m =
     rbind (authority cfg s Op_Read (prefix_key (lr_prefix input))) (\<lambda>_.
     rbind (require (length (lr_prefix input) \<le> 1024 \<and> (lr_delimiter input = None \<or> lr_delimiter input = Some ''/''))
       SE_InvalidArgument) (\<lambda>_.
     rbind (max_keys (lr_max_keys input)) (\<lambda>maximum.
     rbind (cursor_result K s input) (\<lambda>cursor.
     let marker = marker_of cursor input in
     rbind (require (marker = [] \<or> (length marker \<le> 1024 \<and> key (prefix_key marker))) SE_InvalidArgument) (\<lambda>_.
     rbind (reach s (lr_prefix input) (entries_of d) []) (\<lambda>ks.
     slice_page S K cfg s input d m maximum (after marker (all_candidates input ks))))))))"

lemma calmly_checked [calm_intros]:
  assumes "calmly s rq d m p r"
  shows "calmly s rq d m (checked rq s p) r"
  unfolding calmly_def
proof (intro allI impI)
  fix w :: "'a fs_scheme"
  assume w: "calm s rq w" "fs_data w = d" "fs_meta w = m"
  then obtain w1 where w1: "p w = (r, w1)" "calm s rq w1" "fs_data w1 = d" "fs_meta w1 = m"
    using assms by (auto simp: calmly_def)
  obtain w2 where w2: "request_check rq s w1 = (Inr (), w2)" "calm s rq w2" "fs_data w2 = d" "fs_meta w2 = m"
    using calmly_atoms(5) [of s rq d m] w1 unfolding calmly_def by blast
  show "\<exists>w'. checked rq s p w = (r, w') \<and> calm s rq w' \<and> fs_data w' = d \<and> fs_meta w' = m"
    using w1 w2 by (simp add: checked_def pbind_def pattempt_def pseq_def plift_def)
qed

lemma calmly_list_cursor: "calmly s rq d m (list_cursor K s input) (cursor_result K s input)"
proof (cases "lr_continuation_token input")
  case (Some token)
  let ?ok = "\<lambda>c. cu_prefix c = lr_prefix input \<and> cu_delimiter c = lr_delimiter input
            \<and> length (cu_marker c) \<le> 1024 \<and> starts_with (cu_marker c) (lr_prefix input)
            \<and> may_read s (prefix_key (cu_marker c))"
  have last: "calmly s rq d m (if cu_prefix c \<noteq> lr_prefix input \<or> cu_delimiter c \<noteq> lr_delimiter input
            \<or> 1024 < length (cu_marker c) \<or> \<not> key (prefix_key (cu_marker c))
            \<or> \<not> starts_with (cu_marker c) (lr_prefix input)
         then praise SE_InvalidArgument
         else pbind (allowed s Op_Read (prefix_key (cu_marker c))) (\<lambda>a.
           if a then pret (Some c) else praise SE_InvalidArgument))
      (rbind (require (?ok c) SE_InvalidArgument) (\<lambda>_. Inr (Some c)))" for c
    by (auto simp: may_read_def require_def intro!: calmly_known [OF calmly_allowed] calmly_atoms)
  have guard: "calmly s rq d m (if limit < length token then praise SE_InvalidArgument else p)
      (rbind (require (length token \<le> limit) SE_InvalidArgument) (\<lambda>_. r))" if "calmly s rq d m p r" for limit p r
    using that by (auto simp: require_def intro!: calmly_atoms)
  show ?thesis
    unfolding list_cursor_def cursor_result_def Some option.case
    by (intro calmly_pbind guard last calmly_atoms)
qed (auto simp: list_cursor_def cursor_result_def intro: calmly_atoms)

lemma calmly_describe_page:
  "calmly s rq d m (describe_page S K cfg s rq enc cs) (page_result S K cfg s d m enc cs)"
  by (induction cs) (auto intro!: calmly_pbind calmly_atoms settles_calmly [OF settles_head] split: prod.splits)

lemma candidate_of_cong:
  "se_prefix sel = se_prefix sel' \<Longrightarrow> se_delimiter sel = se_delimiter sel' \<Longrightarrow> candidate_of sel = candidate_of sel'"
  by (intro ext) (simp add: candidate_of_def Let_def cong: if_cong)

lemma offered_after:
  assumes "sel = \<lparr>se_prefix = lr_prefix input, se_delimiter = (lr_delimiter input \<noteq> None),
           se_marker = marker, se_limit = maximum + 1\<rparr>"
  shows "offered sel [] ks = take (maximum + 1) (after marker (all_candidates input ks))"
proof -
  have "candidate_of sel ` set ks = all_candidates input ks"
    unfolding all_candidates_def by (rule arg_cong [where f = "\<lambda>f. f ` set ks"], rule candidate_of_cong) (simp_all add: assms)
  moreover have "firsts sel {} = []" by (simp add: firsts_def)
  ultimately have "offered sel [] ks = firsts sel (all_candidates input ks)"
    using fold_add_candidate [of "{}" sel ks] by (simp add: offered_def)
  then show ?thesis using assms by (simp add: firsts_def after_def)
qed

lemma cut_page:
  "(maximum < length (take (maximum + 1) xs)) = (maximum < length xs)"
  "(if maximum < length xs then butlast (take (maximum + 1) xs) else take (maximum + 1) xs) = take maximum xs"
  by (auto simp: butlast_take)

lemma calmly_found:
  "calmly s rq d m (walk s rq \<lparr>se_prefix = lr_prefix input, se_delimiter = (lr_delimiter input \<noteq> None),
         se_marker = marker, se_limit = maximum + 1\<rparr> (entries_of d) [] [])
     (rbind (reach s (lr_prefix input) (entries_of d) []) (\<lambda>ks.
        Inr (take (maximum + 1) (after marker (all_candidates input ks)))))"
proof -
  let ?sel = "\<lparr>se_prefix = lr_prefix input, se_delimiter = (lr_delimiter input \<noteq> None),
         se_marker = marker, se_limit = maximum + 1\<rparr>"
  have "se_prefix ?sel = lr_prefix input" by simp
  then show ?thesis
    using calmly_walk [of s rq d m ?sel "entries_of d" "[]" "[]"]
    unfolding offered_after [OF refl] by (simp del: One_nat_def add_Suc_right)
qed

lemma calmly_page:
  "calmly s rq d m (pseq sys (pbind (stat Data []) (\<lambda>root.
       pbind (walk s rq \<lparr>se_prefix = lr_prefix input, se_delimiter = (lr_delimiter input \<noteq> None),
           se_marker = marker, se_limit = maximum + 1\<rparr> (entries_of (the root)) [] []) (\<lambda>found.
       pbind (plift (next_token K input
           (if maximum < length found then butlast found else found) (maximum < length found))) (\<lambda>token.
       pbind (describe_page S K cfg s rq (lr_encoding input)
           (if maximum < length found then butlast found else found)) (\<lambda>(os, ps).
       pret \<lparr>lp_objects = os, lp_common_prefixes = ps,
          lp_key_count = length (if maximum < length found then butlast found else found),
          lp_is_truncated = maximum < length found, lp_next_token = token\<rparr>))))))
     (rbind (reach s (lr_prefix input) (entries_of d) []) (\<lambda>ks.
      slice_page S K cfg s input d m maximum (after marker (all_candidates input ks))))"
proof -
  have st: "calmly s rq d m (stat Data []) (Inr (Some d))"
    using calmly_atoms(7) [of s rq d m Data "[]"] by simp
  have page: "calmly s rq d m (pbind (plift (next_token K input cs t)) (\<lambda>token.
       pbind (describe_page S K cfg s rq (lr_encoding input) cs) (\<lambda>(os, ps).
       pret \<lparr>lp_objects = os, lp_common_prefixes = ps, lp_key_count = length cs, lp_is_truncated = t, lp_next_token = token\<rparr>)))
      (rbind (next_token K input cs t) (\<lambda>token.
      rbind (page_result S K cfg s d m (lr_encoding input) cs) (\<lambda>(os, ps).
      Inr \<lparr>lp_objects = os, lp_common_prefixes = ps, lp_key_count = length cs, lp_is_truncated = t, lp_next_token = token\<rparr>)))"
    for cs t
    by (auto intro!: calmly_pbind calmly_atoms calmly_describe_page split: prod.splits)
  note found = calmly_pbind [OF calmly_found page]
  show ?thesis
    unfolding slice_page_def
    by (rule calmly_pseq [OF calmly_atoms(4)], rule calmly_known [OF st], unfold option.sel,
        rule calmly_eq [OF found]) (simp only: rbind_assoc rbind_simps cut_page)
qed

lemma calmly_store_list:
  "calmly s rq d m (store_list S K cfg s input rq) (list_result S K cfg s input d m)"
proof -
  have guard: "calmly s rq d m (if b then praise e else p) (rbind (require c e) (\<lambda>_. r))"
    if "c = (\<not> b)" "calmly s rq d m p r" for b c e r and p :: "('a fs_ext, FilesystemListPage) sprog"
    using that by (auto simp: require_def intro!: calmly_atoms)
  show ?thesis
    unfolding store_list_def list_result_def list_body_def Let_def
      pseq_def [of "authorize cfg s rq Op_Read (prefix_key (lr_prefix input))"]
    by (intro calmly_pbind calmly_atoms calmly_checked guard calmly_list_cursor calmly_page)
       (auto simp: not_less)
qed

subsection \<open>What the walk offers\<close>

text \<open>Names of directory entries hold no separator, as the operating system guarantees.\<close>

fun names_ok :: "node \<Rightarrow> bool" where
  "names_ok (DirN es) \<longleftrightarrow> (\<forall>e\<in>set es. CHR ''/'' \<notin> set (fst e) \<and> names_ok (snd e))"
| "names_ok n \<longleftrightarrow> True"

definition offers ::
  "VerifiedFilesystemSession \<Rightarrow> string \<Rightarrow> string \<Rightarrow> string \<Rightarrow> node \<Rightarrow> string \<Rightarrow> bool" where
  "offers s pre par kk n k \<longleftrightarrow> key kk \<and> \<not> skipped s pre par kk
     \<and> (case n of
          FileN f \<Rightarrow> k = kk \<and> starts_with k pre \<and> may_read s k
        | DirN children \<Rightarrow> (\<exists>ks. reach s pre children kk = Inr ks \<and> k \<in> set ks)
        | _ \<Rightarrow> False)"

lemma reach_offers:
  "reach s pre es par = Inr ks \<Longrightarrow> k \<in> set ks
     \<Longrightarrow> \<exists>name n. (name, n) \<in> set es \<and> offers s pre par (child_key par name) n k"
proof (induction es arbitrary: ks)
  case (Cons e es)
  obtain name n where e: "e = (name, n)" by (cases e)
  let ?k = "child_key par name"
  have "offers s pre par ?k n k \<or> (\<exists>ks'. reach s pre es par = Inr ks' \<and> k \<in> set ks')"
    using Cons.prems e by (cases n) (auto simp: Let_def offers_def split: if_splits)
  then show ?case using Cons.IH e by (metis list.set_intros(1,2))
qed simp

text \<open>Induction over the files the walk offers.\<close>

lemma reach_induct [consumes 2, case_names File Dir]:
  assumes "reach s pre es par = Inr ks" "k \<in> set ks"
    and "\<And>es par name f. (name, FileN f) \<in> set es \<Longrightarrow> offers s pre par (child_key par name) (FileN f) k \<Longrightarrow> P es par"
    and "\<And>es par name children. (name, DirN children) \<in> set es \<Longrightarrow> offers s pre par (child_key par name) (DirN children) k
      \<Longrightarrow> P children (child_key par name) \<Longrightarrow> P es par"
  shows "P es par"
  using assms(1,2)
proof (induction "size_list (size_prod (\<lambda>_. 0) size) es" arbitrary: es par ks rule: less_induct)
  case less
  obtain name n where n: "(name, n) \<in> set es" "offers s pre par (child_key par name) n k"
    using reach_offers [OF less.prems] by blast
  show ?case
  proof (cases n)
    case (FileN f)
    then show ?thesis using assms(3) n by blast
  next
    case (DirN children)
    obtain ks' where ks': "reach s pre children (child_key par name) = Inr ks'" "k \<in> set ks'"
      using n DirN by (auto simp: offers_def)
    have "size_prod (\<lambda>_. 0) size (name, n) \<le> size_list (size_prod (\<lambda>_. 0) size) es"
      using n(1) by (rule size_list_estimation') simp
    then have "P children (child_key par name)" using less.hyps [OF _ ks'] DirN by simp
    then show ?thesis using assms(4) n DirN by blast
  qed (use n in \<open>auto simp: offers_def\<close>)
qed

lemma reach_keys:
  assumes "reach s pre es par = Inr ks" "k \<in> set ks"
  shows "may_read s k \<and> starts_with k pre \<and> (par = [] \<or> starts_with k (par @ ''/''))"
  using assms by (induction rule: reach_induct) (auto simp: offers_def child_key_def starts_with_iff split: if_splits)

lemma dir_above:
  fixes kk :: string
  assumes "CHR ''/'' \<notin> set name" "kk = child_key par name" "par = [] \<or> starts_with D (par @ ''/'')"
  shows "\<not> starts_with kk (D @ ''/'')"
  using assms by (auto simp: child_key_def starts_with_iff)

lemma starts_with_two:
  "starts_with k (a @ ''/'') \<Longrightarrow> starts_with k (b @ ''/'')
     \<Longrightarrow> b = a \<or> starts_with b (a @ ''/'') \<or> starts_with a (b @ ''/'')"
  by (auto simp: starts_with_iff append_eq_append_conv2 append_eq_Cons_conv Cons_eq_append_conv)

lemma names_ok_child: "names_ok (DirN es) \<Longrightarrow> (name, n) \<in> set es \<Longrightarrow> CHR ''/'' \<notin> set name \<and> names_ok n"
  by force

lemma reach_dirs:
  assumes "reach s pre es par = Inr ks" "k \<in> set ks"
  shows "names_ok (DirN es) \<Longrightarrow> k = D @ ''/'' @ rest \<Longrightarrow> starts_with D pre \<Longrightarrow> par = [] \<or> starts_with D (par @ ''/'')
    \<Longrightarrow> covered s (op_indices Op_Read) D"
  using assms
proof (induction rule: reach_induct)
  case (File es par name f)
  then have "CHR ''/'' \<notin> set name" by auto
  then have "\<not> starts_with (child_key par name) (D @ ''/'')" using dir_above File by blast
  moreover have "starts_with (D @ ''/'' @ rest) (D @ ''/'')" by (simp add: starts_with_iff)
  moreover have "child_key par name = D @ ''/'' @ rest" using File by (simp add: offers_def)
  ultimately show ?case by metis
next
  case (Dir es par name children)
  let ?k = "child_key par name"
  have names: "CHR ''/'' \<notin> set name" "names_ok (DirN children)" using names_ok_child Dir by blast+
  obtain ks' where ks': "reach s pre children ?k = Inr ks'" "k \<in> set ks'" "key ?k" "\<not> skipped s pre par ?k"
    using Dir by (auto simp: offers_def)
  then have "starts_with k (?k @ ''/'')" using reach_keys [OF ks'(1,2)] by (auto simp: key_def)
  moreover have "starts_with k (D @ ''/'')" using Dir by (simp add: starts_with_iff)
  moreover have "\<not> starts_with ?k (D @ ''/'')" using dir_above names Dir by blast
  ultimately consider "D = ?k" | "starts_with D (?k @ ''/'')"
    using starts_with_two by blast
  then show ?case
  proof cases
    case 1
    then have "\<not> starts_with pre (?k @ ''/'')"
      using Dir by (auto simp: starts_with_iff)
    then have "may_read s par \<or> may_read s ?k" using ks' by (auto simp: skipped_def)
    moreover have "may_read s par \<Longrightarrow> under par ?k" by (auto simp: may_read_def key_def child_key_def under_def starts_with_iff)
    ultimately show ?thesis
      using 1 under_trans unfolding may_read_def covered_iff by blast
  next
    case 2
    then show ?thesis using Dir names by blast
  qed
qed

lemma key_above: "key (D @ ''/'' @ rest) \<Longrightarrow> key D"
  by (auto simp: key_def)

lemma prefix_key_simps: "key k \<Longrightarrow> prefix_key k = k" "prefix_key (D @ ''/'') = D"
proof -
  show "prefix_key k = k" if "key k"
  proof (cases "ends_with k ''/''")
    case True
    then obtain D where "k = D @ ''/''" by (auto simp: ends_with_iff)
    then show ?thesis using that by (simp add: key_def)
  qed (simp add: prefix_key_def strip_suffix_def)
qed (simp add: prefix_key_def strip_suffix_def ends_with_def starts_with_def)

lemma candidate_cases:
  assumes "c \<in> all_candidates input ks"
  obtains "c_key c \<in> set ks" "\<not> c_common c"
  | k D rest where "k \<in> set ks" "k = D @ ''/'' @ rest" "starts_with k (lr_prefix input) \<Longrightarrow> starts_with D (lr_prefix input)"
      "c_key c = D @ ''/''" "c_common c"
proof -
  let ?p = "lr_prefix input"
  obtain k where k: "k \<in> set ks" "c = candidate_of \<lparr>se_prefix = ?p,
     se_delimiter = (lr_delimiter input \<noteq> None), se_marker = [], se_limit = 0\<rparr> k"
    using assms by (auto simp: all_candidates_def)
  let ?r = "drop (length ?p) k"
  show thesis
  proof (cases "lr_delimiter input \<noteq> None \<and> CHR ''/'' \<in> set ?r")
    case True
    let ?D = "take (length ?p) k @ takeWhile (\<lambda>c. c \<noteq> CHR ''/'') ?r"
    obtain a b where ab: "?r = a @ CHR ''/'' # b" "CHR ''/'' \<notin> set a"
      using True split_list_first by fastforce
    have "takeWhile (\<lambda>c. c \<noteq> CHR ''/'') (a @ CHR ''/'' # b) = a" using ab(2) by (induction a) auto
    then have "k = ?D @ ''/'' @ b" using append_take_drop_id [of "length ?p" k] unfolding ab(1) by simp
    moreover have "starts_with ?D ?p" if "starts_with k ?p"
      using that by (simp add: starts_with_def)
    moreover have "c_key c = ?D @ ''/''" "c_common c" using k(2) True by (simp_all add: candidate_of_def)
    ultimately show thesis using that(2) [OF k(1)] by blast
  next
    case False
    then show thesis using that(1) k by (auto simp: candidate_of_def Let_def)
  qed
qed

lemma candidate_marker:
  assumes "reach s (lr_prefix input) (entries_of d) [] = Inr ks" "names_ok d" "c \<in> all_candidates input ks"
  shows "may_read s (prefix_key (c_key c)) \<and> length (c_key c) \<le> 1024 \<and> starts_with (c_key c) (lr_prefix input)
    \<and> list_all key_byte (c_key c)"
  using assms(3)
proof (cases rule: candidate_cases)
  case 1
  then show ?thesis using reach_keys [OF assms(1) 1(1)] by (auto simp: may_read_def prefix_key_simps key_def)
next
  case (2 k D rest)
  have k: "may_read s k" "starts_with D (lr_prefix input)" using reach_keys [OF assms(1) 2(1)] 2 by auto
  have "names_ok (DirN (entries_of d))" using assms(2) by (cases d) (auto simp: entries_of_def)
  then have "covered s (op_indices Op_Read) D"
    using reach_dirs [OF assms(1) 2(1) _ 2(2) k(2)] by simp
  then show ?thesis
    using k 2 key_above [of D rest] by (auto simp: may_read_def prefix_key_simps key_def starts_with_iff)
qed

lemma candidate_inj:
  assumes "reach s (lr_prefix input) es par = Inr ks" "c \<in> all_candidates input ks" "c' \<in> all_candidates input ks"
    and "c_key c = c_key c'"
  shows "c = c'"
proof -
  have "c_common c \<longleftrightarrow> prefix_key (c_key c) \<noteq> c_key c" if "c \<in> all_candidates input ks" for c
    using that
    by (cases rule: candidate_cases) (use reach_keys [OF assms(1)] in \<open>auto simp: may_read_def prefix_key_simps\<close>)
  then show ?thesis using assms Candidate.expand by metis
qed

lemma after_drop:
  assumes "finite X" "inj_on c_key X" "n < length (after m X)" "0 < n"
  shows "after (c_key (last (take n (after m X)))) X = drop n (after m X)"
proof -
  let ?r = "after m X" and ?Y = "{c \<in> X. m < c_key c}"
  have r: "sorted_wrt (<) ?r" "set ?r = ?Y" using assms(1) by (simp_all add: after_def)
  have strict: "c_key a < c_key b" if "a < b" "a \<in> X" "b \<in> X" for a b
    using that assms(2) by (auto simp: less_Candidate_def dest: inj_onD)
  have l: "last (take n ?r) = ?r ! (n - 1)" using assms(3,4) last_conv_nth [of "take n ?r"] by fastforce
  have le: "n - 1 < i \<longleftrightarrow> n \<le> i" for i using assms(4) by linarith
  have mem: "?r ! i \<in> ?Y" if "i < length ?r" for i using that r(2) nth_mem by blast
  have lt: "c_key (?r ! i) < c_key (?r ! j) \<longleftrightarrow> i < j" if "i < length ?r" "j < length ?r" for i j
    using that strict mem sorted_wrt_nth_less [OF r(1)] by (metis (mono_tags, lifting) mem_Collect_eq not_less_iff_gr_or_eq order_less_asym)
  have n: "n - 1 < length ?r" "m < c_key (?r ! (n - 1))" using assms(3) mem [of "n - 1"] by auto
  have "c \<in> X \<and> c_key (?r ! (n - 1)) < c_key c \<longleftrightarrow> c \<in> set (drop n ?r)" (is "?l c \<longleftrightarrow> _") for c
  proof
    assume c: "?l c"
    then have "c \<in> set ?r" using n(2) unfolding r(2) by auto
    then obtain i where "i < length ?r" "c = ?r ! i" unfolding in_set_conv_nth by blast
    moreover from this have "n \<le> i" using c lt [OF n(1)] le by blast
    ultimately show "c \<in> set (drop n ?r)" by (auto simp: in_set_conv_nth intro!: exI [of _ "i - n"])
  next
    assume "c \<in> set (drop n ?r)"
    then obtain j where "n + j < length ?r" "c = ?r ! (n + j)"
      by (auto simp: in_set_conv_nth less_diff_conv add.commute) blast
    then show "?l c" using lt [OF n(1), of "n + j"] le mem [of "n + j"] by simp
  qed
  then have "{c \<in> X. c_key (?r ! (n - 1)) < c_key c} = set (drop n ?r)" by blast
  moreover have "sorted_list_of_set (set (drop n ?r)) = drop n ?r"
    using r(1) by (intro sorted_list_of_set.idem_if_sorted_distinct) (auto simp: after_def)
  ultimately show ?thesis unfolding l by (simp add: after_def)
qed

subsection \<open>Continuing behind a page\<close>

text \<open>What the pagination relies on: the JSON form of a cursor whose strings need no escape is the strings and
  a fixed frame, where an absent delimiter is written in four bytes and the delimiter in three; base64
  writes four characters for three bytes; both can be read back.\<close>

definition cursor_json_ok :: "list_lib \<Rightarrow> nat \<Rightarrow> bool" where
  "cursor_json_ok K n \<longleftrightarrow> (\<forall>c. list_all key_byte (cu_prefix c) \<longrightarrow> list_all key_byte (cu_marker c)
     \<longrightarrow> cu_delimiter c = None \<or> cu_delimiter c = Some ''/'' \<longrightarrow>
     (\<exists>b. cursor_enc K c = Some b \<and> cursor_dec K b = Some c
        \<and> length b = n + length (cu_prefix c) + length (cu_marker c) + (if cu_delimiter c = None then 4 else 3)))"

definition token_ok :: "list_lib \<Rightarrow> bool" where
  "token_ok K \<longleftrightarrow> (\<forall>b. token_dec K (token_enc K b) = Some b \<and> length (token_enc K b) \<le> (length b + 2) div 3 * 4)"

lemma cursor_json_okD:
  "cursor_json_ok K n \<Longrightarrow> list_all key_byte (cu_prefix c) \<Longrightarrow> list_all key_byte (cu_marker c)
     \<Longrightarrow> cu_delimiter c = None \<or> cu_delimiter c = Some ''/''
     \<Longrightarrow> \<exists>b. cursor_enc K c = Some b \<and> cursor_dec K b = Some c
       \<and> length b = n + length (cu_prefix c) + length (cu_marker c) + (if cu_delimiter c = None then 4 else 3)"
  unfolding cursor_json_ok_def by blast

lemma maximum_cursor_ok: "cursor_json_ok K n \<Longrightarrow> maximum_cursor K = Inr ((n + 2053) div 3 * 4)"
proof -
  assume K: "cursor_json_ok K n"
  let ?c = "\<lparr>cu_prefix = replicate 1024 (CHR ''a''), cu_delimiter = Some ''/'', cu_marker = replicate 1024 (CHR ''a'')\<rparr>"
  have "list_all key_byte (replicate 1024 (CHR ''a''))" by (simp add: list_all_iff key_byte_def byte_of_def)
  then obtain b where "cursor_enc K ?c = Some b" "length b = n + 2051" using cursor_json_okD [OF K, of ?c] by auto
  then show ?thesis by (simp add: maximum_cursor_def ok_or_def)
qed

text \<open>A page that has a successor has a prefix shorter than the longest key: two different keys begin with it.\<close>

lemma truncated_prefix:
  assumes "\<And>c. c \<in> X \<Longrightarrow> starts_with (c_key c) p \<and> length (c_key c) \<le> 1024" "inj_on c_key X"
    and "a \<in> X" "b \<in> X" "a \<noteq> b"
  shows "length p < 1024"
proof (rule ccontr)
  assume "\<not> length p < 1024"
  then have "c_key c = p" if "c \<in> X" for c using assms(1) [OF that]
    by (auto simp: starts_with_iff simp flip: length_0_conv)
  then show False using assms(2-5) by (metis inj_onD)
qed

lemma cursor_accepted:
  assumes K: "cursor_json_ok K n" "token_ok K"
    and token: "next_token K input cs True = Inr (Some token)" and m: "c_key (last cs) = marker"
    and p: "length (lr_prefix input) < 1024" and d: "lr_delimiter input = None \<or> lr_delimiter input = Some ''/''"
    and ok: "may_read s (prefix_key marker)" "length marker \<le> 1024" "starts_with marker (lr_prefix input)"
      "list_all key_byte marker"
  shows "cursor_result K s (input \<lparr>lr_continuation_token := Some token\<rparr>) =
    Inr (Some \<lparr>cu_prefix = lr_prefix input, cu_delimiter = lr_delimiter input, cu_marker = marker\<rparr>)"
proof -
  let ?c = "\<lparr>cu_prefix = lr_prefix input, cu_delimiter = lr_delimiter input, cu_marker = marker\<rparr>"
  have "list_all key_byte (lr_prefix input)" using ok(3,4) by (auto simp: starts_with_iff)
  then obtain b where b: "cursor_enc K ?c = Some b" "cursor_dec K b = Some ?c"
      "length b = n + length (lr_prefix input) + length marker + (if lr_delimiter input = None then 4 else 3)"
    using cursor_json_okD [OF K(1), of ?c] ok(4) d by auto
  have t: "token = token_enc K b" using token b(1) m by (auto simp: next_token_def ok_or_def split: if_splits)
  have "length b \<le> n + 2051" using b(3) p ok(2) by (simp split: if_splits)
  then have "(length b + 2) div 3 * 4 \<le> (n + 2053) div 3 * 4" by (intro mult_le_mono1 div_le_mono) simp
  then have "length token \<le> (n + 2053) div 3 * 4"
    using K(2) t unfolding token_ok_def by (meson le_trans)
  then show ?thesis
    using b K(2) t ok d p by (simp add: cursor_result_def maximum_cursor_ok [OF K(1)] token_ok_def ok_or_def require_def)
qed

lemma list_result_slice:
  assumes "list_result S K cfg s input d m = Inr page"
  obtains maximum cursor ks where "max_keys (lr_max_keys input) = Inr maximum" "0 < maximum"
    "cursor_result K s input = Inr cursor" "reach s (lr_prefix input) (entries_of d) [] = Inr ks"
    "lr_delimiter input = None \<or> lr_delimiter input = Some ''/''"
    "slice_page S K cfg s input d m maximum (after (marker_of cursor input) (all_candidates input ks)) = Inr page"
proof -
  have "0 < maximum" if "max_keys v = Inr maximum" for v maximum
    using that by (auto simp: max_keys_def split: option.splits if_splits)
  then show thesis using assms that by (auto simp: list_result_def Let_def require_def split: if_splits)
qed

lemma slice_token:
  assumes "slice_page S K cfg s input d m maximum rest = Inr page" "lp_next_token page = Some token"
  shows "maximum < length rest" "next_token K input (take maximum rest) True = Inr (Some token)"
  using assms by (auto simp: slice_page_def next_token_def split: if_splits)

lemma finite_all_candidates [simp]: "finite (all_candidates input ks)"
  by (simp add: all_candidates_def)

text \<open>What a request still has to list: the page size and the candidates after its marker.\<close>

definition pending ::
  "list_lib \<Rightarrow> VerifiedFilesystemSession \<Rightarrow> FilesystemListRequest \<Rightarrow> node \<Rightarrow> FilesystemStoreError + nat \<times> Candidate list" where
  "pending K s input d =
     rbind (max_keys (lr_max_keys input)) (\<lambda>maximum.
     rbind (cursor_result K s input) (\<lambda>cursor.
     rbind (reach s (lr_prefix input) (entries_of d) []) (\<lambda>ks.
     Inr (maximum, after (marker_of cursor input) (all_candidates input ks)))))"

lemma next_page_result:
  assumes K: "cursor_json_ok K n" "token_ok K" and names: "names_ok d"
    and first: "list_result S K cfg s input d m = Inr page" and token: "lp_next_token page = Some token"
  shows "\<exists>maximum rest. pending K s input d = Inr (maximum, rest) \<and> 0 < maximum \<and> maximum < length rest
    \<and> slice_page S K cfg s input d m maximum rest = Inr page
    \<and> pending K s (input \<lparr>lr_continuation_token := Some token\<rparr>) d = Inr (maximum, drop maximum rest)
    \<and> list_result S K cfg s (input \<lparr>lr_continuation_token := Some token\<rparr>) d m
      = slice_page S K cfg s input d m maximum (drop maximum rest)"
proof -
  obtain maximum cursor ks where l: "max_keys (lr_max_keys input) = Inr maximum" "0 < maximum"
    "cursor_result K s input = Inr cursor"
    "reach s (lr_prefix input) (entries_of d) [] = Inr ks" "lr_delimiter input = None \<or> lr_delimiter input = Some ''/''"
    "slice_page S K cfg s input d m maximum (after (marker_of cursor input) (all_candidates input ks)) = Inr page"
    using first by (rule list_result_slice)
  let ?X = "all_candidates input ks" and ?next = "input \<lparr>lr_continuation_token := Some token\<rparr>"
  let ?rest = "after (marker_of cursor input) ?X"
  let ?marker = "c_key (last (take maximum ?rest))"
  note t = slice_token [OF l(6) token]
  have set: "set ?rest \<subseteq> ?X" "distinct ?rest" by (auto simp: after_def)
  have inj: "inj_on c_key ?X" using candidate_inj [OF l(4)] by (auto intro: inj_onI)
  note X = candidate_marker [OF l(4) names]
  have len: "0 < length ?rest" "1 < length ?rest" using t(1) l(2) by linarith+
  have ne: "?rest ! 0 \<noteq> ?rest ! 1" using nth_eq_iff_index_eq [OF set(2) len] by simp
  have mem: "?rest ! i \<in> ?X" if "i < length ?rest" for i using that set nth_mem by blast
  have p: "length (lr_prefix input) < 1024"
    using truncated_prefix [OF _ inj mem mem ne] X len by blast
  have "take maximum ?rest \<noteq> []" using t(1) l(2) by auto
  then have "last (take maximum ?rest) \<in> ?X" using set(1) by (meson in_set_takeD last_in_set subsetD)
  note m = X [OF this]
  have c: "cursor_result K s ?next = Inr (Some \<lparr>cu_prefix = lr_prefix input, cu_delimiter = lr_delimiter input, cu_marker = ?marker\<rparr>)"
    using m by (intro cursor_accepted [OF K t(2) refl p l(5)]) auto
  have a: "after ?marker ?X = drop maximum ?rest" by (rule after_drop [OF _ inj t(1) l(2)]) simp
  have X': "all_candidates ?next ks = ?X" by (simp add: all_candidates_def)
  have "slice_page S K cfg s ?next d m maximum r = slice_page S K cfg s input d m maximum r" for r
    by (simp add: slice_page_def next_token_def)
  then have "list_result S K cfg s ?next d m = slice_page S K cfg s input d m maximum (drop maximum ?rest)"
    using first l m c a X' by (auto simp: list_result_def marker_of_def require_def may_read_def split: if_splits)
  moreover have "pending K s ?next d = Inr (maximum, drop maximum ?rest)"
    using l(1,4) c a X' by (simp add: pending_def marker_of_def)
  ultimately show ?thesis using l t(1) by (auto simp: pending_def)
qed

subsection \<open>Properties of listing\<close>

lemma page_result_keys:
  "page_result S K cfg s d m LE_Plain cs = Inr (os, ps)
     \<Longrightarrow> k \<in> fst ` set os \<union> set ps \<Longrightarrow> k \<in> c_key ` set cs"
proof (induction cs arbitrary: os ps)
  case (Cons c cs)
  obtain os' ps' where r: "page_result S K cfg s d m LE_Plain cs = Inr (os', ps')"
    using Cons.prems(1) by (auto split: if_splits)
  have "k = c_key c \<or> k \<in> fst ` set os' \<union> set ps'"
    using Cons.prems by (auto simp: r encoded_def split: if_splits)
  then show ?case using Cons.IH [OF r] by auto
qed simp

lemma store_list_calm:
  "calm s rq w \<Longrightarrow> fst (store_list S K cfg s input rq w) = list_result S K cfg s input (fs_data w) (fs_meta w)"
  using calmly_store_list [of s rq "fs_data w" "fs_meta w" S K cfg input] unfolding calmly_def by fastforce

text \<open>C10: In an environment without faults, listing is its reference: the request is checked as a pure
  function of the request and the session, the candidates are the files the session can read below the
  prefix (cut at the delimiter), and the page is the first \<^verbatim>\<open>maximum\<close> of the candidates after the marker
  in key order, truncated exactly when more follow. The bounded ordered set of the walk loses nothing.\<close>

theorem list_refines:
  assumes "calm s rq w"
  shows "fst (store_list S K cfg s input rq w) = list_result S K cfg s input (fs_data w) (fs_meta w)"
  by (rule store_list_calm [OF assms])

text \<open>The token of a truncated page is accepted, and the page it asks for is the slice of the same ordered
  listing that begins right behind the first page: nothing is skipped and nothing is repeated.\<close>

theorem next_page_continues:
  assumes "cursor_json_ok K n" "token_ok K" "names_ok (fs_data w)" "calm s rq w" "calm s rq w'"
    and "fs_data w' = fs_data w" "fs_meta w' = fs_meta w"
    and "fst (store_list S K cfg s input rq w) = Inr page" "lp_next_token page = Some token"
  shows "\<exists>maximum rest. slice_page S K cfg s input (fs_data w) (fs_meta w) maximum rest = Inr page
    \<and> fst (store_list S K cfg s (input \<lparr>lr_continuation_token := Some token\<rparr>) rq w')
      = slice_page S K cfg s input (fs_data w) (fs_meta w) maximum (drop maximum rest)"
  using next_page_result [OF assms(1-3) _ assms(9)] assms(4-8) store_list_calm by metis

text \<open>A listing discloses only what the session may read: every object key and every common prefix of a page
  begins with the requested prefix, is a valid key (up to the trailing delimiter) and lies under a root
  the session may read.\<close>

theorem listing_confined:
  assumes "calm s rq w" "names_ok (fs_data w)" "lr_encoding input = LE_Plain"
    and "fst (store_list S K cfg s input rq w) = Inr page"
    and "k \<in> fst ` set (lp_objects page) \<union> set (lp_common_prefixes page)"
  shows "starts_with k (lr_prefix input) \<and> key (prefix_key k) \<and> covered s (op_indices Op_Read) (prefix_key k)"
proof -
  have "list_result S K cfg s input (fs_data w) (fs_meta w) = Inr page"
    using store_list_calm [OF assms(1)] assms(4) by simp
  then obtain maximum cursor ks where ks: "reach s (lr_prefix input) (entries_of (fs_data w)) [] = Inr ks"
    and page: "slice_page S K cfg s input (fs_data w) (fs_meta w) maximum
      (after (marker_of cursor input) (all_candidates input ks)) = Inr page"
    by (rule list_result_slice)
  let ?cs = "take maximum (after (marker_of cursor input) (all_candidates input ks))"
  have "page_result S K cfg s (fs_data w) (fs_meta w) LE_Plain ?cs = Inr (lp_objects page, lp_common_prefixes page)"
    using page assms(3) by (auto simp: slice_page_def)
  then have "k \<in> c_key ` set ?cs" using page_result_keys assms(5) by blast
  moreover have "set ?cs \<subseteq> all_candidates input ks"
    using set_take_subset by (fastforce simp: after_def)
  ultimately show ?thesis using candidate_marker [OF ks assms(2)] by (auto simp: may_read_def)
qed

definition demo_list :: list_lib where
  "demo_list = \<lparr>cursor_enc = \<lambda>c. Some (cu_prefix c @ CHR 0x22 # cu_marker c @ CHR 0x22
        # (case cu_delimiter c of None \<Rightarrow> ''null'' | Some d \<Rightarrow> [CHR 0x22] @ d @ [CHR 0x22])),
     cursor_dec = \<lambda>b. let p = takeWhile (\<lambda>x. x \<noteq> CHR 0x22) b; r = drop (length p + 1) b;
        m = takeWhile (\<lambda>x. x \<noteq> CHR 0x22) r; d = drop (length m + 1) r
        in Some \<lparr>cu_prefix = p, cu_delimiter = (if d = ''null'' then None else Some (butlast (tl d))), cu_marker = m\<rparr>,
     token_enc = \<lambda>b. b, token_dec = Some, byte_serialize = \<lambda>b. b\<rparr>"

definition demo_dirs :: node where
  "demo_dirs = DirN [(''b'', DirN [(''y'', DirN [(''f'', FileN \<lparr>f_content = ''2'', f_modified = 8\<rparr>)]),
     (''x'', DirN [(''f'', FileN \<lparr>f_content = ''hi'', f_modified = 7\<rparr>)])])]"

definition demo_request :: FilesystemListRequest where
  "demo_request = \<lparr>lr_prefix = ''b/'', lr_delimiter = Some ''/'', lr_start_after = None, lr_continuation_token = None,
     lr_max_keys = Some 1, lr_encoding = LE_Plain\<rparr>"

lemma takeWhile_plain:
  "list_all key_byte p \<Longrightarrow> takeWhile (\<lambda>x. x \<noteq> CHR 0x22) (p @ CHR 0x22 # r) = p"
  by (induction p) (auto simp: key_byte_def)

lemma demo_list_ok: "cursor_json_ok demo_list 2" "token_ok demo_list"
  by (auto simp: cursor_json_ok_def token_ok_def demo_list_def takeWhile_plain Let_def)

lemma demo_reach: "reach demo_session ''b/'' (entries_of demo_dirs) [] = Inr [''b/y/f'', ''b/x/f'']"
  by code_simp

definition demo_token :: string where
  "demo_token = ''b/'' @ [CHR 0x22] @ ''b/x/'' @ [CHR 0x22, CHR 0x22] @ ''/'' @ [CHR 0x22]"

definition demo_page :: FilesystemListPage where
  "demo_page = \<lparr>lp_objects = [], lp_common_prefixes = [''b/x/''], lp_key_count = 1, lp_is_truncated = True,
     lp_next_token = Some demo_token\<rparr>"

lemma demo_less: "Candidate ''b/x/'' True < Candidate ''b/y/'' True"
  by (simp add: less_Candidate_def less_char_def)

lemma demo_all_candidates:
  "all_candidates demo_request [''b/y/f'', ''b/x/f''] = set [Candidate ''b/x/'' True, Candidate ''b/y/'' True]"
  unfolding all_candidates_def by (simp add: candidate_of_def demo_request_def insert_commute)

lemma demo_candidates:
  "after [] (all_candidates demo_request [''b/y/f'', ''b/x/f'']) = [Candidate ''b/x/'' True, Candidate ''b/y/'' True]"
proof -
  let ?cs = "[Candidate ''b/x/'' True, Candidate ''b/y/'' True]"
  have "{c \<in> set ?cs. [] < c_key c} = set ?cs" by auto
  moreover have "sorted_list_of_set (set ?cs) = ?cs"
    using demo_less by (intro sorted_list_of_set.idem_if_sorted_distinct) auto
  ultimately show ?thesis unfolding after_def demo_all_candidates by metis
qed

lemma demo_list_result:
  "list_result demo_store demo_list demo_config demo_session demo_request demo_dirs m = Inr demo_page"
proof -
  have "authority demo_config demo_session Op_Read ''b'' = Inr ()" by code_simp
  moreover have "prefix_key ''b/'' = ''b''" by code_simp
  ultimately show ?thesis
    using demo_reach demo_candidates
    by (simp add: list_result_def demo_request_def require_def max_keys_def cursor_result_def marker_of_def slice_page_def
        next_token_def ok_or_def encoded_def demo_page_def demo_token_def demo_list_def)
qed

lemma demo_names: "names_ok demo_dirs"
  by (simp add: demo_dirs_def)

theorem list_refines_witness:
  "fst (store_list demo_store demo_list demo_config demo_session demo_request 50 (demo_fs demo_dirs (DirN []))) = Inr demo_page"
  using list_refines [OF demo_calm, of demo_store demo_list demo_config demo_request demo_dirs "DirN []"] demo_list_result by simp

end
