(* ===== verification/Fs_Batches.thy ===== *)
theory Fs_Batches
  imports Fs_Pages
begin

text \<open>
  Correctness of copying and of batch deletion: a copy stores the bytes and the content type of the
  source under the target and takes the shard locks in one global order; a batch deletion removes
  every key it does not report, touches nothing else, and never hides a change behind an error that
  claims none.
\<close>

subsection \<open>Copies\<close>

lemma lock_order_sorted: "sorted_wrt (<) (lock_order S a b)"
  by (auto simp: lock_order_def)

lemma lock_order_set: "set (lock_order S a b) = {shard S a, shard S b}"
  by (auto simp: lock_order_def)

lemma lock_order_commute: "lock_order S a b = lock_order S b a"
  by (auto simp: lock_order_def)

lemma reads_only_lock_shards [simp, quiet]: "reads_only (lock_shards ns s rq)"
  by (induction ns) (auto intro!: quiet)

lemma body_content_file_reads [simp]: "body_content (file_reads c) = c"
proof (induction c rule: file_reads.induct)
  case (1 c)
  have "take BUFFER c \<noteq> []" if "c \<noteq> []" using that by (simp add: BUFFER_def)
  then show ?case using 1 by (subst file_reads.simps) (auto simp: body_content_def)
qed

lemma copy_ok:
  fixes w :: "'y fs_scheme"
  assumes "store_copy S cfg s source target opts rq w = (Inr info, w')" "rooted w"
  obtains f src p where "found_file (fs_data w) source = Inr f" "described S cfg (fs_meta w) source f = Inr src"
    "conditions_check (source_conditions opts) (Some (oi_etag src)) = Inr ()"
    "prepared_object S cfg target (f_content f) (Some (oi_content_type src)) p" "info = pr_info p"
    "stored target p w w'" "authority cfg s Op_Read source = Inr ()" "authority cfg s Op_Write target = Inr ()"
    "conditions_held S cfg target (target_conditions opts) (fs_data w) (fs_meta w)"
proof -
  let ?body = "pseq (lock_shards (lock_order S source target) s rq)
        (pbind (data_file source) (\<lambda>f. pbind (describe S cfg source f s rq) (\<lambda>info.
         pseq (plift (conditions_check (source_conditions opts) (Some (oi_etag info))))
         (pbind (prepare S cfg s target (file_reads (f_content f)) None (Some (oi_content_type info)) None rq) (\<lambda>prepared.
          publish_locked S cfg s target prepared (target_conditions opts) rq)))))"
  obtain w1 w2 :: "'y fs_scheme" where a: "authorize cfg s rq Op_Read source w = (Inr (), w1)"
    and b: "authorize cfg s rq Op_Write target w1 = (Inr (), w2)"
    and st: "settled rq s (\<lambda>_. True) ?body w2 = (Inr info, w')"
    using assms(1) by (auto simp: store_copy_def pseq_ok)
  obtain w8 :: "'y fs_scheme" where body: "?body w2 = (Inr info, w8)" and t8: "fs_data w' = fs_data w8" "fs_meta w' = fs_meta w8"
    using settled_ok [OF st] by blast
  obtain w3 w4 w5 w6 w7 :: "'y fs_scheme" and f src p where
    l: "lock_shards (lock_order S source target) s rq w2 = (Inr (), w3)"
    and f: "data_file source w3 = (Inr f, w4)" and d: "describe S cfg source f s rq w4 = (Inr src, w5)"
    and c: "plift (conditions_check (source_conditions opts) (Some (oi_etag src))) w5 = (Inr (), w6)"
    and pr: "prepare S cfg s target (file_reads (f_content f)) None (Some (oi_content_type src)) None rq w6 = (Inr p, w7)"
    and pb: "publish_locked S cfg s target p (target_conditions opts) rq w7 = (Inr info, w8)"
    using body unfolding pseq_ok pbind_ok by auto
  have t3: "fs_data w3 = fs_data w" "fs_meta w3 = fs_meta w"
    using reads_only_trees [OF reads_only_authorize a] reads_only_trees [OF reads_only_authorize b]
      reads_only_trees [OF reads_only_lock_shards l] by simp_all
  have t4: "fs_data w4 = fs_data w" "fs_meta w4 = fs_meta w"
    using t3 reads_only_trees [OF settles_reads_only [OF settles_data_file] f] by simp_all
  have c': "w6 = w5" "conditions_check (source_conditions opts) (Some (oi_etag src)) = Inr ()"
    using c by (auto simp: plift_def)
  have t7: "fs_data w7 = fs_data w" "fs_meta w7 = fs_meta w"
    using t4 c'(1) reads_only_trees [OF settles_reads_only [OF settles_describe] d] reads_only_trees [OF reads_only_prepare pr]
    by simp_all
  then have "rooted w7" using assms(2) by (simp add: rooted_def)
  note ps = publish_stored [OF pb this]
  have "stored target p w w'" using ps(1) t7 t8 by (simp add: stored_def rooted_def)
  moreover have "found_file (fs_data w) source = Inr f" using settles_ok [OF settles_data_file f] t3 by simp
  moreover have "described S cfg (fs_meta w) source f = Inr src" using settles_ok [OF settles_describe d] t4 by simp
  ultimately show ?thesis
    using that c'(2) prepare_ok(1) [OF pr] ps(3) settles_ok [OF settles_authorize a] settles_ok [OF settles_authorize b]
      publish_conditions [OF pb] t7 by simp
qed

lemma copy_completes:
  fixes w :: "'y fs_scheme"
  assumes "calm s rq w" "rooted w" "authority cfg s Op_Read source = Inr ()" "authority cfg s Op_Write target = Inr ()"
    and "found_file (fs_data w) source = Inr f" "described S cfg (fs_meta w) source f = Inr src"
    and "conditions_check (source_conditions opts) (Some (oi_etag src)) = Inr ()"
    and "acceptable S cfg (times_of w) (file_reads (f_content f)) (Some (oi_content_type src)) None"
    and "open_path (fs_data w) (path target)" "open_path (fs_meta w) (path target)"
    and "conditions_held S cfg target (target_conditions opts) (fs_data w) (fs_meta w)"
  shows "\<exists>info w'. store_copy S cfg s source target opts rq w = (Inr info, w')"
proof -
  have k: "key target" using assms(4) by (auto simp: authority_def split: if_splits)
  have locks: "settles s rq d m (lock_shards ns s rq) (Inr ())" for ns d m
    by (induction ns) (auto intro!: settle_intros)
  let ?reads = "pseq (authorize cfg s rq Op_Read source) (authorize cfg s rq Op_Write target)"
  have s: "settles s rq (fs_data w) (fs_meta w) (authorize cfg s rq Op_Read source) (Inr ())"
    "settles s rq (fs_data w) (fs_meta w) (authorize cfg s rq Op_Write target) (Inr ())"
    "settles s rq (fs_data w) (fs_meta w) (lock_shards (lock_order S source target) s rq) (Inr ())"
    "settles s rq (fs_data w) (fs_meta w) (data_file source) (Inr f)"
    "settles s rq (fs_data w) (fs_meta w) (describe S cfg source f s rq) (Inr src)"
    using settles_eq [OF settles_authorize assms(3)] settles_eq [OF settles_authorize assms(4)] locks
      settles_eq [OF settles_data_file assms(5)] settles_eq [OF settles_describe assms(6)] by blast+
  obtain w1 :: "'y fs_scheme" where w1: "authorize cfg s rq Op_Read source w = (Inr (), w1)" "calm s rq w1"
    "fs_data w1 = fs_data w" "fs_meta w1 = fs_meta w" "advances w w1" using settles_run [OF s(1) assms(1)] by blast
  obtain w2 :: "'y fs_scheme" where w2: "authorize cfg s rq Op_Write target w1 = (Inr (), w2)" "calm s rq w2"
    "fs_data w2 = fs_data w" "fs_meta w2 = fs_meta w" "advances w1 w2" using settles_run [OF _ w1(2)] s(2) w1(3,4) by metis
  obtain w3 :: "'y fs_scheme" where w3: "lock_shards (lock_order S source target) s rq w2 = (Inr (), w3)" "calm s rq w3"
    "fs_data w3 = fs_data w" "fs_meta w3 = fs_meta w" "advances w2 w3" using settles_run [OF _ w2(2)] s(3) w2(3,4) by metis
  obtain w4 :: "'y fs_scheme" where w4: "data_file source w3 = (Inr f, w4)" "calm s rq w4"
    "fs_data w4 = fs_data w" "fs_meta w4 = fs_meta w" "advances w3 w4" using settles_run [OF _ w3(2)] s(4) w3(3,4) by metis
  obtain w5 :: "'y fs_scheme" where w5: "describe S cfg source f s rq w4 = (Inr src, w5)" "calm s rq w5"
    "fs_data w5 = fs_data w" "fs_meta w5 = fs_meta w" "advances w4 w5" using settles_run [OF _ w4(2)] s(5) w4(3,4) by metis
  have "advances w w5" using w1(5) w2(5) w3(5) w4(5) w5(5) advances_trans by blast
  then have "times_of w5 \<subseteq> times_of w" by (auto simp: advances_def)
  then have acc: "acceptable S cfg (times_of w5) (file_reads (f_content f)) (Some (oi_content_type src)) None"
    using acceptable_mono assms(8) by blast
  obtain p and w6 :: "'y fs_scheme" where
    w6: "prepare S cfg s target (file_reads (f_content f)) None (Some (oi_content_type src)) None rq w5 = (Inr p, w6)"
    "calm s rq w6" "fs_data w6 = fs_data w" "fs_meta w6 = fs_meta w"
    using prepare_completes [OF w5(2) acc] w5(3,4) by metis
  have "rooted w6" using assms(2) w6(3,4) by (simp add: rooted_def)
  then obtain w7 :: "'y fs_scheme" where w7: "publish_locked S cfg s target p (target_conditions opts) rq w6 = (Inr (pr_info p), w7)"
    "calm s rq w7"
    using publish_completes [OF w6(2) _ k] assms(9-11) w6(3,4) by metis
  obtain w8 :: "'y fs_scheme" where w8: "request_check rq s w7 = (Inr (), w8)"
    using settles_run [OF settles_request_check w7(2)] by metis
  show ?thesis
    using w1(1) w2(1) w3(1) w4(1) w5(1) w6(1) w7(1) w8 assms(7)
    by (auto simp: store_copy_def run_pseq run_pbind settled_def pattempt_def pmap_err_def pbind_def pseq_def pret_def plift_def)
qed

lemma certainD: "certain p \<Longrightarrow> p w = (Inl e, w') \<Longrightarrow> \<not> uncertain e \<Longrightarrow> same_objects w w'"
  unfolding certain_def by (metis fst_conv snd_conv)

lemma certain_objects:
  assumes "certain p" "p w = (Inl e, w')"
  shows "uncertain e \<or> (objects (fs_data w') = objects (fs_data w) \<and> objects (fs_meta w') = objects (fs_meta w))"
  using certainD [OF assms] by (auto simp: same_objects_def extends_objects)

lemma certain_store_copy: "certain (store_copy S cfg s source target opts rq)"
  unfolding store_copy_def
  by (rule certain_pseq, intro keeps_intros, rule certain_pseq, intro keeps_intros, rule certain_settled)
     (intro certain_pbind certain_pseq certain_publish_locked keeps_intros reads_only_keeps
        [OF settles_reads_only [OF settles_data_file]] reads_only_keeps [OF reads_only_lock_shards], simp)

subsection \<open>Batch deletion\<close>

lemma same_trees: "fs_data w' = fs_data w \<Longrightarrow> fs_meta w' = fs_meta w \<Longrightarrow> same_objects w w'"
  by (simp add: same_objects_def extends_def)

lemma interrupted_batch_certain:
  "\<not> uncertain (interrupted_batch results cause processed) \<Longrightarrow> \<not> processed"
  by (auto simp: interrupted_batch_def uncertain_def find_Some_iff split: option.splits sum.splits FilesystemStoreError.splits
      prod.splits if_splits)

lemma check_batch_trees:
  fixes w :: "'y fs_scheme"
  assumes "check_batch s rq results processed w = (r, w')"
  shows "fs_data w' = fs_data w" "fs_meta w' = fs_meta w" "\<And>e. r = Inl e \<Longrightarrow> \<not> uncertain e \<Longrightarrow> \<not> processed"
proof -
  obtain q where q: "request_check rq s w = (q, w')"
    and r: "r = (case q of Inl cause \<Rightarrow> Inl (interrupted_batch results cause processed) | Inr x \<Rightarrow> Inr x)"
    using assms by (cases "request_check rq s w") (auto simp: check_batch_def pmap_err_def split: sum.splits)
  show "fs_data w' = fs_data w" "fs_meta w' = fs_meta w" using reads_onlyD(1,2) [OF reads_only_request_check q] by simp_all
  show "\<not> processed" if "r = Inl e" "\<not> uncertain e" for e
    using that r interrupted_batch_certain by (auto split: sum.splits)
qed

text \<open>At most the object of one key and its metadata were removed.\<close>

definition touches :: "string \<Rightarrow> 'y fs_scheme \<Rightarrow> 'y fs_scheme \<Rightarrow> bool" where
  "touches k w w' \<longleftrightarrow> rooted w' \<and> (\<forall>a. objects (tree_of a w') = objects (tree_of a w)
     \<or> objects (tree_of a w') = (objects (tree_of a w))(path k := None))"

text \<open>A program that does no more than that, whatever it returns.\<close>

definition at_most :: "string \<Rightarrow> ('y fs_ext, 'e, 'a) prog \<Rightarrow> bool" where
  "at_most k p \<longleftrightarrow> (\<forall>w r w'. p w = (r, w') \<longrightarrow> rooted w \<longrightarrow> touches k w w')"

lemma touches_trans: "touches k u v \<Longrightarrow> touches k v w \<Longrightarrow> touches k u w"
  unfolding touches_def by (metis fun_upd_upd)

lemma touches_same: "same_objects w w' \<Longrightarrow> rooted w \<Longrightarrow> touches k w w'"
  by (auto simp: touches_def tree_of_def same_objects_def extends_objects same_objects_rooted split: area.split)

lemma at_most_keeps: "keeps p \<Longrightarrow> at_most k p"
  by (auto simp: at_most_def intro: touches_same keepsD)

lemma at_most_pbind:
  assumes "at_most k p" "\<And>x w w'. p w = (Inr x, w') \<Longrightarrow> rooted w \<Longrightarrow> at_most k (f x)"
  shows "at_most k (pbind p f)"
  unfolding at_most_def
proof (intro allI impI)
  fix w r w' assume b: "pbind p f w = (r, w')" and ro: "rooted w"
  obtain q w1 where p: "p w = (q, w1)" by (cases "p w")
  then have t: "touches k w w1" "rooted w1" using assms(1) ro by (auto simp: at_most_def touches_def)
  show "touches k w w'"
  proof (cases q)
    case (Inr x)
    then have "touches k w1 w'" using assms(2) [of w x w1] p b ro t(2) by (simp add: pbind_def at_most_def)
    then show ?thesis using t touches_trans by blast
  qed (use b p t in \<open>simp add: pbind_def\<close>)
qed

lemma at_most_pseq: "at_most k p \<Longrightarrow> at_most k q \<Longrightarrow> at_most k (pseq p q)"
  unfolding pseq_def by (rule at_most_pbind)

lemma at_most_pattempt: "at_most k p \<Longrightarrow> at_most k (pattempt p)"
  unfolding at_most_def pattempt_def by (auto split: prod.splits)

lemma at_most_pmap_err: "at_most k p \<Longrightarrow> at_most k (pmap_err g p)"
  unfolding at_most_def pmap_err_def by (auto split: prod.splits sum.splits)

lemma at_most_unlink: "at_most k (unlink a (path k))"
  unfolding at_most_def
proof (intro allI impI)
  fix w w' :: "'y fs_scheme" and r assume u: "unlink a (path k) w = (r, w')" and ro: "rooted w"
  show "touches k w w'"
  proof (cases r)
    case (Inl e)
    then have "fs_data w' = fs_data w \<and> fs_meta w' = fs_meta w"
      using u by (auto simp: unlink_def pseq_def pbind_def sys_def now_tick_def pguard_def plift_def require_def stat_def change_def
          praise_def split: option.splits node.splits if_splits)
    then show ?thesis using touches_same [OF same_trees ro] by blast
  next
    case (Inr x)
    have p: "path k \<noteq> []" by (simp add: path_def)
    note ul = unlink_ok [OF u [unfolded Inr]]
    have par: "is_dir (lookup (tree_of a w) (butlast (path k)))"
    proof -
      have "lookup (tree_of a w) (butlast (path k) @ [last (path k)]) \<noteq> None"
        using u Inr p by (auto simp: unlink_def pseq_def pbind_def sys_def now_tick_def pguard_def plift_def require_def stat_def
            praise_def tree_of_def split: option.splits if_splits area.splits)
      then show ?thesis by (auto simp: lookup_append bind_eq_None_conv) (use lookup_Cons_not_dir in fastforce)
    qed
    have "objects (tree_of a w') = (objects (tree_of a w))(path k := None)"
      using objects_replace [OF p par ul(2), of None] ul(1) by (simp add: remove_file_def)
    moreover have "is_dir (Some (tree_of a w'))"
      using replace_is_dir [OF p par ul(2), of None "[]"] ul(1) ro by (cases a) (simp_all add: remove_file_def rooted_def tree_of_def)
    ultimately show ?thesis
      using ul(3) [of Data] ul(3) [of Meta] ro unfolding touches_def rooted_def by (cases a) (auto simp: tree_of_def split: area.splits)
  qed
qed

lemmas at_most_atoms = keeps_atoms [THEN at_most_keeps]

lemma at_most_drop_metadata: "at_most k (drop_metadata k)"
  unfolding drop_metadata_def
proof (rule at_most_pbind, goal_cases)
  case (2 r w w')
  then have "q = path k" if "r = Inr q" for q using that parent_ok(2) [of Meta k False w q w'] by (auto simp: pattempt_ok)
  then show ?case
    by (cases r) (auto intro!: at_most_pbind at_most_pattempt at_most_unlink at_most_atoms split: sum.split)
qed (intro at_most_keeps keeps_intros)

lemma at_most_remove_object: "at_most k (remove_object s k rq)"
  unfolding remove_object_def
proof (rule at_most_pbind, goal_cases)
  case (2 r w w')
  then have "q = path k" if "r = Inr q" for q using that parent_ok(2) [of Data k False w q w'] by (auto simp: pattempt_ok)
  then show ?case
    by (cases r) (auto intro!: at_most_pbind at_most_pseq at_most_pattempt at_most_pmap_err at_most_unlink at_most_drop_metadata
        at_most_atoms split: sum.split)
qed (intro at_most_keeps keeps_intros)

lemma at_most_store_delete: "at_most k (store_delete S cfg s k rq)"
  unfolding store_delete_def delete_inner_def settled_def
  by (intro at_most_pseq at_most_pbind at_most_pattempt at_most_remove_object at_most_keeps reads_only_keeps [OF reads_only_delete_condition] keeps_intros)
     (auto intro!: at_most_keeps keeps_intros split: sum.split FilesystemStoreError.split)

lemma delete_step:
  fixes w :: "'y fs_scheme"
  assumes "store_delete S cfg s k rq w = (r, w')" "rooted w"
  shows "touches k w w'" "r = Inr u \<Longrightarrow> objects (fs_data w') (path k) = None"
    "r = Inl e \<Longrightarrow> \<not> uncertain e \<Longrightarrow> objects (fs_data w') = objects (fs_data w)"
proof -
  show "touches k w w'" using at_most_store_delete [of k S cfg s rq] assms unfolding at_most_def by blast
  show "objects (fs_data w') (path k) = None" if "r = Inr u"
    using that delete_ok(2) [of S cfg s k None rq w u w'] assms by (auto simp: store_delete_def removed_def)
  show "objects (fs_data w') = objects (fs_data w)" if "r = Inl e" "\<not> uncertain e"
  proof -
    have "same_objects w w'" using that certainD [OF certain_delete_inner] assms(1) unfolding store_delete_def by blast
    then show ?thesis by (simp add: same_objects_def extends_objects)
  qed
qed

text \<open>Objects were removed at keys of a batch only, and no other metadata changed.\<close>

definition shrunk :: "string list \<Rightarrow> 'y fs_scheme \<Rightarrow> 'y fs_scheme \<Rightarrow> bool" where
  "shrunk ks w w' \<longleftrightarrow> rooted w'
     \<and> (\<forall>p. objects (fs_data w') p \<noteq> objects (fs_data w) p \<longrightarrow> objects (fs_data w') p = None \<and> p \<in> path ` set ks)
     \<and> (\<forall>p. objects (fs_meta w') p \<noteq> objects (fs_meta w) p \<longrightarrow> objects (fs_meta w') p = None \<and> p \<in> path ` set ks)"

lemma touches_shrunk: "touches k w w' \<longleftrightarrow> rooted w' \<and> shrunk [k] w w'"
proof -
  have "(m' = m \<or> m' = m(x := None)) \<longleftrightarrow> (\<forall>p. m' p \<noteq> m p \<longrightarrow> m' p = None \<and> p = x)" for m m' :: "string list \<Rightarrow> inode option" and x
    by (metis fun_upd_apply ext)
  then show ?thesis by (auto simp: touches_def shrunk_def tree_of_def split: area.splits)
qed

lemma shrunk_trans: "shrunk ks u v \<Longrightarrow> shrunk ls v w \<Longrightarrow> shrunk (ks @ ls) u w"
  unfolding shrunk_def by (auto simp: image_Un) metis+

lemma shrunk_refl: "fs_data w' = fs_data w \<Longrightarrow> fs_meta w' = fs_meta w \<Longrightarrow> rooted w \<Longrightarrow> shrunk ks w w'"
  by (simp add: shrunk_def rooted_def)

text \<open>The entry a key adds to the report.\<close>

definition reported :: "bool \<Rightarrow> string \<Rightarrow> FilesystemStoreError + unit \<Rightarrow> FilesystemDeleteResult list" where
  "reported q k r = (if \<not> q \<or> (case r of Inl _ \<Rightarrow> True | Inr _ \<Rightarrow> False) then [(k, r)] else [])"

lemma delete_loop_Cons:
  fixes w :: "'y fs_scheme"
  assumes "delete_loop S cfg s q rq (k # ks) results processed w = (Inr rs, w')"
  obtains r and w1 w2 :: "'y fs_scheme" where "check_batch s rq results processed w = (Inr (), w1)"
    "store_delete S cfg s k rq w1 = (r, w2)"
    "delete_loop S cfg s q rq ks (results @ reported q k r)
        (processed \<or> (case r of Inr _ \<Rightarrow> True | Inl e \<Rightarrow> uncertain e)) w2 = (Inr rs, w')"
proof -
  have "(if \<not> q \<or> b then results @ [(k, r)] else results) = results @ (if \<not> q \<or> b then [(k, r)] else [])" for b r
    by simp
  then show thesis using assms that by (auto simp: pseq_ok pbind_ok pattempt_ok reported_def)
qed

lemma delete_loop_shrinks:
  fixes w :: "'y fs_scheme"
  assumes "delete_loop S cfg s q rq ks results processed w = (r, w')" "rooted w"
  shows "shrunk ks w w'"
  using assms
proof (induction ks arbitrary: results processed w)
  case Nil
  obtain c w1 where c: "check_batch s rq results processed w = (c, w1)" by (cases "check_batch s rq results processed w")
  then have "w' = w1" using Nil.prems(1) by (cases c) (auto simp: pseq_def pbind_def pret_def)
  then show ?case using check_batch_trees(1,2) [OF c] Nil.prems(2) by (auto intro: shrunk_refl)
next
  case (Cons k ks)
  obtain c w1 where c: "check_batch s rq results processed w = (c, w1)" by (cases "check_batch s rq results processed w")
  have s: "shrunk [] w w1" and ro: "rooted w1"
    using check_batch_trees(1,2) [OF c] Cons.prems(2) by (auto simp: rooted_def intro: shrunk_refl)
  show ?case
  proof (cases c)
    case (Inl e)
    then have "w' = w1" using Cons.prems(1) c by (simp add: pseq_def pbind_def)
    then show ?thesis using shrunk_refl [of w1 w "k # ks"] check_batch_trees(1,2) [OF c] Cons.prems(2) by simp
  next
    case (Inr u)
    obtain d w2 where d: "store_delete S cfg s k rq w1 = (d, w2)" by (cases "store_delete S cfg s k rq w1")
    note t = delete_step(1) [OF d ro, unfolded touches_shrunk]
    have "shrunk ks w2 w'"
      using Cons.prems(1) c d Inr by (intro Cons.IH [OF _ conjunct1 [OF t]]) (auto simp: pseq_def pbind_def pattempt_def)
    then show ?thesis using shrunk_trans [OF s shrunk_trans [OF conjunct2 [OF t]]] by simp
  qed
qed

text \<open>What a report says of the objects.  A loud report has one entry per key, in order; a quiet one only the errors.
  A key without a reported error has no object, and in a loud report a key that is only reported with
  certain errors keeps its object.\<close>

definition report_holds :: "bool \<Rightarrow> string list \<Rightarrow> FilesystemDeleteResult list \<Rightarrow> 'y fs_scheme \<Rightarrow> 'y fs_scheme \<Rightarrow> bool" where
  "report_holds q ks rs w w' \<longleftrightarrow> (if q then subseq (map fst rs) ks \<and> (\<forall>x\<in>set rs. isl (snd x)) else map fst rs = ks)
     \<and> (\<forall>k\<in>set ks. (\<forall>e. (k, Inl e) \<notin> set rs) \<longrightarrow> objects (fs_data w') (path k) = None)
     \<and> (\<not> q \<longrightarrow> (\<forall>k\<in>set ks. (\<forall>r. (k, r) \<in> set rs \<longrightarrow> (\<exists>e. r = Inl e \<and> \<not> uncertain e))
          \<longrightarrow> objects (fs_data w') (path k) = objects (fs_data w) (path k)))"

lemma shrunk_None: "shrunk ks w w' \<Longrightarrow> objects (fs_data w) p = None \<Longrightarrow> objects (fs_data w') p = None"
  unfolding shrunk_def by metis

lemma shrunk_outside: "shrunk ks w w' \<Longrightarrow> j \<notin> set ks \<Longrightarrow> objects (fs_data w') (path j) = objects (fs_data w) (path j)"
  unfolding shrunk_def using path_inj by blast

lemma report_holds_Cons:
  assumes "report_holds q ks rs w2 w'" "shrunk ks w2 w'" "shrunk [k] w w2"
    and "\<And>u. r = Inr u \<Longrightarrow> objects (fs_data w2) (path k) = None"
    and "\<And>e. r = Inl e \<Longrightarrow> \<not> uncertain e \<Longrightarrow> objects (fs_data w2) = objects (fs_data w)"
  shows "report_holds q (k # ks) (reported q k r @ rs) w w'"
proof -
  have "objects (fs_data w') (path j) = None" if "j \<in> set (k # ks)" "\<forall>e. (j, Inl e) \<notin> set (reported q k r @ rs)" for j
  proof (cases "j \<in> set ks")
    case True
    then show ?thesis using assms(1) that(2) by (simp add: report_holds_def)
  next
    case False
    then have "\<exists>u. r = Inr u" using that by (cases r) (auto simp: reported_def)
    then show ?thesis using False that(1) shrunk_None [OF assms(2)] assms(4) by auto
  qed
  moreover have "objects (fs_data w') (path j) = objects (fs_data w) (path j)"
    if "\<not> q" "j \<in> set (k # ks)" "\<forall>x. (j, x) \<in> set (reported q k r @ rs) \<longrightarrow> (\<exists>e. x = Inl e \<and> \<not> uncertain e)" for j
  proof -
    have "objects (fs_data w2) (path j) = objects (fs_data w) (path j)"
      using that assms(5) shrunk_outside [OF assms(3), of j] by (cases "j = k") (auto simp: reported_def)
    moreover have "objects (fs_data w') (path j) = objects (fs_data w2) (path j)"
      using that assms(1) shrunk_outside [OF assms(2), of j] by (cases "j \<in> set ks") (auto simp: report_holds_def)
    ultimately show ?thesis by simp
  qed
  moreover have "if q then subseq (map fst (reported q k r @ rs)) (k # ks) \<and> (\<forall>x\<in>set (reported q k r @ rs). isl (snd x))
      else map fst (reported q k r @ rs) = k # ks"
    using assms(1) by (cases r) (auto simp: report_holds_def reported_def)
  ultimately show ?thesis unfolding report_holds_def by blast
qed

lemma delete_loop_ok:
  fixes w :: "'y fs_scheme"
  assumes "delete_loop S cfg s q rq ks results processed w = (Inr rs, w')" "rooted w"
  shows "\<exists>tail_results. rs = results @ tail_results \<and> report_holds q ks tail_results w w'"
  using assms
proof (induction ks arbitrary: results processed w)
  case Nil
  then show ?case by (auto simp: pseq_ok pret_ok report_holds_def)
next
  case (Cons k ks)
  obtain r and w1 w2 :: "'y fs_scheme" where c: "check_batch s rq results processed w = (Inr (), w1)"
    and d: "store_delete S cfg s k rq w1 = (r, w2)"
    and l: "delete_loop S cfg s q rq ks (results @ reported q k r)
        (processed \<or> (case r of Inr _ \<Rightarrow> True | Inl e \<Rightarrow> uncertain e)) w2 = (Inr rs, w')"
    using Cons.prems(1) by (rule delete_loop_Cons)
  have t: "fs_data w1 = fs_data w" "fs_meta w1 = fs_meta w" "rooted w1"
    using check_batch_trees(1,2) [OF c] Cons.prems(2) by (simp_all add: rooted_def)
  have st: "rooted w2" "shrunk [k] w w2"
    using delete_step(1) [OF d t(3), unfolded touches_shrunk] t(1,2) by (simp_all add: shrunk_def)
  obtain tail_results where m: "rs = (results @ reported q k r) @ tail_results" "report_holds q ks tail_results w2 w'"
    using Cons.IH [OF l st(1)] by blast
  have "report_holds q (k # ks) (reported q k r @ tail_results) w w'"
    using report_holds_Cons [OF m(2) delete_loop_shrinks [OF l st(1)] st(2)] delete_step(2,3) [OF d t(3)] t(1) by auto
  then show ?case using m(1) by auto
qed

lemma delete_loop_failed:
  fixes w :: "'y fs_scheme"
  assumes "delete_loop S cfg s q rq ks results processed w = (Inl e, w')" "\<not> uncertain e"
  shows "\<not> processed \<and> same_objects w w'"
  using assms
proof (induction ks arbitrary: results processed w)
  case Nil
  then have c: "check_batch s rq results processed w = (Inl e, w')"
    by (auto simp: pseq_def pbind_def pret_def split: prod.splits sum.splits)
  show ?case using check_batch_trees [OF c] Nil.prems(2) same_trees by blast
next
  case (Cons k ks)
  obtain q1 w1 where c: "check_batch s rq results processed w = (q1, w1)" by (cases "check_batch s rq results processed w")
  note t = check_batch_trees [OF c]
  show ?case
  proof (cases q1)
    case (Inl e')
    then have "q1 = Inl e" "w' = w1" using Cons.prems(1) c by (auto simp: pseq_def pbind_def)
    then show ?thesis using t Cons.prems(2) same_trees by blast
  next
    case (Inr u)
    obtain r w2 where d: "store_delete S cfg s k rq w1 = (r, w2)" by (cases "store_delete S cfg s k rq w1")
    have "\<not> (processed \<or> (case r of Inr _ \<Rightarrow> True | Inl e \<Rightarrow> uncertain e)) \<and> same_objects w2 w'"
      using Cons.prems c d Inr by (intro Cons.IH) (auto simp: pseq_def pbind_def pattempt_def)
    moreover from this obtain e' where "r = Inl e'" "\<not> uncertain e'" by (cases r) auto
    moreover from this have "same_objects w1 w2"
      using certainD [OF certain_delete_inner] d unfolding store_delete_def by blast
    moreover have "same_objects w w1" using t same_trees by blast
    ultimately show ?thesis using same_objects_trans by blast
  qed
qed

subsection \<open>Properties\<close>

text \<open>C34: a successful copy needs read authority on the source and write authority on the target, finds the
  source conditions true of the source's ETag, and replaces exactly the target by the source's bytes
  with the source's content type; a copy that fails with anything but an uncertain commit has changed
  no object and no metadata.\<close>

theorem copy_stores_source:
  assumes "store_copy S cfg s source target opts rq w = (r, w')" "rooted w"
  shows "case r of
      Inr info \<Rightarrow> (\<exists>f src. objects (fs_data w) (path source) = Some f \<and> described S cfg (fs_meta w) source f = Inr src
        \<and> conditions_check (source_conditions opts) (Some (oi_etag src)) = Inr ()
        \<and> objects (fs_data w') = (objects (fs_data w))(path target \<mapsto> \<lparr>f_content = f_content f, f_modified = oi_modified info\<rparr>)
        \<and> (\<forall>j. j \<noteq> target \<longrightarrow> objects (fs_meta w') (path j) = objects (fs_meta w) (path j))
        \<and> oi_size info = length (f_content f) \<and> oi_etag info = etag (sha256 S (f_content f))
        \<and> oi_content_type info = oi_content_type src)
      \<and> covered s (op_indices Op_Read) source \<and> covered s (op_indices Op_Write) target
    | Inl e \<Rightarrow> uncertain e \<or> (objects (fs_data w') = objects (fs_data w) \<and> objects (fs_meta w') = objects (fs_meta w))"
proof (cases r)
  case (Inl e)
  then show ?thesis
    using certain_objects [OF certain_store_copy assms(1) [unfolded Inl]] by simp
next
  case (Inr info)
  have copied: "store_copy S cfg s source target opts rq w = (Inr info, w')" using assms(1) Inr by simp
  obtain f src p where c: "found_file (fs_data w) source = Inr f" "described S cfg (fs_meta w) source f = Inr src"
    "conditions_check (source_conditions opts) (Some (oi_etag src)) = Inr ()"
    "prepared_object S cfg target (f_content f) (Some (oi_content_type src)) p" "info = pr_info p"
    "stored target p w w'" "authority cfg s Op_Read source = Inr ()" "authority cfg s Op_Write target = Inr ()"
    using copy_ok [OF copied assms(2)] by metis
  have "covered s (op_indices Op_Read) source \<and> covered s (op_indices Op_Write) target"
    using c(7,8) by (auto simp: authority_def require_def split: if_splits)
  moreover have "path j \<noteq> path target" if "j \<noteq> target" for j using that path_inj by blast
  ultimately show ?thesis
    using c found_fileD [OF c(1)] Inr by (auto simp: prepared_object_def stored_def)
qed


subsection \<open>Witnesses\<close>

definition demo_copier :: store_lib where
  "demo_copier = demo_store\<lparr>meta_enc := \<lambda>_. Some ''0''\<rparr>"

definition demo_copy_opts :: FilesystemCopyOptions where
  "demo_copy_opts = \<lparr>source_conditions = \<lparr>if_match = None, if_none_match = None\<rparr>,
     target_conditions = \<lparr>if_match = None, if_none_match = None\<rparr>\<rparr>"

lemma demo_copy:
  "\<exists>info w. store_copy demo_copier demo_config demo_session ''b/x'' ''b/x'' demo_copy_opts 50 (demo_fs demo_tree (DirN [])) = (Inr info, w)"
proof -
  let ?f = "\<lparr>f_content = ''hi'', f_modified = 7\<rparr>"
  have "found_file demo_tree ''b/x'' = Inr ?f" by (simp add: found_file_def seek_key_def demo_tree_def)
  moreover have "described demo_copier demo_config (DirN []) ''b/x'' ?f = Inr (object_info demo_copier ''b/x'' ?f None)"
    by (simp add: described_def found_metadata_def seek_key_def)
  moreover have "open_path demo_tree [''b'', ''x'']"
    by (auto simp: open_path_def demo_tree_def Cons_eq_append_conv)
  moreover have "acceptable demo_copier demo_config (times_of (demo_fs demo_tree (DirN []))) (file_reads ''hi'') (Some ''text/plain'') None"
    by (simp add: acceptable_def demo_config_def u64_max_def header_def demo_copier_def demo_store_def encode_metadata_def ok_or_def)
  moreover have "oi_content_type (object_info demo_copier ''b/x'' ?f None) = ''text/plain''"
    by (simp add: object_info_def demo_copier_def demo_store_def meta_content_type_def)
  ultimately show ?thesis
    using demo_open by (intro copy_completes) (auto simp: rooted_def demo_tree_def demo_copy_opts_def conditions_check_def conditions_held_def)
qed

theorem copy_stores_source_witness:
  "\<exists>info w. store_copy demo_copier demo_config demo_session ''b/x'' ''b/x'' demo_copy_opts 50 (demo_fs demo_tree (DirN [])) = (Inr info, w)
     \<and> oi_size info = 2"
proof -
  obtain info w where c: "store_copy demo_copier demo_config demo_session ''b/x'' ''b/x'' demo_copy_opts 50
      (demo_fs demo_tree (DirN [])) = (Inr info, w)"
    using demo_copy by blast
  have "objects demo_tree [''b'', ''x''] = Some \<lparr>f_content = ''hi'', f_modified = 7\<rparr>" "rooted (demo_fs demo_tree (DirN []))"
    by (simp_all add: demo_tree_def objects_def rooted_def)
  then show ?thesis using copy_stores_source [OF c] c by auto
qed


end
