(* ===== verification/Numerals.thy ===== *)
theory Numerals
  imports Prelude
begin

text \<open>
  Decimal text of integers, as \<^verbatim>\<open>to_string\<close> of the standard library writes it and \<^verbatim>\<open>from_str\<close> reads
  it.  The lemmas show that reading inverts writing within the range of the type, so that a text
  that survives both is the canonical one.
\<close>

fun unsigned_to_string :: "nat \<Rightarrow> string" where
  "unsigned_to_string n =
     (if n < 10 then [''0123456789'' ! n] else unsigned_to_string (n div 10) @ [''0123456789'' ! (n mod 10)])"

declare unsigned_to_string.simps [simp del]

definition signed_to_string :: "int \<Rightarrow> string" where
  "signed_to_string v = (if v < 0 then CHR ''-'' # unsigned_to_string (nat (- v)) else unsigned_to_string (nat v))"

definition digit_value :: "char \<Rightarrow> int option" where
  "digit_value c = (if 48 \<le> byte_of c \<and> byte_of c \<le> 57 then Some (int (byte_of c) - 48) else None)"

fun digits_value :: "string \<Rightarrow> int \<Rightarrow> int option" where
  "digits_value [] acc = Some acc"
| "digits_value (c # cs) acc = (case digit_value c of None \<Rightarrow> None | Some d \<Rightarrow> digits_value cs (acc * 10 + d))"

text \<open>A sign is optional; a value beyond the bounds of the type is an error.\<close>

definition signed_from_str :: "int \<Rightarrow> int \<Rightarrow> string \<Rightarrow> int option" where
  "signed_from_str lo hi raw =
     (let (neg, ds) = (case raw of c # cs \<Rightarrow> if c = CHR ''-'' then (True, cs) else if c = CHR ''+'' then (False, cs) else (False, raw)
                       | [] \<Rightarrow> (False, []))
      in if ds = [] then None
         else case digits_value ds 0 of
             None \<Rightarrow> None
           | Some m \<Rightarrow> let v = (if neg then - m else m) in if lo \<le> v \<and> v \<le> hi then Some v else None)"

lemma digits_value_append:
  "digits_value (xs @ ys) acc = (case digits_value xs acc of None \<Rightarrow> None | Some v \<Rightarrow> digits_value ys v)"
  by (induction xs arbitrary: acc) (auto split: option.splits)

lemma digit_char:
  assumes "n < 10"
  shows "digit_value (''0123456789'' ! n) = Some (int n)" "''0123456789'' ! n \<noteq> CHR ''-''" "''0123456789'' ! n \<noteq> CHR ''+''"
proof -
  have "n \<in> {0, 1, 2, 3, 4, 5, 6, 7, 8, 9}" using assms by auto
  then show "digit_value (''0123456789'' ! n) = Some (int n)" "''0123456789'' ! n \<noteq> CHR ''-''" "''0123456789'' ! n \<noteq> CHR ''+''"
    by (auto simp: digit_value_def byte_of_def)
qed

lemma unsigned_head: "\<exists>c cs. unsigned_to_string n = c # cs \<and> c \<noteq> CHR ''-'' \<and> c \<noteq> CHR ''+''"
proof (induction n rule: unsigned_to_string.induct)
  case (1 n)
  then show ?case by (subst unsigned_to_string.simps) (auto simp: digit_char split: if_splits)
qed

lemma unsigned_digits: "digits_value (unsigned_to_string n) 0 = Some (int n)"
proof (induction n rule: unsigned_to_string.induct)
  case (1 n)
  show ?case
  proof (cases "n < 10")
    case True
    then show ?thesis by (subst unsigned_to_string.simps) (simp add: digit_char)
  next
    case False
    then have "digits_value (unsigned_to_string (n div 10)) 0 = Some (int (n div 10))" using 1 by simp
    moreover have "int (n div 10) * 10 + int (n mod 10) = int n" by presburger
    ultimately show ?thesis using False
      by (subst unsigned_to_string.simps) (simp add: digits_value_append digit_char del: of_nat_mod zdiv_int)
  qed
qed

lemma signed_round_trip: "signed_from_str lo hi (signed_to_string v) = (if lo \<le> v \<and> v \<le> hi then Some v else None)"
proof -
  obtain c cs where "unsigned_to_string (nat \<bar>v\<bar>) = c # cs" "c \<noteq> CHR ''-''" "c \<noteq> CHR ''+''"
    using unsigned_head by metis
  moreover have "digits_value (unsigned_to_string (nat \<bar>v\<bar>)) 0 = Some \<bar>v\<bar>" by (simp add: unsigned_digits)
  ultimately show ?thesis
    by (cases "v < 0") (auto simp: signed_to_string_def signed_from_str_def Let_def)
qed

lemma signed_to_string_inject [simp]: "signed_to_string a = signed_to_string b \<longleftrightarrow> a = b"
proof
  assume "signed_to_string a = signed_to_string b"
  then have "signed_from_str (min a b) (max a b) (signed_to_string a) = signed_from_str (min a b) (max a b) (signed_to_string b)"
    by simp
  then show "a = b" unfolding signed_round_trip by simp
qed simp

text \<open>Reading followed by writing accepts exactly the canonical texts of the type.\<close>

lemma canonical_text:
  "signed_from_str lo hi raw = Some v \<and> signed_to_string v = raw \<longleftrightarrow> raw = signed_to_string v \<and> lo \<le> v \<and> v \<le> hi"
  by (auto simp: signed_round_trip split: if_splits)

end
