(* ===== verification/Fs_Multipart.thy ===== *)
theory Fs_Multipart
  imports Fs_Batches Numerals
begin

text \<open>
  Multipart uploads, \<^verbatim>\<open>filesystem_multipart.rs\<close>, and opening a volume, \<^verbatim>\<open>FilesystemStore::open\<close>.
  An upload is a directory of the multipart area named by its random identifier, with a manifest and
  a directory of numbered parts.  The state of the store is extended by that area; every system call
  takes one reading of the environment, and the removal of a directory removes one entry at a time,
  so that a fault leaves a partly removed upload.  The reads of the part files that a completion
  concatenates are the chunks of one body; a part that is missing or whose ETag is not the announced
  one ends that body with an error.  The JSON form of a manifest, base64 and the random bytes of an
  identifier are parameters.
\<close>

subsection \<open>State, parameters and data\<close>

record uploads = fs +
  fs_uploads :: node

type_synonym ('z, 'a) uprog = "('z uploads_ext fs_ext, 'a) sprog"

record Manifest =
  mf_bucket :: string
  mf_key :: string
  mf_content_type :: content_value
  mf_created :: nat
  mf_last_progress :: nat

record upload_lib =
  manifest_enc :: "Manifest \<Rightarrow> string option"
  manifest_dec :: "string \<Rightarrow> Manifest option"
  id_enc :: "string \<Rightarrow> string"
  id_dec :: "string \<Rightarrow> string option"

record FilesystemPartInfo =
  pi_number :: int
  pi_etag :: string
  pi_size :: nat
  pi_modified :: int

record FilesystemPartsRequest =
  ps_upload_id :: string
  ps_marker :: "int option"
  ps_max_parts :: "int option"

record FilesystemPartsPage =
  pp_parts :: "FilesystemPartInfo list"
  pp_is_truncated :: bool
  pp_next_marker :: "int option"

record FilesystemCompletedPart =
  cp_number :: int
  cp_etag :: string

record FilesystemCompleteUpload =
  co_upload_id :: string
  co_parts :: "FilesystemCompletedPart list"
  co_conditions :: FilesystemConditions

definition MAX_PART :: int where
  "MAX_PART = 10000"

definition ABANDONED_SECONDS :: nat where
  "ABANDONED_SECONDS = 24 * 60 * 60"

definition now_seconds :: "('x, nat) sprog" where
  "now_seconds = pbind now_tick (\<lambda>t. if utc t < 0 then praise SE_InvalidMetadata else pret (nat (utc t div 1000000000)))"

definition upload_id :: "upload_lib \<Rightarrow> string \<Rightarrow> bool" where
  "upload_id U ident \<longleftrightarrow> length ident = 43 \<and> (case id_dec U ident of None \<Rightarrow> False | Some bytes \<Rightarrow> length bytes = 32)"

definition upload_lock :: "string \<Rightarrow> string" where
  "upload_lock ident = ''multipart:'' @ ident"

definition as_uncertain :: "FilesystemStoreError \<Rightarrow> FilesystemStoreError" where
  "as_uncertain e = (if uncertain e then e else SE_CommitUncertain e)"

definition i32_to_string :: "int \<Rightarrow> string" where
  "i32_to_string v = signed_to_string v"

definition i32_from_str :: "string \<Rightarrow> int option" where
  "i32_from_str raw = signed_from_str (- 2147483648) 2147483647 raw"

subsection \<open>System calls on the multipart area\<close>

definition up_stat :: "string list \<Rightarrow> ('z, node option) uprog" where
  "up_stat p = (\<lambda>w. (Inr (lookup (fs_uploads w) p), w))"

definition up_change :: "(node \<Rightarrow> node) \<Rightarrow> ('z, unit) uprog" where
  "up_change f = (\<lambda>w. (Inr (), w\<lparr>fs_uploads := f (fs_uploads w)\<rparr>))"

definition up_open_dir :: "string list \<Rightarrow> ('z, unit) uprog" where
  "up_open_dir p = pseq sys (pbind (up_stat p) (\<lambda>n. case n of
       Some (DirN _) \<Rightarrow> pret () | None \<Rightarrow> praise (SE_Io Io_NotFound) | Some _ \<Rightarrow> praise (SE_Io Io_Other)))"

definition up_open_entry :: "string list \<Rightarrow> ('z, node) uprog" where
  "up_open_entry p = pseq sys (pbind (up_stat p) (\<lambda>n. case n of
       None \<Rightarrow> praise (SE_Io Io_NotFound) | Some LinkN \<Rightarrow> praise (SE_Io Io_Other) | Some m \<Rightarrow> pret m))"

definition up_symlink_metadata :: "string list \<Rightarrow> ('z, node) uprog" where
  "up_symlink_metadata p = pseq sys (pbind (up_stat p) (\<lambda>n. case n of
       None \<Rightarrow> praise (SE_Io Io_NotFound) | Some m \<Rightarrow> pret m))"

definition create_store_dir :: "string list \<Rightarrow> ('z, unit) uprog" where
  "create_store_dir p = pseq sys (pbind (up_stat p) (\<lambda>n. case n of
       None \<Rightarrow> up_change (make_dir p) | Some _ \<Rightarrow> praise (SE_Io Io_Other)))"

definition up_owned_dir :: "string list \<Rightarrow> ('z, unit) uprog" where
  "up_owned_dir p = pseq sys (pbind (up_stat p) (\<lambda>n.
     pseq (case n of None \<Rightarrow> pseq (up_change (make_dir p)) sync_dir | Some _ \<Rightarrow> pret ()) (up_open_dir p)))"

text \<open>A target that is a regular file or absent.\<close>

definition up_replaceable :: "string list \<Rightarrow> FilesystemStoreError \<Rightarrow> ('z, unit) uprog" where
  "up_replaceable p refusal = pbind (pattempt (up_symlink_metadata p)) (\<lambda>r. case r of
       Inr n \<Rightarrow> pguard (is_file n) refusal
     | Inl e \<Rightarrow> if e = SE_Io Io_NotFound then pret () else praise e)"

text \<open>The entries below a directory and the directory, each after what it contains.\<close>

fun contents :: "string list \<Rightarrow> node \<Rightarrow> string list list" where
  "contents p (DirN es) = concat (map (\<lambda>e. contents (p @ [fst e]) (snd e)) es) @ [p]"
| "contents p n = [p]"

fun remove_entries :: "string list list \<Rightarrow> ('z, unit) uprog" where
  "remove_entries [] = pret ()"
| "remove_entries (p # ps) = pseq sys (pseq (up_change (remove_file p)) (remove_entries ps))"

definition remove_open_dir_all :: "string list \<Rightarrow> ('z, unit) uprog" where
  "remove_open_dir_all p = pbind (up_stat p) (\<lambda>n. case n of
       None \<Rightarrow> praise (SE_Io Io_NotFound) | Some d \<Rightarrow> remove_entries (contents p d))"

subsection \<open>Manifests\<close>

definition no_upload :: "FilesystemStoreError \<Rightarrow> FilesystemStoreError" where
  "no_upload e = (if e = SE_Io Io_NotFound then SE_NoSuchUpload else e)"

definition upload_directory :: "upload_lib \<Rightarrow> string \<Rightarrow> ('z, string list) uprog" where
  "upload_directory U ident =
     (if \<not> upload_id U ident then praise SE_NoSuchUpload
      else pmap_err no_upload (pseq (up_open_dir [ident]) (pret [ident])))"

definition parse_manifest ::
  "store_lib \<Rightarrow> upload_lib \<Rightarrow> FilesystemStoreConfig \<Rightarrow> string \<Rightarrow> FilesystemStoreError + Manifest" where
  "parse_manifest S U cfg content =
     (let bytes = take (sc_metadata_bytes cfg + 1) content
      in if length bytes > sc_metadata_bytes cfg then Inl SE_InvalidMetadata
         else rbind (ok_or (manifest_dec U bytes) SE_InvalidMetadata) (\<lambda>m.
           if mf_bucket m \<noteq> sc_bucket cfg \<or> \<not> key (mf_key m) \<or> mf_last_progress m < mf_created m
              \<or> (case mf_content_type m of CV_Null \<Rightarrow> False | CV_String v \<Rightarrow> \<not> header S v | CV_Other \<Rightarrow> True)
           then Inl SE_InvalidMetadata else Inr m))"

definition read_upload_manifest ::
  "store_lib \<Rightarrow> upload_lib \<Rightarrow> FilesystemStoreConfig \<Rightarrow> string list \<Rightarrow> ('z, Manifest) uprog" where
  "read_upload_manifest S U cfg dir =
     pbind (pmap_err no_upload (up_open_entry (dir @ [''manifest'']))) (\<lambda>n.
     pseq sys (case n of
       FileN f \<Rightarrow> pseq sys (plift (parse_manifest S U cfg (f_content f)))
     | _ \<Rightarrow> praise SE_InvalidMetadata))"

definition current_upload ::
  "store_lib \<Rightarrow> upload_lib \<Rightarrow> FilesystemStoreConfig \<Rightarrow> string \<Rightarrow> string \<Rightarrow> ('z, string list \<times> Manifest) uprog" where
  "current_upload S U cfg k ident =
     pbind (upload_directory U ident) (\<lambda>dir.
     pbind (read_upload_manifest S U cfg dir) (\<lambda>m.
     if mf_key m \<noteq> k then praise SE_NoSuchUpload else pret (dir, m)))"

definition manifest_bytes :: "upload_lib \<Rightarrow> FilesystemStoreConfig \<Rightarrow> Manifest \<Rightarrow> FilesystemStoreError + string" where
  "manifest_bytes U cfg m =
     rbind (ok_or (manifest_enc U m) SE_InvalidMetadata) (\<lambda>bytes.
       if length bytes > sc_metadata_bytes cfg then Inl SE_InvalidMetadata else Inr bytes)"

text \<open>Stage the manifest, up to the rename over the old one; then rename and flush.\<close>

definition stage_manifest :: "string list \<Rightarrow> ('z, tick) uprog" where
  "stage_manifest dir =
     pseq sys (pseq sys (pseq sys (pbind now_tick (\<lambda>t. pseq sys
     (pseq (up_replaceable (dir @ [''manifest'']) SE_InvalidMetadata) (pseq sys (pret t)))))))"

definition write_upload_manifest ::
  "upload_lib \<Rightarrow> FilesystemStoreConfig \<Rightarrow> string list \<Rightarrow> Manifest \<Rightarrow> ('z, unit) uprog" where
  "write_upload_manifest U cfg dir m =
     pbind (plift (manifest_bytes U cfg m)) (\<lambda>bytes.
     pbind (stage_manifest dir) (\<lambda>t.
     pseq (up_change (put_file (dir @ [''manifest'']) \<lparr>f_content = bytes, f_modified = utc t\<rparr>))
     (pmap_err as_uncertain (pseq sync_dir sys))))"

definition remove_upload :: "string list \<Rightarrow> ('z, unit) uprog" where
  "remove_upload dir = pseq (remove_open_dir_all dir) sync_dir"

subsection \<open>Pruning\<close>

definition prune_upload ::
  "store_lib \<Rightarrow> upload_lib \<Rightarrow> FilesystemStoreConfig \<Rightarrow> string \<Rightarrow> nat \<Rightarrow> ('z, unit) uprog" where
  "prune_upload S U cfg ident now =
     pbind (pattempt (upload_directory U ident)) (\<lambda>r. case r of
       Inl e \<Rightarrow> if e = SE_NoSuchUpload then pret () else praise e
     | Inr dir \<Rightarrow> pbind (pattempt (read_upload_manifest S U cfg dir)) (\<lambda>q. case q of
         Inr m \<Rightarrow> if ABANDONED_SECONDS \<le> now - mf_last_progress m then remove_upload dir else pret ()
       | Inl e \<Rightarrow> if e = SE_NoSuchUpload then remove_upload dir else praise e))"

fun prune_startup ::
  "store_lib \<Rightarrow> upload_lib \<Rightarrow> FilesystemStoreConfig \<Rightarrow> nat \<Rightarrow> (string \<times> node) list \<Rightarrow> ('z, unit) uprog" where
  "prune_startup S U cfg now [] = pret ()"
| "prune_startup S U cfg now ((name, n) # es) =
     pseq sys (if \<not> utf8 name then praise SE_InvalidMetadata
     else pseq sys (if \<not> is_dir (Some n) \<or> \<not> upload_id U name then praise SE_InvalidMetadata
     else pseq (prune_upload S U cfg name now) (prune_startup S U cfg now es)))"

definition prune_multipart_startup ::
  "store_lib \<Rightarrow> upload_lib \<Rightarrow> FilesystemStoreConfig \<Rightarrow> ('z, unit) uprog" where
  "prune_multipart_startup S U cfg =
     pbind now_seconds (\<lambda>now. pseq sys (pbind (up_stat []) (\<lambda>root. prune_startup S U cfg now (entries_of (the root)))))"

fun prune_current ::
  "store_lib \<Rightarrow> upload_lib \<Rightarrow> FilesystemStoreConfig \<Rightarrow> VerifiedFilesystemSession \<Rightarrow> FilesystemRequest \<Rightarrow> nat
     \<Rightarrow> (string \<times> node) list \<Rightarrow> ('z, unit) uprog" where
  "prune_current S U cfg s rq now [] = pret ()"
| "prune_current S U cfg s rq now ((name, n) # es) =
     pseq (request_check rq s) (pseq sys
     (if \<not> utf8 name then praise SE_InvalidMetadata
     else pseq sys (if \<not> is_dir (Some n) \<or> \<not> upload_id U name then praise SE_InvalidMetadata
     else pseq (lock s rq) (pseq (prune_upload S U cfg name now) (prune_current S U cfg s rq now es)))))"

definition prune_multipart_current ::
  "store_lib \<Rightarrow> upload_lib \<Rightarrow> FilesystemStoreConfig \<Rightarrow> VerifiedFilesystemSession \<Rightarrow> FilesystemRequest \<Rightarrow> ('z, unit) uprog" where
  "prune_multipart_current S U cfg s rq =
     pbind now_seconds (\<lambda>now. pseq sys (pbind (up_stat []) (\<lambda>root. prune_current S U cfg s rq now (entries_of (the root)))))"

subsection \<open>Creating an upload and adding parts\<close>

text \<open>After the body of a multipart operation: as \<^const>\<open>settled\<close>, but an error that is already uncertain is
  not wrapped again.\<close>

definition committed ::
  "FilesystemRequest \<Rightarrow> VerifiedFilesystemSession \<Rightarrow> ('x, 'a) sprog \<Rightarrow> ('x, 'a) sprog" where
  "committed rq s body = pbind (pattempt body) (\<lambda>r. case r of
       Inr x \<Rightarrow> pseq (pmap_err as_uncertain (request_check rq s)) (pret x)
     | Inl e \<Rightarrow> if uncertain e then praise e else pseq (request_check rq s) (praise e))"

definition publish_upload ::
  "upload_lib \<Rightarrow> FilesystemStoreConfig \<Rightarrow> VerifiedFilesystemSession \<Rightarrow> FilesystemRequest \<Rightarrow> string list \<Rightarrow> Manifest
     \<Rightarrow> ('z, unit) uprog" where
  "publish_upload U cfg s rq dir m =
     pseq (up_owned_dir (dir @ [''parts''])) (pseq (request_check rq s)
     (pseq (write_upload_manifest U cfg dir m)
     (pseq (pmap_err as_uncertain sync_dir) (pmap_err as_uncertain (request_check rq s)))))"

definition create_upload ::
  "store_lib \<Rightarrow> upload_lib \<Rightarrow> FilesystemStoreConfig \<Rightarrow> VerifiedFilesystemSession \<Rightarrow> string \<Rightarrow> string option
     \<Rightarrow> string option \<Rightarrow> FilesystemRequest \<Rightarrow> ('z, string) uprog" where
  "create_upload S U cfg s k content_type random rq =
     pseq (authorize cfg s rq Op_Write k)
     (committed rq s
       (if (case content_type of None \<Rightarrow> False | Some v \<Rightarrow> \<not> header S v) then praise SE_InvalidMetadata
        else pbind now_seconds (\<lambda>now.
          let m = \<lparr>mf_bucket = sc_bucket cfg, mf_key = k, mf_content_type = author content_type,
                   mf_created = now, mf_last_progress = now\<rparr> in
          pbind (plift (manifest_bytes U cfg m)) (\<lambda>_.
          pseq (prune_multipart_current S U cfg s rq)
          (pbind (plift (ok_or random SE_Crypto)) (\<lambda>bytes.
           let ident = id_enc U bytes in
           pseq (lock s rq) (pseq (create_store_dir [ident])
           (pbind (upload_directory U ident) (\<lambda>dir.
            pbind (pattempt (publish_upload U cfg s rq dir m)) (\<lambda>r. case r of
              Inr _ \<Rightarrow> pret ident
            | Inl e \<Rightarrow> if uncertain e then praise e
                else pseq (pmap_err as_uncertain (remove_upload dir)) (praise e)))))))))))"

definition part_range :: "int \<Rightarrow> bool" where
  "part_range n \<longleftrightarrow> 1 \<le> n \<and> n \<le> MAX_PART"

definition content_str :: "content_value \<Rightarrow> string option" where
  "content_str v = (case v of CV_String t \<Rightarrow> Some t | _ \<Rightarrow> None)"

text \<open>Rename a staged payload to its part and record the progress.\<close>

definition part_progress ::
  "upload_lib \<Rightarrow> FilesystemStoreConfig \<Rightarrow> VerifiedFilesystemSession \<Rightarrow> FilesystemRequest \<Rightarrow> string list \<Rightarrow> Manifest
     \<Rightarrow> ('z, unit) uprog" where
  "part_progress U cfg s rq dir m =
     pseq sync_dir (pbind now_seconds (\<lambda>now.
     pseq (write_upload_manifest U cfg dir (m\<lparr>mf_last_progress := max now (mf_created m)\<rparr>))
     (pseq (request_check rq s) sys)))"

definition place_part ::
  "upload_lib \<Rightarrow> FilesystemStoreConfig \<Rightarrow> VerifiedFilesystemSession \<Rightarrow> FilesystemRequest \<Rightarrow> string list \<Rightarrow> Manifest
     \<Rightarrow> int \<Rightarrow> PreparedObject \<Rightarrow> ('z, FilesystemPartInfo) uprog" where
  "place_part U cfg s rq dir m number prepared =
     (let part = dir @ [''parts'', i32_to_string number] in
      pseq (up_open_dir (dir @ [''parts'']))
      (pseq (up_replaceable part SE_InvalidPart)
      (pseq (request_check rq s) (pseq sys (pseq (up_change (put_file part (pr_payload prepared)))
      (pseq (pmap_err as_uncertain (part_progress U cfg s rq dir m))
      (pret \<lparr>pi_number = number, pi_etag = oi_etag (pr_info prepared), pi_size = oi_size (pr_info prepared),
            pi_modified = oi_modified (pr_info prepared)\<rparr>)))))))"

definition upload_part ::
  "store_lib \<Rightarrow> upload_lib \<Rightarrow> FilesystemStoreConfig \<Rightarrow> VerifiedFilesystemSession \<Rightarrow> string \<Rightarrow> string \<Rightarrow> int
     \<Rightarrow> string list \<Rightarrow> FilesystemRequest \<Rightarrow> ('z, FilesystemPartInfo) uprog" where
  "upload_part S U cfg s k ident number body rq =
     pseq (authorize cfg s rq Op_Write k)
     (committed rq s
       (if \<not> part_range number then praise SE_InvalidArgument
        else if \<not> upload_id U ident then praise SE_NoSuchUpload
        else pseq (lock s rq) (pbind (current_upload S U cfg k ident) (\<lambda>(_, initial).
        pbind (prepare S cfg s k body None (content_str (mf_content_type initial)) None rq) (\<lambda>prepared.
        pseq (lock s rq) (pbind (current_upload S U cfg k ident) (\<lambda>(dir, m).
        place_part U cfg s rq dir m number prepared)))))))"

subsection \<open>Listing parts\<close>

definition describe_part ::
  "store_lib \<Rightarrow> string list \<Rightarrow> int \<Rightarrow> VerifiedFilesystemSession \<Rightarrow> FilesystemRequest \<Rightarrow> ('z, FilesystemPartInfo) uprog" where
  "describe_part S dir number s rq =
     pbind (up_open_entry (dir @ [i32_to_string number])) (\<lambda>n.
     pseq sys (case n of
       FileN f \<Rightarrow> pbind (digest_loop s rq (file_reads (f_content f)) []) (\<lambda>seen.
         pret \<lparr>pi_number = number, pi_etag = etag (sha256 S seen), pi_size = length (f_content f), pi_modified = f_modified f\<rparr>)
     | _ \<Rightarrow> praise SE_InvalidPart))"

definition add_number :: "int \<Rightarrow> nat \<Rightarrow> int \<Rightarrow> int list \<Rightarrow> int list" where
  "add_number marker maximum number numbers =
     (if number \<le> marker then numbers
      else let ns = btree_insert number numbers in if maximum + 1 < length ns then butlast ns else ns)"

fun part_numbers ::
  "VerifiedFilesystemSession \<Rightarrow> FilesystemRequest \<Rightarrow> int \<Rightarrow> nat \<Rightarrow> (string \<times> node) list \<Rightarrow> int list \<Rightarrow> ('x, int list) sprog" where
  "part_numbers s rq marker maximum [] numbers = pret numbers"
| "part_numbers s rq marker maximum ((raw, n) # es) numbers =
     pseq (request_check rq s) (pseq sys
     (if \<not> utf8 raw then praise SE_InvalidPart
      else case i32_from_str raw of
        None \<Rightarrow> praise SE_InvalidPart
      | Some number \<Rightarrow>
          if \<not> part_range number \<or> i32_to_string number \<noteq> raw then praise SE_InvalidPart
          else pseq sys (if \<not> is_file n then praise SE_InvalidPart
            else part_numbers s rq marker maximum es (add_number marker maximum number numbers))))"

definition list_parts ::
  "store_lib \<Rightarrow> upload_lib \<Rightarrow> FilesystemStoreConfig \<Rightarrow> VerifiedFilesystemSession \<Rightarrow> string \<Rightarrow> FilesystemPartsRequest
     \<Rightarrow> FilesystemRequest \<Rightarrow> ('z, FilesystemPartsPage) uprog" where
  "list_parts S U cfg s k input rq =
     pseq (authorize cfg s rq Op_Write k)
     (checked rq s
       (if \<not> upload_id U (ps_upload_id input) then praise SE_NoSuchUpload
        else let marker = (case ps_marker input of None \<Rightarrow> 0 | Some v \<Rightarrow> v) in
        if \<not> (0 \<le> marker \<and> marker \<le> MAX_PART) then praise SE_InvalidArgument
        else pbind (plift (max_keys (ps_max_parts input))) (\<lambda>maximum.
        pseq (lock s rq) (pbind (current_upload S U cfg k (ps_upload_id input)) (\<lambda>(dir, _).
        pseq (up_open_dir (dir @ [''parts''])) (pseq sys (pbind (up_stat (dir @ [''parts''])) (\<lambda>d.
        pbind (part_numbers s rq marker maximum (entries_of (the d)) []) (\<lambda>found.
        let truncated = maximum < length found;
            numbers = (if truncated then butlast found else found) in
        pbind (ptraverse (\<lambda>number. describe_part S (dir @ [''parts'']) number s rq) numbers) (\<lambda>parts.
        pret \<lparr>pp_parts = parts, pp_is_truncated = truncated,
              pp_next_marker = (if truncated \<and> numbers \<noteq> [] then Some (last numbers) else None)\<rparr>))))))))))"

subsection \<open>Completing and aborting\<close>

fun check_parts :: "int \<Rightarrow> FilesystemCompletedPart list \<Rightarrow> FilesystemStoreError + unit" where
  "check_parts previous [] = Inr ()"
| "check_parts previous (p # ps) =
     (if \<not> part_range (cp_number p) \<or> \<not> valid_etag (cp_etag p) then Inl SE_InvalidPart
      else if cp_number p \<le> previous then Inl SE_InvalidPartOrder
      else check_parts (cp_number p) ps)"

text \<open>What the reader over the parts yields: the chunks of its reads and the error that ends them, if any.\<close>

fun parts_body ::
  "store_lib \<Rightarrow> (string \<times> node) list \<Rightarrow> FilesystemCompletedPart list \<Rightarrow> string list \<times> FilesystemStoreError option" where
  "parts_body S es [] = ([], None)"
| "parts_body S es (p # ps) = (case map_of es (i32_to_string (cp_number p)) of
       None \<Rightarrow> ([], Some (SE_Io Io_InvalidPartBody))
     | Some LinkN \<Rightarrow> ([], Some (SE_Io Io_Other))
     | Some (FileN f) \<Rightarrow>
         if etag (sha256 S (f_content f)) \<noteq> cp_etag p then (file_reads (f_content f), Some (SE_Io Io_InvalidPartBody))
         else (case parts_body S es ps of (cs, broken) \<Rightarrow> (file_reads (f_content f) @ cs, broken))
     | Some _ \<Rightarrow> ([], Some (SE_Io Io_InvalidPartBody)))"

definition part_error :: "FilesystemStoreError \<Rightarrow> FilesystemStoreError" where
  "part_error e = (if e = SE_Io Io_InvalidPartBody then SE_InvalidPart else e)"

text \<open>Stage the concatenation of the parts, publish it and remove the upload.\<close>

definition assemble_parts ::
  "store_lib \<Rightarrow> FilesystemStoreConfig \<Rightarrow> VerifiedFilesystemSession \<Rightarrow> string \<Rightarrow> FilesystemCompleteUpload
     \<Rightarrow> FilesystemRequest \<Rightarrow> string list \<Rightarrow> Manifest \<Rightarrow> (string \<times> node) list \<Rightarrow> ('z, FilesystemObjectInfo) uprog" where
  "assemble_parts S cfg s k input rq dir m es =
     (let (chunks, broken) = parts_body S es (co_parts input) in
      pbind (pmap_err part_error (prepare S cfg s k chunks broken (content_str (mf_content_type m)) None rq)) (\<lambda>prepared.
      pbind (publish_locked S cfg s k prepared (co_conditions input) rq) (\<lambda>info.
      pseq (pmap_err as_uncertain (remove_upload dir))
      (pseq (pmap_err as_uncertain (request_check rq s)) (pret info)))))"

definition complete_upload ::
  "store_lib \<Rightarrow> upload_lib \<Rightarrow> FilesystemStoreConfig \<Rightarrow> VerifiedFilesystemSession \<Rightarrow> string \<Rightarrow> FilesystemCompleteUpload
     \<Rightarrow> FilesystemRequest \<Rightarrow> ('z, FilesystemObjectInfo) uprog" where
  "complete_upload S U cfg s k input rq =
     pseq (authorize cfg s rq Op_Write k)
     (committed rq s
       (if \<not> upload_id U (co_upload_id input) then praise SE_NoSuchUpload
        else if co_parts input = [] then praise SE_InvalidPart
        else pseq (plift (check_parts 0 (co_parts input)))
        (pseq (lock_shards (lock_order S (upload_lock (co_upload_id input)) k) s rq)
        (pbind (current_upload S U cfg k (co_upload_id input)) (\<lambda>(dir, m).
         pseq (up_open_dir (dir @ [''parts''])) (pbind (up_stat (dir @ [''parts''])) (\<lambda>d.
         assemble_parts S cfg s k input rq dir m (entries_of (the d)))))))))"

definition abort_upload ::
  "store_lib \<Rightarrow> upload_lib \<Rightarrow> FilesystemStoreConfig \<Rightarrow> VerifiedFilesystemSession \<Rightarrow> string \<Rightarrow> string
     \<Rightarrow> FilesystemRequest \<Rightarrow> ('z, unit) uprog" where
  "abort_upload S U cfg s k ident rq =
     pseq (authorize cfg s rq Op_Write k)
     (committed rq s
       (if \<not> upload_id U ident then praise SE_NoSuchUpload
        else pseq (lock s rq) (pbind (current_upload S U cfg k ident) (\<lambda>(dir, _).
          pseq (request_check rq s)
          (pseq (pmap_err as_uncertain (remove_upload dir)) (pmap_err as_uncertain (request_check rq s)))))))"

subsection \<open>Opening a volume\<close>

text \<open>The configured directory before the store exists; it may be missing.\<close>

record volume = world +
  vol_root :: "node option"

type_synonym ('v, 'a) vprog = "('v volume_ext, 'a) sprog"

definition vol_stat :: "string list \<Rightarrow> ('v, node option) vprog" where
  "vol_stat p = (\<lambda>w. (Inr (case vol_root w of None \<Rightarrow> None | Some root \<Rightarrow> lookup root p), w))"

definition vol_change :: "(node \<Rightarrow> node) \<Rightarrow> ('v, unit) vprog" where
  "vol_change f = (\<lambda>w. (Inr (), w\<lparr>vol_root := map_option f (vol_root w)\<rparr>))"

definition vol_create :: "('v, unit) vprog" where
  "vol_create = pseq sys (\<lambda>w. case vol_root w of
       None \<Rightarrow> (Inr (), w\<lparr>vol_root := Some (DirN [])\<rparr>)
     | Some (DirN _) \<Rightarrow> (Inr (), w)
     | Some _ \<Rightarrow> (Inl (SE_Io Io_Other), w))"

definition vol_owner :: "('v, unit) vprog" where
  "vol_owner = pseq sys (pbind (vol_stat [''owner.lock'']) (\<lambda>n. case n of
       None \<Rightarrow> pbind now_tick (\<lambda>t. vol_change (put_file [''owner.lock''] \<lparr>f_content = [], f_modified = utc t\<rparr>))
     | Some (FileN _) \<Rightarrow> pret () | Some SpecialN \<Rightarrow> pret ()
     | Some _ \<Rightarrow> praise (SE_Io Io_Other)))"

definition vol_lock :: "('v, unit) vprog" where
  "vol_lock = pbind now_tick (\<lambda>t. if 0 < contended t then praise SE_VolumeBusy
     else pguard (\<not> fault t) (SE_Io Io_Other))"

definition vol_owned_dir :: "string \<Rightarrow> ('v, unit) vprog" where
  "vol_owned_dir name = pseq sys (pbind (vol_stat [name]) (\<lambda>n.
     pseq (case n of None \<Rightarrow> pseq (vol_change (make_dir [name])) sync_dir | Some _ \<Rightarrow> pret ())
     (pseq sys (pbind (vol_stat [name]) (\<lambda>m. case m of
        Some (DirN _) \<Rightarrow> pret () | None \<Rightarrow> praise (SE_Io Io_NotFound) | Some _ \<Rightarrow> praise (SE_Io Io_Other))))))"

fun vol_remove_entries :: "string list list \<Rightarrow> ('v, unit) vprog" where
  "vol_remove_entries [] = pret ()"
| "vol_remove_entries (p # ps) = pseq sys (pseq (vol_change (remove_file p)) (vol_remove_entries ps))"

text \<open>Remove what an earlier process left in the staging directory.\<close>

fun vol_clean :: "(string \<times> node) list \<Rightarrow> ('v, unit) vprog" where
  "vol_clean [] = pret ()"
| "vol_clean ((name, n) # es) =
     pseq sys (pseq sys (pseq (if is_dir (Some n) then sys else pret ())
     (pseq (vol_remove_entries (contents [''tmp'', name] n)) (vol_clean es))))"

definition vol_prepare :: "('v, unit) vprog" where
  "vol_prepare =
     pseq vol_create (pseq sys (pseq vol_owner (pseq vol_lock
     (pseq (vol_owned_dir ''data'') (pseq (vol_owned_dir ''meta'')
     (pseq (vol_owned_dir ''tmp'') (pseq (vol_owned_dir ''multipart'')
     (pseq sys (pbind (vol_stat [''tmp'']) (\<lambda>t. pseq (vol_clean (entries_of (the t))) sync_dir))))))))))"

definition subtree :: "node option \<Rightarrow> string \<Rightarrow> node" where
  "subtree root name = (case root of None \<Rightarrow> DirN [] | Some r \<Rightarrow> (case lookup r [name] of None \<Rightarrow> DirN [] | Some n \<Rightarrow> n))"

definition store_state :: "volume \<Rightarrow> uploads" where
  "store_state w = \<lparr>env = env w, fs_data = subtree (vol_root w) ''data'', fs_meta = subtree (vol_root w) ''meta'',
     fs_uploads = subtree (vol_root w) ''multipart''\<rparr>"

definition store_open ::
  "store_lib \<Rightarrow> upload_lib \<Rightarrow> string \<Rightarrow> FilesystemStoreConfig \<Rightarrow> volume \<Rightarrow> FilesystemStoreError + uploads" where
  "store_open S U directory cfg w =
     (if directory = [] \<or> sc_bucket cfg = [] then Inl SE_InvalidConfiguration
      else if u64_max \<le> sc_metadata_bytes cfg then Inl SE_InvalidConfiguration
      else case vol_prepare w of
          (Inl e, _) \<Rightarrow> Inl e
        | (Inr _, w1) \<Rightarrow> (case prune_multipart_startup S U cfg (store_state w1) of
            (Inl e, _) \<Rightarrow> Inl e
          | (Inr _, w2) \<Rightarrow> Inr w2))"

end
