(* ===== verification/Fs_Uploads.thy ===== *)
theory Fs_Uploads
  imports Fs_Multipart
begin

text \<open>
  Correctness of multipart uploads: operations on an upload leave the stored objects alone, a
  completion stores the concatenation of exactly the announced parts and removes the upload, a
  failed completion leaves both the objects and the upload as they were unless it says that the
  commit is uncertain, a stored part holds the bytes that were sent, and pruning removes nothing that
  made progress within a day.
\<close>

subsection \<open>What the parts of a program leave alone\<close>

text \<open>A state component that a program does not change.\<close>

definition preserves :: "('x world_scheme \<Rightarrow> 'c) \<Rightarrow> ('x, 'e, 'a) prog \<Rightarrow> bool" where
  "preserves c p \<longleftrightarrow> (\<forall>w. c (snd (p w)) = c w)"

named_theorems preserving

lemma preservesI: "(\<And>w r w'. p w = (r, w') \<Longrightarrow> c w' = c w) \<Longrightarrow> preserves c p"
  unfolding preserves_def by (metis prod.collapse)

lemma preservesD: "preserves c p \<Longrightarrow> p w = (r, w') \<Longrightarrow> c w' = c w"
  unfolding preserves_def by (metis snd_conv)

lemma preserves_pure [preserving]: "preserves c (pret x)" "preserves c (praise e)" "preserves c (plift r)" "preserves c (pguard b e)"
  by (auto simp: preserves_def pret_def praise_def plift_def pguard_def)

lemma preserves_pbind [preserving]:
  assumes "preserves c p" "\<And>x. preserves c (f x)"
  shows "preserves c (pbind p f)"
proof (rule preservesI)
  fix w r w'
  assume run: "pbind p f w = (r, w')"
  obtain q w1 where p: "p w = (q, w1)" by (cases "p w")
  have "q = Inl e \<Longrightarrow> w' = w1" "q = Inr x \<Longrightarrow> f x w1 = (r, w')" for e x using run p by (simp_all add: pbind_def)
  then show "c w' = c w"
    using preservesD [OF assms(1) p] preservesD [OF assms(2)] by (cases q) auto
qed

lemma preserves_pseq [preserving]: "preserves c p \<Longrightarrow> preserves c q \<Longrightarrow> preserves c (pseq p q)"
  unfolding pseq_def by (rule preserves_pbind)

lemma preserves_pmap_err [preserving]: "preserves c p \<Longrightarrow> preserves c (pmap_err g p)"
  by (rule preservesI) (auto simp: pmap_err_def split: prod.splits sum.splits dest: preservesD)

lemma preserves_pattempt [preserving]: "preserves c p \<Longrightarrow> preserves c (pattempt p)"
  by (rule preservesI) (auto simp: pattempt_def split: prod.splits dest: preservesD)

lemma preserves_if [preserving]: "preserves c p \<Longrightarrow> preserves c q \<Longrightarrow> preserves c (if b then p else q)"
  by simp

lemma preserves_sum [preserving]:
  "(\<And>e. preserves c (f e)) \<Longrightarrow> (\<And>x. preserves c (g x)) \<Longrightarrow> preserves c (case r of Inl e \<Rightarrow> f e | Inr x \<Rightarrow> g x)"
  by (cases r) simp_all

lemma preserves_option [preserving]:
  "preserves c p \<Longrightarrow> (\<And>x. preserves c (f x)) \<Longrightarrow> preserves c (case r of None \<Rightarrow> p | Some x \<Rightarrow> f x)"
  by (cases r) simp_all

lemma preserves_node [preserving]:
  "(\<And>x. preserves c (f x)) \<Longrightarrow> (\<And>x. preserves c (g x)) \<Longrightarrow> preserves c p \<Longrightarrow> preserves c q
     \<Longrightarrow> preserves c (case n of FileN x \<Rightarrow> f x | DirN x \<Rightarrow> g x | LinkN \<Rightarrow> p | SpecialN \<Rightarrow> q)"
  by (cases n) simp_all

lemma preserves_prod [preserving]: "(\<And>x y. preserves c (f x y)) \<Longrightarrow> preserves c (case r of (x, y) \<Rightarrow> f x y)"
  by (cases r) simp

lemma preserves_ptraverse [preserving]: "(\<And>x. preserves c (f x)) \<Longrightarrow> preserves c (ptraverse f xs)"
  by (induction xs) (auto intro!: preserving)

text \<open>The components of the store.\<close>

abbreviation stored_trees :: "'y fs_scheme \<Rightarrow> node \<times> node" where
  "stored_trees w \<equiv> (fs_data w, fs_meta w)"

lemma reads_only_preserves: "reads_only p \<Longrightarrow> (\<And>w e. c (w\<lparr>env := e\<rparr>) = c w) \<Longrightarrow> preserves c p"
  unfolding preserves_def reads_only_def advances_def by metis

lemma reads_only_trees_kept: "reads_only p \<Longrightarrow> preserves stored_trees p"
  by (rule reads_only_preserves) simp_all

lemma reads_only_uploads: "reads_only p \<Longrightarrow> preserves fs_uploads p"
  by (rule reads_only_preserves) simp_all

lemmas quiet_atoms = reads_only_request_check reads_only_sys reads_only_authorize reads_only_lock reads_only_lock_shards
  reads_only_sync_dir reads_only_prepare reads_only_digest_loop

lemmas trees_kept_atoms [preserving] = quiet_atoms [THEN reads_only_trees_kept]
lemmas uploads_kept_atoms [preserving] = quiet_atoms [THEN reads_only_uploads]

lemma preserves_now_tick [preserving]: "preserves stored_trees now_tick" "preserves fs_uploads now_tick"
  by (simp_all add: preserves_def now_tick_def)

lemma preserves_now_seconds [preserving]: "preserves stored_trees now_seconds" "preserves fs_uploads now_seconds"
  unfolding now_seconds_def by (intro preserving)+

lemma preserves_up_stat [preserving]: "preserves c (up_stat p)"
  by (simp add: preserves_def up_stat_def)

lemma preserves_up_change [preserving]: "preserves stored_trees (up_change f)"
  by (simp add: preserves_def up_change_def)

lemma preserves_up_reads [preserving]:
  "preserves stored_trees (up_open_dir p)" "preserves fs_uploads (up_open_dir p)"
  "preserves stored_trees (up_open_entry p)" "preserves fs_uploads (up_open_entry p)"
  "preserves stored_trees (up_symlink_metadata p)" "preserves fs_uploads (up_symlink_metadata p)"
  "preserves stored_trees (up_replaceable p e)" "preserves fs_uploads (up_replaceable p e)"
  unfolding up_open_dir_def up_open_entry_def up_symlink_metadata_def up_replaceable_def by (intro preserving)+

lemma preserves_manifest [preserving]:
  "preserves stored_trees (upload_directory U ident)" "preserves fs_uploads (upload_directory U ident)"
  "preserves stored_trees (read_upload_manifest S U cfg dir)" "preserves fs_uploads (read_upload_manifest S U cfg dir)"
  unfolding upload_directory_def read_upload_manifest_def by (intro preserving)+

lemma preserves_current_upload [preserving]:
  "preserves stored_trees (current_upload S U cfg k ident)" "preserves fs_uploads (current_upload S U cfg k ident)"
  unfolding current_upload_def by (intro preserving)+

lemma preserves_stage_manifest [preserving]:
  "preserves stored_trees (stage_manifest dir)" "preserves fs_uploads (stage_manifest dir)"
  unfolding stage_manifest_def by (intro preserving)+

lemma trees_kept_up_dirs [preserving]:
  "preserves stored_trees (create_store_dir p)" "preserves stored_trees (up_owned_dir p)"
  "preserves stored_trees (write_upload_manifest U cfg dir m)"
  unfolding create_store_dir_def up_owned_dir_def write_upload_manifest_def by (intro preserving)+

lemma trees_kept_place_part [preserving]: "preserves stored_trees (place_part U cfg s rq dir m number prepared)"
  unfolding place_part_def part_progress_def Let_def by (intro preserving)

lemma trees_kept_remove_entries [preserving]: "preserves stored_trees (remove_entries ps)"
  by (induction ps) (auto intro!: preserving)

lemma trees_kept_remove_upload [preserving]: "preserves stored_trees (remove_upload dir)"
  unfolding remove_upload_def remove_open_dir_all_def by (intro preserving)

lemma trees_kept_prune_upload [preserving]: "preserves stored_trees (prune_upload S U cfg ident now)"
  unfolding prune_upload_def by (intro preserving)

lemma trees_kept_prune_lists [preserving]:
  "preserves stored_trees (prune_startup S U cfg now es)" "preserves stored_trees (prune_current S U cfg s rq now es)"
  by (induction es) (auto intro!: preserving)

lemma trees_kept_prune [preserving]:
  "preserves stored_trees (prune_multipart_startup S U cfg)" "preserves stored_trees (prune_multipart_current S U cfg s rq)"
  unfolding prune_multipart_startup_def prune_multipart_current_def by (intro preserving)+

lemma preserves_committed [preserving]:
  "preserves stored_trees body \<Longrightarrow> preserves stored_trees (committed rq s body)"
  "preserves fs_uploads body' \<Longrightarrow> preserves fs_uploads (committed rq s body')"
  unfolding committed_def by (intro preserving; assumption)+

lemma preserves_checked [preserving]:
  "preserves stored_trees body \<Longrightarrow> preserves stored_trees (checked rq s body)"
  "preserves fs_uploads body' \<Longrightarrow> preserves fs_uploads (checked rq s body')"
  unfolding checked_def by (intro preserving; assumption)+

lemma preserves_part_numbers [preserving]:
  "preserves stored_trees (part_numbers s rq marker maximum es numbers)"
  "preserves fs_uploads (part_numbers s rq marker maximum es numbers)"
  by (induction es arbitrary: numbers) (auto intro!: preserving)

lemma preserves_describe_part [preserving]:
  "preserves stored_trees (describe_part S dir number s rq)" "preserves fs_uploads (describe_part S dir number s rq)"
  unfolding describe_part_def by (intro preserving)+

lemma trees_kept_create: "preserves stored_trees (create_upload S U cfg s k ct random rq)"
  unfolding create_upload_def publish_upload_def Let_def by (intro preserving)

lemma trees_kept_upload_part: "preserves stored_trees (upload_part S U cfg s k ident number body rq)"
  unfolding upload_part_def Let_def by (intro preserving)

lemma trees_kept_abort: "preserves stored_trees (abort_upload S U cfg s k ident rq)"
  unfolding abort_upload_def by (intro preserving)

lemma list_parts_preserves:
  "preserves stored_trees (list_parts S U cfg s k input rq)" "preserves fs_uploads (list_parts S U cfg s k input rq)"
  unfolding list_parts_def Let_def by (intro preserving)+

subsection \<open>Publication leaves the uploads alone\<close>

lemmas fs_quiet_atoms = reads_only_stat reads_only_open_dir reads_only_check_conditions reads_only_replaceable

lemmas uploads_kept_fs_atoms [preserving] = fs_quiet_atoms [THEN reads_only_uploads]

lemma uploads_kept_change [preserving]: "preserves fs_uploads (change a f)"
  by (auto simp: preserves_def change_def set_tree_def split: area.splits)

lemma uploads_kept_owned_dir [preserving]: "preserves fs_uploads (owned_dir a d n)"
  unfolding owned_dir_def by (intro preserving)

lemma uploads_kept_descend [preserving]: "preserves fs_uploads (descend a create d parts)"
  by (induction a create d parts rule: descend.induct) (auto intro!: preserving)

lemma uploads_kept_publish [preserving]: "preserves fs_uploads (publish_locked S cfg s k prepared c rq)"
  unfolding publish_locked_def parent_def by (intro preserving)

subsection \<open>Removing an upload\<close>

lemma lookup_update_apart: "q \<noteq> p \<Longrightarrow> lookup (update_at (p # ps) v t) (q # qs) = lookup t (q # qs)"
  by (cases t; cases ps) (auto simp: update_conv' delete_conv' split: option.splits)

lemma update_at_dir: "is_dir (Some t) \<Longrightarrow> is_dir (Some (update_at p v t))"
  by (cases "(p, v, t)" rule: update_at.cases) (auto split: option.splits)

lemma contents_below:
  "\<exists>xs. contents p n = xs @ [p] \<and> (\<forall>x\<in>set xs. \<exists>r. x = p @ r)"
proof (induction p n rule: contents.induct)
  case (1 p es)
  have "\<exists>r. x = p @ r" if "e \<in> set es" "x \<in> set (contents (p @ [fst e]) (snd e))" for e x
    using 1 [OF that(1)] that(2) by auto
  then show ?case by auto
qed auto

text \<open>An upload is gone and every other upload is as it was.\<close>

definition dropped :: "string \<Rightarrow> node \<Rightarrow> node \<Rightarrow> bool" where
  "dropped ident t t' \<longleftrightarrow> lookup t' [ident] = None \<and> (\<forall>q qs. q \<noteq> ident \<longrightarrow> lookup t' (q # qs) = lookup t (q # qs))"

lemma fold_remove_apart:
  "(\<And>x. x \<in> set xs \<Longrightarrow> \<exists>r. x = ident # r) \<Longrightarrow> q \<noteq> ident
     \<Longrightarrow> lookup (fold remove_file xs t) (q # qs) = lookup t (q # qs)"
proof (induction xs arbitrary: t)
  case (Cons x xs)
  then obtain r where "x = ident # r" by auto
  then have "lookup (remove_file x t) (q # qs) = lookup t (q # qs)"
    using Cons.prems(2) by (simp add: remove_file_def lookup_update_apart)
  then show ?case using Cons by simp
qed simp

lemma fold_remove_dir: "is_dir (Some t) \<Longrightarrow> is_dir (Some (fold remove_file xs t))"
  by (induction xs arbitrary: t) (simp_all add: remove_file_def update_at_dir)

lemma fold_remove_contents:
  assumes "is_dir (Some t)"
  shows "dropped ident t (fold remove_file (contents [ident] n) t)"
proof -
  obtain xs where xs: "contents [ident] n = xs @ [[ident]]" "\<And>x. x \<in> set xs \<Longrightarrow> \<exists>r. x = ident # r"
    using contents_below [of "[ident]" n] by auto
  have "is_dir (lookup (fold remove_file xs t) (butlast [ident]))" using fold_remove_dir [OF assms] by simp
  then have "lookup (remove_file [ident] (fold remove_file xs t)) [ident] = None"
    unfolding remove_file_def by (rule lookup_update_same [rotated]) simp
  then show ?thesis
    using xs fold_remove_apart [of xs ident] lookup_update_apart by (simp add: dropped_def remove_file_def)
qed

lemma remove_entries_ok: "remove_entries ps w = (Inr u, w') \<Longrightarrow> fs_uploads w' = fold remove_file ps (fs_uploads w)"
proof (induction ps arbitrary: w)
  case (Cons p ps)
  then obtain w1 w2 where s: "sys w = (Inr (), w1)" and c: "up_change (remove_file p) w1 = (Inr (), w2)"
    and r: "remove_entries ps w2 = (Inr u, w')"
    by (auto simp: pseq_ok)
  have "fs_uploads w1 = fs_uploads w" using preservesD [OF uploads_kept_atoms(2) s] .
  moreover have "fs_uploads w2 = remove_file p (fs_uploads w1)" using c by (auto simp: up_change_def)
  ultimately show ?case using Cons.IH [OF r] by simp
qed (simp add: pret_ok)

lemma remove_upload_ok:
  assumes "remove_upload [ident] w = (Inr u, w')" "is_dir (Some (fs_uploads w))"
  shows "dropped ident (fs_uploads w) (fs_uploads w')"
proof -
  obtain w1 n where r: "remove_entries (contents [ident] n) w = (Inr (), w1)" and s: "sync_dir w1 = (Inr (), w')"
    using assms(1) by (auto simp: remove_upload_def remove_open_dir_all_def pseq_ok pbind_ok up_stat_def praise_ok split: option.splits)
  have "fs_uploads w' = fold remove_file (contents [ident] n) (fs_uploads w)"
    using remove_entries_ok [OF r] preservesD [OF uploads_kept_atoms(6) s] by simp
  then show ?thesis using fold_remove_contents [OF assms(2)] by simp
qed

subsection \<open>The parts of a completion\<close>

text \<open>The files of an upload that a list of completed parts names, with the announced ETags.\<close>

definition part_files :: "store_lib \<Rightarrow> node \<Rightarrow> string \<Rightarrow> FilesystemCompletedPart list \<Rightarrow> inode list \<Rightarrow> bool" where
  "part_files S t ident ps files \<longleftrightarrow> list_all2 (\<lambda>p f. objects t [ident, ''parts'', i32_to_string (cp_number p)] = Some f
     \<and> etag (sha256 S (f_content f)) = cp_etag p) ps files"

lemma no_empty_read: "[] \<notin> set (file_reads c)"
  using file_reads_nonempty by blast

declare concat_file_reads [simp]

lemma parts_body_nonempty: "parts_body S es ps = (cs, broken) \<Longrightarrow> [] \<notin> set cs"
  by (induction ps arbitrary: cs broken)
     (auto simp: no_empty_read split: option.splits node.splits if_splits prod.splits)

lemma parts_body_files:
  assumes "parts_body S es ps = (cs, None)" "lookup t [ident, ''parts''] = Some (DirN es)"
  shows "\<exists>files. part_files S t ident ps files \<and> concat cs = concat (map f_content files)"
  using assms(1)
proof (induction ps arbitrary: cs)
  case (Cons p ps)
  let ?name = "i32_to_string (cp_number p)"
  obtain f ds where f: "map_of es ?name = Some (FileN f)" "etag (sha256 S (f_content f)) = cp_etag p"
      "parts_body S es ps = (ds, None)" "cs = file_reads (f_content f) @ ds"
    using Cons.prems by (auto split: option.splits node.splits if_splits prod.splits)
  obtain files where files: "part_files S t ident ps files" "concat ds = concat (map f_content files)"
    using Cons.IH [OF f(3)] by blast
  have "lookup t ([ident, ''parts''] @ [?name]) = Some (FileN f)"
    unfolding lookup_append assms(2) using f(1) by simp
  then have "part_files S t ident (p # ps) (f # files)"
    using files f(2) by (simp add: part_files_def objects_def)
  then show ?case using f(4) files(2) by (intro exI [of _ "f # files"]) simp
qed (auto simp: part_files_def)

lemma body_content_concat: "[] \<notin> set cs \<Longrightarrow> body_content cs = concat cs"
  unfolding body_content_def by (subst takeWhile_eq_all_conv [THEN iffD2]) auto

lemma check_parts_sorted: "check_parts n ps = Inr u \<Longrightarrow> sorted_wrt (<) (n # map cp_number ps)"
proof (induction n ps rule: check_parts.induct)
  case (2 n p ps)
  then have "n < cp_number p" "sorted_wrt (<) (cp_number p # map cp_number ps)" by (auto split: if_splits)
  then show ?case by (auto dest: order.strict_trans)
qed simp

lemma check_parts_range:
  "check_parts n ps = Inr u \<Longrightarrow> p \<in> set ps \<Longrightarrow> 1 \<le> cp_number p \<and> cp_number p \<le> MAX_PART"
proof (induction n ps rule: check_parts.induct)
  case (2 n q ps)
  then have "part_range (cp_number q)" "check_parts (cp_number q) ps = Inr u" by (auto split: if_splits)
  then show ?case using 2 by (auto simp: part_range_def split: if_splits)
qed simp

subsection \<open>Operations\<close>

lemma preserves_both:
  fixes w :: "'z uploads_scheme"
  assumes "preserves stored_trees p" "preserves fs_uploads p" "p w = (r, w')"
  shows "fs_data w' = fs_data w" "fs_meta w' = fs_meta w" "fs_uploads w' = fs_uploads w"
  using preservesD [OF assms(1,3)] preservesD [OF assms(2,3)] by simp_all

lemma committed_ok:
  fixes w :: "'z uploads_scheme"
  assumes "committed rq s body w = (Inr x, w')"
  obtains w1 :: "'z uploads_scheme" where "body w = (Inr x, w1)"
    "fs_data w' = fs_data w1" "fs_meta w' = fs_meta w1" "fs_uploads w' = fs_uploads w1"
proof -
  obtain r w1 where b: "body w = (r, w1)" by (cases "body w")
  then obtain c where r: "r = Inr x" and c: "request_check rq s w1 = (c, w')"
    using assms by (auto simp: committed_def pbind_def pattempt_def pseq_def pret_def praise_def pmap_err_def
        split: sum.splits prod.splits if_splits)
  from preserves_both [OF trees_kept_atoms(1) uploads_kept_atoms(1) c] show ?thesis
    using that b r by simp
qed

lemma current_upload_ok:
  fixes w :: "'z uploads_scheme"
  assumes "current_upload S U cfg k ident w = (Inr (dir, m), w')"
  shows "dir = [ident]" "mf_key m = k" "upload_id U ident"
    "fs_data w' = fs_data w" "fs_meta w' = fs_meta w" "fs_uploads w' = fs_uploads w"
  using assms preserves_both [OF preserves_current_upload assms]
  by (auto simp: current_upload_def upload_directory_def pbind_ok pseq_ok pret_ok praise_ok pmap_err_ok split: if_splits)

lemma up_open_dir_ok:
  fixes w :: "'z uploads_scheme"
  assumes "up_open_dir p w = (Inr u, w')"
  shows "\<exists>es. lookup (fs_uploads w) p = Some (DirN es)"
proof -
  obtain w1 :: "'z uploads_scheme" where s: "sys w = (Inr (), w1)"
    and c: "(case lookup (fs_uploads w1) p of Some (DirN _) \<Rightarrow> pret () | None \<Rightarrow> praise (SE_Io Io_NotFound)
       | Some _ \<Rightarrow> praise (SE_Io Io_Other)) w1 = (Inr u, w')"
    using assms by (auto simp: up_open_dir_def pseq_ok pbind_ok up_stat_def)
  have "fs_uploads w1 = fs_uploads w" using preservesD [OF uploads_kept_atoms(2) s] .
  then show ?thesis using c by (auto simp: praise_ok split: option.splits node.splits)
qed

lemma complete_steps:
  fixes w :: "'z uploads_scheme"
  assumes "complete_upload S U cfg s k input rq w = (Inr info, w')"
  obtains w1 w3 w4 w5 w8 :: "'z uploads_scheme" and dir m where
    "authorize cfg s rq Op_Write k w = (Inr (), w1)"
    "co_parts input \<noteq> []" "check_parts 0 (co_parts input) = Inr ()"
    "lock_shards (lock_order S (upload_lock (co_upload_id input)) k) s rq w1 = (Inr (), w3)"
    "current_upload S U cfg k (co_upload_id input) w3 = (Inr (dir, m), w4)"
    "up_open_dir (dir @ [''parts'']) w4 = (Inr (), w5)"
    "assemble_parts S cfg s k input rq dir m (entries_of (the (lookup (fs_uploads w5) (dir @ [''parts''])))) w5 = (Inr info, w8)"
    "fs_data w' = fs_data w8" "fs_meta w' = fs_meta w8" "fs_uploads w' = fs_uploads w8"
proof -
  obtain w1 :: "'z uploads_scheme" where a: "authorize cfg s rq Op_Write k w = (Inr (), w1)"
    and b: "committed rq s
       (if \<not> upload_id U (co_upload_id input) then praise SE_NoSuchUpload
        else if co_parts input = [] then praise SE_InvalidPart
        else pseq (plift (check_parts 0 (co_parts input)))
        (pseq (lock_shards (lock_order S (upload_lock (co_upload_id input)) k) s rq)
        (pbind (current_upload S U cfg k (co_upload_id input)) (\<lambda>(dir, m).
         pseq (up_open_dir (dir @ [''parts''])) (pbind (up_stat (dir @ [''parts''])) (\<lambda>d.
         assemble_parts S cfg s k input rq dir m (entries_of (the d)))))))) w1 = (Inr info, w')"
    using assms by (auto simp: complete_upload_def pseq_ok)
  from b show ?thesis
    by (rule committed_ok) (use a that in \<open>auto simp: pseq_ok pbind_ok praise_ok plift_ok up_stat_def split: if_splits\<close>)
qed

lemma assemble_ok:
  fixes w :: "'z uploads_scheme"
  assumes "assemble_parts S cfg s k input rq [ident] m es w = (Inr info, w')" "rooted w" "is_dir (Some (fs_uploads w))"
  obtains cs p where "parts_body S es (co_parts input) = (cs, None)"
    "prepared_object S cfg k (body_content cs) (content_str (mf_content_type m)) p" "info = pr_info p"
    "stored k p w w'" "dropped ident (fs_uploads w) (fs_uploads w')"
    "conditions_held S cfg k (co_conditions input) (fs_data w) (fs_meta w)"
proof -
  obtain cs broken where body: "parts_body S es (co_parts input) = (cs, broken)" by fastforce
  obtain w1 w2 w3 :: "'z uploads_scheme" and p where
    pr: "prepare S cfg s k cs broken (content_str (mf_content_type m)) None rq w = (Inr p, w1)"
    and pb: "publish_locked S cfg s k p (co_conditions input) rq w1 = (Inr info, w2)"
    and rm: "remove_upload [ident] w2 = (Inr (), w3)" and rc: "request_check rq s w3 = (Inr (), w')"
    using assms(1) body by (auto simp: assemble_parts_def pbind_ok pseq_ok pmap_err_ok pret_ok)
  have "broken = None" using prepare_ok(3) [OF pr] parts_body_nonempty [OF body] by blast
  note t1 = preserves_both [OF trees_kept_atoms(7) uploads_kept_atoms(7) pr]
    and t2 = preservesD [OF uploads_kept_publish pb] and t3 = preservesD [OF trees_kept_remove_upload rm]
    and t4 = preserves_both [OF trees_kept_atoms(1) uploads_kept_atoms(1) rc]
  have "rooted w1" using assms(2) t1 by (simp add: rooted_def)
  note ps = publish_stored [OF pb this]
  have "stored k p w w'" using ps(1) t1 t3 t4 by (simp add: stored_def rooted_def)
  moreover have "dropped ident (fs_uploads w) (fs_uploads w')"
    using remove_upload_ok [OF rm] assms(3) t1(3) t2 t4(3) by simp
  ultimately show ?thesis
    using that body \<open>broken = None\<close> prepare_ok(1) [OF pr] ps(3) publish_conditions [OF pb] t1 by simp
qed

lemma complete_ok:
  fixes w :: "'z uploads_scheme"
  assumes "complete_upload S U cfg s k input rq w = (Inr info, w')" "rooted w" "is_dir (Some (fs_uploads w))"
  obtains files ct p where "part_files S (fs_uploads w) (co_upload_id input) (co_parts input) files"
    "prepared_object S cfg k (concat (map f_content files)) ct p" "info = pr_info p" "stored k p w w'"
    "dropped (co_upload_id input) (fs_uploads w) (fs_uploads w')"
    "check_parts 0 (co_parts input) = Inr ()" "co_parts input \<noteq> []" "authority cfg s Op_Write k = Inr ()"
    "conditions_held S cfg k (co_conditions input) (fs_data w) (fs_meta w)"
proof -
  let ?id = "co_upload_id input" and ?parts = "co_parts input"
  obtain w1 w3 w4 w5 w8 :: "'z uploads_scheme" and dir m where
    a: "authorize cfg s rq Op_Write k w = (Inr (), w1)"
    and ne: "?parts \<noteq> []" and ck: "check_parts 0 ?parts = Inr ()"
    and l: "lock_shards (lock_order S (upload_lock ?id) k) s rq w1 = (Inr (), w3)"
    and cu: "current_upload S U cfg k ?id w3 = (Inr (dir, m), w4)"
    and od: "up_open_dir (dir @ [''parts'']) w4 = (Inr (), w5)"
    and as: "assemble_parts S cfg s k input rq dir m (entries_of (the (lookup (fs_uploads w5) (dir @ [''parts''])))) w5 = (Inr info, w8)"
    and t8: "fs_data w' = fs_data w8" "fs_meta w' = fs_meta w8" "fs_uploads w' = fs_uploads w8"
    using complete_steps [OF assms(1)] by metis
  note t1 = preserves_both [OF trees_kept_atoms(3) uploads_kept_atoms(3) a]
    and t3 = preserves_both [OF trees_kept_atoms(5) uploads_kept_atoms(5) l] and t4 = current_upload_ok [OF cu]
    and t5 = preserves_both [OF preserves_up_reads(1,2) od]
  have same: "fs_data w5 = fs_data w" "fs_meta w5 = fs_meta w" "fs_uploads w5 = fs_uploads w"
    using t1 t3 t4(4-6) t5 by simp_all
  obtain es where es: "lookup (fs_uploads w) [?id, ''parts''] = Some (DirN es)"
    using up_open_dir_ok [OF od] t1 t3 t4 by auto
  then have "entries_of (the (lookup (fs_uploads w5) (dir @ [''parts'']))) = es" using same t4(1) by (simp add: entries_of_def)
  then have as': "assemble_parts S cfg s k input rq [?id] m es w5 = (Inr info, w8)" using as t4(1) by simp
  have "rooted w5" "is_dir (Some (fs_uploads w5))" using assms(2,3) same by (simp_all add: rooted_def)
  from assemble_ok [OF as' this] obtain cs p where
    "parts_body S es ?parts = (cs, None)" "prepared_object S cfg k (body_content cs) (content_str (mf_content_type m)) p"
    "info = pr_info p" "stored k p w5 w8" "dropped ?id (fs_uploads w5) (fs_uploads w8)"
    "conditions_held S cfg k (co_conditions input) (fs_data w5) (fs_meta w5)" .
  note p = this
  obtain files where files: "part_files S (fs_uploads w) ?id ?parts files" "concat cs = concat (map f_content files)"
    using parts_body_files [OF p(1) es] by blast
  have "prepared_object S cfg k (concat (map f_content files)) (content_str (mf_content_type m)) p"
    using p(2) body_content_concat [OF parts_body_nonempty [OF p(1)]] files(2) by simp
  moreover have "stored k p w w'" using p(4) same t8 by (simp add: stored_def rooted_def)
  moreover have "authority cfg s Op_Write k = Inr ()" using settles_ok [OF settles_authorize a] .
  ultimately show ?thesis using that files(1) p(3,5,6) ck ne same t8 by simp
qed

subsection \<open>Failed completions\<close>

text \<open>Objects and uploads are as they were, but for created directories.\<close>

definition unchanged :: "'z uploads_scheme \<Rightarrow> 'z uploads_scheme \<Rightarrow> bool" where
  "unchanged w w' \<longleftrightarrow> same_objects w w' \<and> fs_uploads w' = fs_uploads w"

definition inert :: "('z, 'a) uprog \<Rightarrow> bool" where
  "inert p \<longleftrightarrow> (\<forall>w r w'. p w = (r, w') \<longrightarrow> unchanged w w')"

definition certain_up :: "('z, 'a) uprog \<Rightarrow> bool" where
  "certain_up p \<longleftrightarrow> (\<forall>w e w'. p w = (Inl e, w') \<longrightarrow> \<not> uncertain e \<longrightarrow> unchanged w w')"

lemma unchanged_trans: "unchanged w w1 \<Longrightarrow> unchanged w1 w2 \<Longrightarrow> unchanged w w2"
  using same_objects_trans by (auto simp: unchanged_def)

lemma inertI: "preserves stored_trees p \<Longrightarrow> preserves fs_uploads p \<Longrightarrow> inert p"
  unfolding inert_def unchanged_def using preserves_both same_trees by blast

lemma certain_up_pbind:
  assumes "inert p" "\<And>x. certain_up (f x)"
  shows "certain_up (pbind p f)"
  unfolding certain_up_def
proof (intro allI impI)
  fix w e w'
  assume run: "pbind p f w = (Inl e, w')" and u: "\<not> uncertain e"
  obtain r w1 where p: "p w = (r, w1)" by (cases "p w")
  have "unchanged w w1" using assms(1) p by (simp add: inert_def)
  moreover have "unchanged w1 w' \<or> w1 = w'"
    using run p u assms(2) by (cases r) (auto simp: pbind_def certain_up_def)
  ultimately show "unchanged w w'" using unchanged_trans by blast
qed

lemma certain_up_pseq: "inert p \<Longrightarrow> certain_up q \<Longrightarrow> certain_up (pseq p q)"
  unfolding pseq_def by (rule certain_up_pbind)

lemma certain_up_then:
  assumes "certain_up p" "\<And>x w e w'. f x w = (Inl e, w') \<Longrightarrow> uncertain e"
  shows "certain_up (pbind p f)"
  using assms unfolding certain_up_def pbind_def by (fastforce split: prod.splits sum.splits)

lemma certain_up_praise: "certain_up (praise e)"
  by (auto simp: certain_up_def praise_def unchanged_def same_trees)

lemma certain_up_publish: "certain_up (publish_locked S cfg s k prepared c rq)"
  using certainD [OF certain_publish_locked] preservesD [OF uploads_kept_publish]
  unfolding certain_up_def unchanged_def by blast

lemma as_uncertain_uncertain [simp]: "uncertain (as_uncertain e)"
  by (simp add: as_uncertain_def uncertain_def)

lemma pmap_err_as_uncertain: "pmap_err as_uncertain p w = (Inl e, w') \<Longrightarrow> uncertain e"
  by (auto simp: pmap_err_def split: prod.splits sum.splits)

lemma certain_up_committed:
  assumes "certain_up body"
  shows "certain_up (committed rq s body)"
  unfolding certain_up_def
proof (intro allI impI)
  fix w e w'
  assume run: "committed rq s body w = (Inl e, w')" and u: "\<not> uncertain e"
  obtain r w1 where b: "body w = (r, w1)" by (cases "body w")
  obtain e' where r: "r = Inl e'" and u': "\<not> uncertain e'" and c: "w' = snd (request_check rq s w1)"
    using run b u by (auto simp: committed_def pbind_def pattempt_def pseq_def pret_def praise_def
        split: sum.splits prod.splits if_splits dest: pmap_err_as_uncertain)
  have "unchanged w w1" using assms b r u' by (simp add: certain_up_def)
  moreover have "unchanged w1 w'"
    using inertI [OF trees_kept_atoms(1) uploads_kept_atoms(1)] c unfolding inert_def by (metis prod.collapse)
  ultimately show "unchanged w w'" by (rule unchanged_trans)
qed

lemma certain_up_assemble: "certain_up (assemble_parts S cfg s k input rq dir m es :: ('z, FilesystemObjectInfo) uprog)"
proof -
  have late: "uncertain e" if "pseq (pmap_err as_uncertain (remove_upload dir))
      (pseq (pmap_err as_uncertain (request_check rq s)) (pret info)) w = (Inl e, w')"
    for info :: FilesystemObjectInfo and w w' :: "'z uploads_scheme" and e
    using that by (auto simp: pseq_def pbind_def pret_def split: prod.splits sum.splits dest: pmap_err_as_uncertain)
  have "inert (pmap_err part_error (prepare S cfg s k chunks broken ct None rq) :: ('z, PreparedObject) uprog)" for chunks broken ct
    by (intro inertI preserving)
  moreover have "certain_up (pbind (publish_locked S cfg s k prepared (co_conditions input) rq) (\<lambda>info.
      pseq (pmap_err as_uncertain (remove_upload dir)) (pseq (pmap_err as_uncertain (request_check rq s)) (pret info)))
      :: ('z, FilesystemObjectInfo) uprog)"
    for prepared by (rule certain_up_then [OF certain_up_publish late])
  ultimately show ?thesis
    unfolding assemble_parts_def Let_def
    by (cases "parts_body S es (co_parts input)") (auto intro: certain_up_pbind)
qed

lemma inert_atoms:
  "inert (authorize cfg s rq operation k)" "inert (plift r)" "inert (lock_shards ns s rq)"
  "inert (current_upload S U cfg k ident)" "inert (up_open_dir p)" "inert (up_stat p)"
  by (intro inertI preserving)+

lemma certain_up_complete: "certain_up (complete_upload S U cfg s k input rq)"
  unfolding complete_upload_def
  by (auto intro!: inert_atoms certain_up_pseq certain_up_pbind certain_up_committed certain_up_assemble certain_up_praise
      split: prod.splits)

subsection \<open>Parts\<close>

lemma write_manifest_ok:
  fixes w :: "'z uploads_scheme"
  assumes "write_upload_manifest U cfg dir m w = (Inr u, w')"
  shows "\<exists>f. manifest_bytes U cfg m = Inr (f_content f) \<and> fs_uploads w' = put_file (dir @ [''manifest'']) f (fs_uploads w)"
proof -
  obtain bytes t and w1 w2 w3 :: "'z uploads_scheme" where b: "manifest_bytes U cfg m = Inr bytes"
    and p: "stage_manifest dir w = (Inr t, w1)"
    and c: "up_change (put_file (dir @ [''manifest'']) \<lparr>f_content = bytes, f_modified = utc t\<rparr>) w1 = (Inr (), w2)"
    and r: "sync_dir w2 = (Inr (), w3)" "sys w3 = (Inr u, w')"
    using assms by (auto simp: write_upload_manifest_def pbind_ok pseq_ok plift_ok pmap_err_ok)
  have "fs_uploads w1 = fs_uploads w" "fs_uploads w' = fs_uploads w2"
    using preservesD [OF preserves_stage_manifest(2) p] preservesD [OF uploads_kept_atoms(6) r(1)]
      preservesD [OF uploads_kept_atoms(2) r(2)] by simp_all
  then show ?thesis
    using b c by (auto simp: up_change_def intro!: exI [of _ "\<lparr>f_content = bytes, f_modified = utc t\<rparr>"])
qed

lemma place_part_ok:
  fixes w :: "'z uploads_scheme"
  assumes "place_part U cfg s rq dir m number prepared w = (Inr info, w')"
  shows "\<exists>f es. lookup (fs_uploads w) (dir @ [''parts'']) = Some (DirN es)
    \<and> fs_uploads w' = put_file (dir @ [''manifest'']) f (put_file (dir @ [''parts'', i32_to_string number]) (pr_payload prepared) (fs_uploads w))"
    "info = \<lparr>pi_number = number, pi_etag = oi_etag (pr_info prepared), pi_size = oi_size (pr_info prepared),
       pi_modified = oi_modified (pr_info prepared)\<rparr>"
proof -
  obtain w1 w2 w3 w4 w5 :: "'z uploads_scheme" where o: "up_open_dir (dir @ [''parts'']) w = (Inr (), w1)"
    and r: "up_replaceable (dir @ [''parts'', i32_to_string number]) SE_InvalidPart w1 = (Inr (), w2)"
    and q: "request_check rq s w2 = (Inr (), w3)" and y: "sys w3 = (Inr (), w4)"
    and c: "up_change (put_file (dir @ [''parts'', i32_to_string number]) (pr_payload prepared)) w4 = (Inr (), w5)"
    and p: "part_progress U cfg s rq dir m w5 = (Inr (), w')"
    and i: "info = \<lparr>pi_number = number, pi_etag = oi_etag (pr_info prepared), pi_size = oi_size (pr_info prepared),
       pi_modified = oi_modified (pr_info prepared)\<rparr>"
    using assms by (auto simp: place_part_def Let_def pbind_ok pseq_ok pmap_err_ok pret_ok)
  have t4: "fs_uploads w4 = fs_uploads w"
    using preservesD [OF preserves_up_reads(2) o] preservesD [OF preserves_up_reads(8) r]
      preservesD [OF uploads_kept_atoms(1) q] preservesD [OF uploads_kept_atoms(2) y] by simp
  obtain now and v1 v2 v3 v4 :: "'z uploads_scheme" where v: "sync_dir w5 = (Inr (), v1)" "now_seconds v1 = (Inr now, v2)"
    "write_upload_manifest U cfg dir (m\<lparr>mf_last_progress := max now (mf_created m)\<rparr>) v2 = (Inr (), v3)"
    "request_check rq s v3 = (Inr (), v4)" "sys v4 = (Inr (), w')"
    using p by (auto simp: part_progress_def pbind_ok pseq_ok)
  have "fs_uploads v2 = fs_uploads w5" "fs_uploads w' = fs_uploads v3"
    using preservesD [OF uploads_kept_atoms(6) v(1)] preservesD [OF preserves_now_seconds(2) v(2)]
      preservesD [OF uploads_kept_atoms(1) v(4)] preservesD [OF uploads_kept_atoms(2) v(5)] by simp_all
  then show "\<exists>f es. lookup (fs_uploads w) (dir @ [''parts'']) = Some (DirN es)
    \<and> fs_uploads w' = put_file (dir @ [''manifest'']) f (put_file (dir @ [''parts'', i32_to_string number]) (pr_payload prepared) (fs_uploads w))"
    using write_manifest_ok [OF v(3)] c t4 up_open_dir_ok [OF o] by (auto simp: up_change_def)
  show "info = \<lparr>pi_number = number, pi_etag = oi_etag (pr_info prepared), pi_size = oi_size (pr_info prepared),
       pi_modified = oi_modified (pr_info prepared)\<rparr>" using i .
qed

lemma upload_part_ok:
  fixes w :: "'z uploads_scheme"
  assumes "upload_part S U cfg s k ident number body rq w = (Inr info, w')"
  obtains p ct f es where "prepared_object S cfg k (body_content body) ct p" "part_range number"
    "authority cfg s Op_Write k = Inr ()" "lookup (fs_uploads w) [ident, ''parts''] = Some (DirN es)"
    "info = \<lparr>pi_number = number, pi_etag = oi_etag (pr_info p), pi_size = oi_size (pr_info p), pi_modified = oi_modified (pr_info p)\<rparr>"
    "fs_uploads w' = put_file [ident, ''manifest''] f (put_file [ident, ''parts'', i32_to_string number] (pr_payload p) (fs_uploads w))"
proof -
  obtain w1 :: "'z uploads_scheme" where a: "authorize cfg s rq Op_Write k w = (Inr (), w1)"
    and b: "committed rq s
       (if \<not> part_range number then praise SE_InvalidArgument
        else if \<not> upload_id U ident then praise SE_NoSuchUpload
        else pseq (lock s rq) (pbind (current_upload S U cfg k ident) (\<lambda>(_, initial).
        pbind (prepare S cfg s k body None (content_str (mf_content_type initial)) None rq) (\<lambda>prepared.
        pseq (lock s rq) (pbind (current_upload S U cfg k ident) (\<lambda>(dir, m).
        place_part U cfg s rq dir m number prepared)))))) w1 = (Inr info, w')"
    using assms by (auto simp: upload_part_def pseq_ok)
  obtain v2 v3 v4 v5 v6 v7 :: "'z uploads_scheme" and d0 m0 p dir m where rng: "part_range number"
    and v: "lock s rq w1 = (Inr (), v2)" "current_upload S U cfg k ident v2 = (Inr (d0, m0), v3)"
    "prepare S cfg s k body None (content_str (mf_content_type m0)) None rq v3 = (Inr p, v4)"
    "lock s rq v4 = (Inr (), v5)" "current_upload S U cfg k ident v5 = (Inr (dir, m), v6)"
    "place_part U cfg s rq dir m number p v6 = (Inr info, v7)" and t7: "fs_uploads w' = fs_uploads v7"
    using b by (rule committed_ok) (auto simp: pseq_ok pbind_ok praise_ok split: if_splits)
  have "fs_uploads v6 = fs_uploads w"
    using preservesD [OF uploads_kept_atoms(3) a] preservesD [OF uploads_kept_atoms(4) v(1)] current_upload_ok(6) [OF v(2)]
      preservesD [OF uploads_kept_atoms(7) v(3)] preservesD [OF uploads_kept_atoms(4) v(4)] current_upload_ok(6) [OF v(5)] by simp
  then show ?thesis
    using that prepare_ok(1) [OF v(3)] rng settles_ok [OF settles_authorize a] place_part_ok [OF v(6)] current_upload_ok(1) [OF v(5)] t7
    by auto
qed

subsection \<open>Pruning\<close>

text \<open>An upload with a readable manifest whose last progress is less than the limit before \<^verbatim>\<open>now\<close>.\<close>

definition fresh ::
  "store_lib \<Rightarrow> upload_lib \<Rightarrow> FilesystemStoreConfig \<Rightarrow> nat \<Rightarrow> node \<Rightarrow> string \<Rightarrow> bool" where
  "fresh S U cfg now t ident \<longleftrightarrow> (\<exists>f m. lookup t [ident, ''manifest''] = Some (FileN f)
     \<and> parse_manifest S U cfg (f_content f) = Inr m \<and> now - mf_last_progress m < ABANDONED_SECONDS)"

abbreviation upload_at :: "string \<Rightarrow> 'z uploads_scheme \<Rightarrow> string list \<Rightarrow> node option" where
  "upload_at ident w \<equiv> \<lambda>qs. lookup (fs_uploads w) (ident # qs)"

lemma uploads_preserves: "preserves fs_uploads p \<Longrightarrow> preserves (upload_at q) p"
  by (simp add: preserves_def)

lemma remove_entries_apart:
  "(\<And>x. x \<in> set xs \<Longrightarrow> \<exists>r. x = ident # r) \<Longrightarrow> q \<noteq> ident \<Longrightarrow> preserves (upload_at q) (remove_entries xs)"
proof (induction xs)
  case (Cons x xs)
  then obtain r where "x = ident # r" by auto
  then have "preserves (upload_at q) (up_change (remove_file x))"
    using Cons.prems(2) by (simp add: preserves_def up_change_def remove_file_def lookup_update_apart)
  moreover have "preserves (upload_at q) sys" by (rule uploads_preserves) (rule uploads_kept_atoms)
  ultimately show ?case using Cons by (auto intro!: preserves_pseq)
qed (simp add: preserves_pure)

lemma remove_upload_apart: "q \<noteq> ident \<Longrightarrow> preserves (upload_at q) (remove_upload [ident])"
proof -
  assume q: "q \<noteq> ident"
  have "preserves (upload_at q) (remove_entries (contents [ident] n))" for n
    using contents_below [of "[ident]" n] q by (intro remove_entries_apart) auto
  then show ?thesis
    unfolding remove_upload_def remove_open_dir_all_def
    by (intro preserving uploads_preserves [OF uploads_kept_atoms(6)])
qed

text \<open>Reading the manifest of a fresh upload fails only by a fault of the environment.\<close>

lemma read_manifest_fresh:
  fixes w :: "'z uploads_scheme"
  assumes "read_upload_manifest S U cfg [ident] w = (r, w')"
    and "lookup (fs_uploads w) [ident, ''manifest''] = Some (FileN f)" "parse_manifest S U cfg (f_content f) = Inr m"
  shows "r = Inr m \<or> r = Inl (SE_Io Io_Other)"
proof -
  have sys: "fs_uploads v' = fs_uploads v \<and> (q = Inr () \<or> q = Inl (SE_Io Io_Other))"
    if "sys v = (q, v')" for v v' :: "'z uploads_scheme" and q
    using preservesD [OF uploads_kept_atoms(2) that] that
    by (auto simp: sys_def pbind_def now_tick_def pguard_def plift_def require_def split: if_splits)
  show ?thesis
    using assms unfolding read_upload_manifest_def up_open_entry_def up_stat_def pbind_def pseq_def pmap_err_def
    by (auto simp: no_upload_def pret_def plift_def split: prod.splits sum.splits dest!: sys)
qed

lemma prune_upload_fresh:
  fixes w :: "'z uploads_scheme"
  assumes "prune_upload S U cfg ident now w = (r, w')" "fresh S U cfg now (fs_uploads w) q"
  shows "upload_at q w' = upload_at q w"
proof -
  obtain r1 w1 where ud: "upload_directory U ident w = (r1, w1)" by (cases "upload_directory U ident w")
  have t1: "fs_uploads w1 = fs_uploads w" using preservesD [OF preserves_manifest(2) ud] .
  show ?thesis
  proof (cases r1)
    case (Inl e)
    then have "w' = w1" using assms(1) ud
      by (auto simp: prune_upload_def pbind_def pattempt_def pret_def praise_def split: if_splits)
    then show ?thesis using t1 by simp
  next
    case (Inr dir)
    then have dir: "dir = [ident]"
      using ud by (auto simp: upload_directory_def pmap_err_ok pseq_ok pret_ok praise_ok split: if_splits)
    obtain r2 w2 where rm: "read_upload_manifest S U cfg [ident] w1 = (r2, w2)" by (cases "read_upload_manifest S U cfg [ident] w1")
    have t2: "fs_uploads w2 = fs_uploads w" using preservesD [OF preserves_manifest(4) rm] t1 by simp
    have w': "w' = w2 \<or> (remove_upload [ident] w2 = (r, w') \<and>
        (case r2 of Inr m \<Rightarrow> ABANDONED_SECONDS \<le> now - mf_last_progress m | Inl e \<Rightarrow> e = SE_NoSuchUpload))"
      using assms(1) ud rm Inr dir
      by (auto simp: prune_upload_def pbind_def pattempt_def pret_def praise_def split: sum.splits if_splits)
    show ?thesis
    proof (cases "q = ident")
      case True
      then have "r2 = Inl (SE_Io Io_Other) \<or> (\<exists>m. r2 = Inr m \<and> now - mf_last_progress m < ABANDONED_SECONDS)"
        using assms(2) read_manifest_fresh [OF rm] t1 unfolding fresh_def by metis
      then show ?thesis using w' t2 by (auto split: sum.splits)
    next
      case False
      then show ?thesis using w' t2 preservesD [OF remove_upload_apart [OF False]] by fastforce
    qed
  qed
qed

lemma fresh_kept: "fresh S U cfg now (fs_uploads w) q \<Longrightarrow> upload_at q w' = upload_at q w \<Longrightarrow> fresh S U cfg now (fs_uploads w') q"
  unfolding fresh_def by metis

lemma prune_startup_fresh:
  fixes w :: "'z uploads_scheme"
  assumes "prune_startup S U cfg now es w = (r, w')" "fresh S U cfg now (fs_uploads w) q"
  shows "upload_at q w' = upload_at q w"
  using assms
proof (induction es arbitrary: w)
  case (Cons e es)
  obtain name n where e: "e = (name, n)" by (cases e)
  obtain r1 w1 where s1: "sys w = (r1, w1)" by (cases "sys w")
  obtain r2 w2 where s2: "sys w1 = (r2, w2)" by (cases "sys w1")
  obtain r3 w3 where p: "prune_upload S U cfg name now w2 = (r3, w3)" by (cases "prune_upload S U cfg name now w2")
  have t: "fs_uploads w1 = fs_uploads w" "fs_uploads w2 = fs_uploads w"
    using preservesD [OF uploads_kept_atoms(2) s1] preservesD [OF uploads_kept_atoms(2) s2] by simp_all
  have u3: "upload_at q w3 = upload_at q w" using prune_upload_fresh [OF p, of q] Cons.prems(2) t by simp
  have "w' \<in> {w1, w2, w3} \<or> prune_startup S U cfg now es w3 = (r, w')"
    using Cons.prems(1) e s1 s2 p by (auto simp: pseq_def pbind_def praise_def split: sum.splits if_splits)
  moreover have "upload_at q w' = upload_at q w" if "prune_startup S U cfg now es w3 = (r, w')"
    using Cons.IH [OF that fresh_kept [OF Cons.prems(2) u3]] u3 by simp
  ultimately show ?case using t u3 by auto
qed (simp add: pret_def)

subsection \<open>Opening a volume\<close>

abbreviation area_of :: "string \<Rightarrow> 'v volume_scheme \<Rightarrow> node" where
  "area_of name w \<equiv> subtree (vol_root w) name"

lemma area_kept_quiet: "reads_only p \<Longrightarrow> preserves (area_of name) p"
  by (rule reads_only_preserves) simp_all

lemmas area_kept_atoms [preserving] = area_kept_quiet [OF reads_only_sys] area_kept_quiet [OF reads_only_sync_dir]

lemma area_kept_now_tick [preserving]: "preserves (area_of name) now_tick"
  by (simp add: preserves_def now_tick_def)

lemma area_kept_stat [preserving]: "preserves c (vol_stat p)"
  by (simp add: preserves_def vol_stat_def)

lemma subtree_update_apart: "q \<noteq> name \<Longrightarrow> subtree (map_option (update_at (q # ps) v) root) name = subtree root name"
  by (cases root) (simp_all add: subtree_def lookup_update_apart)

lemma area_kept_change:
  "q \<noteq> name \<Longrightarrow> preserves (area_of name) (vol_change (put_file (q # ps) f))"
  "q \<noteq> name \<Longrightarrow> preserves (area_of name) (vol_change (remove_file (q # ps)))"
  "q \<noteq> name \<Longrightarrow> preserves (area_of name) (vol_change (make_dir (q # ps)))"
  unfolding put_file_def remove_file_def make_dir_def by (simp_all add: preserves_def vol_change_def subtree_update_apart)

lemma area_kept_create [preserving]: "preserves (area_of name) vol_create"
  unfolding vol_create_def
  by (intro preserves_pseq area_kept_atoms) (auto simp: preserves_def subtree_def split: option.splits node.splits)

lemma area_kept_owner: "name \<noteq> ''owner.lock'' \<Longrightarrow> preserves (area_of name) vol_owner"
  unfolding vol_owner_def by (intro preserving area_kept_change) auto

lemma area_kept_lock [preserving]: "preserves (area_of name) vol_lock"
  unfolding vol_lock_def by (intro preserving)

text \<open>A directory that is created empty is what its absence was read as.\<close>

lemma subtree_make_dir:
  assumes "Option.bind root (\<lambda>r. lookup r [q]) = None"
  shows "subtree (map_option (make_dir [q]) root) name = subtree root name"
proof (cases root)
  case (Some r)
  show ?thesis
  proof (cases "q = name")
    case True
    then show ?thesis
      using Some assms by (cases r) (auto simp: subtree_def make_dir_def update_conv' split: option.splits)
  next
    case False
    have "make_dir [q] = update_at [q] (Some (DirN []))" by (simp add: make_dir_def fun_eq_iff)
    then show ?thesis using subtree_update_apart [OF False, of "[]" _ root] by simp
  qed
qed (simp add: subtree_def)

lemma area_kept_owned_dir [preserving]: "preserves (area_of name) (vol_owned_dir q)"
proof -
  let ?open = "pseq sys (pbind (vol_stat [q]) (\<lambda>m. case m of
        Some (DirN _) \<Rightarrow> pret () | None \<Rightarrow> praise (SE_Io Io_NotFound) | Some _ \<Rightarrow> praise (SE_Io Io_Other))) :: ('v, unit) vprog"
  have o: "preserves (area_of name) (pseq sync_dir ?open)" "preserves (area_of name) ?open" by (intro preserving)+
  have "preserves (area_of name) (pbind (vol_stat [q]) (\<lambda>n.
     pseq (case n of None \<Rightarrow> pseq (vol_change (make_dir [q])) sync_dir | Some _ \<Rightarrow> pret ()) ?open))"
  proof (rule preservesI)
    fix w :: "'v volume_scheme" and r w'
    assume run: "pbind (vol_stat [q]) (\<lambda>n.
     pseq (case n of None \<Rightarrow> pseq (vol_change (make_dir [q])) sync_dir | Some _ \<Rightarrow> pret ()) ?open) w = (r, w')"
    let ?n = "Option.bind (vol_root w) (\<lambda>t. lookup t [q])"
    have st: "vol_stat [q] w = (Inr ?n, w)" by (simp add: vol_stat_def split: option.splits)
    show "area_of name w' = area_of name w"
    proof (cases ?n)
      case None
      let ?w1 = "w\<lparr>vol_root := map_option (make_dir [q]) (vol_root w)\<rparr>"
      have "pseq sync_dir ?open ?w1 = (r, w')"
        using run st None by (simp add: pbind_def pseq_def vol_change_def split: prod.splits sum.splits)
      then show ?thesis using preservesD [OF o(1)] subtree_make_dir [OF None] by fastforce
    next
      case (Some x)
      then have "?open w = (r, w')" using run st by (simp add: pbind_def pseq_def pret_def)
      then show ?thesis using preservesD [OF o(2)] by blast
    qed
  qed
  then show ?thesis unfolding vol_owned_dir_def by (intro preserves_pseq area_kept_atoms)
qed

lemma area_kept_remove_entries:
  "(\<And>x. x \<in> set xs \<Longrightarrow> \<exists>r. x = q # r) \<Longrightarrow> q \<noteq> name \<Longrightarrow> preserves (area_of name) (vol_remove_entries xs)"
proof (induction xs)
  case (Cons x xs)
  then obtain r where "x = q # r" by auto
  then show ?case using Cons by (auto intro!: preserves_pseq area_kept_atoms area_kept_change)
qed (simp add: preserves_pure)

lemma area_kept_clean: "name \<noteq> ''tmp'' \<Longrightarrow> preserves (area_of name) (vol_clean es)"
proof (induction es)
  case (Cons e es)
  have "\<exists>r. x = ''tmp'' # r" if "x \<in> set (contents [''tmp'', fst e] (snd e))" for x
    using contents_below [of "[''tmp'', fst e]" "snd e"] that by auto
  then show ?case
    using Cons by (cases e) (auto intro!: preserving area_kept_remove_entries [of _ "''tmp''"])
qed (simp add: preserves_pure)

lemma area_kept_prepare:
  "name \<noteq> ''tmp'' \<Longrightarrow> name \<noteq> ''owner.lock'' \<Longrightarrow> preserves (area_of name) vol_prepare"
  unfolding vol_prepare_def by (intro preserving area_kept_owner area_kept_clean)

text \<open>Every clock reading of an environment finds the upload fresh.\<close>

definition always_fresh :: "store_lib \<Rightarrow> upload_lib \<Rightarrow> FilesystemStoreConfig \<Rightarrow> (nat \<Rightarrow> tick) \<Rightarrow> node \<Rightarrow> string \<Rightarrow> bool" where
  "always_fresh S U cfg readings t ident \<longleftrightarrow> (\<forall>n. fresh S U cfg (nat (utc (readings n) div 1000000000)) t ident)"

lemma prune_multipart_fresh:
  fixes w :: "'z uploads_scheme"
  assumes "prune_multipart_startup S U cfg w = (r, w')" "always_fresh S U cfg (env w) (fs_uploads w) q"
  shows "upload_at q w' = upload_at q w"
proof -
  obtain r1 w1 where n: "now_seconds w = (r1, w1)" by (cases "now_seconds w")
  have t1: "fs_uploads w1 = fs_uploads w" using preservesD [OF preserves_now_seconds(2) n] .
  have now: "r1 = Inr now \<Longrightarrow> now = nat (utc (env w 0) div 1000000000)" for now
    using n by (auto simp: now_seconds_def pbind_def now_tick_def pret_def praise_def split: if_splits)
  obtain r2 w2 where y: "sys w1 = (r2, w2)" by (cases "sys w1")
  have t2: "fs_uploads w2 = fs_uploads w" using preservesD [OF uploads_kept_atoms(2) y] t1 by simp
  consider "w' = w1" | "w' = w2"
    | now where "r1 = Inr now" "prune_startup S U cfg now (entries_of (the (lookup (fs_uploads w2) []))) w2 = (r, w')"
    using assms(1) n y by (auto simp: prune_multipart_startup_def pbind_def pseq_def up_stat_def split: sum.splits)
  then show ?thesis
  proof cases
    case 3
    then have "fresh S U cfg now (fs_uploads w2) q" using assms(2) now t2 by (simp add: always_fresh_def)
    from prune_startup_fresh [OF 3(2) this] show ?thesis using t2 by simp
  qed (use t1 t2 in simp_all)
qed

text \<open>A program consumes readings and leaves the others as they are.\<close>

definition consumes :: "('x, 'e, 'a) prog \<Rightarrow> bool" where
  "consumes p \<longleftrightarrow> (\<forall>w. \<exists>k. env (snd (p w)) = (\<lambda>n. env w (n + k)))"

named_theorems consuming

lemma consumesD: "consumes p \<Longrightarrow> p w = (r, w') \<Longrightarrow> \<exists>k. env w' = (\<lambda>n. env w (n + k))"
  unfolding consumes_def by (metis snd_conv)

lemma consumesI: "(\<And>w r w'. p w = (r, w') \<Longrightarrow> \<exists>k. env w' = (\<lambda>n. env w (n + k))) \<Longrightarrow> consumes p"
  unfolding consumes_def by (metis prod.collapse)

lemma env_same: "env w' = env w \<Longrightarrow> \<exists>k. env w' = (\<lambda>n. env w (n + k))"
  by (auto intro: exI [of _ 0])

lemma env_shift_trans:
  "\<exists>k. env w1 = (\<lambda>n. env w (n + k)) \<Longrightarrow> \<exists>k. env w' = (\<lambda>n. env w1 (n + k)) \<Longrightarrow> \<exists>k. env w' = (\<lambda>n. env w (n + k))"
  by (metis add.assoc)

lemma consumes_pure [consuming]: "consumes (pret x)" "consumes (praise e)" "consumes (plift r)" "consumes (pguard b e)"
  by (auto simp: consumes_def pret_def praise_def plift_def pguard_def intro: env_same)

lemma consumes_quiet: "reads_only p \<Longrightarrow> consumes p"
  unfolding reads_only_def advances_def consumes_def by (metis world.select_convs(1) world.update_convs(1) world.surjective)

lemma consumes_pbind [consuming]:
  assumes "consumes p" "\<And>x. consumes (f x)"
  shows "consumes (pbind p f)"
proof (rule consumesI)
  fix w r w'
  assume run: "pbind p f w = (r, w')"
  obtain q w1 where p: "p w = (q, w1)" by (cases "p w")
  have "q = Inl e \<Longrightarrow> w' = w1" "q = Inr x \<Longrightarrow> f x w1 = (r, w')" for e x using run p by (simp_all add: pbind_def)
  then show "\<exists>k. env w' = (\<lambda>n. env w (n + k))"
    using consumesD [OF assms(1) p] consumesD [OF assms(2)] env_shift_trans by (cases q) blast+
qed

lemma consumes_pseq [consuming]: "consumes p \<Longrightarrow> consumes q \<Longrightarrow> consumes (pseq p q)"
  unfolding pseq_def by (rule consumes_pbind)

lemma consumes_cases [consuming]:
  "consumes p \<Longrightarrow> consumes q \<Longrightarrow> consumes (if b then p else q)"
  "consumes p \<Longrightarrow> (\<And>x. consumes (f x)) \<Longrightarrow> consumes (case r of None \<Rightarrow> p | Some x \<Rightarrow> f x)"
  "(\<And>x. consumes (f' x)) \<Longrightarrow> (\<And>x. consumes (g' x)) \<Longrightarrow> consumes p \<Longrightarrow> consumes q
     \<Longrightarrow> consumes (case n of FileN x \<Rightarrow> f' x | DirN x \<Rightarrow> g' x | LinkN \<Rightarrow> p | SpecialN \<Rightarrow> q)"
  by (simp_all split: option.splits node.splits)

lemma consumes_now_tick [consuming]: "consumes now_tick"
  by (auto simp: consumes_def now_tick_def intro!: exI [of _ 1])

lemmas consumes_atoms [consuming] = consumes_quiet [OF reads_only_sys] consumes_quiet [OF reads_only_sync_dir]

lemma consumes_vol [consuming]: "consumes (vol_stat p)" "consumes (vol_change f)"
  by (auto simp: consumes_def vol_stat_def vol_change_def intro: env_same)

lemma consumes_vol_create [consuming]: "consumes vol_create"
  unfolding vol_create_def
  by (intro consumes_pseq consumes_atoms) (auto simp: consumes_def split: option.splits node.splits intro: env_same)

lemma consumes_vol_dirs [consuming]: "consumes vol_owner" "consumes vol_lock" "consumes (vol_owned_dir name)"
  unfolding vol_owner_def vol_lock_def vol_owned_dir_def by (intro consuming)+

lemma consumes_vol_remove [consuming]: "consumes (vol_remove_entries xs)"
  by (induction xs) (auto intro!: consuming)

lemma consumes_vol_clean [consuming]: "consumes (vol_clean es)"
  by (induction es rule: vol_clean.induct) (auto intro!: consuming)

lemma consumes_vol_prepare: "consumes vol_prepare"
  unfolding vol_prepare_def by (intro consuming)

end
