(* ===== verification/Fs_Upload_Guarantees.thy ===== *)
theory Fs_Upload_Guarantees
  imports Fs_Uploads
begin

text \<open>
  What multipart uploads and volumes guarantee, with a concrete upload that is completed.
\<close>

subsection \<open>Properties\<close>

text \<open>C7: a completion that succeeds had write authority and a strictly increasing, non-empty list of parts
  in range, each a file of the upload with the announced ETag; it stores the concatenation of their
  bytes under the key, changes no other object, and removes the upload and no other. One that fails
  with anything but an uncertain commit leaves every object, all metadata and all uploads as they were.\<close>

theorem completion_all_or_nothing:
  assumes "complete_upload S U cfg s k input rq w = (r, w')" "rooted w" "is_dir (Some (fs_uploads w))"
  shows "case r of
      Inr info \<Rightarrow> (\<exists>files. part_files S (fs_uploads w) (co_upload_id input) (co_parts input) files
          \<and> objects (fs_data w') = (objects (fs_data w))
              (path k \<mapsto> \<lparr>f_content = concat (map f_content files), f_modified = oi_modified info\<rparr>)
          \<and> oi_size info = length (concat (map f_content files))
          \<and> oi_etag info = etag (sha256 S (concat (map f_content files))))
        \<and> co_parts input \<noteq> [] \<and> sorted_wrt (<) (map cp_number (co_parts input))
        \<and> list_all (\<lambda>p. 1 \<le> cp_number p \<and> cp_number p \<le> 10000) (co_parts input)
        \<and> dropped (co_upload_id input) (fs_uploads w) (fs_uploads w') \<and> covered s (op_indices Op_Write) k
    | Inl e \<Rightarrow> uncertain e \<or> (objects (fs_data w') = objects (fs_data w) \<and> objects (fs_meta w') = objects (fs_meta w)
        \<and> fs_uploads w' = fs_uploads w)"
proof (cases r)
  case (Inl e)
  then show ?thesis
    using certain_up_complete [of S U cfg s k input rq] assms(1)
    by (auto simp: certain_up_def unchanged_def same_objects_def extends_objects)
next
  case (Inr info)
  obtain files ct p where c: "part_files S (fs_uploads w) (co_upload_id input) (co_parts input) files"
    "prepared_object S cfg k (concat (map f_content files)) ct p" "info = pr_info p" "stored k p w w'"
    "dropped (co_upload_id input) (fs_uploads w) (fs_uploads w')"
    "check_parts 0 (co_parts input) = Inr ()" "co_parts input \<noteq> []" "authority cfg s Op_Write k = Inr ()"
    using complete_ok [OF assms(1) [unfolded Inr] assms(2,3)] by metis
  have "sorted_wrt (<) (map cp_number (co_parts input))" using check_parts_sorted [OF c(6)] by simp
  moreover have "list_all (\<lambda>p. 1 \<le> cp_number p \<and> cp_number p \<le> 10000) (co_parts input)"
    using check_parts_range [OF c(6)] by (auto simp: list_all_iff MAX_PART_def)
  moreover have "covered s (op_indices Op_Write) k"
    using c(8) by (auto simp: authority_def require_def split: if_splits)
  ultimately show ?thesis using c Inr by (auto simp: prepared_object_def stored_def)
qed

text \<open>Creating an upload, adding a part, listing the parts and aborting never touch the data tree or the
  metadata tree, whatever they return; listing does not touch the uploads either.\<close>

theorem uploads_leave_objects:
  "stored_trees (snd (create_upload S U cfg s k ct random rq w)) = stored_trees w
   \<and> stored_trees (snd (upload_part S U cfg s k ident number body rq w)) = stored_trees w
   \<and> stored_trees (snd (abort_upload S U cfg s k ident rq w)) = stored_trees w
   \<and> stored_trees (snd (list_parts S U cfg s k input rq w)) = stored_trees w
   \<and> fs_uploads (snd (list_parts S U cfg s k input rq w)) = fs_uploads w"
  using trees_kept_create [of S U cfg s k ct random rq] trees_kept_upload_part [of S U cfg s k ident number body rq]
    trees_kept_abort [of S U cfg s k ident rq] list_parts_preserves [of S U cfg s k input rq]
  unfolding preserves_def by blast

text \<open>C35: opening a volume keeps the stored data and metadata as they are on disk and removes no upload that
  made progress within a day of every clock reading; a directory that is missing is created empty.\<close>

theorem open_keeps_volume:
  assumes "store_open S U directory cfg w = Inr u"
  shows "fs_data u = subtree (vol_root w) ''data'' \<and> fs_meta u = subtree (vol_root w) ''meta''
    \<and> (\<forall>ident qs. always_fresh S U cfg (env w) (subtree (vol_root w) ''multipart'') ident
         \<longrightarrow> lookup (fs_uploads u) (ident # qs) = lookup (subtree (vol_root w) ''multipart'') (ident # qs))"
proof -
  obtain w1 u1 where p: "vol_prepare w = (Inr (), w1)"
    and q: "prune_multipart_startup S U cfg (store_state w1) = (Inr (), u)"
    using assms by (auto simp: store_open_def split: if_splits prod.splits sum.splits)
  have a: "subtree (vol_root w1) name = subtree (vol_root w) name" if "name \<noteq> ''tmp''" "name \<noteq> ''owner.lock''" for name
    using preservesD [OF area_kept_prepare [OF that] p] .
  obtain j where j: "env w1 = (\<lambda>n. env w (n + j))" using consumesD [OF consumes_vol_prepare p] by blast
  have "stored_trees u = stored_trees (store_state w1)" using preservesD [OF trees_kept_prune(1) q] .
  then have d: "fs_data u = subtree (vol_root w) ''data''" "fs_meta u = subtree (vol_root w) ''meta''"
    using a by (simp_all add: store_state_def)
  have "lookup (fs_uploads u) (ident # qs) = lookup (subtree (vol_root w) ''multipart'') (ident # qs)"
    if "always_fresh S U cfg (env w) (subtree (vol_root w) ''multipart'') ident" for ident qs
  proof -
    have "always_fresh S U cfg (env (store_state w1)) (fs_uploads (store_state w1)) ident"
      using that a j by (simp add: always_fresh_def store_state_def)
    from prune_multipart_fresh [OF q this] show ?thesis using a by (simp add: store_state_def fun_eq_iff)
  qed
  then show ?thesis using d by blast
qed

text \<open>C27: what was sent as a part is what a completion stores: the part file of a successful upload holds the bytes
  of the body, and completing with that part alone and the returned ETag stores exactly those bytes.
  The other parts of the upload and all other uploads are untouched by sending a part.\<close>

theorem uploaded_part_completes:
  assumes "upload_part S U cfg s k ident number body rq w = (Inr info, w1)" "is_dir (Some (fs_uploads w))"
  shows "objects (fs_uploads w1) [ident, ''parts'', i32_to_string number]
        = Some \<lparr>f_content = body_content body, f_modified = pi_modified info\<rparr>
    \<and> pi_etag info = etag (sha256 S (body_content body)) \<and> pi_size info = length (body_content body)
    \<and> (\<forall>n. n \<noteq> i32_to_string number \<longrightarrow> objects (fs_uploads w1) [ident, ''parts'', n] = objects (fs_uploads w) [ident, ''parts'', n])
    \<and> (\<forall>q qs. q \<noteq> ident \<longrightarrow> lookup (fs_uploads w1) (q # qs) = lookup (fs_uploads w) (q # qs))
    \<and> (\<forall>conditions oinfo w2. rooted w1 \<longrightarrow> complete_upload S U cfg s k \<lparr>co_upload_id = ident,
          co_parts = [\<lparr>cp_number = number, cp_etag = pi_etag info\<rparr>], co_conditions = conditions\<rparr> rq w1 = (Inr oinfo, w2)
        \<longrightarrow> map_option f_content (objects (fs_data w2) (path k)) = Some (body_content body))"
proof -
  let ?num = "i32_to_string number"
  let ?part = "[ident, ''parts'', ?num]" and ?man = "[ident, ''manifest'']"
  obtain p ct f es where p: "prepared_object S cfg k (body_content body) ct p"
    "lookup (fs_uploads w) [ident, ''parts''] = Some (DirN es)"
    "info = \<lparr>pi_number = number, pi_etag = oi_etag (pr_info p), pi_size = oi_size (pr_info p), pi_modified = oi_modified (pr_info p)\<rparr>"
    "fs_uploads w1 = put_file ?man f (put_file ?part (pr_payload p) (fs_uploads w))"
    using upload_part_ok [OF assms(1)] by metis
  let ?t = "put_file ?part (pr_payload p) (fs_uploads w)"
  have man: "objects (fs_uploads w1) [ident, ''parts'', n] = objects ?t [ident, ''parts'', n]" for n
    unfolding p(4) objects_def put_file_def [of ?man] by (rule shape_eqD(1), rule lookup_update_other) simp_all
  have "lookup ?t ?part = Some (FileN (pr_payload p))"
    unfolding put_file_def by (rule lookup_update_same) (use p(2) in simp_all)
  then have stored: "objects (fs_uploads w1) ?part = Some (pr_payload p)" using man by (simp add: objects_def)
  have pay: "pr_payload p = \<lparr>f_content = body_content body, f_modified = pi_modified info\<rparr>"
    "pi_etag info = etag (sha256 S (body_content body))" "pi_size info = length (body_content body)"
    using p(1,3) by (auto simp: prepared_object_def)
  have others: "objects (fs_uploads w1) [ident, ''parts'', n] = objects (fs_uploads w) [ident, ''parts'', n]" if "n \<noteq> ?num" for n
    unfolding man unfolding objects_def put_file_def by (rule shape_eqD(1), rule lookup_update_other) (use that in simp_all)
  have apart: "lookup (fs_uploads w1) (q # qs) = lookup (fs_uploads w) (q # qs)" if "q \<noteq> ident" for q qs
    using that by (simp add: p(4) put_file_def lookup_update_apart)
  have dir: "is_dir (Some (fs_uploads w1))" using assms(2) by (simp add: p(4) put_file_def update_at_dir)
  have "map_option f_content (objects (fs_data w2) (path k)) = Some (body_content body)"
    if ro: "rooted w1" and run: "complete_upload S U cfg s k \<lparr>co_upload_id = ident,
          co_parts = [\<lparr>cp_number = number, cp_etag = pi_etag info\<rparr>], co_conditions = conditions\<rparr> rq w1 = (Inr oinfo, w2)"
    for conditions oinfo w2
  proof -
    obtain files ct' p' where c: "part_files S (fs_uploads w1) ident [\<lparr>cp_number = number, cp_etag = pi_etag info\<rparr>] files"
      "prepared_object S cfg k (concat (map f_content files)) ct' p'" "stored k p' w1 w2"
      using complete_ok [OF run ro dir] by (metis FilesystemCompleteUpload.select_convs(1,2))
    then have "files = [pr_payload p]" using stored by (auto simp: part_files_def list_all2_Cons1)
    then show ?thesis using c(2,3) pay(1) by (auto simp: prepared_object_def stored_def)
  qed
  then show ?thesis using stored pay others apart by auto
qed

subsection \<open>Witnesses\<close>

definition demo_id :: string where
  "demo_id = replicate 43 (CHR ''i'')"

definition demo_manifest :: Manifest where
  "demo_manifest = \<lparr>mf_bucket = ''graphit'', mf_key = ''b/x'', mf_content_type = CV_Null, mf_created = 0, mf_last_progress = 0\<rparr>"

definition demo_uploader :: upload_lib where
  "demo_uploader = \<lparr>manifest_enc = \<lambda>_. Some ''m'', manifest_dec = \<lambda>b. if b = ''m'' then Some demo_manifest else None,
     id_enc = \<lambda>_. demo_id, id_dec = \<lambda>_. Some (replicate 32 (CHR ''r''))\<rparr>"

definition demo_area :: node where
  "demo_area = DirN [(demo_id, DirN [(''manifest'', FileN \<lparr>f_content = ''m'', f_modified = 0\<rparr>),
     (''parts'', DirN [(''1'', FileN \<lparr>f_content = ''hi'', f_modified = 7\<rparr>)])])]"

definition demo_up :: "node \<Rightarrow> node \<Rightarrow> node \<Rightarrow> uploads" where
  "demo_up d m u = \<lparr>env = \<lambda>_. frozen_tick 5 1000000000, fs_data = d, fs_meta = m, fs_uploads = u\<rparr>"

definition demo_complete :: FilesystemCompleteUpload where
  "demo_complete = \<lparr>co_upload_id = demo_id, co_parts = [\<lparr>cp_number = 1, cp_etag = etag (demo_hash ''hi'')\<rparr>],
     co_conditions = \<lparr>if_match = None, if_none_match = None\<rparr>\<rparr>"

lemma demo_up_simps [simp]: "fs_data (demo_up d m u) = d" "fs_meta (demo_up d m u) = m" "fs_uploads (demo_up d m u) = u"
  "env (demo_up d m u) = (\<lambda>_. frozen_tick 5 1000000000)"
  by (simp_all add: demo_up_def)

lemma demo_up_calm [simp]: "calm demo_session 50 (demo_up d m u)"
  by (simp add: calm_def frozen_tick_def demo_session_def demo_payload_def)

lemma demo_up_still: "advances (demo_up d m u) w \<Longrightarrow> w = demo_up d m u"
  by (auto simp: advances_def demo_up_def)

lemma demo_up_frozen: "env w = (\<lambda>_. frozen_tick 5 1000000000) \<Longrightarrow> w = demo_up (fs_data w) (fs_meta w) (fs_uploads w)"
  by (simp add: demo_up_def)

lemma demo_up_run:
  assumes "settles demo_session 50 d m p r"
  shows "p (demo_up d m u) = (r, demo_up d m u)"
proof -
  have "fst (p (demo_up d m u)) = r" using settles_calm [of demo_session 50 "demo_up d m u" p r] assms by simp
  moreover have "advances (demo_up d m u) (snd (p (demo_up d m u)))"
    using settles_reads_only [OF assms] by (simp add: reads_only_def)
  ultimately show ?thesis using demo_up_still by (metis prod.collapse)
qed

lemma demo_up_calls [simp]:
  "sys (demo_up d m u) = (Inr (), demo_up d m u)"
  "request_check 50 demo_session (demo_up d m u) = (Inr (), demo_up d m u)"
  "lock demo_session 50 (demo_up d m u) = (Inr (), demo_up d m u)"
  by (intro demo_up_run settle_intros)+

lemma demo_up_authorize [simp]:
  "authorize demo_config demo_session 50 Op_Write ''b/x'' (demo_up d m u) = (Inr (), demo_up d m u)"
  using demo_up_run [OF settles_authorize] demo_authority(2) by metis

lemma demo_up_tree [simp]:
  "up_stat p (demo_up d m u) = (Inr (lookup u p), demo_up d m u)"
  "up_change f (demo_up d m u) = (Inr (), demo_up d m (f u))"
  by (simp_all add: up_stat_def up_change_def demo_up_def)

lemma demo_up_tick [simp]: "now_tick (demo_up d m u) = (Inr (frozen_tick 5 1000000000), demo_up d m u)"
  by (simp add: now_tick_def demo_up_def)

lemma demo_up_sync [simp]: "sync_dir (demo_up d m u) = (Inr (), demo_up d m u)"
  by (simp add: sync_dir_def run_pseq)

lemma settles_lock_shards: "settles s rq d m (lock_shards ns s rq) (Inr ())"
  by (induction ns) (auto intro!: settle_intros)

lemma demo_up_locks [simp]: "lock_shards ns demo_session 50 (demo_up d m u) = (Inr (), demo_up d m u)"
  by (rule demo_up_run [OF settles_lock_shards])

lemma demo_upload_id [simp]: "upload_id demo_uploader demo_id"
  by (simp add: upload_id_def demo_uploader_def demo_id_def)

lemma demo_current_upload:
  "current_upload demo_store demo_uploader demo_config ''b/x'' demo_id (demo_up d m demo_area)
     = (Inr ([demo_id], demo_manifest), demo_up d m demo_area)"
proof -
  have "parse_manifest demo_store demo_uploader demo_config ''m'' = Inr demo_manifest"
    by (simp add: parse_manifest_def demo_config_def demo_uploader_def demo_manifest_def ok_or_def)
  moreover have "mf_key demo_manifest = ''b/x''" by (simp add: demo_manifest_def)
  moreover have "lookup demo_area [demo_id] = Some (DirN [(''manifest'', FileN \<lparr>f_content = ''m'', f_modified = 0\<rparr>),
     (''parts'', DirN [(''1'', FileN \<lparr>f_content = ''hi'', f_modified = 7\<rparr>)])])"
    "lookup demo_area [demo_id, ''manifest''] = Some (FileN \<lparr>f_content = ''m'', f_modified = 0\<rparr>)"
    by (simp_all add: demo_area_def)
  ultimately show ?thesis
    by (simp add: current_upload_def upload_directory_def up_open_dir_def read_upload_manifest_def up_open_entry_def
        pseq_def pbind_def pmap_err_def pret_def plift_def)
qed

lemma demo_parts_body: "parts_body demo_store [(''1'', FileN \<lparr>f_content = ''hi'', f_modified = 7\<rparr>)] (co_parts demo_complete) = (file_reads ''hi'', None)"
proof -
  have "i32_to_string 1 = ''1''" by code_simp
  then show ?thesis by (simp add: demo_complete_def demo_store_def)
qed

lemmas consumes_publish_atoms [consuming] = consumes_quiet [OF reads_only_request_check] fs_quiet_atoms [THEN consumes_quiet]

lemma consumes_change [consuming]: "consumes (change a f)"
  by (auto simp: consumes_def change_def set_tree_def split: area.splits intro: env_same)

lemma consumes_pmap_err [consuming]: "consumes p \<Longrightarrow> consumes (pmap_err g p)"
  by (rule consumesI) (auto simp: pmap_err_def split: prod.splits sum.splits dest: consumesD)

lemma consumes_descend [consuming]: "consumes (descend a create d parts)"
  by (induction a create d parts rule: descend.induct) (auto simp: owned_dir_def intro!: consuming)

lemma consumes_publish: "consumes (publish_locked S cfg s k prepared c rq)"
  unfolding publish_locked_def parent_def by (intro consuming)

lemma demo_remove: "remove_upload [demo_id] (demo_up d m demo_area) = (Inr (), demo_up d m (DirN []))"
proof -
  obtain n where n: "lookup demo_area [demo_id] = Some n" "fold remove_file (contents [demo_id] n) demo_area = DirN []"
    by (simp add: demo_area_def remove_file_def)
  have "remove_entries ps (demo_up d m u) = (Inr (), demo_up d m (fold remove_file ps u))" for ps u
    by (induction ps arbitrary: u) (simp_all add: pret_def run_pseq)
  then show ?thesis
    unfolding remove_upload_def remove_open_dir_all_def using n by (simp add: pseq_def pbind_def)
qed

lemma demo_completes:
  "\<exists>info w. complete_upload demo_store demo_uploader demo_config demo_session ''b/x'' demo_complete 50 (demo_up (DirN []) (DirN []) demo_area)
     = (Inr info, w)"
proof -
  let ?w = "demo_up (DirN []) (DirN []) demo_area"
  have acc: "acceptable demo_store demo_config (times_of ?w) (file_reads ''hi'') None None"
    using demo_acceptable [of "DirN []" "DirN []"] by (simp add: acceptable_def body_content_def [of "[''hi'']"])
  obtain p w1 where p: "prepare demo_store demo_config demo_session ''b/x'' (file_reads ''hi'') None None None 50 ?w = (Inr p, w1)"
    using prepare_completes [OF demo_up_calm acc] by metis
  then have w1: "w1 = ?w" using demo_up_still reads_only_prepare by (metis reads_only_def snd_conv)
  obtain w2 where w2: "publish_locked demo_store demo_config demo_session ''b/x'' p \<lparr>if_match = None, if_none_match = None\<rparr> 50 ?w
      = (Inr (pr_info p), w2)"
    using publish_completes [OF demo_up_calm _ demo_key_ok, of "DirN []" "DirN []" demo_area demo_store demo_config
        "\<lparr>if_match = None, if_none_match = None\<rparr>" p] demo_open
    by (auto simp: rooted_def conditions_held_def)
  have "env w2 = (\<lambda>_. frozen_tick 5 1000000000)" using consumesD [OF consumes_publish w2] by auto
  moreover have "fs_uploads w2 = demo_area" using preservesD [OF uploads_kept_publish w2] by simp
  ultimately have w2': "w2 = demo_up (fs_data w2) (fs_meta w2) demo_area" using demo_up_frozen by metis
  have "assemble_parts demo_store demo_config demo_session ''b/x'' demo_complete 50 [demo_id] demo_manifest
      [(''1'', FileN \<lparr>f_content = ''hi'', f_modified = 7\<rparr>)] ?w = (Inr (pr_info p), demo_up (fs_data w2) (fs_meta w2) (DirN []))"
  proof -
    have "content_str (mf_content_type demo_manifest) = None" "co_conditions demo_complete = \<lparr>if_match = None, if_none_match = None\<rparr>"
      by (simp_all add: content_str_def demo_manifest_def demo_complete_def)
    then show ?thesis
      unfolding assemble_parts_def demo_parts_body using p w1 w2 w2' demo_remove [of "fs_data w2" "fs_meta w2"]
      by (simp add: pbind_def pseq_def pmap_err_def pret_def)
  qed
  moreover have "lookup demo_area [demo_id, ''parts''] = Some (DirN [(''1'', FileN \<lparr>f_content = ''hi'', f_modified = 7\<rparr>)])"
    by (simp add: demo_area_def)
  moreover have "check_parts 0 (co_parts demo_complete) = Inr ()" "co_parts demo_complete \<noteq> []" "co_upload_id demo_complete = demo_id"
    using demo_tag by (simp_all add: demo_complete_def part_range_def MAX_PART_def)
  ultimately have "complete_upload demo_store demo_uploader demo_config demo_session ''b/x'' demo_complete 50 ?w
      = (Inr (pr_info p), demo_up (fs_data w2) (fs_meta w2) (DirN []))"
    using demo_current_upload
    by (simp add: complete_upload_def committed_def up_open_dir_def entries_of_def pbind_def pseq_def pattempt_def pmap_err_def
        plift_def pret_def)
  then show ?thesis by blast
qed

theorem completion_all_or_nothing_witness:
  "\<exists>info w. complete_upload demo_store demo_uploader demo_config demo_session ''b/x'' demo_complete 50 (demo_up (DirN []) (DirN []) demo_area)
      = (Inr info, w)
    \<and> map_option f_content (objects (fs_data w) (path ''b/x'')) = Some ''hi''
    \<and> dropped demo_id demo_area (fs_uploads w)"
proof -
  obtain info w where c: "complete_upload demo_store demo_uploader demo_config demo_session ''b/x'' demo_complete 50
      (demo_up (DirN []) (DirN []) demo_area) = (Inr info, w)" using demo_completes by blast
  have one: "i32_to_string 1 = ''1''" by code_simp
  have "rooted (demo_up (DirN []) (DirN []) demo_area)" "is_dir (Some demo_area)"
    by (simp_all add: rooted_def demo_area_def)
  note all = completion_all_or_nothing [OF c, simplified, OF this]
  obtain files where f: "part_files demo_store demo_area demo_id (co_parts demo_complete) files"
    "objects (fs_data w) = (objects (DirN [])) (path ''b/x'' \<mapsto> \<lparr>f_content = concat (map f_content files), f_modified = oi_modified info\<rparr>)"
    using all by (auto simp: demo_complete_def)
  have "objects demo_area [demo_id, ''parts'', ''1''] = Some \<lparr>f_content = ''hi'', f_modified = 7\<rparr>"
    by (simp add: demo_area_def objects_def)
  then have "concat (map f_content files) = ''hi''"
    using f(1) one by (auto simp: part_files_def demo_complete_def list_all2_Cons1)
  then show ?thesis using c f(2) all by (auto simp: demo_complete_def)
qed

definition demo_volume :: volume where
  "demo_volume = \<lparr>env = \<lambda>_. frozen_tick 5 1000000000,
     vol_root = Some (DirN [(''data'', DirN [(''x'', FileN \<lparr>f_content = ''hi'', f_modified = 7\<rparr>)]), (''meta'', DirN []), (''tmp'', DirN []),
       (''multipart'', demo_area), (''owner.lock'', FileN \<lparr>f_content = [], f_modified = 0\<rparr>)])\<rparr>"

lemma demo_volume_calls [simp]:
  "sys (demo_volume\<lparr>vol_root := r\<rparr>) = (Inr (), demo_volume\<lparr>vol_root := r\<rparr>)"
  "now_tick (demo_volume\<lparr>vol_root := r\<rparr>) = (Inr (frozen_tick 5 1000000000), demo_volume\<lparr>vol_root := r\<rparr>)"
  by (simp_all add: demo_volume_def sys_def pbind_def now_tick_def pguard_def pret_def plift_def require_def frozen_tick_def)

lemma demo_prepares: "vol_prepare demo_volume = (Inr (), demo_volume)"
proof -
  have own: "vol_owned_dir name demo_volume = (Inr (), demo_volume)" if "lookup (the (vol_root demo_volume)) [name] = Some (DirN es)" for name es
    using that demo_volume_calls(1) [of "vol_root demo_volume"]
    by (auto simp: vol_owned_dir_def vol_stat_def pbind_def pseq_def pret_def demo_volume_def)
  have "vol_owned_dir ''data'' demo_volume = (Inr (), demo_volume)" "vol_owned_dir ''meta'' demo_volume = (Inr (), demo_volume)"
    "vol_owned_dir ''tmp'' demo_volume = (Inr (), demo_volume)" "vol_owned_dir ''multipart'' demo_volume = (Inr (), demo_volume)"
    by (rule own, simp add: demo_volume_def demo_area_def)+
  moreover have "sys demo_volume = (Inr (), demo_volume)" "now_tick demo_volume = (Inr (frozen_tick 5 1000000000) :: FilesystemStoreError + tick, demo_volume)"
    using demo_volume_calls [of "vol_root demo_volume"] by simp_all
  moreover have "vol_stat p demo_volume = (Inr (lookup (the (vol_root demo_volume)) p), demo_volume)" for p
    by (simp add: vol_stat_def demo_volume_def)
  moreover have "lookup (the (vol_root demo_volume)) [''tmp''] = Some (DirN [])" "\<exists>es. vol_root demo_volume = Some (DirN es)"
    "lookup (the (vol_root demo_volume)) [''owner.lock''] = Some (FileN \<lparr>f_content = [], f_modified = 0\<rparr>)"
    by (simp_all add: demo_volume_def)
  ultimately show ?thesis 
    by (auto simp: vol_prepare_def vol_create_def vol_owner_def vol_lock_def pbind_def pseq_def pret_def sync_dir_def
        pguard_def plift_def require_def frozen_tick_def entries_of_def)
qed

lemma demo_manifest_parsed: "parse_manifest demo_store demo_uploader demo_config ''m'' = Inr demo_manifest"
  by (simp add: parse_manifest_def demo_config_def demo_uploader_def demo_manifest_def ok_or_def)

lemma demo_opens: "\<exists>u. store_open demo_store demo_uploader ''d'' demo_config demo_volume = Inr u"
proof -
  have s: "store_state demo_volume = demo_up (subtree (vol_root demo_volume) ''data'') (subtree (vol_root demo_volume) ''meta'') demo_area"
    by (simp add: store_state_def demo_up_def demo_volume_def subtree_def)
  have "prune_multipart_startup demo_store demo_uploader demo_config (demo_up d m demo_area) = (Inr (), demo_up d m demo_area)" for d m
  proof -
    have "lookup demo_area [demo_id] = Some (DirN [(''manifest'', FileN \<lparr>f_content = ''m'', f_modified = 0\<rparr>),
        (''parts'', DirN [(''1'', FileN \<lparr>f_content = ''hi'', f_modified = 7\<rparr>)])])"
      "lookup demo_area [demo_id, ''manifest''] = Some (FileN \<lparr>f_content = ''m'', f_modified = 0\<rparr>)"
      by (simp_all add: demo_area_def)
    then have "prune_upload demo_store demo_uploader demo_config demo_id 1 (demo_up d m demo_area) = (Inr (), demo_up d m demo_area)"
      using demo_manifest_parsed
      by (simp add: prune_upload_def upload_directory_def up_open_dir_def read_upload_manifest_def up_open_entry_def
          pseq_def pbind_def pmap_err_def pret_def plift_def pattempt_def demo_manifest_def ABANDONED_SECONDS_def)
    moreover have "utf8 demo_id" by code_simp
    moreover have "\<exists>n. entries_of demo_area = [(demo_id, n)] \<and> is_dir (Some n)" by (simp add: demo_area_def entries_of_def)
    ultimately show ?thesis
      by (auto simp: prune_multipart_startup_def now_seconds_def pbind_def pseq_def pret_def)
  qed
  then show ?thesis using demo_prepares s by (simp add: store_open_def demo_config_def u64_max_def)
qed

lemma demo_fresh: "always_fresh demo_store demo_uploader demo_config (env demo_volume) (subtree (vol_root demo_volume) ''multipart'') demo_id"
proof -
  have "lookup demo_area [demo_id, ''manifest''] = Some (FileN \<lparr>f_content = ''m'', f_modified = 0\<rparr>)"
    by (simp add: demo_area_def)
  then show ?thesis
    using demo_manifest_parsed
    by (simp add: always_fresh_def fresh_def demo_volume_def subtree_def demo_manifest_def ABANDONED_SECONDS_def)
qed

theorem open_keeps_volume_witness:
  "\<exists>u. store_open demo_store demo_uploader ''d'' demo_config demo_volume = Inr u
    \<and> fs_data u = DirN [(''x'', FileN \<lparr>f_content = ''hi'', f_modified = 7\<rparr>)] \<and> fs_meta u = DirN []
    \<and> lookup (fs_uploads u) [demo_id, ''parts''] = lookup demo_area [demo_id, ''parts'']"
proof -
  obtain u where u: "store_open demo_store demo_uploader ''d'' demo_config demo_volume = Inr u" using demo_opens by blast
  have "subtree (vol_root demo_volume) ''data'' = DirN [(''x'', FileN \<lparr>f_content = ''hi'', f_modified = 7\<rparr>)]"
    "subtree (vol_root demo_volume) ''meta'' = DirN []" "subtree (vol_root demo_volume) ''multipart'' = demo_area"
    by (simp_all add: demo_volume_def subtree_def)
  then show ?thesis using open_keeps_volume [OF u] u demo_fresh by simp
qed

lemma demo_uploads: "\<exists>info w. upload_part demo_store demo_uploader demo_config demo_session ''b/x'' demo_id 2 [''hi'']
    50 (demo_up (DirN []) (DirN []) demo_area) = (Inr info, w)"
proof -
  let ?w = "demo_up (DirN []) (DirN []) demo_area"
  have acc: "acceptable demo_store demo_config (times_of ?w) [''hi''] None None"
    using demo_acceptable [of "DirN []" "DirN []"] by (simp add: acceptable_def)
  obtain p w1 where p: "prepare demo_store demo_config demo_session ''b/x'' [''hi''] None None None 50 ?w = (Inr p, w1)"
    using prepare_completes [OF demo_up_calm acc] by metis
  then have w1: "w1 = ?w" using demo_up_still reads_only_prepare by (metis reads_only_def snd_conv)
  let ?area = "put_file [demo_id, ''parts'', ''2''] (pr_payload p) demo_area"
  have "lookup ?area [demo_id, ''manifest''] = Some (FileN \<lparr>f_content = ''m'', f_modified = 0\<rparr>)"
    by (simp add: demo_area_def put_file_def)
  moreover have "manifest_bytes demo_uploader demo_config m = Inr ''m''" for m
    by (simp add: manifest_bytes_def demo_uploader_def demo_config_def ok_or_def)
  ultimately have "\<exists>u. part_progress demo_uploader demo_config demo_session 50 [demo_id] demo_manifest
      (demo_up (DirN []) (DirN []) ?area) = (Inr (), demo_up (DirN []) (DirN []) u)"
    by (simp add: part_progress_def now_seconds_def write_upload_manifest_def stage_manifest_def up_replaceable_def
        up_symlink_metadata_def pbind_def pseq_def pmap_err_def pret_def plift_def pattempt_def pguard_def require_def is_file_def) blast
  then obtain u where "part_progress demo_uploader demo_config demo_session 50 [demo_id] demo_manifest
      (demo_up (DirN []) (DirN []) ?area) = (Inr (), demo_up (DirN []) (DirN []) u)" by blast
  moreover have "i32_to_string 2 = ''2''" by code_simp
  moreover have "lookup demo_area [demo_id, ''parts''] = Some (DirN [(''1'', FileN \<lparr>f_content = ''hi'', f_modified = 7\<rparr>)])"
    "lookup demo_area [demo_id, ''parts'', ''2''] = None"
    by (simp_all add: demo_area_def)
  ultimately have "\<exists>info. place_part demo_uploader demo_config demo_session 50 [demo_id] demo_manifest 2 p ?w = (Inr info, demo_up (DirN []) (DirN []) u)"
    by (simp add: place_part_def Let_def up_open_dir_def up_replaceable_def up_symlink_metadata_def pbind_def pseq_def
        pattempt_def pmap_err_def pret_def praise_def)
  moreover have "content_str (mf_content_type demo_manifest) = None" "part_range 2"
    by (simp_all add: content_str_def demo_manifest_def part_range_def MAX_PART_def)
  ultimately show ?thesis
    using demo_current_upload p w1
    by (auto simp: upload_part_def committed_def pbind_def pseq_def pattempt_def pmap_err_def plift_def pret_def)
qed

theorem uploaded_part_completes_witness:
  "\<exists>info w. upload_part demo_store demo_uploader demo_config demo_session ''b/x'' demo_id 2 [''hi'']
      50 (demo_up (DirN []) (DirN []) demo_area) = (Inr info, w)
    \<and> map_option f_content (objects (fs_uploads w) [demo_id, ''parts'', ''2'']) = Some ''hi''
    \<and> objects (fs_uploads w) [demo_id, ''parts'', ''1''] = Some \<lparr>f_content = ''hi'', f_modified = 7\<rparr>"
proof -
  obtain info w where c: "upload_part demo_store demo_uploader demo_config demo_session ''b/x'' demo_id 2 [''hi'']
    50 (demo_up (DirN []) (DirN []) demo_area) = (Inr info, w)" using demo_uploads by blast
  have "i32_to_string 2 = ''2''" by code_simp
  moreover have "objects demo_area [demo_id, ''parts'', ''1''] = Some \<lparr>f_content = ''hi'', f_modified = 7\<rparr>"
    by (simp add: demo_area_def objects_def)
  moreover have "is_dir (Some demo_area)" by (simp add: demo_area_def)
  ultimately show ?thesis using uploaded_part_completes [OF c] c by (simp add: body_content_def)
qed

end
