(* ===== verification/Fs_Paging.thy ===== *)
theory Fs_Paging
  imports Fs_Pages
begin

text \<open>
  Following the continuation tokens of \<^verbatim>\<open>FilesystemStore::list\<close> (\<^verbatim>\<open>broker-storage/src/filesystem_listing.rs\<close>): a client
  that repeats its request with the token of the last page.  The lemmas show that this ends, after at
  most one page per remaining candidate and one more, and that the pages together are the listing.
\<close>

text \<open>The client, with a bound on the number of its requests.\<close>

fun follow_pages ::
  "nat \<Rightarrow> store_lib \<Rightarrow> list_lib \<Rightarrow> FilesystemStoreConfig \<Rightarrow> VerifiedFilesystemSession \<Rightarrow> FilesystemListRequest
     \<Rightarrow> FilesystemRequest \<Rightarrow> 'y fs_scheme \<Rightarrow> (FilesystemStoreError + FilesystemListPage list) option" where
  "follow_pages 0 S K cfg s input rq w = None"
| "follow_pages (Suc n) S K cfg s input rq w =
     (case fst (store_list S K cfg s input rq w) of
        Inl e \<Rightarrow> Some (Inl e)
      | Inr page \<Rightarrow> (case lp_next_token page of
          None \<Rightarrow> Some (Inr [page])
        | Some token \<Rightarrow> map_option (\<lambda>r. rbind r (\<lambda>pages. Inr (page # pages)))
            (follow_pages n S K cfg s (input\<lparr>lr_continuation_token := Some token\<rparr>) rq w)))"

lemma list_result_pending:
  assumes "list_result S K cfg s input d m = Inr page"
  obtains maximum rest where "pending K s input d = Inr (maximum, rest)" "0 < maximum"
    "slice_page S K cfg s input d m maximum rest = Inr page"
  using assms by (rule list_result_slice) (auto simp: pending_def intro: that)

lemma page_result_append:
  "page_result S K cfg s d m enc (xs @ ys) = rbind (page_result S K cfg s d m enc xs) (\<lambda>(os, ps).
     rbind (page_result S K cfg s d m enc ys) (\<lambda>(os', ps'). Inr (os @ os', ps @ ps')))"
proof (induction xs)
  case Nil
  show ?case by (cases "page_result S K cfg s d m enc ys") auto
next
  case (Cons x xs)
  show ?case
    unfolding append_Cons page_result.simps Cons.IH
    by (cases "page_result S K cfg s d m enc xs"; cases "page_result S K cfg s d m enc ys") (auto simp: rbind_def split: sum.splits)
qed

lemma slice_page_ok:
  assumes "slice_page S K cfg s input d m maximum rest = Inr page"
  shows "page_result S K cfg s d m (lr_encoding input) (take maximum rest) = Inr (lp_objects page, lp_common_prefixes page)"
    and "lp_key_count page = min maximum (length rest)" and "lp_next_token page = None \<Longrightarrow> length rest \<le> maximum"
  using assms by (auto simp: slice_page_def next_token_def split: if_splits)

definition whole ::
  "store_lib \<Rightarrow> list_lib \<Rightarrow> FilesystemStoreConfig \<Rightarrow> VerifiedFilesystemSession \<Rightarrow> FilesystemListRequest \<Rightarrow> node \<Rightarrow> node
     \<Rightarrow> nat \<Rightarrow> Candidate list \<Rightarrow> FilesystemListPage list \<Rightarrow> bool" where
  "whole S K cfg s input d m maximum rest pages \<longleftrightarrow>
     page_result S K cfg s d m (lr_encoding input) rest = Inr (concat (map lp_objects pages), concat (map lp_common_prefixes pages))
     \<and> sum_list (map lp_key_count pages) = length rest
     \<and> length pages = max 1 ((length rest + maximum - 1) div maximum)"

lemma whole_last:
  assumes "slice_page S K cfg s input d m maximum rest = Inr page" "lp_next_token page = None" "0 < maximum"
  shows "whole S K cfg s input d m maximum rest [page]"
proof -
  have l: "length rest \<le> maximum" using slice_page_ok(3) [OF assms(1,2)] .
  have "(length rest + maximum - 1) div maximum \<le> 1"
  proof -
    have "length rest + maximum - 1 < 2 * maximum" using l assms(3) by linarith
    then have "(length rest + maximum - 1) div maximum < 2" using assms(3) by (simp add: div_less_iff_less_mult)
    then show ?thesis by simp
  qed
  then show ?thesis using l slice_page_ok(1,2) [OF assms(1)] by (simp add: whole_def max_def)
qed

lemma whole_more:
  assumes "slice_page S K cfg s input d m maximum rest = Inr page" "0 < maximum" "maximum < length rest"
    "whole S K cfg s (input\<lparr>lr_continuation_token := t\<rparr>) d m maximum (drop maximum rest) pages"
  shows "whole S K cfg s input d m maximum rest (page # pages)"
proof -
  have "(length rest + maximum - 1) div maximum = 1 + (length rest - 1) div maximum"
    using assms(2,3) div_add_self2 [of maximum "length rest - 1"] by simp
  moreover have "1 \<le> (length rest - 1) div maximum" using assms(2,3) by (simp add: less_eq_div_iff_mult_less_eq)
  moreover have "length (drop maximum rest) + maximum - 1 = length rest - 1" using assms(3) by simp
  ultimately have "length (page # pages) = max 1 ((length rest + maximum - 1) div maximum)"
    using assms(4) by (simp add: whole_def)
  moreover have "page_result S K cfg s d m (lr_encoding input) rest
      = Inr (concat (map lp_objects (page # pages)), concat (map lp_common_prefixes (page # pages)))"
    using page_result_append [of S K cfg s d m "lr_encoding input" "take maximum rest" "drop maximum rest"] assms(4) slice_page_ok(1) [OF assms(1)]
    by (simp add: whole_def)
  moreover have "sum_list (map lp_key_count (page # pages)) = length rest"
    using assms(3,4) slice_page_ok(2) [OF assms(1)] by (simp add: whole_def)
  ultimately show ?thesis unfolding whole_def by blast
qed

lemma follow_pages_ends:
  fixes w :: "'y fs_scheme"
  assumes "cursor_json_ok K k" "token_ok K" "names_ok (fs_data w)" "calm s rq w"
    and "pending K s input (fs_data w) = Inr (maximum, rest)" "length rest < n"
  shows "\<exists>r. follow_pages n S K cfg s input rq w = Some r
    \<and> (\<forall>pages. r = Inr pages \<longrightarrow> whole S K cfg s input (fs_data w) (fs_meta w) maximum rest pages)"
  using assms(5,6)
proof (induction n arbitrary: input rest)
  case (Suc n)
  show ?case
  proof (cases "list_result S K cfg s input (fs_data w) (fs_meta w)")
    case (Inr page)
    have m: "0 < maximum" "slice_page S K cfg s input (fs_data w) (fs_meta w) maximum rest = Inr page"
      using Inr Suc.prems(1) by (auto elim!: list_result_pending)
    show ?thesis
    proof (cases "lp_next_token page")
      case None
      then show ?thesis using whole_last [OF m(2) None m(1)] Inr store_list_calm [OF assms(4)] by simp
    next
      case (Some token)
      let ?next = "input \<lparr>lr_continuation_token := Some token\<rparr>"
      have p: "pending K s ?next (fs_data w) = Inr (maximum, drop maximum rest)" "maximum < length rest"
        using next_page_result [OF assms(1-3) Inr Some] Suc.prems(1) by auto
      have "length (drop maximum rest) < n" using Suc.prems(2) m(1) p(2) by simp
      from Suc.IH [OF p(1) this] obtain r where r: "follow_pages n S K cfg s ?next rq w = Some r"
        "\<And>pages. r = Inr pages \<Longrightarrow> whole S K cfg s ?next (fs_data w) (fs_meta w) maximum (drop maximum rest) pages" by blast
      have "whole S K cfg s input (fs_data w) (fs_meta w) maximum rest pages" if "rbind r (\<lambda>pages. Inr (page # pages)) = Inr pages" for pages
        using that r(2) whole_more [OF m(2,1) p(2)] by auto
      then show ?thesis using Inr Some r(1) store_list_calm [OF assms(4)] by simp
    qed
  qed (use store_list_calm [OF assms(4)] in simp)
qed simp

text \<open>C26: following the tokens of a listing ends.  As long as the environment is calm and the trees do not change, a
  client that repeats its request with the token of each page is done after at most one request per
  remaining candidate and one more; if no page fails, the pages hold exactly the rest of the listing,
  in order and without repetition, in as many pages as the page size requires.\<close>

theorem paging_ends:
  assumes "cursor_json_ok K k" "token_ok K" "names_ok (fs_data w)" "calm s rq w"
  shows "\<exists>n r. follow_pages n S K cfg s input rq w = Some r
    \<and> n = (case pending K s input (fs_data w) of Inl _ \<Rightarrow> 1 | Inr (_, rest) \<Rightarrow> Suc (length rest))
    \<and> (\<forall>pages. r = Inr pages \<longrightarrow> (\<exists>maximum rest. pending K s input (fs_data w) = Inr (maximum, rest)
         \<and> whole S K cfg s input (fs_data w) (fs_meta w) maximum rest pages))"
proof (cases "pending K s input (fs_data w)")
  case (Inl e)
  then obtain e' where "list_result S K cfg s input (fs_data w) (fs_meta w) = Inl e'"
    using list_result_pending [of S K cfg s input "fs_data w" "fs_meta w"] by (cases "list_result S K cfg s input (fs_data w) (fs_meta w)") auto
  then show ?thesis using Inl store_list_calm [OF assms(4)] by simp
next
  case (Inr x)
  then obtain maximum rest where x: "pending K s input (fs_data w) = Inr (maximum, rest)" by (cases x) auto
  show ?thesis using follow_pages_ends [OF assms x lessI] x by auto
qed

theorem paging_ends_witness:
  "fst (store_list demo_store demo_list demo_config demo_session demo_request 50 (demo_fs demo_dirs (DirN []))) = Inr demo_page
    \<and> lp_next_token demo_page \<noteq> None
    \<and> (\<exists>n r. follow_pages n demo_store demo_list demo_config demo_session demo_request 50 (demo_fs demo_dirs (DirN [])) = Some r)"
proof -
  have "\<exists>n r. follow_pages n demo_store demo_list demo_config demo_session demo_request 50 (demo_fs demo_dirs (DirN [])) = Some r"
    using paging_ends [OF demo_list_ok _ demo_calm, of demo_dirs "DirN []" demo_store demo_config demo_request] demo_names by auto
  then show ?thesis using store_list_calm [OF demo_calm] demo_list_result by (simp add: demo_page_def)
qed

end
