(* ===== verification/Credentials.thy ===== *)
theory Credentials
  imports Storage_Scope
begin

text \<open>
  Credential digests.  Models \<^verbatim>\<open>broker-security/src/credentials.rs\<close>: the keyed digests under which
  sessions, bearers, one-time codes, browser bindings, recovery codes and pseudonyms are stored.
  HMAC-SHA-256, base64 and hexadecimal text are library code and are the fields of the record
  \<^verbatim>\<open>cred_lib\<close>.  The lemmas show that the messages of two different credentials differ, whatever their
  kinds and bytes, so that a digest identifies its credential up to a collision of the MAC.
\<close>

record cred_lib =
  hmac_sha256 :: "string \<Rightarrow> string \<Rightarrow> string"
  url_b64 :: "string \<Rightarrow> string"
  hex_enc :: "string \<Rightarrow> string"
  hex_dec :: "string \<Rightarrow> string option"

definition FRAME :: string where
  "FRAME = ''graphit-broker/rust-credential-digest/v1''"

definition BINDING_DOMAIN :: nat where
  "BINDING_DOMAIN = 13"

definition RECOVERY_DOMAIN :: nat where
  "RECOVERY_DOMAIN = 14"

definition OIDC_SUBJECT_DOMAIN :: nat where
  "OIDC_SUBJECT_DOMAIN = 15"

definition MIN_PEPPER_BYTES :: nat where
  "MIN_PEPPER_BYTES = 32"

record DigestLimits =
  dl_pepper :: nat
  dl_token :: nat
  dl_binding :: nat
  dl_subject :: nat
  dl_recovery :: nat

datatype CredentialError =
  CR_InvalidLimits | CR_InvalidPepper | CR_EmptyInput | CR_InputTooLong | CR_InvalidSqlDigest | CR_VerificationFailed

definition DigestLimits_new :: "nat \<Rightarrow> nat \<Rightarrow> nat \<Rightarrow> nat \<Rightarrow> nat \<Rightarrow> CredentialError + DigestLimits" where
  "DigestLimits_new pepper token_cap binding_cap subject_cap recovery_cap =
     (if pepper < MIN_PEPPER_BYTES then Inl CR_InvalidLimits
      else Inr \<lparr>dl_pepper = pepper, dl_token = token_cap, dl_binding = binding_cap, dl_subject = subject_cap,
                dl_recovery = recovery_cap\<rparr>)"

datatype TokenKind =
  TK_AdminSession | TK_OidcFlowState | TK_OidcBrowserBinding | TK_LocalAccess | TK_LocalRefresh | TK_ServiceCredential
| TK_DeviceCode | TK_DeviceUserCode | TK_OidcAuthRequest | TK_OidcAuthorizationCode | TK_OidcStoredAccess | TK_LocalAuthChallenge

fun token_domain :: "TokenKind \<Rightarrow> nat" where
  "token_domain TK_AdminSession = 1"
| "token_domain TK_OidcFlowState = 2"
| "token_domain TK_OidcBrowserBinding = 3"
| "token_domain TK_LocalAccess = 4"
| "token_domain TK_LocalRefresh = 5"
| "token_domain TK_ServiceCredential = 6"
| "token_domain TK_DeviceCode = 7"
| "token_domain TK_DeviceUserCode = 8"
| "token_domain TK_OidcAuthRequest = 9"
| "token_domain TK_OidcAuthorizationCode = 10"
| "token_domain TK_OidcStoredAccess = 11"
| "token_domain TK_LocalAuthChallenge = 12"

datatype LocalAuthPurpose = LP_AdminLogin | LP_OauthAuthorize | LP_DeviceApprove

fun purpose_byte :: "LocalAuthPurpose \<Rightarrow> nat" where
  "purpose_byte LP_AdminLogin = 1"
| "purpose_byte LP_OauthAuthorize = 2"
| "purpose_byte LP_DeviceApprove = 3"

datatype LocalAuthBinding = AB_AdminLogin | AB_OauthAuthorize string | AB_DeviceApprove string

fun binding_purpose :: "LocalAuthBinding \<Rightarrow> LocalAuthPurpose" where
  "binding_purpose AB_AdminLogin = LP_AdminLogin"
| "binding_purpose (AB_OauthAuthorize _) = LP_OauthAuthorize"
| "binding_purpose (AB_DeviceApprove _) = LP_DeviceApprove"

text \<open>A digest is its 32 bytes.\<close>

type_synonym CredentialDigest = string

definition lower_hex :: "char \<Rightarrow> bool" where
  "lower_hex b \<longleftrightarrow> is_ascii_digit b \<or> (97 \<le> byte_of b \<and> byte_of b \<le> 102)"

definition parse_sql_hex :: "cred_lib \<Rightarrow> string \<Rightarrow> CredentialError + CredentialDigest" where
  "parse_sql_hex L v =
     (if length v \<noteq> 64 \<or> \<not> list_all lower_hex v then Inl CR_InvalidSqlDigest
      else ok_or (hex_dec L v) CR_InvalidSqlDigest)"

definition to_sql_hex :: "cred_lib \<Rightarrow> CredentialDigest \<Rightarrow> string" where
  "to_sql_hex L d = hex_enc L d"

record CredentialDigester =
  cd_pepper :: string
  cd_limits :: DigestLimits

definition CredentialDigester_new :: "string \<Rightarrow> DigestLimits \<Rightarrow> CredentialError + CredentialDigester" where
  "CredentialDigester_new pepper limits =
     (if length pepper < MIN_PEPPER_BYTES \<or> dl_pepper limits < length pepper then Inl CR_InvalidPepper
      else Inr \<lparr>cd_pepper = pepper, cd_limits = limits\<rparr>)"

definition cred_validate :: "string \<Rightarrow> nat \<Rightarrow> CredentialError + unit" where
  "cred_validate v cap =
     (if v = [] then Inl CR_EmptyInput else if cap < length v then Inl CR_InputTooLong else Inr ())"

text \<open>The message that is authenticated, and the MAC over it.  HMAC accepts keys of every length.\<close>

definition cred_message :: "nat \<Rightarrow> string list \<Rightarrow> string" where
  "cred_message domain fs = FRAME @ [byte domain, byte (length fs)] @ frames u64_to_be_bytes fs"

definition framed_mac :: "cred_lib \<Rightarrow> CredentialDigester \<Rightarrow> nat \<Rightarrow> string list \<Rightarrow> CredentialError + string" where
  "framed_mac L d domain fs =
     (if 255 < length fs \<or> list_ex (\<lambda>f. 2 ^ 64 \<le> length f) fs then Inl CR_InputTooLong
      else Inr (hmac_sha256 L (cd_pepper d) (cred_message domain fs)))"

definition mac_verify :: "string \<Rightarrow> CredentialDigest \<Rightarrow> CredentialError + unit" where
  "mac_verify tag expected = require (tag = expected) CR_VerificationFailed"

definition oidc_subject :: "cred_lib \<Rightarrow> CredentialDigester \<Rightarrow> string \<Rightarrow> string \<Rightarrow> CredentialError + string" where
  "oidc_subject L d issuer subject =
     rbind (cred_validate issuer (dl_subject (cd_limits d))) (\<lambda>_.
     rbind (cred_validate subject (dl_subject (cd_limits d))) (\<lambda>_.
     rbind (framed_mac L d OIDC_SUBJECT_DOMAIN [issuer, subject]) (\<lambda>tag. Inr (url_b64 L tag))))"

definition token_digest :: "cred_lib \<Rightarrow> CredentialDigester \<Rightarrow> TokenKind \<Rightarrow> string \<Rightarrow> CredentialError + CredentialDigest" where
  "token_digest L d kind v = rbind (cred_validate v (dl_token (cd_limits d))) (\<lambda>_. framed_mac L d (token_domain kind) [v])"

definition verify_token ::
  "cred_lib \<Rightarrow> CredentialDigester \<Rightarrow> TokenKind \<Rightarrow> string \<Rightarrow> CredentialDigest \<Rightarrow> CredentialError + unit" where
  "verify_token L d kind v expected =
     rbind (cred_validate v (dl_token (cd_limits d))) (\<lambda>_.
     rbind (framed_mac L d (token_domain kind) [v]) (\<lambda>tag. mac_verify tag expected))"

definition binding_digest :: "cred_lib \<Rightarrow> CredentialDigester \<Rightarrow> LocalAuthPurpose \<Rightarrow> string \<Rightarrow> CredentialError + CredentialDigest" where
  "binding_digest L d purpose v =
     rbind (cred_validate v (dl_binding (cd_limits d))) (\<lambda>_.
     framed_mac L d BINDING_DOMAIN [[byte (purpose_byte purpose)], v])"

definition verify_binding ::
  "cred_lib \<Rightarrow> CredentialDigester \<Rightarrow> LocalAuthPurpose \<Rightarrow> string \<Rightarrow> CredentialDigest \<Rightarrow> CredentialError + unit" where
  "verify_binding L d purpose v expected =
     rbind (cred_validate v (dl_binding (cd_limits d))) (\<lambda>_.
     rbind (framed_mac L d BINDING_DOMAIN [[byte (purpose_byte purpose)], v]) (\<lambda>tag. mac_verify tag expected))"

fun local_auth_binding :: "cred_lib \<Rightarrow> CredentialDigester \<Rightarrow> LocalAuthBinding \<Rightarrow> CredentialError + CredentialDigest" where
  "local_auth_binding L d AB_AdminLogin = framed_mac L d BINDING_DOMAIN [[byte (purpose_byte LP_AdminLogin)], []]"
| "local_auth_binding L d (AB_OauthAuthorize v) = binding_digest L d LP_OauthAuthorize v"
| "local_auth_binding L d (AB_DeviceApprove v) = binding_digest L d LP_DeviceApprove v"

fun verify_local_auth_binding ::
  "cred_lib \<Rightarrow> CredentialDigester \<Rightarrow> LocalAuthBinding \<Rightarrow> CredentialDigest \<Rightarrow> CredentialError + unit" where
  "verify_local_auth_binding L d AB_AdminLogin expected =
     rbind (framed_mac L d BINDING_DOMAIN [[byte (purpose_byte LP_AdminLogin)], []]) (\<lambda>tag. mac_verify tag expected)"
| "verify_local_auth_binding L d (AB_OauthAuthorize v) expected = verify_binding L d LP_OauthAuthorize v expected"
| "verify_local_auth_binding L d (AB_DeviceApprove v) expected = verify_binding L d LP_DeviceApprove v expected"

definition validate_recovery :: "CredentialDigester \<Rightarrow> string \<Rightarrow> string \<Rightarrow> CredentialError + unit" where
  "validate_recovery d subject code =
     rbind (cred_validate subject (dl_subject (cd_limits d))) (\<lambda>_. cred_validate code (dl_recovery (cd_limits d)))"

definition recovery_digest :: "cred_lib \<Rightarrow> CredentialDigester \<Rightarrow> string \<Rightarrow> string \<Rightarrow> CredentialError + CredentialDigest" where
  "recovery_digest L d subject code =
     rbind (validate_recovery d subject code) (\<lambda>_. framed_mac L d RECOVERY_DOMAIN [subject, code])"

definition verify_recovery ::
  "cred_lib \<Rightarrow> CredentialDigester \<Rightarrow> string \<Rightarrow> string \<Rightarrow> CredentialDigest \<Rightarrow> CredentialError + unit" where
  "verify_recovery L d subject code expected =
     rbind (validate_recovery d subject code) (\<lambda>_.
     rbind (framed_mac L d RECOVERY_DOMAIN [subject, code]) (\<lambda>tag. mac_verify tag expected))"

subsection \<open>Credentials and their digests\<close>

text \<open>Everything that is digested, as one type: what the operations compute depends on the credential
  only through its domain and its fields.\<close>

datatype credential =
  Token TokenKind string | Binding LocalAuthBinding | Recovery string string | Pseudonym string string

fun cred_domain :: "credential \<Rightarrow> nat" where
  "cred_domain (Token kind v) = token_domain kind"
| "cred_domain (Binding b) = BINDING_DOMAIN"
| "cred_domain (Recovery s c) = RECOVERY_DOMAIN"
| "cred_domain (Pseudonym i s) = OIDC_SUBJECT_DOMAIN"

fun binding_value :: "LocalAuthBinding \<Rightarrow> string" where
  "binding_value AB_AdminLogin = []"
| "binding_value (AB_OauthAuthorize v) = v"
| "binding_value (AB_DeviceApprove v) = v"

fun cred_fields :: "credential \<Rightarrow> string list" where
  "cred_fields (Token kind v) = [v]"
| "cred_fields (Binding b) = [[byte (purpose_byte (binding_purpose b))], binding_value b]"
| "cred_fields (Recovery s c) = [s, c]"
| "cred_fields (Pseudonym i s) = [i, s]"

text \<open>The digest of a credential before base64, and its check.\<close>

fun cred_digest :: "cred_lib \<Rightarrow> CredentialDigester \<Rightarrow> credential \<Rightarrow> CredentialError + CredentialDigest" where
  "cred_digest L d (Token kind v) = token_digest L d kind v"
| "cred_digest L d (Binding b) = local_auth_binding L d b"
| "cred_digest L d (Recovery s c) = recovery_digest L d s c"
| "cred_digest L d (Pseudonym i s) =
     rbind (cred_validate i (dl_subject (cd_limits d))) (\<lambda>_. rbind (cred_validate s (dl_subject (cd_limits d))) (\<lambda>_.
       framed_mac L d OIDC_SUBJECT_DOMAIN [i, s]))"

lemma byte_eq_iff: "m < 256 \<Longrightarrow> n < 256 \<Longrightarrow> byte m = byte n \<longleftrightarrow> m = n"
  using byte_inj by blast

lemma cred_message_inj:
  assumes "cred_message m fs = cred_message n gs" "m < 256" "n < 256" "length fs \<le> 255" "length gs \<le> 255"
    "\<forall>f \<in> set fs. length f < 2 ^ 64" "\<forall>g \<in> set gs. length g < 2 ^ 64"
  shows "m = n \<and> fs = gs"
proof -
  have "byte m = byte n" "byte (length fs) = byte (length gs)" "frames u64_to_be_bytes fs = frames u64_to_be_bytes gs"
    using assms(1) by (simp_all add: cred_message_def)
  then show ?thesis using assms be8.frames_inj [of fs gs] by (simp add: byte_eq_iff)
qed

lemma framed_mac_ok:
  "framed_mac L d domain fs = Inr h \<longleftrightarrow> length fs \<le> 255 \<and> (\<forall>f \<in> set fs. length f < 2 ^ 64)
     \<and> h = hmac_sha256 L (cd_pepper d) (cred_message domain fs)"
  by (auto simp: framed_mac_def list_ex_iff not_le not_less dest: leD)

lemma cred_digest_ok:
  assumes "cred_digest L d c = Inr h"
  shows "h = hmac_sha256 L (cd_pepper d) (cred_message (cred_domain c) (cred_fields c))"
    "\<forall>f \<in> set (cred_fields c). length f < 2 ^ 64" "length (cred_fields c) \<le> 255"
proof -
  have "framed_mac L d (cred_domain c) (cred_fields c) = Inr h"
  proof (cases c)
    case (Binding b)
    then show ?thesis using assms by (cases b) (auto simp: binding_digest_def)
  qed (use assms in \<open>auto simp: token_digest_def recovery_digest_def\<close>)
  then show "h = hmac_sha256 L (cd_pepper d) (cred_message (cred_domain c) (cred_fields c))"
    "\<forall>f \<in> set (cred_fields c). length f < 2 ^ 64" "length (cred_fields c) \<le> 255"
    unfolding framed_mac_ok by simp_all
qed

lemma token_domain_range: "1 \<le> token_domain k \<and> token_domain k \<le> 12"
  by (cases k) simp_all

lemma token_domain_inj [simp]: "token_domain k = token_domain k' \<longleftrightarrow> k = k'"
  by (cases k; cases k') simp_all

lemma cred_domain_byte: "cred_domain c < 256"
proof (cases c)
  case (Token k v)
  then show ?thesis using token_domain_range [of k] by simp
qed (simp_all add: BINDING_DOMAIN_def RECOVERY_DOMAIN_def OIDC_SUBJECT_DOMAIN_def)

lemma purpose_byte_inj: "byte (purpose_byte p) = byte (purpose_byte q) \<longleftrightarrow> p = q"
  by (cases p; cases q) (simp_all add: byte_eq_iff)

lemma cred_frame_inj:
  assumes "cred_domain c = cred_domain c'" "cred_fields c = cred_fields c'"
  shows "c = c'"
proof -
  have "\<not> token_domain k = n" if "12 < n" for k n using token_domain_range [of k] that by simp
  then show ?thesis using assms
  proof (cases c; cases c')
    fix b b' assume "c = Binding b" "c' = Binding b'"
    then show ?thesis using assms by (cases b; cases b') (auto simp: byte_eq_iff)
  qed (auto simp: BINDING_DOMAIN_def RECOVERY_DOMAIN_def OIDC_SUBJECT_DOMAIN_def, (metis less_numeral_simps)?)
qed

text \<open>Two credentials whose messages differ and whose tags agree.\<close>

definition collides :: "cred_lib \<Rightarrow> CredentialDigester \<Rightarrow> credential \<Rightarrow> credential \<Rightarrow> bool" where
  "collides L d c c' \<longleftrightarrow> (let m = cred_message (cred_domain c) (cred_fields c); m' = cred_message (cred_domain c') (cred_fields c')
     in m \<noteq> m' \<and> hmac_sha256 L (cd_pepper d) m = hmac_sha256 L (cd_pepper d) m')"

lemma same_digest:
  assumes "cred_digest L d c = Inr h" "cred_digest L d c' = Inr h"
  shows "c' = c \<or> collides L d c c'"
proof (cases "cred_message (cred_domain c) (cred_fields c) = cred_message (cred_domain c') (cred_fields c')")
  case True
  then show ?thesis
    using cred_message_inj [OF True cred_domain_byte cred_domain_byte] cred_digest_ok [OF assms(1)] cred_digest_ok [OF assms(2)]
      cred_frame_inj [of c c'] by simp
next
  case False
  then show ?thesis using cred_digest_ok(1) [OF assms(1)] cred_digest_ok(1) [OF assms(2)] by (simp add: collides_def Let_def)
qed

lemma mac_verify_ok [simp]: "mac_verify tag expected = Inr () \<longleftrightarrow> tag = expected"
  by (simp add: mac_verify_def require_def)

lemma verify_is_digest:
  "verify_token L d kind v h = Inr () \<longleftrightarrow> cred_digest L d (Token kind v) = Inr h"
  "verify_local_auth_binding L d b h = Inr () \<longleftrightarrow> cred_digest L d (Binding b) = Inr h"
  "verify_recovery L d s c h = Inr () \<longleftrightarrow> cred_digest L d (Recovery s c) = Inr h"
  by (auto simp: verify_token_def token_digest_def verify_recovery_def recovery_digest_def)
     (cases b; auto simp: verify_binding_def binding_digest_def)+

text \<open>The documented text form: two lowercase digits per byte.\<close>

definition hex_text :: "cred_lib \<Rightarrow> bool" where
  "hex_text L \<longleftrightarrow> (\<forall>b. hex_dec L (hex_enc L b) = Some b \<and> length (hex_enc L b) = 2 * length b \<and> list_all lower_hex (hex_enc L b))"

text \<open>C20: a stored digest identifies the credential it was made from.  It survives the SQL text; the matching
  check accepts the credential; and a token of any kind, a browser binding or a recovery code that
  passes the check against it is the same credential of the same kind, unless the two authenticated
  messages are different and collide under HMAC.\<close>

theorem stored_digest_identifies:
  assumes "cred_digest L d c = Inr h" "hex_text L" "length h = 32"
  shows "parse_sql_hex L (to_sql_hex L h) = Inr h
    \<and> (\<forall>kind v. verify_token L d kind v h = Inr () \<longrightarrow> Token kind v = c \<or> collides L d c (Token kind v))
    \<and> (\<forall>b. verify_local_auth_binding L d b h = Inr () \<longrightarrow> Binding b = c \<or> collides L d c (Binding b))
    \<and> (\<forall>s code. verify_recovery L d s code h = Inr () \<longrightarrow> Recovery s code = c \<or> collides L d c (Recovery s code))
    \<and> (\<forall>kind v. c = Token kind v \<longrightarrow> verify_token L d kind v h = Inr ())
    \<and> (\<forall>b. c = Binding b \<longrightarrow> verify_local_auth_binding L d b h = Inr ())
    \<and> (\<forall>s code. c = Recovery s code \<longrightarrow> verify_recovery L d s code h = Inr ())"
proof -
  have "parse_sql_hex L (to_sql_hex L h) = Inr h"
    using assms(2,3) by (simp add: parse_sql_hex_def to_sql_hex_def hex_text_def ok_or_def)
  then show ?thesis unfolding verify_is_digest using same_digest [OF assms(1)] assms(1) by blast
qed

definition demo_unhex_digit :: "char \<Rightarrow> nat" where
  "demo_unhex_digit c = (if byte_of c < 58 then byte_of c - 48 else byte_of c - 87)"

fun demo_unhex :: "string \<Rightarrow> string option" where
  "demo_unhex [] = Some []"
| "demo_unhex [c] = None"
| "demo_unhex (a # b # cs) = map_option (Cons (byte (16 * demo_unhex_digit a + demo_unhex_digit b))) (demo_unhex cs)"

definition demo_cred :: cred_lib where
  "demo_cred = \<lparr>hmac_sha256 = \<lambda>k m. take 32 (rev m @ k), url_b64 = \<lambda>b. b, hex_enc = hex_encode, hex_dec = demo_unhex\<rparr>"

lemma demo_digit: "n < 16 \<Longrightarrow> demo_unhex_digit (hex_digit n) = n \<and> lower_hex (hex_digit n)"
proof -
  have "\<forall>n \<in> set [0 ..< 16]. demo_unhex_digit (hex_digit n) = n \<and> lower_hex (hex_digit n)" by code_simp
  then show "n < 16 \<Longrightarrow> demo_unhex_digit (hex_digit n) = n \<and> lower_hex (hex_digit n)" by simp
qed

lemma demo_hex_text: "hex_text demo_cred"
proof -
  have "demo_unhex (hex_encode b) = Some b \<and> list_all lower_hex (hex_encode b)" for b
  proof (induction b)
    case (Cons c b)
    have "byte_of c div 16 < 16" "byte_of c mod 16 < 16" using byte_of_less [of c] by (simp_all add: div_less_iff_less_mult)
    moreover have "byte (byte_of c) = c" by (simp add: byte_def byte_of_def)
    ultimately show ?case using Cons by (simp add: hex_encode_def demo_digit)
  qed (simp add: hex_encode_def)
  then show ?thesis by (simp add: hex_text_def demo_cred_def)
qed

definition demo_digester :: CredentialDigester where
  "demo_digester = \<lparr>cd_pepper = replicate 32 (CHR ''p''), cd_limits =
     \<lparr>dl_pepper = 32, dl_token = 9, dl_binding = 9, dl_subject = 9, dl_recovery = 9\<rparr>\<rparr>"

theorem stored_digest_identifies_witness:
  "\<exists>h. cred_digest demo_cred demo_digester (Token TK_LocalAccess ''secret'') = Inr h
    \<and> parse_sql_hex demo_cred (to_sql_hex demo_cred h) = Inr h
    \<and> verify_token demo_cred demo_digester TK_LocalAccess ''secret'' h = Inr ()"
proof -
  let ?h = "hmac_sha256 demo_cred (cd_pepper demo_digester) (cred_message 4 [''secret''])"
  have "framed_mac demo_cred demo_digester 4 [''secret''] = Inr ?h" by (simp add: framed_mac_def)
  then have h: "cred_digest demo_cred demo_digester (Token TK_LocalAccess ''secret'') = Inr ?h"
    by (simp add: token_digest_def cred_validate_def demo_digester_def)
  have "length ?h = 32" by (simp add: demo_cred_def demo_digester_def)
  then obtain h where h: "cred_digest demo_cred demo_digester (Token TK_LocalAccess ''secret'') = Inr h" "length h = 32"
    using h by metis
  note all = stored_digest_identifies [OF h(1) demo_hex_text h(2)]
  have "verify_token demo_cred demo_digester TK_LocalAccess ''secret'' h = Inr ()" using all by simp
  then show ?thesis using conjunct1 [OF all] h(1) by blast
qed

end
