(* ===== verification/Control_Store.thy ===== *)
theory Control_Store
  imports Credentials
begin

text \<open>
  Reads of the control store.  Models the PostgreSQL readers of \<^verbatim>\<open>broker-control/src/service/\<close>:
  \<^verbatim>\<open>local_bearer.rs\<close>, \<^verbatim>\<open>local_bearer_verifier.rs\<close>, \<^verbatim>\<open>resource_grants.rs\<close> and \<^verbatim>\<open>instance_read.rs\<close> with the
  inventory decoder of \<^verbatim>\<open>broker-control/src/instance_read.rs\<close>.  The database and its driver are the
  parameter record \<^verbatim>\<open>control_sql\<close>: one call acquires a connection, begins the read-only transaction
  and runs the statement, another commits; a timer that fires while a call waits is the error
  \<^verbatim>\<open>Deadline\<close> of that call.  JSON is the parameter record \<^verbatim>\<open>control_json\<close>.  A column is \<^const>\<open>None\<close> when it is
  NULL, which the driver refuses to read as a value.  The lemmas show what the stored rows must
  hold for a bearer to be accepted and that a decoded inventory is the stored rows.
\<close>

subsection \<open>Rows\<close>

record bearer_row =
  br_token_kind :: "string option"
  br_token_subject :: "string option"
  br_audience :: "string option"
  br_token_revision :: "int option"
  br_expires_at :: "int option"
  br_revoked_at :: "int option"
  br_principal_length :: "int option"
  br_principal_json :: "string option"
  br_scopes_length :: "int option"
  br_scopes_json :: "string option"
  br_user_present :: "bool option"
  br_username :: "string option"
  br_user_subject :: "string option"
  br_identity_kind :: "string option"
  br_name :: "string option"
  br_email :: "string option"
  br_organization :: "string option"
  br_enabled :: "int option"
  br_user_revision :: "int option"
  br_teams_length :: "int option"
  br_teams_json :: "string option"

record grant_row =
  gw_payload_bytes :: "int option"
  gw_revision :: "int option"
  gw_updated_at :: "int option"
  gw_rules_json :: "string option"

record inventory_row =
  iw_payload_bytes :: "int option"
  iw_inventory_json :: "string option"

record StoredVersion =
  sv_project_id :: string
  sv_position :: int
  sv_version :: string

record StoredParent =
  sp_instance_id :: string
  sp_owner_issuer :: string
  sp_owner_subject :: string
  sp_created_at :: int
  sp_updated_at :: int
  sp_versions :: "StoredVersion list"

text \<open>The fields of \<^verbatim>\<open>StoredPrincipal\<close> that are used.\<close>

record StoredPrincipal =
  pp_issuer :: string
  pp_subject :: string
  pp_local_user_revision :: "int option"

record control_json =
  js_principal :: "string \<Rightarrow> StoredPrincipal option"
  js_array :: "string \<Rightarrow> string list option"
  js_rules :: "string \<Rightarrow> ResourceGrantRule list option"
  js_parent :: "string \<Rightarrow> StoredParent option"

record 'x control_sql =
  sql_bearer :: "string \<Rightarrow> int \<Rightarrow> nat \<Rightarrow> ('x, ControlError, bearer_row option) prog"
  sql_grants :: "int \<Rightarrow> nat \<Rightarrow> ('x, ControlError, grant_row option) prog"
  sql_inventory :: "string \<Rightarrow> int \<Rightarrow> nat \<Rightarrow> ('x, ControlError, inventory_row option) prog"
  sql_commit :: "nat \<Rightarrow> ('x, ControlError, unit) prog"

definition bounded_deadline :: "nat \<Rightarrow> nat \<Rightarrow> ('x, ControlError, nat) prog" where
  "bounded_deadline caller budget = pbind now_tick (\<lambda>t.
     if caller \<le> mono t then praise CE_Deadline
     else pbind (plift (ok_or (time_checked_add (mono t) budget) CE_Configuration)) (\<lambda>bound. pret (min caller bound)))"

subsection \<open>LOCAL bearers\<close>

fun kind_str :: "LocalBearerKind \<Rightarrow> string" where
  "kind_str LB_Access = ''access''"
| "kind_str LB_ServiceCredential = ''service''"

fun kind_token :: "LocalBearerKind \<Rightarrow> TokenKind" where
  "kind_token LB_Access = TK_LocalAccess"
| "kind_token LB_ServiceCredential = TK_ServiceCredential"

fun kind_identity :: "LocalBearerKind \<Rightarrow> LocalIdentityKind" where
  "kind_identity LB_Access = Human"
| "kind_identity LB_ServiceCredential = Service"

definition safe_identity_segment :: "string \<Rightarrow> nat \<Rightarrow> bool" where
  "safe_identity_segment v cap \<longleftrightarrow> v \<noteq> [] \<and> length v \<le> cap \<and> length v \<le> 128 \<and> is_ascii_alphanumeric (hd v) \<and> list_all id_char v"

definition valid_identity_subject :: "string \<Rightarrow> nat \<Rightarrow> bool" where
  "valid_identity_subject v cap \<longleftrightarrow> v \<noteq> [] \<and> length v \<le> cap \<and> length v \<le> 512 \<and> trim v = v \<and> CHR 0x00 \<notin> set v"

definition column :: "'a option \<Rightarrow> LocalBearerStateError + 'a" where
  "column c = ok_or c LS_MalformedStored"

definition json_text :: "int option \<Rightarrow> string option \<Rightarrow> int \<Rightarrow> LocalBearerStateError + string" where
  "json_text len field cap = rbind (column len) (\<lambda>n.
     if n < 0 then Inl LS_MalformedStored else if cap < n then Inl LS_ReadLimitExceeded else column field)"

definition stored_micros :: "int \<Rightarrow> LocalBearerStateError + int" where
  "stored_micros v = (case timestamp_new v of Inl _ \<Rightarrow> Inl LS_MalformedStored | Inr t \<Rightarrow> Inr t)"

definition identity_of_str :: "string \<Rightarrow> LocalBearerStateError + LocalIdentityKind" where
  "identity_of_str v = (if v = ''human'' then Inr Human else if v = ''service'' then Inr Service else Inl LS_MalformedStored)"

text \<open>The part of \<^verbatim>\<open>decode\<close> that reads the current user.\<close>

definition decode_user ::
  "control_json \<Rightarrow> bearer_row \<Rightarrow> LocalBearerKind \<Rightarrow> int \<Rightarrow> string \<Rightarrow> int \<Rightarrow> LocalBearerStateError + LocalBearerUser option" where
  "decode_user J row kind cap subject revision =
     rbind (column (br_username row)) (\<lambda>username.
     rbind (column (br_user_subject row)) (\<lambda>user_subject.
     rbind (column (br_identity_kind row)) (\<lambda>raw_kind. rbind (identity_of_str raw_kind) (\<lambda>user_kind.
     rbind (column (br_enabled row)) (\<lambda>enabled.
     rbind (column (br_user_revision row)) (\<lambda>current.
     if \<not> safe_identity_segment username 128 \<or> \<not> valid_identity_subject user_subject 512
       \<or> (enabled \<noteq> 0 \<and> enabled \<noteq> 1) \<or> current < 1 then Inl LS_MalformedStored
     else if enabled = 0 \<or> current \<noteq> revision \<or> user_subject \<noteq> subject \<or> user_kind \<noteq> kind_identity kind then Inr None
     else rbind (json_text (br_teams_length row) (br_teams_json row) cap) (\<lambda>json.
       rbind (ok_or (js_array J json) LS_MalformedStored) (\<lambda>teams.
       rbind (column (br_name row)) (\<lambda>name. rbind (column (br_email row)) (\<lambda>email.
       rbind (column (br_organization row)) (\<lambda>organization.
       Inr (Some \<lparr>lu_username = username, lu_subject = user_subject, lu_kind = user_kind, lu_name = name,
         lu_email = email, lu_organization = organization, lu_teams = normalize teams, lu_revision = current\<rparr>))))))))))))"

definition decode_bearer ::
  "control_json \<Rightarrow> bearer_row \<Rightarrow> LocalBearerKind \<Rightarrow> int \<Rightarrow> LocalBearerStateError + LocalBearerState option" where
  "decode_bearer J row kind cap =
     rbind (column (br_token_kind row)) (\<lambda>stored_kind.
     if stored_kind \<noteq> kind_str kind then Inr None
     else rbind (json_text (br_principal_length row) (br_principal_json row) cap) (\<lambda>json.
     rbind (ok_or (js_principal J json) LS_MalformedStored) (\<lambda>principal.
     if pp_issuer principal \<noteq> LOCAL_ISSUER then Inr None
     else rbind (column (br_token_subject row)) (\<lambda>subject.
     rbind (column (br_token_revision row)) (\<lambda>revision.
     if \<not> valid_identity_subject subject 512 \<or> revision < 1 then Inl LS_MalformedStored
     else if pp_subject principal \<noteq> subject \<or> pp_local_user_revision principal \<noteq> Some revision then Inr None
     else rbind (json_text (br_scopes_length row) (br_scopes_json row) cap) (\<lambda>scopes_json.
     rbind (ok_or (js_array J scopes_json) LS_MalformedStored) (\<lambda>scopes.
     rbind (column (br_expires_at row)) (\<lambda>raw_expires. rbind (stored_micros raw_expires) (\<lambda>expires.
     rbind (case br_revoked_at row of None \<Rightarrow> Inr None | Some v \<Rightarrow> rbind (stored_micros v) (\<lambda>t. Inr (Some t))) (\<lambda>revoked.
     rbind (column (br_user_present row)) (\<lambda>present.
     if \<not> present then Inr None
     else rbind (decode_user J row kind cap subject revision) (\<lambda>found. case found of
         None \<Rightarrow> Inr None
       | Some user \<Rightarrow> rbind (column (br_audience row)) (\<lambda>audience.
           Inr (Some \<lparr>ls_kind = kind, ls_audience = audience, ls_raw_scopes = scopes, ls_expires_at = expires,
             ls_revoked_at = revoked, ls_user = user\<rparr>))))))))))))))"

definition states_read ::
  "'x control_sql \<Rightarrow> control_json \<Rightarrow> int \<Rightarrow> nat \<Rightarrow> string \<Rightarrow> LocalBearerKind \<Rightarrow> nat
     \<Rightarrow> ('x, LocalBearerStateError, LocalBearerState option) prog" where
  "states_read Q J cap budget hash kind caller =
     pbind (pmap_err LS_Control (bounded_deadline caller budget)) (\<lambda>end_at.
     pbind (pmap_err LS_Control (sql_bearer Q hash cap end_at)) (\<lambda>row.
     pbind (plift (case row of None \<Rightarrow> Inr None | Some r \<Rightarrow> decode_bearer J r kind cap)) (\<lambda>state.
     pseq (pmap_err LS_Control (sql_commit Q end_at)) (pret state))))"

definition unauthenticated :: "'e + 'a \<Rightarrow> LocalBearerVerificationError + 'a" where
  "unauthenticated r = (case r of Inl _ \<Rightarrow> Inl LV_Unauthenticated | Inr x \<Rightarrow> Inr x)"

definition verify_local ::
  "cred_lib \<Rightarrow> CredentialDigester \<Rightarrow> 'x control_sql \<Rightarrow> control_json \<Rightarrow> int \<Rightarrow> nat \<Rightarrow> string
     \<Rightarrow> string \<Rightarrow> string list \<Rightarrow> nat \<Rightarrow> ('x, LocalBearerVerificationError, VerifiedLocalBearer) prog" where
  "verify_local L d Q J cap budget audience raw required caller =
     pbind (pmap_err LV_Control (bounded_deadline caller budget)) (\<lambda>end_at.
     pbind (plift (ok_or (bearer_kind raw) LV_Unauthenticated)) (\<lambda>kind.
     pbind (plift (unauthenticated (token_digest L d (kind_token kind) raw))) (\<lambda>digest.
     pbind (pmap_err LV_from_state (states_read Q J cap budget (to_sql_hex L digest) kind end_at)) (\<lambda>found.
     pbind (plift (ok_or found LV_Unauthenticated)) (\<lambda>state.
     pbind (pmap_err LV_Control now_micros) (\<lambda>now.
     pseq (plift (validate_state state audience required now))
     (pbind now_tick (\<lambda>anchor.
     pbind (pmap_err LV_Control now_micros) (\<lambda>now2.
     pbind (plift (local_bearer_new state now2 (mono anchor))) (\<lambda>verified.
     pbind (pmap_err LV_Control now_micros) (\<lambda>now3.
     pbind (local_finish verified now3) (\<lambda>finished.
     pbind now_tick (\<lambda>t. if end_at \<le> mono t then praise (LV_Control CE_Deadline) else pret finished)))))))))))))"

subsection \<open>Grants\<close>

definition observe_snapshot ::
  "'x control_sql \<Rightarrow> control_json \<Rightarrow> int \<Rightarrow> nat \<Rightarrow> ('x, ResourceGrantReadError, ResourceGrantSnapshot) prog" where
  "observe_snapshot Q J cap end_at =
     pbind (pmap_err RG_Control (sql_grants Q cap end_at)) (\<lambda>found. plift (
     rbind (ok_or found RG_MalformedStored) (\<lambda>row.
     rbind (ok_or (gw_payload_bytes row) RG_MalformedStored) (\<lambda>bytes.
     if bytes < 0 then Inl RG_MalformedStored
     else if cap < bytes then Inl RG_ReadLimitExceeded
     else rbind (ok_or (gw_revision row) RG_MalformedStored) (\<lambda>revision.
       rbind (ok_or (gw_updated_at row) RG_MalformedStored) (\<lambda>updated.
       rbind (ok_or (gw_rules_json row) RG_MalformedStored) (\<lambda>json.
       decode_snapshot (js_rules J) revision updated json)))))))"

definition grants_read ::
  "'x control_sql \<Rightarrow> control_json \<Rightarrow> int \<Rightarrow> nat \<Rightarrow> nat \<Rightarrow> ('x, ResourceGrantReadError, ResourceGrantSnapshot) prog" where
  "grants_read Q J cap budget caller =
     pbind (pmap_err RG_Control (bounded_deadline caller budget)) (\<lambda>end_at.
     pbind (observe_snapshot Q J cap end_at) (\<lambda>snapshot.
     pseq (pmap_err RG_Control (sql_commit Q end_at)) (pret snapshot)))"

subsection \<open>Inventories\<close>

datatype InstanceReadError =
  IN_InvalidLimits | IN_InvalidInstanceId | IN_ReadLimitExceeded | IN_MalformedStored | IN_Control ControlError

record StoredInstanceInventory =
  si_owner :: InstanceOwner
  si_inventory :: InstanceInventory
  si_created_at :: int
  si_updated_at :: int

definition malformed :: "'e + 'a \<Rightarrow> InstanceReadError + 'a" where
  "malformed r = (case r of Inl _ \<Rightarrow> Inl IN_MalformedStored | Inr x \<Rightarrow> Inr x)"

text \<open>The loop over the rows: the finished projects, the current project and its versions.\<close>

fun group_versions ::
  "ulid_lib \<Rightarrow> InstanceProjectVersions list \<Rightarrow> string \<Rightarrow> string list \<Rightarrow> StoredVersion list
     \<Rightarrow> InstanceReadError + (InstanceProjectVersions list \<times> string \<times> string list)" where
  "group_versions U projects project versions [] = Inr (projects, project, versions)"
| "group_versions U projects project versions (row # rows) =
     (if \<not> canonical_project_id U (sv_project_id row) then Inl IN_MalformedStored
      else rbind
        (if sv_project_id row \<noteq> project then
           (if project \<noteq> [] then
              (if sv_project_id row \<le> project then Inl IN_MalformedStored
               else rbind (malformed (InstanceProjectVersions_new U project versions)) (\<lambda>p.
                 Inr (projects @ [p], sv_project_id row, [])))
            else Inr (projects, sv_project_id row, versions))
         else Inr (projects, project, versions)) (\<lambda>(projects', project', versions').
      if sv_position row \<noteq> int (length versions') + 1 \<or> i64_max < int (length versions') + 1
        \<or> (versions' \<noteq> [] \<and> sv_version row \<le> last versions') then Inl IN_MalformedStored
      else group_versions U projects' project' (versions' @ [sv_version row]) rows))"

definition decode_inventory ::
  "ulid_lib \<Rightarrow> control_json \<Rightarrow> string \<Rightarrow> string \<Rightarrow> InstanceReadError + StoredInstanceInventory" where
  "decode_inventory U J expected json =
     rbind (ok_or (js_parent J json) IN_MalformedStored) (\<lambda>stored.
     if sp_instance_id stored \<noteq> expected then Inl IN_MalformedStored
     else rbind (malformed (timestamp_new (sp_created_at stored))) (\<lambda>_.
     rbind (malformed (timestamp_new (sp_updated_at stored))) (\<lambda>_.
     rbind (malformed (InstanceOwner_new (sp_owner_issuer stored) (sp_owner_subject stored))) (\<lambda>owner.
     rbind (group_versions U [] [] [] (sp_versions stored)) (\<lambda>(projects, project, versions).
     rbind (if project \<noteq> [] then rbind (malformed (InstanceProjectVersions_new U project versions)) (\<lambda>p. Inr (projects @ [p]))
            else if versions \<noteq> [] then Inl IN_MalformedStored else Inr projects) (\<lambda>all.
     rbind (malformed (InstanceInventory_new (sp_instance_id stored) all)) (\<lambda>inventory.
     Inr \<lparr>si_owner = owner, si_inventory = inventory, si_created_at = sp_created_at stored,
          si_updated_at = sp_updated_at stored\<rparr>)))))))"

definition inventories_read ::
  "ulid_lib \<Rightarrow> 'x control_sql \<Rightarrow> control_json \<Rightarrow> int \<Rightarrow> nat \<Rightarrow> string \<Rightarrow> nat
     \<Rightarrow> ('x, InstanceReadError, StoredInstanceInventory option) prog" where
  "inventories_read U Q J cap budget instance_id caller =
     (if \<not> canonical_instance_id instance_id then praise IN_InvalidInstanceId
      else pbind (pmap_err IN_Control (bounded_deadline caller budget)) (\<lambda>end_at.
        pbind (pmap_err IN_Control (sql_inventory Q instance_id cap end_at)) (\<lambda>found.
        pbind (plift (case found of
            None \<Rightarrow> Inr None
          | Some row \<Rightarrow> rbind (ok_or (iw_payload_bytes row) IN_MalformedStored) (\<lambda>bytes.
              if bytes < 0 then Inl IN_MalformedStored
              else if cap < bytes then Inl IN_ReadLimitExceeded
              else rbind (ok_or (iw_inventory_json row) IN_MalformedStored) (\<lambda>json.
                rbind (decode_inventory U J instance_id json) (\<lambda>snapshot. Inr (Some snapshot)))))) (\<lambda>snapshot.
        pseq (pmap_err IN_Control (sql_commit Q end_at)) (pret snapshot)))))"

subsection \<open>What a stored row must hold\<close>

lemma column_ok [simp]: "column c = Inr v \<longleftrightarrow> c = Some v"
  by (auto simp: column_def)

lemma stored_micros_ok [simp]: "stored_micros v = Inr t \<longleftrightarrow> t = v \<and> 0 \<le> v"
  by (auto simp: stored_micros_def timestamp_new_def)

lemma json_text_ok: "json_text len field cap = Inr json \<Longrightarrow> field = Some json"
  by (auto simp: json_text_def split: if_splits)

lemma identity_of_str_ok: "identity_of_str v = Inr k \<longleftrightarrow> (k = Human \<and> v = ''human'') \<or> (k = Service \<and> v = ''service'')"
  by (auto simp: identity_of_str_def)

lemma decode_user_ok:
  assumes "decode_user J row kind cap subject revision = Inr (Some u)"
  shows "br_enabled row = Some 1" "br_user_subject row = Some subject" "lu_subject u = subject"
    "br_user_revision row = Some revision" "lu_revision u = revision" "br_username row = Some (lu_username u)"
    "lu_kind u = kind_identity kind" "br_organization row = Some (lu_organization u)" "br_name row = Some (lu_name u)"
    "br_email row = Some (lu_email u)"
    "\<exists>json teams. br_teams_json row = Some json \<and> js_array J json = Some teams \<and> lu_teams u = normalize teams"
  using assms by (auto simp: decode_user_def split: if_splits dest!: json_text_ok)

lemma decode_bearer_ok:
  assumes "decode_bearer J row kind cap = Inr (Some s)"
  obtains subject revision json scopes where "decode_user J row kind cap subject revision = Inr (Some (ls_user s))"
    "br_token_kind row = Some (kind_str kind)" "br_token_subject row = Some subject" "br_token_revision row = Some revision"
    "br_scopes_json row = Some json" "js_array J json = Some scopes" "ls_raw_scopes s = scopes"
    "br_expires_at row = Some (ls_expires_at s)" "br_revoked_at row = ls_revoked_at s" "br_audience row = Some (ls_audience s)"
    "ls_kind s = kind" "0 \<le> ls_expires_at s" "br_user_present row = Some True"
  using assms by (auto simp: decode_bearer_def split: if_splits option.splits dest!: json_text_ok)

lemma states_read_ok:
  fixes w w' :: "'x world_scheme"
  assumes "states_read Q J cap budget hash kind caller w = (Inr (Some s), w')"
  obtains row end_at and w1 w2 :: "'x world_scheme" where "bounded_deadline caller budget w = (Inr end_at, w1)"
    "sql_bearer Q hash cap end_at w1 = (Inr (Some row), w2)" "decode_bearer J row kind cap = Inr (Some s)"
    "sql_commit Q end_at w2 = (Inr (), w')"
  using assms by (auto simp: states_read_def prog_ok split: option.splits)

lemma validate_state_ok:
  "validate_state s audience required now = Inr () \<longleftrightarrow> ls_audience s = trim audience \<and> ls_revoked_at s = None
     \<and> now < ls_expires_at s \<and> trim ` set required - {[]} \<subseteq> set (ls_raw_scopes s)"
  by (auto simp: validate_state_def list_ex_iff)

lemma local_bearer_new_ok:
  assumes "local_bearer_new s now anchor = Inr b"
  shows "vl_user b = ls_user s" "vl_kind b = ls_kind s" "vl_scopes b = normalize (ls_raw_scopes s)"
    "vl_expires_at b = ls_expires_at s"
  using assms by (auto simp: local_bearer_new_def Let_def split: if_splits)

lemma local_finish_iff:
  "local_finish b now w = (Inr b', w') \<longleftrightarrow> b' = b\<lparr>vl_verified_at := now\<rparr> \<and> 0 \<le> now \<and> now < vl_expires_at b
     \<and> mono (env w 0) < vl_expires_mono b \<and> w' = w\<lparr>env := \<lambda>n. env w (Suc n)\<rparr>"
  by (auto simp: local_finish_def local_expired_at_def timestamp_new_def prog_ok not_le split: if_splits)

lemma local_finish_ok:
  assumes "local_finish b now w = (Inr b', w')"
  shows "b' = b\<lparr>vl_verified_at := now\<rparr>" "now < vl_expires_at b" "mono (env w 0) < vl_expires_mono b"
  using assms by (simp_all add: local_finish_iff)

lemma unauthenticated_ok [simp]: "unauthenticated r = Inr x \<longleftrightarrow> r = Inr x"
  by (auto simp: unauthenticated_def split: sum.splits)

lemma now_micros_ok: "now_micros w = (Inr v, w') \<longleftrightarrow> timestamp_try_from (utc (env w 0)) = Inr v \<and> w' = w\<lparr>env := \<lambda>n. env w (Suc n)\<rparr>"
  by (auto simp: now_micros_def prog_ok split: sum.splits)

text \<open>The parts of a successful verification, each run where the one before it ended.\<close>

lemma verify_local_ok:
  fixes w w' :: "'x world_scheme"
  assumes "verify_local L d Q J cap budget audience raw required caller w = (Inr b, w')"
  obtains dl kind h s now now2 anchor b0 and w1 w2 :: "'x world_scheme" where
    "bounded_deadline caller budget w = (Inr dl, w1)"
    "bearer_kind raw = Some kind" "token_digest L d (kind_token kind) raw = Inr h"
    "states_read Q J cap budget (to_sql_hex L h) kind dl w1 = (Inr (Some s), w2)"
    "timestamp_try_from (utc (env w2 0)) = Inr now" "validate_state s audience required now = Inr ()"
    "local_bearer_new s now2 anchor = Inr b0" "timestamp_try_from (utc (env w2 3)) = Inr (vl_verified_at b)"
    "b = b0\<lparr>vl_verified_at := vl_verified_at b\<rparr>" "vl_verified_at b < vl_expires_at b0" "mono (env w2 5) < dl"
proof -
  have n: "(3::nat) = Suc (Suc (Suc 0))" "(5::nat) = Suc (Suc (Suc (Suc (Suc 0))))" by simp_all
  show thesis
    using assms unfolding verify_local_def
    by (auto simp: prog_ok now_micros_ok local_finish_iff n intro!: that split: if_splits)
qed

text \<open>C18: a LOCAL bearer is accepted only if the row that this very operation reads under the digest of the raw
  token, in a transaction that it commits within its deadline, has the kind of the token's prefix,
  the configured audience, no revocation, every required scope and an expiry that is ahead of the
  clock both right after the commit and when the proof is finished, and the current user is enabled
  with the subject, revision and kind the token was issued for; the attributes of the proof are
  those of the current user.\<close>

theorem local_bearer_accepted:
  fixes w w' :: "'x world_scheme"
  assumes "verify_local L d Q J cap budget audience raw required caller w = (Inr b, w')"
  shows "\<exists>kind h row dl end_at json scopes now. \<exists>w0 w1 w2 w3 :: 'x world_scheme.
     bearer_kind raw = Some kind \<and> token_digest L d (kind_token kind) raw = Inr h
   \<and> bounded_deadline caller budget w = (Inr dl, w0) \<and> bounded_deadline dl budget w0 = (Inr end_at, w1)
   \<and> sql_bearer Q (to_sql_hex L h) cap end_at w1 = (Inr (Some row), w2) \<and> sql_commit Q end_at w2 = (Inr (), w3)
   \<and> br_token_kind row = Some (kind_str kind) \<and> br_audience row = Some (trim audience) \<and> br_revoked_at row = None
   \<and> br_scopes_json row = Some json \<and> js_array J json = Some scopes
   \<and> trim ` set required - {[]} \<subseteq> set scopes \<and> set (vl_scopes b) = trim ` set scopes - {[]}
   \<and> br_expires_at row = Some (vl_expires_at b)
   \<and> timestamp_try_from (utc (env w3 0)) = Inr now \<and> now < vl_expires_at b
   \<and> timestamp_try_from (utc (env w3 3)) = Inr (vl_verified_at b) \<and> vl_verified_at b < vl_expires_at b
   \<and> mono (env w3 5) < dl
   \<and> br_enabled row = Some 1 \<and> br_username row = Some (lu_username (vl_user b))
   \<and> br_user_subject row = Some (lu_subject (vl_user b)) \<and> br_token_subject row = br_user_subject row
   \<and> br_user_revision row = Some (lu_revision (vl_user b)) \<and> br_token_revision row = br_user_revision row
   \<and> br_organization row = Some (lu_organization (vl_user b)) \<and> lu_kind (vl_user b) = kind_identity kind"
proof (rule verify_local_ok [OF assms], goal_cases)
  case v: (1 dl kind h s now now2 anchor b0 w0 w3)
  obtain row end_at and w1 w2 :: "'x world_scheme" where r: "bounded_deadline dl budget w0 = (Inr end_at, w1)"
    "sql_bearer Q (to_sql_hex L h) cap end_at w1 = (Inr (Some row), w2)" "decode_bearer J row kind cap = Inr (Some s)"
    "sql_commit Q end_at w2 = (Inr (), w3)"
    by (rule states_read_ok [OF v(4)])
  obtain subject revision json scopes where b: "decode_user J row kind cap subject revision = Inr (Some (ls_user s))"
    "br_token_kind row = Some (kind_str kind)" "br_token_subject row = Some subject" "br_token_revision row = Some revision"
    "br_scopes_json row = Some json" "js_array J json = Some scopes" "ls_raw_scopes s = scopes"
    "br_expires_at row = Some (ls_expires_at s)" "br_revoked_at row = ls_revoked_at s" "br_audience row = Some (ls_audience s)"
    by (rule decode_bearer_ok [OF r(3)])
  have f: "vl_user b = ls_user s" "vl_scopes b = normalize (ls_raw_scopes s)" "vl_expires_at b = ls_expires_at s"
    "vl_verified_at b < vl_expires_at b"
    using v(9,10) local_bearer_new_ok [OF v(7)] by (cases b; simp)+
  show ?case
    using v(1-3,5,6,8,11) r(1,2,4) b(2-10) decode_user_ok [OF b(1)] f
    by (intro exI [of _ kind] exI [of _ h] exI [of _ row] exI [of _ dl] exI [of _ end_at] exI [of _ json] exI [of _ scopes]
        exI [of _ now] exI [of _ w0] exI [of _ w1] exI [of _ w2] exI [of _ w3])
       (simp add: validate_state_ok set_normalize)
qed

subsection \<open>Inventories are their rows\<close>

text \<open>The rows that a project and an inventory stand for.\<close>

definition project_rows :: "string \<Rightarrow> string list \<Rightarrow> StoredVersion list" where
  "project_rows project versions =
     map (\<lambda>(i, v). \<lparr>sv_project_id = project, sv_position = int i + 1, sv_version = v\<rparr>) (enumerate 0 versions)"

definition inventory_rows :: "InstanceProjectVersions list \<Rightarrow> StoredVersion list" where
  "inventory_rows ps = concat (map (\<lambda>p. project_rows (iv_project_id p) (iv_versions p)) ps)"

lemma project_rows_snoc:
  "project_rows project (vs @ [v]) = project_rows project vs @ [\<lparr>sv_project_id = project, sv_position = int (length vs) + 1, sv_version = v\<rparr>]"
  by (simp add: project_rows_def enumerate_append_eq)

lemma project_rows_Nil [simp]: "project_rows project [] = []"
  by (simp add: project_rows_def)

lemma inventory_rows_snoc: "inventory_rows (ps @ [p]) = inventory_rows ps @ project_rows (iv_project_id p) (iv_versions p)"
  by (simp add: inventory_rows_def)

lemma malformed_ok [simp]: "malformed r = Inr x \<longleftrightarrow> r = Inr x"
  by (auto simp: malformed_def split: sum.splits)

lemma versions_new_sorted:
  "InstanceProjectVersions_new U project vs = Inr p \<Longrightarrow> sorted_wrt (<) vs \<Longrightarrow> p = \<lparr>iv_project_id = project, iv_versions = vs\<rparr>"
  by (auto simp: InstanceProjectVersions_new_def Let_def strict_sorted_iff sorted_sort_id split: if_splits)

text \<open>What the loop has read: finished projects in strict order below the current one.\<close>

definition grouped :: "InstanceProjectVersions list \<Rightarrow> string \<Rightarrow> string list \<Rightarrow> bool" where
  "grouped ps project vs \<longleftrightarrow> sorted_wrt (<) vs
     \<and> (if project = [] then ps = [] \<and> vs = [] else sorted_wrt (<) (map iv_project_id ps @ [project]))"

lemma sorted_wrt_snoc_last: "sorted_wrt (<) (xs :: string list) \<Longrightarrow> xs = [] \<or> last xs < x \<Longrightarrow> sorted_wrt (<) (xs @ [x])"
  by (cases xs rule: rev_cases) (auto simp: sorted_wrt_append intro: less_trans)

lemma sorted_ids_snoc:
  "sorted_wrt (<) (map iv_project_id ps @ [a]) \<Longrightarrow> a < (b :: string) \<Longrightarrow> sorted_wrt (<) (map iv_project_id ps @ [a, b])"
  by (auto simp: sorted_wrt_append intro: less_trans)

lemma group_versions_ok:
  assumes "group_versions U ps project vs rows = Inr (ps', project', vs')" "grouped ps project vs" "\<not> canonical_project_id U []"
  shows "grouped ps' project' vs'
    \<and> inventory_rows ps @ project_rows project vs @ rows = inventory_rows ps' @ project_rows project' vs'"
  using assms
proof (induction rows arbitrary: ps project vs)
  case (Cons row rows)
  have c: "canonical_project_id U (sv_project_id row)" "sv_project_id row \<noteq> []" using Cons.prems(1,3) by (auto split: if_splits)
  define st where "st = (if sv_project_id row \<noteq> project then
           (if project \<noteq> [] then
              (if sv_project_id row \<le> project then Inl IN_MalformedStored
               else rbind (malformed (InstanceProjectVersions_new U project vs)) (\<lambda>p. Inr (ps @ [p], sv_project_id row, [])))
            else Inr (ps, sv_project_id row, vs))
         else Inr (ps, project, vs))"
  obtain qs q us where st: "st = Inr (qs, q, us)" and ok: "sv_position row = int (length us) + 1" "us = [] \<or> last us < sv_version row"
    and rest: "group_versions U qs q (us @ [sv_version row]) rows = Inr (ps', project', vs')"
    using Cons.prems(1) c unfolding st_def [symmetric] group_versions.simps by (cases st) (auto split: if_splits simp: not_le)
  have g: "grouped qs q us \<and> q = sv_project_id row \<and> inventory_rows ps @ project_rows project vs = inventory_rows qs @ project_rows q us"
    using st Cons.prems(2) c unfolding st_def
    by (auto simp: grouped_def inventory_rows_snoc not_le sorted_ids_snoc dest!: versions_new_sorted split: if_splits)
  then have "grouped qs q (us @ [sv_version row])" using ok(2) c(2) by (auto simp: grouped_def intro: sorted_wrt_snoc_last)
  moreover have "row = \<lparr>sv_project_id = q, sv_position = int (length us) + 1, sv_version = sv_version row\<rparr>" using ok(1) g by simp
  then have "project_rows q us @ row # rows = project_rows q (us @ [sv_version row]) @ rows"
    unfolding project_rows_snoc by simp
  ultimately show ?case using Cons.IH [OF rest _ Cons.prems(3)] g by (metis append_assoc)
qed simp

lemma inventory_new_sorted:
  assumes "InstanceInventory_new i ps = Inr found" "sorted_wrt (<) (map iv_project_id ps)"
  shows "found = \<lparr>ii_instance_id = i, ii_projects = ps\<rparr>"
proof -
  have "sort_key iv_project_id ps = ps" using assms(2) by (simp add: strict_sorted_iff sorted_sort_id sort_key_id_if_sorted)
  then show ?thesis using assms(1) by (auto simp: InstanceInventory_new_def Let_def split: if_splits)
qed

text \<open>C40: a decoded inventory is what is stored: its projects and versions are exactly the stored rows, in their
  order and with their positions, under the instance that was asked for and the stored owner.\<close>

theorem inventory_is_its_rows:
  assumes "decode_inventory U J expected json = Inr s" "\<not> canonical_project_id U []"
  shows "\<exists>stored. js_parent J json = Some stored \<and> inventory_rows (ii_projects (si_inventory s)) = sp_versions stored
    \<and> ii_instance_id (si_inventory s) = expected \<and> sp_instance_id stored = expected
    \<and> io_issuer (si_owner s) = sp_owner_issuer stored \<and> io_subject (si_owner s) = sp_owner_subject stored
    \<and> sorted_wrt (<) (map iv_project_id (ii_projects (si_inventory s)))
    \<and> 0 \<le> si_created_at s \<and> si_created_at s = sp_created_at stored \<and> 0 \<le> si_updated_at s \<and> si_updated_at s = sp_updated_at stored"
proof -
  obtain stored ps project vs all found owner where d: "js_parent J json = Some stored" "sp_instance_id stored = expected"
    "group_versions U [] [] [] (sp_versions stored) = Inr (ps, project, vs)"
    "(if project \<noteq> [] then rbind (malformed (InstanceProjectVersions_new U project vs)) (\<lambda>p. Inr (ps @ [p]))
      else if vs \<noteq> [] then Inl IN_MalformedStored else Inr ps) = Inr all"
    "InstanceInventory_new expected all = Inr found" "InstanceOwner_new (sp_owner_issuer stored) (sp_owner_subject stored) = Inr owner"
    "0 \<le> sp_created_at stored" "0 \<le> sp_updated_at stored"
    "s = \<lparr>si_owner = owner, si_inventory = found, si_created_at = sp_created_at stored, si_updated_at = sp_updated_at stored\<rparr>"
    using assms(1) by (auto simp: decode_inventory_def timestamp_new_def split: if_splits prod.splits)
  have g: "grouped ps project vs" "sp_versions stored = inventory_rows ps @ project_rows project vs"
    using group_versions_ok [OF d(3) _ assms(2)] by (simp_all add: grouped_def inventory_rows_def)
  have "sorted_wrt (<) (map iv_project_id all) \<and> inventory_rows all = sp_versions stored"
    using d(4) g by (auto simp: grouped_def inventory_rows_snoc dest!: versions_new_sorted split: if_splits)
  then show ?thesis using d inventory_new_sorted [OF d(5)] by (auto simp: InstanceOwner_new_def split: if_splits)
qed

definition demo_bearer_row :: bearer_row where
  "demo_bearer_row = \<lparr>br_token_kind = Some ''access'', br_token_subject = Some ''s1'', br_audience = Some ''aud'',
     br_token_revision = Some 1, br_expires_at = Some 9, br_revoked_at = None, br_principal_length = Some 1,
     br_principal_json = Some ''p'', br_scopes_length = Some 1, br_scopes_json = Some ''s'', br_user_present = Some True,
     br_username = Some ''ann'', br_user_subject = Some ''s1'', br_identity_kind = Some ''human'', br_name = Some ''Ann'',
     br_email = Some [], br_organization = Some ''org'', br_enabled = Some 1, br_user_revision = Some 1,
     br_teams_length = Some 1, br_teams_json = Some ''t''\<rparr>"

definition demo_grant_row :: grant_row where
  "demo_grant_row = \<lparr>gw_payload_bytes = Some 1, gw_revision = Some 1, gw_updated_at = Some 0, gw_rules_json = Some ''r''\<rparr>"

definition demo_access_rule :: ResourceGrantRule where
  "demo_access_rule = (demo_rule ''r1'' ''user'' ''ann'')\<lparr>rg_capabilities := [''hub'', ''presence:publish'', ''task:read'']\<rparr>"

definition demo_json :: control_json where
  "demo_json = \<lparr>js_principal = \<lambda>_. Some \<lparr>pp_issuer = ''local'', pp_subject = ''s1'', pp_local_user_revision = Some 1\<rparr>,
     js_array = \<lambda>j. if j = ''s'' then Some [''read''] else Some [],
     js_rules = \<lambda>_. Some [demo_access_rule],
     js_parent = \<lambda>_. Some \<lparr>sp_instance_id = ''i1'', sp_owner_issuer = ''local'', sp_owner_subject = ''s1'', sp_created_at = 0,
       sp_updated_at = 0, sp_versions = [\<lparr>sv_project_id = demo_project, sv_position = 1, sv_version = ''main''\<rparr>]\<rparr>\<rparr>"

definition demo_sql :: "'x control_sql" where
  "demo_sql = \<lparr>sql_bearer = \<lambda>_ _ _. pret (Some demo_bearer_row), sql_grants = \<lambda>_ _. pret (Some demo_grant_row),
     sql_inventory = \<lambda>_ _ _. pret (Some \<lparr>iw_payload_bytes = Some 1, iw_inventory_json = Some ''v''\<rparr>), sql_commit = \<lambda>_. pret ()\<rparr>"

lemmas demo_run = pbind_def pseq_def pmap_err_def plift_def pret_def now_tick_frozen

lemma bounded_deadline_frozen:
  "m < caller \<Longrightarrow> m + budget \<le> time_max \<Longrightarrow> bounded_deadline caller budget (frozen m t) = (Inr (min caller (m + budget)), frozen m t)"
  by (simp add: bounded_deadline_def demo_run time_checked_add_def ok_or_def)

lemma now_micros_frozen: "now_micros (frozen m 1000) = (Inr 1, frozen m 1000)"
  by (simp add: now_micros_def demo_run timestamp_try_from_def timestamp_new_def i64_max_def)

definition demo_local_user :: LocalBearerUser where
  "demo_local_user = \<lparr>lu_username = ''ann'', lu_subject = ''s1'', lu_kind = Human, lu_name = ''Ann'', lu_email = [],
     lu_organization = ''org'', lu_teams = [], lu_revision = 1\<rparr>"

lemma demo_bearer:
  "\<exists>b. verify_local demo_cred demo_digester demo_sql demo_json 100 1000 '' aud'' ''gb_at_x'' [''read''] 50 (frozen 5 1000) = (Inr b, frozen 5 1000)
     \<and> vl_expires_at b = 9 \<and> vl_expires_utc b = 9000 \<and> 5 < vl_expires_mono b \<and> vl_user b = demo_local_user"
proof -
  have k: "bearer_kind ''gb_at_x'' = Some LB_Access" by code_simp
  have "trim '' aud'' = ''aud''" "trim ''read'' = ''read''" by code_simp+
  moreover have "safe_identity_segment ''ann'' 128" "valid_identity_subject ''s1'' 512" by code_simp+
  moreover have "token_digest demo_cred demo_digester TK_LocalAccess ''gb_at_x'' = Inr (hmac_sha256 demo_cred (cd_pepper demo_digester) (cred_message 4 [''gb_at_x'']))"
    by (simp add: token_digest_def cred_validate_def framed_mac_def demo_digester_def)
  moreover obtain s where "decode_bearer demo_json demo_bearer_row LB_Access 100 = Inr (Some s)" "ls_audience s = ''aud''"
    "ls_revoked_at s = None" "ls_expires_at s = 9" "ls_raw_scopes s = [''read'']"
    "ls_user s = demo_local_user"
    using calculation
    by (simp add: decode_bearer_def decode_user_def demo_bearer_row_def demo_json_def json_text_def column_def ok_or_def LOCAL_ISSUER_def
        stored_micros_def timestamp_new_def identity_of_str_def demo_local_user_def normalize_def)
  moreover have "(5::nat) + 1000 \<le> time_max" by (simp add: time_max_def)
  ultimately show ?thesis
    by (simp add: verify_local_def states_read_def demo_run bounded_deadline_frozen now_micros_frozen demo_sql_def ok_or_def k
        unauthenticated_def validate_state_def local_bearer_new_def local_finish_def time_checked_add_def time_max_def i64_max_def
        timestamp_new_def local_expired_at_def)
qed

theorem local_bearer_accepted_witness:
  "\<exists>b. verify_local demo_cred demo_digester demo_sql demo_json 100 1000 '' aud'' ''gb_at_x'' [''read''] 50 (frozen 5 1000) = (Inr b, frozen 5 1000)
    \<and> vl_verified_at b < vl_expires_at b"
proof -
  obtain b where b: "verify_local demo_cred demo_digester demo_sql demo_json 100 1000 '' aud'' ''gb_at_x'' [''read''] 50 (frozen 5 1000)
      = (Inr b, frozen 5 1000)" using demo_bearer by blast
  then show ?thesis using local_bearer_accepted [OF b] by blast
qed

lemma demo_inventory:
  "\<exists>s. decode_inventory demo_ulid demo_json ''i1'' ''v'' = Inr s \<and> si_owner s = \<lparr>io_issuer = ''local'', io_subject = ''s1''\<rparr>
     \<and> ii_projects (si_inventory s) = [\<lparr>iv_project_id = demo_project, iv_versions = [''main'']\<rparr>]"
proof -
  have "canonical_instance_id ''i1''" "canonical_version ''main''" "valid_owner_value ''local'' 1024" "valid_owner_value ''s1'' 512"
    "demo_project \<noteq> []"
    by code_simp+
  then show ?thesis
    using demo_project_canonical
    by (simp add: decode_inventory_def demo_json_def ok_or_def malformed_def timestamp_new_def InstanceOwner_new_def
        InstanceProjectVersions_new_def InstanceInventory_new_def i64_max_def Let_def)
qed

theorem inventory_is_its_rows_witness:
  "\<exists>s. decode_inventory demo_ulid demo_json ''i1'' ''v'' = Inr s
    \<and> inventory_rows (ii_projects (si_inventory s)) = [\<lparr>sv_project_id = demo_project, sv_position = 1, sv_version = ''main''\<rparr>]"
proof -
  obtain s where s: "decode_inventory demo_ulid demo_json ''i1'' ''v'' = Inr s" using demo_inventory by blast
  have "\<not> canonical_project_id demo_ulid []" by code_simp
  then show ?thesis using inventory_is_its_rows [OF s] s by (auto simp: demo_json_def)
qed

end
