(* ===== verification/Authorization.thy ===== *)
theory Authorization
  imports Control_Store
begin

text \<open>
  Decisions on projects.  Models the presence and project authorizers of \<^verbatim>\<open>broker-control\<close>:
  \<^verbatim>\<open>presence_authorization.rs\<close>, \<^verbatim>\<open>broker_presence_authorization.rs\<close>, \<^verbatim>\<open>project_authorization.rs\<close>,
  \<^verbatim>\<open>broker_project_authorization.rs\<close> and their PostgreSQL services under \<^verbatim>\<open>service/\<close>.  Each authenticates the
  bearer of the request, reads the current grants, compiles them and asks for one capability on one
  project; the proof it returns is an observation of that operation.  The four error enumerations
  have the same constructors and are one type with the authentication error as parameter.  The
  lemmas show that a proof exists only if a rule of the snapshot read in that very operation grants
  the capability to the authenticated caller.
\<close>

subsection \<open>Errors\<close>

datatype 'a authorization_error =
  AE_InvalidProject | AE_InvalidOperation | AE_InvalidPolicy | AE_Forbidden
| AE_Authentication 'a | AE_Grants ResourceGrantReadError | AE_Control ControlError

type_synonym PresenceAuthorizationError = "LocalBearerVerificationError authorization_error"
type_synonym BrokerPresenceAuthorizationError = "BrokerAccessError authorization_error"
type_synonym ProjectAuthorizationError = "LocalBearerVerificationError authorization_error"
type_synonym BrokerProjectAuthorizationError = "BrokerAccessError authorization_error"

fun AE_from_local :: "LocalBearerVerificationError \<Rightarrow> LocalBearerVerificationError authorization_error" where
  "AE_from_local (LV_Control e) = AE_Control e"
| "AE_from_local other = AE_Authentication other"

fun AE_from_broker :: "BrokerAccessError \<Rightarrow> BrokerAccessError authorization_error" where
  "AE_from_broker BA_Deadline = AE_Control CE_Deadline"
| "AE_from_broker other = AE_Authentication other"

fun AE_from_grants :: "ResourceGrantReadError \<Rightarrow> 'a authorization_error" where
  "AE_from_grants (RG_Control e) = AE_Control e"
| "AE_from_grants other = AE_Grants other"

fun AE_from_policy :: "ResourcePolicyError \<Rightarrow> 'a authorization_error" where
  "AE_from_policy RP_InvalidPolicy = AE_InvalidPolicy"
| "AE_from_policy RP_Deadline = AE_Control CE_Deadline"

subsection \<open>Capabilities\<close>

datatype PresenceCapability = PC_Read | PC_Publish

fun presence_str :: "PresenceCapability \<Rightarrow> string" where
  "presence_str PC_Read = ''presence:read''"
| "presence_str PC_Publish = ''presence:publish''"

datatype ProjectResourceModule = PM_Task | PM_Memory | PM_Knowledge | PM_Ast | PM_Hub

datatype ProjectResourceAction = PR_Read | PR_Write

fun capability_of :: "ProjectResourceModule \<Rightarrow> ProjectResourceAction \<Rightarrow> string option" where
  "capability_of PM_Task PR_Read = Some ''task:read''"
| "capability_of PM_Task PR_Write = Some ''task:write''"
| "capability_of PM_Memory PR_Read = Some ''memory:read''"
| "capability_of PM_Memory PR_Write = Some ''memory:write''"
| "capability_of PM_Knowledge PR_Read = Some ''knowledge:read''"
| "capability_of PM_Knowledge PR_Write = Some ''knowledge:write''"
| "capability_of PM_Ast PR_Read = Some ''ast:read''"
| "capability_of PM_Ast PR_Write = Some ''ast:write''"
| "capability_of PM_Hub PR_Read = Some ''hub''"
| "capability_of PM_Hub PR_Write = None"

record 'p AuthorizedPresence =
  ap_principal :: 'p
  ap_project_id :: string
  ap_capability :: PresenceCapability
  ap_policy_revision :: int

record 'p AuthorizedProjectAccess =
  aa_principal :: 'p
  aa_project_id :: string
  aa_module :: ProjectResourceModule
  aa_action :: ProjectResourceAction
  aa_policy_revision :: int
  aa_capability :: string

subsection \<open>The store a service borrows\<close>

text \<open>\<^verbatim>\<open>PostgresControlStore\<close> with the libraries its operations call.\<close>

record 'x ControlStore =
  st_sql :: "'x control_sql"
  st_json :: control_json
  st_ulid :: ulid_lib
  st_glob :: glob_lib
  st_cred :: cred_lib
  st_digester :: CredentialDigester
  st_budget :: nat

text \<open>\<^verbatim>\<open>PostgresLocalBearerVerifier\<close>, \<^verbatim>\<open>PostgresResourceGrants\<close> and \<^verbatim>\<open>PostgresInstanceInventories\<close> of a store.\<close>

definition store_verify_local ::
  "'x ControlStore \<Rightarrow> int \<Rightarrow> string \<Rightarrow> string \<Rightarrow> string list \<Rightarrow> nat \<Rightarrow> ('x, LocalBearerVerificationError, VerifiedLocalBearer) prog" where
  "store_verify_local S cap audience raw scopes caller =
     verify_local (st_cred S) (st_digester S) (st_sql S) (st_json S) cap (st_budget S) audience raw scopes caller"

definition store_grants :: "'x ControlStore \<Rightarrow> int \<Rightarrow> nat \<Rightarrow> ('x, ResourceGrantReadError, ResourceGrantSnapshot) prog" where
  "store_grants S cap caller = grants_read (st_sql S) (st_json S) cap (st_budget S) caller"

definition store_inventory ::
  "'x ControlStore \<Rightarrow> int \<Rightarrow> string \<Rightarrow> nat \<Rightarrow> ('x, InstanceReadError, StoredInstanceInventory option) prog" where
  "store_inventory S cap instance_id caller =
     inventories_read (st_ulid S) (st_sql S) (st_json S) cap (st_budget S) instance_id caller"

subsection \<open>LOCAL callers\<close>

text \<open>From the bearer to the decision: authenticate, read and compile the grants, ask, and finish the
  authentication again.  The proof that comes back has observed the later reading.\<close>

definition local_decision ::
  "'x ControlStore \<Rightarrow> int \<Rightarrow> int \<Rightarrow> string \<Rightarrow> string \<Rightarrow> string list \<Rightarrow> string \<Rightarrow> string \<Rightarrow> nat
     \<Rightarrow> ('x, LocalBearerVerificationError authorization_error, VerifiedLocalBearer \<times> ResourceGrantSnapshot) prog" where
  "local_decision S identity_cap grants_cap audience raw scopes capability project end_at =
     pbind (pmap_err AE_from_local (store_verify_local S identity_cap audience raw scopes end_at)) (\<lambda>principal.
     pbind (pmap_err AE_from_grants (store_grants S grants_cap end_at)) (\<lambda>snapshot.
     pbind (pmap_err AE_from_policy (compile (st_ulid S) (st_glob S) snapshot end_at)) (\<lambda>policy.
     pbind (pmap_err AE_from_policy (allows_local policy (vl_user principal) capability project end_at)) (\<lambda>allowed.
     pbind (pmap_err AE_Control now_micros) (\<lambda>now.
     pbind (pmap_err AE_from_local (local_finish principal now)) (\<lambda>finished.
     pseq (pmap_err AE_from_policy (check_deadline end_at))
     (if \<not> allowed then praise AE_Forbidden else pret (finished, snapshot))))))))"

definition local_presence_authorize ::
  "'x ControlStore \<Rightarrow> int \<Rightarrow> int \<Rightarrow> string \<Rightarrow> string \<Rightarrow> string list \<Rightarrow> PresenceCapability \<Rightarrow> string \<Rightarrow> nat
     \<Rightarrow> ('x, PresenceAuthorizationError, VerifiedLocalBearer AuthorizedPresence) prog" where
  "local_presence_authorize S identity_cap grants_cap audience raw scopes capability project caller =
     pbind (pmap_err AE_Control (bounded_deadline caller (st_budget S))) (\<lambda>end_at.
     if \<not> canonical_project_id (st_ulid S) project then praise AE_InvalidProject
     else pbind (local_decision S identity_cap grants_cap audience raw scopes (presence_str capability) project end_at)
       (\<lambda>(principal, snapshot). pret \<lparr>ap_principal = principal, ap_project_id = project, ap_capability = capability,
          ap_policy_revision = sn_revision snapshot\<rparr>))"

definition local_project_authorize ::
  "'x ControlStore \<Rightarrow> int \<Rightarrow> int \<Rightarrow> string \<Rightarrow> string \<Rightarrow> string list \<Rightarrow> ProjectResourceModule \<Rightarrow> ProjectResourceAction \<Rightarrow> string \<Rightarrow> nat
     \<Rightarrow> ('x, ProjectAuthorizationError, VerifiedLocalBearer AuthorizedProjectAccess) prog" where
  "local_project_authorize S identity_cap grants_cap audience raw scopes module action project original =
     pbind (pmap_err AE_Control (bounded_deadline original (st_budget S))) (\<lambda>end_at.
     pbind (plift (ok_or (capability_of module action) AE_InvalidOperation)) (\<lambda>capability.
     if \<not> canonical_project_id (st_ulid S) project then praise AE_InvalidProject
     else pbind (local_decision S identity_cap grants_cap audience raw scopes capability project end_at)
       (\<lambda>(principal, snapshot). pret \<lparr>aa_principal = principal, aa_project_id = project, aa_module = module,
          aa_action = action, aa_policy_revision = sn_revision snapshot, aa_capability = capability\<rparr>)))"

subsection \<open>Callers with a signed token\<close>

definition broker_decision ::
  "'x ControlStore \<Rightarrow> 'k jwt_lib \<Rightarrow> 'k BrokerAccessVerifier \<Rightarrow> int \<Rightarrow> string \<Rightarrow> string list \<Rightarrow> string \<Rightarrow> string \<Rightarrow> nat
     \<Rightarrow> ('x, BrokerAccessError authorization_error, VerifiedBrokerAccess \<times> ResourceGrantSnapshot) prog" where
  "broker_decision S L v grants_cap raw scopes capability project end_at =
     pbind (pmap_err AE_from_broker (verify L v raw scopes end_at)) (\<lambda>principal.
     pbind (pmap_err AE_from_grants (store_grants S grants_cap end_at)) (\<lambda>snapshot.
     pbind (pmap_err AE_from_policy (compile (st_ulid S) (st_glob S) snapshot end_at)) (\<lambda>policy.
     pbind (pmap_err AE_from_policy (allows_broker policy principal capability project end_at)) (\<lambda>allowed.
     pseq (pmap_err AE_from_broker (ba_check principal))
     (pseq (pmap_err AE_from_policy (check_deadline end_at))
     (if \<not> allowed then praise AE_Forbidden else pret (principal, snapshot)))))))"

definition broker_presence_authorize ::
  "'x ControlStore \<Rightarrow> 'k jwt_lib \<Rightarrow> 'k BrokerAccessVerifier \<Rightarrow> int \<Rightarrow> string \<Rightarrow> string list \<Rightarrow> PresenceCapability \<Rightarrow> string \<Rightarrow> nat
     \<Rightarrow> ('x, BrokerPresenceAuthorizationError, VerifiedBrokerAccess AuthorizedPresence) prog" where
  "broker_presence_authorize S L v grants_cap raw scopes capability project original =
     pbind (pmap_err AE_Control (bounded_deadline original (st_budget S))) (\<lambda>end_at.
     if \<not> canonical_project_id (st_ulid S) project then praise AE_InvalidProject
     else pbind (broker_decision S L v grants_cap raw scopes (presence_str capability) project end_at)
       (\<lambda>(principal, snapshot). pret \<lparr>ap_principal = principal, ap_project_id = project, ap_capability = capability,
          ap_policy_revision = sn_revision snapshot\<rparr>))"

definition broker_project_authorize ::
  "'x ControlStore \<Rightarrow> 'k jwt_lib \<Rightarrow> 'k BrokerAccessVerifier \<Rightarrow> int \<Rightarrow> string \<Rightarrow> string list \<Rightarrow> ProjectResourceModule \<Rightarrow> ProjectResourceAction \<Rightarrow> string \<Rightarrow> nat
     \<Rightarrow> ('x, BrokerProjectAuthorizationError, VerifiedBrokerAccess AuthorizedProjectAccess) prog" where
  "broker_project_authorize S L v grants_cap raw scopes module action project original =
     pbind (pmap_err AE_Control (bounded_deadline original (st_budget S))) (\<lambda>end_at.
     pbind (plift (ok_or (capability_of module action) AE_InvalidOperation)) (\<lambda>capability.
     if \<not> canonical_project_id (st_ulid S) project then praise AE_InvalidProject
     else pbind (broker_decision S L v grants_cap raw scopes capability project end_at)
       (\<lambda>(principal, snapshot). pret \<lparr>aa_principal = principal, aa_project_id = project, aa_module = module,
          aa_action = action, aa_policy_revision = sn_revision snapshot, aa_capability = capability\<rparr>)))"

subsection \<open>Decisions rest on the grants that were read\<close>

text \<open>Some rule of the snapshot grants the capability on the project.\<close>

definition granted :: "'x ControlStore \<Rightarrow> ResourceGrantSnapshot \<Rightarrow> Principal \<Rightarrow> string \<Rightarrow> string \<Rightarrow> bool" where
  "granted S snapshot who capability project \<longleftrightarrow> (\<exists>r \<in> set (sn_rules snapshot). rule_grants (st_glob S) r who capability project)"

lemma granted_iff:
  assumes "compile (st_ulid S) (st_glob S) snapshot dl w = (Inr rules, w1)"
    "allows_principal rules who capability project dl' w2 = (Inr allowed, w3)"
  shows "allowed \<longleftrightarrow> granted S snapshot who capability project"
  using decision_iff [of "st_ulid S" "st_glob S" snapshot dl w rules who capability project dl' w2 allowed] assms
  by (simp add: granted_def)

lemma fst_Inr_iff: "fst x = Inr a \<longleftrightarrow> (\<exists>w. x = (Inr a, w))"
  by (cases x) auto

lemma local_decision_ok:
  fixes w w' :: "'x world_scheme"
  assumes "local_decision S identity_cap grants_cap audience raw scopes capability project end_at w = (Inr (p, snapshot), w')"
  obtains p0 now and w1 w2 w3 w4 :: "'x world_scheme" where
    "store_verify_local S identity_cap audience raw scopes end_at w = (Inr p0, w1)"
    "store_grants S grants_cap end_at w1 = (Inr snapshot, w2)"
    "granted S snapshot (principal_local (vl_user p)) capability project"
    "local_finish p0 now w3 = (Inr p, w4)" "p = p0\<lparr>vl_verified_at := now\<rparr>" "mono (env w4 0) < end_at"
proof -
  obtain p0 w1 w2 policy w3 w4 now and w5 w6 :: "'x world_scheme" where r:
    "store_verify_local S identity_cap audience raw scopes end_at w = (Inr p0, w1)"
    "store_grants S grants_cap end_at w1 = (Inr snapshot, w2)"
    "compile (st_ulid S) (st_glob S) snapshot end_at w2 = (Inr policy, w3)"
    "allows_local policy (vl_user p0) capability project end_at w3 = (Inr True, w4)"
    "local_finish p0 now w5 = (Inr p, w6)" "mono (env w6 0) < end_at"
    using assms by (auto simp: local_decision_def check_deadline_def prog_ok split: if_splits)
  have "granted S snapshot (principal_local (vl_user p0)) capability project"
    using granted_iff [OF r(3) r(4) [unfolded allows_local_def]] by simp
  then show thesis using that [OF r(1,2) _ r(5) local_finish_ok(1) [OF r(5)] r(6)] local_finish_ok(1) [OF r(5)] by simp
qed

lemma broker_decision_ok:
  fixes w w' :: "'x world_scheme"
  assumes "broker_decision S L v grants_cap raw scopes capability project end_at w = (Inr (p, snapshot), w')"
  obtains w1 w2 w3 w4 :: "'x world_scheme" where "verify L v raw scopes end_at w = (Inr p, w1)"
    "store_grants S grants_cap end_at w1 = (Inr snapshot, w2)"
    "granted S snapshot (principal_broker p) capability project" "ba_check p w3 = (Inr (), w4)" "mono (env w4 0) < end_at"
proof -
  obtain w1 w2 policy w3 w4 w5 where r:
    "verify L v raw scopes end_at w = (Inr p, w1)" "store_grants S grants_cap end_at w1 = (Inr snapshot, w2)"
    "compile (st_ulid S) (st_glob S) snapshot end_at w2 = (Inr policy, w3)"
    "allows_broker policy p capability project end_at w3 = (Inr True, w4)"
    "ba_check p w4 = (Inr (), w5)" "mono (env w5 0) < end_at"
    using assms by (auto simp: broker_decision_def check_deadline_def pbind_ok pseq_ok pmap_err_ok praise_ok pret_ok deadline_check_ok split: if_splits)
  then show thesis using that granted_iff [OF r(3) r(4) [unfolded allows_broker_def]] by blast
qed

subsection \<open>Properties\<close>

text \<open>What stands behind a proof.  An operation that starts in \<^verbatim>\<open>w\<close> bounds its deadline, verifies the bearer under
  that deadline and from there reads the grants; a rule of the snapshot it read grants the
  capability on the project to the caller it verified.  All worlds are those of the one run.\<close>

definition local_proof ::
  "'x ControlStore \<Rightarrow> int \<Rightarrow> int \<Rightarrow> string \<Rightarrow> string \<Rightarrow> string list \<Rightarrow> string \<Rightarrow> string \<Rightarrow> nat \<Rightarrow> 'x world_scheme
     \<Rightarrow> VerifiedLocalBearer \<Rightarrow> int \<Rightarrow> bool" where
  "local_proof S identity_cap grants_cap audience raw scopes capability project original w p revision \<longleftrightarrow>
     canonical_project_id (st_ulid S) project \<and> vl_verified_at p < vl_expires_at p
     \<and> (\<exists>dl p0 snapshot w0 w1 w2. bounded_deadline original (st_budget S) w = (Inr dl, w0)
         \<and> store_verify_local S identity_cap audience raw scopes dl w0 = (Inr p0, w1) \<and> p = p0\<lparr>vl_verified_at := vl_verified_at p\<rparr>
         \<and> store_grants S grants_cap dl w1 = (Inr snapshot, w2)
         \<and> revision = sn_revision snapshot \<and> granted S snapshot (principal_local (vl_user p)) capability project)"

definition broker_proof ::
  "'x ControlStore \<Rightarrow> 'k jwt_lib \<Rightarrow> 'k BrokerAccessVerifier \<Rightarrow> int \<Rightarrow> string \<Rightarrow> string list \<Rightarrow> string \<Rightarrow> string \<Rightarrow> nat \<Rightarrow> 'x world_scheme
     \<Rightarrow> VerifiedBrokerAccess \<Rightarrow> int \<Rightarrow> bool" where
  "broker_proof S L v grants_cap raw scopes capability project original w p revision \<longleftrightarrow>
     canonical_project_id (st_ulid S) project
     \<and> (\<exists>dl snapshot w0 w1 w2. bounded_deadline original (st_budget S) w = (Inr dl, w0)
         \<and> verify L v raw scopes dl w0 = (Inr p, w1) \<and> store_grants S grants_cap dl w1 = (Inr snapshot, w2)
         \<and> revision = sn_revision snapshot \<and> granted S snapshot (principal_broker p) capability project)"

lemma local_decision_proof:
  assumes "bounded_deadline original (st_budget S) w = (Inr end_at, w0)"
    "local_decision S identity_cap grants_cap audience raw scopes capability project end_at w0 = (Inr (p, snapshot), w')"
    "canonical_project_id (st_ulid S) project"
  shows "local_proof S identity_cap grants_cap audience raw scopes capability project original w p (sn_revision snapshot)"
proof (rule local_decision_ok [OF assms(2)], goal_cases)
  case (1 p0 now w1 w2 w3 w4)
  moreover have "vl_verified_at p < vl_expires_at p" using local_finish_ok(2) [OF 1(4)] 1(5) by simp
  ultimately show ?case unfolding local_proof_def using assms(1,3) by auto
qed

lemma broker_decision_proof:
  assumes "bounded_deadline original (st_budget S) w = (Inr end_at, w0)"
    "broker_decision S L v grants_cap raw scopes capability project end_at w0 = (Inr (p, snapshot), w')"
    "canonical_project_id (st_ulid S) project"
  shows "broker_proof S L v grants_cap raw scopes capability project original w p (sn_revision snapshot)"
  using broker_decision_ok [OF assms(2)] assms(1,3) unfolding broker_proof_def by metis

text \<open>C16: every proof of access to a project, for presence or for a resource module and for either kind of
  bearer, rests on a bearer that this run verified under its own deadline and on a rule of the
  grants that this run read right after it, which grants exactly the capability of the operation on
  that project to that caller; the revision of the proof is the revision of those grants.\<close>

theorem access_rests_on_current_grants:
  "(\<forall>a. fst (local_project_authorize S ic gc audience raw scopes module action project original w) = Inr a
       \<longrightarrow> capability_of module action = Some (aa_capability a) \<and> aa_project_id a = project
         \<and> local_proof S ic gc audience raw scopes (aa_capability a) project original w (aa_principal a) (aa_policy_revision a))
   \<and> (\<forall>a. fst (local_presence_authorize S ic gc audience raw scopes capability project original w) = Inr a
       \<longrightarrow> ap_capability a = capability \<and> ap_project_id a = project
         \<and> local_proof S ic gc audience raw scopes (presence_str capability) project original w (ap_principal a) (ap_policy_revision a))
   \<and> (\<forall>a. fst (broker_project_authorize S L v gc raw scopes module action project original w) = Inr a
       \<longrightarrow> capability_of module action = Some (aa_capability a) \<and> aa_project_id a = project
         \<and> broker_proof S L v gc raw scopes (aa_capability a) project original w (aa_principal a) (aa_policy_revision a))
   \<and> (\<forall>a. fst (broker_presence_authorize S L v gc raw scopes capability project original w) = Inr a
       \<longrightarrow> ap_capability a = capability \<and> ap_project_id a = project
         \<and> broker_proof S L v gc raw scopes (presence_str capability) project original w (ap_principal a) (ap_policy_revision a))"
proof (intro conjI, goal_cases)
  case 1
  show ?case
    by (auto simp: fst_Inr_iff local_project_authorize_def prog_ok dest: local_decision_proof split: if_splits)
next
  case 2
  show ?case
    by (auto simp: fst_Inr_iff local_presence_authorize_def prog_ok dest: local_decision_proof split: if_splits)
next
  case 3
  show ?case
    by (auto simp: fst_Inr_iff broker_project_authorize_def prog_ok dest: broker_decision_proof split: if_splits)
next
  case 4
  show ?case
    by (auto simp: fst_Inr_iff broker_presence_authorize_def prog_ok dest: broker_decision_proof split: if_splits)
qed

definition demo_caller :: Principal where
  "demo_caller = \<lparr>pr_issuer = ''local'', pr_subject = ''s1'', pr_username = Some ''ann'', pr_organization = Some ''org'', pr_teams = []\<rparr>"

text \<open>A store in which one user may read the Hub.\<close>

definition demo_control :: "unit ControlStore" where
  "demo_control = \<lparr>st_sql = demo_sql, st_json = demo_json, st_ulid = demo_ulid, st_glob = demo_glob, st_cred = demo_cred,
     st_digester = demo_digester, st_budget = 1000\<rparr>"

lemma frozen_advances: "advances (frozen m t) w \<Longrightarrow> w = frozen m t"
  by (auto simp: advances_def frozen_def)

lemma frozen_timed:
  assumes "timed dl e p r" "m < dl"
  shows "p (frozen m t) = (r, frozen m t)"
proof -
  have "within dl (frozen m t)" using assms(2) by (simp add: within_def frozen_def)
  then have "fst (p (frozen m t)) = r" using timed_within [OF assms(1)] by blast
  moreover have "advances (frozen m t) (snd (p (frozen m t)))"
    using timed_reads_only [OF assms(1)] by (simp add: reads_only_def)
  ultimately show ?thesis using frozen_advances by (metis prod.collapse)
qed

lemma demo_deadline: "bounded_deadline 50 1000 (frozen 5 1000) = (Inr 50, frozen 5 1000)"
  using bounded_deadline_frozen [of 5 50 1000 1000] by (simp add: time_max_def)

lemma demo_grants: "grants_read demo_sql demo_json 100 1000 50 (frozen 5 1000) = (Inr (demo_snapshot [demo_access_rule]), frozen 5 1000)"
proof -
  have "decode_snapshot (js_rules demo_json) 1 0 ''r'' = Inr (demo_snapshot [demo_access_rule])" by code_simp
  then show ?thesis
    using demo_deadline by (simp add: grants_read_def observe_snapshot_def demo_run demo_sql_def demo_grant_row_def ok_or_def)
qed

lemma demo_policy:
  obtains policy where "compile demo_ulid demo_glob (demo_snapshot [demo_access_rule]) 50 (frozen 5 1000) = (Inr policy, frozen 5 1000)"
proof -
  have "list_all (rule_valid demo_ulid demo_glob) (sn_rules (demo_snapshot [demo_access_rule]))" by code_simp
  then obtain policy where "rmap (compile_rule_spec demo_ulid demo_glob) (sn_rules (demo_snapshot [demo_access_rule])) = Inr policy"
    unfolding compile_rule_spec_exists [symmetric] rmap_exists [symmetric] by blast
  then show thesis
    using that frozen_timed [OF timed_compile, of 5 50 demo_ulid demo_glob "demo_snapshot [demo_access_rule]"] by simp
qed

lemma demo_allows:
  assumes "compile demo_ulid demo_glob (demo_snapshot [demo_access_rule]) 50 (frozen 5 1000) = (Inr policy, frozen 5 1000)"
  shows "allows_local policy demo_local_user cap project 50 (frozen 5 1000)
    = (Inr (rule_grants demo_glob demo_access_rule demo_caller cap project), frozen 5 1000)"
proof -
  obtain allowed where a: "allows_principal policy demo_caller cap project 50 (frozen 5 1000) = (Inr allowed, frozen 5 1000)"
    by (simp add: frozen_timed [OF timed_allows_principal])
  have "allowed = rule_grants demo_glob demo_access_rule demo_caller cap project"
    using decision_iff [of demo_ulid demo_glob "demo_snapshot [demo_access_rule]" 50 "frozen 5 1000" policy demo_caller cap project 50
        "frozen 5 1000" allowed] assms a
    by (simp add: demo_snapshot_def)
  moreover have "principal_local demo_local_user = demo_caller"
    by (simp add: principal_local_def demo_local_user_def demo_caller_def LOCAL_ISSUER_def)
  ultimately show ?thesis using a by (simp add: allows_local_def)
qed

lemma demo_finish:
  assumes "vl_expires_at p = 9" "5 < vl_expires_mono p"
  shows "local_finish p 1 (frozen 5 1000) = (Inr (p\<lparr>vl_verified_at := 1\<rparr>), frozen 5 1000)"
  using assms by (simp add: local_finish_def local_expired_at_def timestamp_new_def demo_run)

lemma demo_check_deadline: "check_deadline 50 (frozen 5 t) = (Inr (), frozen 5 t)"
  by (simp add: check_deadline_def deadline_check_def demo_run)

lemma demo_local_access:
  "\<exists>a. fst (local_project_authorize demo_control 100 100 '' aud'' ''gb_at_x'' [''read''] PM_Hub PR_Read demo_project 50 (frozen 5 1000)) = Inr a"
proof -
  obtain p where p: "verify_local demo_cred demo_digester demo_sql demo_json 100 1000 '' aud'' ''gb_at_x'' [''read''] 50 (frozen 5 1000) = (Inr p, frozen 5 1000)"
    and v: "vl_expires_at p = 9" "5 < vl_expires_mono p" "vl_user p = demo_local_user"
    using demo_bearer by blast
  obtain policy where k: "compile demo_ulid demo_glob (demo_snapshot [demo_access_rule]) 50 (frozen 5 1000) = (Inr policy, frozen 5 1000)"
    by (rule demo_policy)
  have "rule_grants demo_glob demo_access_rule demo_caller ''hub'' demo_project" by code_simp
  then show ?thesis
    using demo_deadline p demo_grants k demo_allows [OF k] v demo_finish [OF v(1,2)] demo_check_deadline demo_project_canonical now_micros_frozen [of 5]
    by (simp add: local_project_authorize_def local_decision_def store_verify_local_def store_grants_def demo_control_def demo_run ok_or_def)
qed

theorem access_rests_on_current_grants_witness:
  "\<exists>a. fst (local_project_authorize demo_control 100 100 '' aud'' ''gb_at_x'' [''read''] PM_Hub PR_Read demo_project 50 (frozen 5 1000)) = Inr a
    \<and> local_proof demo_control 100 100 '' aud'' ''gb_at_x'' [''read''] ''hub'' demo_project 50 (frozen 5 1000) (aa_principal a) (aa_policy_revision a)"
proof -
  obtain a where a: "fst (local_project_authorize demo_control 100 100 '' aud'' ''gb_at_x'' [''read''] PM_Hub PR_Read demo_project 50 (frozen 5 1000)) = Inr a"
    using demo_local_access by blast
  have "capability_of PM_Hub PR_Read = Some (aa_capability a)
      \<and> local_proof demo_control 100 100 '' aud'' ''gb_at_x'' [''read''] (aa_capability a) demo_project 50 (frozen 5 1000) (aa_principal a) (aa_policy_revision a)"
    using conjunct1 [OF access_rests_on_current_grants [of demo_control 100 100 "'' aud''" "''gb_at_x''" "[''read'']" PM_Hub PR_Read
          demo_project 50 "frozen 5 1000"]] a by blast
  then show ?thesis using a by simp
qed

end
