(* ===== verification/Now_Wire.thy ===== *)
theory Now_Wire
  imports Registry Numerals "HOL-Library.Option_ord"
begin

text \<open>
  Now snapshots.  Models \<^verbatim>\<open>broker-now-wire/src/lib.rs\<close>: the rows and sections of a snapshot, the
  validation of a decoded envelope, and the removal of sections a reader may not see.  JSON is
  library code: the decoder into the raw structures and the encoder are parameters.  The raw
  structures and the data structures have the same fields and \<^verbatim>\<open>into_data\<close> copies them, so one record
  stands for both.  The lemmas show which snapshots are accepted, that acceptance survives masking,
  and that masks compose by conjunction.
\<close>

subsection \<open>Data\<close>

definition SAFE_COUNT_MAX :: nat where
  "SAFE_COUNT_MAX = 9007199254740991"

definition MILLION :: int where
  "MILLION = 1000000"

definition MAX_MILLISECONDS_NS :: int where
  "MAX_MILLISECONDS_NS = int u64_max * MILLION"

datatype NowSnapshotDataError = ND_InvalidData | ND_ReadLimitExceeded

datatype NowSectionAvailability = Available | NoCorpus | Failed

datatype NowSectionErrorCode =
  SC_Forbidden | SC_Unavailable | SC_InvalidData | SC_LimitExceeded | SC_CountsUnavailable

definition availability_try_from :: "string \<Rightarrow> NowSnapshotDataError + NowSectionAvailability" where
  "availability_try_from v =
     (if v = ''available'' then Inr Available else if v = ''no_corpus'' then Inr NoCorpus
      else if v = ''failed'' then Inr Failed else Inl ND_InvalidData)"

definition error_code_try_from :: "string \<Rightarrow> NowSnapshotDataError + NowSectionErrorCode" where
  "error_code_try_from v =
     (if v = ''forbidden'' then Inr SC_Forbidden else if v = ''unavailable'' then Inr SC_Unavailable
      else if v = ''invalid_data'' then Inr SC_InvalidData else if v = ''limit_exceeded'' then Inr SC_LimitExceeded
      else if v = ''counts_unavailable'' then Inr SC_CountsUnavailable else Inl ND_InvalidData)"

record NowTaskData =
  nt_id :: string
  nt_session_id :: string
  nt_title :: string
  nt_owner :: string
  nt_lease_expires_at :: string
  nt_updated_at :: string

record NowSessionData =
  ns_id :: string
  ns_title :: string
  ns_owner :: string
  ns_lease_expires_at :: string
  ns_updated_at :: string
  ns_completed_tasks :: nat
  ns_total_tasks :: nat

record NowMemoryData =
  nm_id :: string
  nm_title :: string
  nm_updated_by :: string
  nm_updated_at :: string

record NowKnowledgeData =
  nk_slug :: string
  nk_title :: string
  nk_updated_at :: "string option"

record 't NowSectionData =
  sd_availability :: NowSectionAvailability
  sd_items :: "'t list"
  sd_total :: "nat option"
  sd_has_more :: "bool option"
  sd_error :: "NowSectionErrorCode option"

record NowSectionsData =
  sd_tasks :: "NowTaskData NowSectionData"
  sd_sessions :: "NowSessionData NowSectionData"
  sd_memories :: "NowMemoryData NowSectionData"
  sd_knowledge :: "NowKnowledgeData NowSectionData"

record NowSnapshotData =
  nd_project_id :: string
  nd_generated_at :: string
  nd_sections :: NowSectionsData

definition forbid :: "'t NowSectionData \<Rightarrow> 't NowSectionData" where
  "forbid s = s\<lparr>sd_availability := Failed, sd_items := [], sd_total := None, sd_has_more := None,
     sd_error := Some SC_Forbidden\<rparr>"

definition section_validate :: "'t NowSectionData \<Rightarrow> bool" where
  "section_validate s = (case sd_availability s of
       Available \<Rightarrow> (case sd_total s of None \<Rightarrow> False | Some count \<Rightarrow>
         count \<le> SAFE_COUNT_MAX \<and> length (sd_items s) = min count 20
         \<and> sd_has_more s = Some (length (sd_items s) < count) \<and> sd_error s = None)
     | NoCorpus \<Rightarrow> sd_items s = [] \<and> sd_total s = Some 0 \<and> sd_has_more s = Some False \<and> sd_error s = None
     | Failed \<Rightarrow> sd_items s = [] \<and> sd_total s = None \<and> sd_has_more s = None \<and> sd_error s \<noteq> None)"

subsection \<open>Validation\<close>

definition canonical_id :: "ulid_lib \<Rightarrow> string \<Rightarrow> bool" where
  "canonical_id U v = (case ulid_from_string U v of None \<Rightarrow> False | Some n \<Rightarrow> n \<noteq> 0 \<and> ulid_to_str U n = v)"

definition exact_title :: "string \<Rightarrow> bool" where
  "exact_title v \<longleftrightarrow> v \<noteq> [] \<and> trim v = v"

definition actor :: "ulid_lib \<Rightarrow> string \<Rightarrow> bool" where
  "actor U v \<longleftrightarrow> length v = 26 \<and> (case ulid_from_string U v of None \<Rightarrow> False | Some n \<Rightarrow> ulid_to_str U n = v)"

definition valid_slug :: "string \<Rightarrow> bool" where
  "valid_slug v \<longleftrightarrow> v \<noteq> [] \<and> \<not> starts_with v ''..'' \<and> CHR ''/'' \<notin> set v \<and> CHR 0x5C \<notin> set v \<and> \<not> has_control v"

definition i128_min :: int where
  "i128_min = - (2 ^ 127)"

definition i128_max :: int where
  "i128_max = 2 ^ 127 - 1"

definition decimal :: "string \<Rightarrow> int option" where
  "decimal v = (case signed_from_str i128_min i128_max v of
       None \<Rightarrow> None | Some n \<Rightarrow> if signed_to_string n = v then Some n else None)"

definition milliseconds :: "string \<Rightarrow> int option" where
  "milliseconds v = (case decimal v of
       None \<Rightarrow> None | Some n \<Rightarrow> if 0 \<le> n \<and> n \<le> MAX_MILLISECONDS_NS \<and> n mod MILLION = 0 then Some n else None)"

text \<open>The loop of \<^verbatim>\<open>ordered\<close>: the identifiers seen so far and the previous row.\<close>

fun ordered_loop ::
  "('r \<Rightarrow> string) \<Rightarrow> ('r \<Rightarrow> int option option) \<Rightarrow> ('r \<Rightarrow> bool) \<Rightarrow> string list \<Rightarrow> (int option \<times> string) option
     \<Rightarrow> 'r list \<Rightarrow> bool" where
  "ordered_loop ident timestamp valid ids previous [] = True"
| "ordered_loop ident timestamp valid ids previous (row # rows) = (case timestamp row of
       None \<Rightarrow> False
     | Some time \<Rightarrow>
         if \<not> valid row \<or> ident row \<in> set ids then False
         else if (case previous of None \<Rightarrow> False
                  | Some (ptime, pid) \<Rightarrow> ptime < time \<or> (ptime = time \<and> ident row \<le> pid)) then False
         else ordered_loop ident timestamp valid (ident row # ids) (Some (time, ident row)) rows)"

definition ordered_rows :: "('r \<Rightarrow> string) \<Rightarrow> ('r \<Rightarrow> int option option) \<Rightarrow> ('r \<Rightarrow> bool) \<Rightarrow> 'r list \<Rightarrow> bool" where
  "ordered_rows ident timestamp valid rows = ordered_loop ident timestamp valid [] None rows"

definition later :: "string \<Rightarrow> int \<Rightarrow> bool" where
  "later v generated = (case milliseconds v of None \<Rightarrow> False | Some n \<Rightarrow> generated < n)"

definition task_valid :: "ulid_lib \<Rightarrow> int \<Rightarrow> NowTaskData \<Rightarrow> bool" where
  "task_valid U generated row \<longleftrightarrow> canonical_id U (nt_id row) \<and> canonical_id U (nt_session_id row)
     \<and> exact_title (nt_title row) \<and> actor U (nt_owner row) \<and> later (nt_lease_expires_at row) generated"

definition session_valid :: "ulid_lib \<Rightarrow> int \<Rightarrow> NowSessionData \<Rightarrow> bool" where
  "session_valid U generated row \<longleftrightarrow> canonical_id U (ns_id row) \<and> exact_title (ns_title row)
     \<and> actor U (ns_owner row) \<and> later (ns_lease_expires_at row) generated
     \<and> ns_total_tasks row \<le> SAFE_COUNT_MAX \<and> ns_completed_tasks row \<le> ns_total_tasks row"

definition memory_valid :: "ulid_lib \<Rightarrow> NowMemoryData \<Rightarrow> bool" where
  "memory_valid U row \<longleftrightarrow> canonical_id U (nm_id row) \<and> trim (nm_title row) \<noteq> [] \<and> actor U (nm_updated_by row)"

definition knowledge_time :: "NowKnowledgeData \<Rightarrow> int option option" where
  "knowledge_time row = (case nk_updated_at row of
       None \<Rightarrow> Some None
     | Some v \<Rightarrow> (case decimal v of None \<Rightarrow> None | Some n \<Rightarrow> if - (2 ^ 63) \<le> n \<and> n \<le> i64_max then Some (Some n) else None))"

definition snapshot_validate :: "ulid_lib \<Rightarrow> NowSnapshotData \<Rightarrow> bool" where
  "snapshot_validate U raw = (case decimal (nd_generated_at raw) of
       None \<Rightarrow> False
     | Some generated \<Rightarrow>
         if \<not> (0 \<le> generated \<and> generated \<le> MAX_MILLISECONDS_NS + MILLION - 1) then False
         else let sections = nd_sections raw in
           canonical_id U (nd_project_id raw)
           \<and> section_validate (sd_tasks sections) \<and> section_validate (sd_sessions sections)
           \<and> section_validate (sd_memories sections) \<and> section_validate (sd_knowledge sections)
           \<and> ordered_rows nt_id (\<lambda>r. map_option Some (milliseconds (nt_updated_at r))) (task_valid U generated) (sd_items (sd_tasks sections))
           \<and> ordered_rows ns_id (\<lambda>r. map_option Some (milliseconds (ns_updated_at r))) (session_valid U generated) (sd_items (sd_sessions sections))
           \<and> ordered_rows nm_id (\<lambda>r. map_option Some (milliseconds (nm_updated_at r))) (memory_valid U) (sd_items (sd_memories sections))
           \<and> ordered_rows nk_slug knowledge_time (\<lambda>r. valid_slug (nk_slug r)) (sd_items (sd_knowledge sections)))"

subsection \<open>Decoding and masking\<close>

text \<open>JSON of the raw structures: objects only, every field present, unknown and repeated fields refused.\<close>

record now_lib =
  raw_dec :: "string \<Rightarrow> NowSnapshotData option"
  raw_enc :: "NowSnapshotData \<Rightarrow> string"

definition now_decode :: "ulid_lib \<Rightarrow> now_lib \<Rightarrow> string \<Rightarrow> nat \<Rightarrow> NowSnapshotDataError + NowSnapshotData" where
  "now_decode U W bytes snapshot_bytes =
     (if snapshot_bytes < length bytes then Inl ND_ReadLimitExceeded
      else case raw_dec W bytes of
          None \<Rightarrow> Inl ND_InvalidData
        | Some raw \<Rightarrow> if \<not> snapshot_validate U raw then Inl ND_InvalidData else Inr raw)"

definition mask_section :: "bool \<Rightarrow> 't NowSectionData \<Rightarrow> 't NowSectionData" where
  "mask_section visible s = (if \<not> visible then forbid s else s)"

definition mask_sections :: "NowSnapshotData \<Rightarrow> bool \<Rightarrow> bool \<Rightarrow> bool \<Rightarrow> NowSnapshotData" where
  "mask_sections d task_read memory_read knowledge_read =
     d\<lparr>nd_sections := (nd_sections d)
        \<lparr>sd_tasks := mask_section task_read (sd_tasks (nd_sections d)),
         sd_sessions := mask_section task_read (sd_sessions (nd_sections d)),
         sd_memories := mask_section memory_read (sd_memories (nd_sections d)),
         sd_knowledge := mask_section knowledge_read (sd_knowledge (nd_sections d))\<rparr>\<rparr>"

subsection \<open>The order of rows\<close>

text \<open>Newest first, unknown times last, and by identifier among equal times.\<close>

definition precedes :: "('r \<Rightarrow> string) \<Rightarrow> ('r \<Rightarrow> int option option) \<Rightarrow> 'r \<Rightarrow> 'r \<Rightarrow> bool" where
  "precedes ident timestamp a b \<longleftrightarrow> the (timestamp b) < the (timestamp a)
     \<or> (the (timestamp a) = the (timestamp b) \<and> ident a < ident b)"

lemma transp_precedes: "transp (precedes ident timestamp)"
  by (rule transpI) (auto simp: precedes_def)

definition follows :: "(int option \<times> string) option \<Rightarrow> int option \<Rightarrow> string \<Rightarrow> bool" where
  "follows previous time current = (case previous of None \<Rightarrow> True
     | Some (ptime, pid) \<Rightarrow> time < ptime \<or> (ptime = time \<and> pid < current))"

lemma ordered_loop_Cons:
  "ordered_loop ident timestamp valid ids previous (r # rows) \<longleftrightarrow> (\<exists>time. timestamp r = Some time \<and> valid r \<and> ident r \<notin> set ids
     \<and> follows previous time (ident r) \<and> ordered_loop ident timestamp valid (ident r # ids) (Some (time, ident r)) rows)"
  by (cases previous) (auto simp: follows_def not_le not_less order.strict_iff_order split: option.splits)

lemma sorted_precedes:
  "sorted_wrt (precedes ident timestamp) (r # rows) \<longleftrightarrow> sorted_wrt (precedes ident timestamp) rows
     \<and> (rows \<noteq> [] \<longrightarrow> precedes ident timestamp r (hd rows))"
  using transp_precedes [of ident timestamp] by (cases rows) (auto dest: transpD)

lemma ordered_loop_iff:
  "ordered_loop ident timestamp valid ids previous rows \<longleftrightarrow>
     list_all (\<lambda>r. timestamp r \<noteq> None \<and> valid r \<and> ident r \<notin> set ids) rows \<and> distinct (map ident rows)
     \<and> sorted_wrt (precedes ident timestamp) rows
     \<and> (rows \<noteq> [] \<longrightarrow> follows previous (the (timestamp (hd rows))) (ident (hd rows)))"
proof (induction rows arbitrary: ids previous)
  case (Cons r rows)
  have "follows (Some (time, ident r)) (the (timestamp x)) (ident x) \<longleftrightarrow> precedes ident timestamp r x"
    if "timestamp r = Some time" for time x
    using that by (simp add: follows_def precedes_def)
  then show ?case unfolding ordered_loop_Cons sorted_precedes Cons.IH by (cases "timestamp r") (auto simp: list_all_iff image_iff)
qed simp

lemma ordered_iff:
  "ordered_rows ident timestamp valid rows \<longleftrightarrow> list_all (\<lambda>r. timestamp r \<noteq> None \<and> valid r) rows
     \<and> distinct (map ident rows) \<and> sorted_wrt (precedes ident timestamp) rows"
  by (auto simp: ordered_rows_def ordered_loop_iff follows_def)

lemma ordered_Nil [simp]: "ordered_rows ident timestamp valid []"
  by (simp add: ordered_rows_def)

subsection \<open>Canonical numbers\<close>

lemma decimal_iff: "decimal v = Some n \<longleftrightarrow> v = signed_to_string n \<and> i128_min \<le> n \<and> n \<le> i128_max"
proof -
  have "decimal v = Some n \<longleftrightarrow> signed_from_str i128_min i128_max v = Some n \<and> signed_to_string n = v"
    by (auto simp: decimal_def split: option.splits if_splits)
  then show ?thesis using canonical_text by metis
qed

lemma milliseconds_iff:
  "milliseconds v = Some n \<longleftrightarrow> v = signed_to_string n \<and> 0 \<le> n \<and> n \<le> MAX_MILLISECONDS_NS \<and> MILLION dvd n"
proof -
  have "MAX_MILLISECONDS_NS \<le> i128_max" "i128_min \<le> 0"
    by (simp_all add: MAX_MILLISECONDS_NS_def MILLION_def u64_max_def i128_max_def i128_min_def)
  moreover have "milliseconds v = Some n \<longleftrightarrow> decimal v = Some n \<and> 0 \<le> n \<and> n \<le> MAX_MILLISECONDS_NS \<and> MILLION dvd n"
    by (auto simp: milliseconds_def dvd_eq_mod_eq_0 split: option.splits if_splits)
  ultimately show ?thesis unfolding decimal_iff by auto
qed

subsection \<open>Masks\<close>

lemma section_validate_forbid [simp]: "section_validate (forbid s)"
  by (simp add: section_validate_def forbid_def)

lemma forbid_items [simp]: "sd_items (forbid s) = []"
  by (simp add: forbid_def)

lemma mask_section_compose [simp]: "mask_section a (mask_section b s) = mask_section (b \<and> a) s"
  by (auto simp: mask_section_def forbid_def)

lemma mask_section_valid: "section_validate s \<Longrightarrow> section_validate (mask_section v s)"
  by (simp add: mask_section_def)

lemma mask_section_items [simp]: "sd_items (mask_section v s) = (if v then sd_items s else [])"
  by (simp add: mask_section_def)

lemma mask_sections_project [simp]: "nd_project_id (mask_sections d t m k) = nd_project_id d"
  by (simp add: mask_sections_def)

text \<open>Two masks in sequence are their conjunction: a section that was removed stays removed.\<close>

lemma mask_compose: "mask_sections (mask_sections d t m k) t' m' k' = mask_sections d (t \<and> t') (m \<and> m') (k \<and> k')"
  by (simp add: mask_sections_def)

lemma mask_validate:
  assumes "snapshot_validate U d"
  shows "snapshot_validate U (mask_sections d t m k)"
  using assms by (auto simp: snapshot_validate_def mask_sections_def Let_def mask_section_valid split: option.splits if_splits)

subsection \<open>What a decoded snapshot is\<close>

text \<open>A section with rows is available and shows the first twenty of the announced total.\<close>

definition section_accepted :: "'t NowSectionData \<Rightarrow> bool" where
  "section_accepted s \<longleftrightarrow> (\<exists>count. s = s\<lparr>sd_availability := Available, sd_total := Some count, sd_has_more := Some (20 < count), sd_error := None\<rparr>
       \<and> count \<le> SAFE_COUNT_MAX \<and> length (sd_items s) = min count 20)
   \<or> s = s\<lparr>sd_availability := NoCorpus, sd_items := [], sd_total := Some 0, sd_has_more := Some False, sd_error := None\<rparr>
   \<or> (\<exists>e. s = s\<lparr>sd_availability := Failed, sd_items := [], sd_total := None, sd_has_more := None, sd_error := Some e\<rparr>)"

lemma section_validate_iff: "section_validate s \<longleftrightarrow> section_accepted s"
proof -
  obtain a xs n h e where s: "s = \<lparr>sd_availability = a, sd_items = xs, sd_total = n, sd_has_more = h, sd_error = e\<rparr>"
    by (cases s) simp
  show ?thesis
    unfolding s section_accepted_def section_validate_def
    by (cases a; cases n) auto
qed

text \<open>The rows of a section in the order in which they are shown.\<close>

definition rows_accepted :: "('r \<Rightarrow> string) \<Rightarrow> ('r \<Rightarrow> int option option) \<Rightarrow> ('r \<Rightarrow> bool) \<Rightarrow> 'r NowSectionData \<Rightarrow> bool" where
  "rows_accepted ident timestamp valid s \<longleftrightarrow> section_accepted s
     \<and> (\<forall>r \<in> set (sd_items s). valid r \<and> timestamp r \<noteq> None)
     \<and> distinct (map ident (sd_items s)) \<and> sorted_wrt (precedes ident timestamp) (sd_items s)"

definition accepted :: "ulid_lib \<Rightarrow> NowSnapshotData \<Rightarrow> bool" where
  "accepted U d \<longleftrightarrow> (\<exists>generated. nd_generated_at d = signed_to_string generated \<and> 0 \<le> generated
     \<and> generated < MAX_MILLISECONDS_NS + MILLION \<and> canonical_id U (nd_project_id d)
     \<and> rows_accepted nt_id (\<lambda>r. map_option Some (milliseconds (nt_updated_at r))) (task_valid U generated) (sd_tasks (nd_sections d))
     \<and> rows_accepted ns_id (\<lambda>r. map_option Some (milliseconds (ns_updated_at r))) (session_valid U generated) (sd_sessions (nd_sections d))
     \<and> rows_accepted nm_id (\<lambda>r. map_option Some (milliseconds (nm_updated_at r))) (memory_valid U) (sd_memories (nd_sections d))
     \<and> rows_accepted nk_slug knowledge_time (\<lambda>r. valid_slug (nk_slug r)) (sd_knowledge (nd_sections d)))"

lemma rows_accepted_iff:
  "section_validate s \<and> ordered_rows ident timestamp valid (sd_items s) \<longleftrightarrow> rows_accepted ident timestamp valid s"
  by (auto simp: rows_accepted_def section_validate_iff ordered_iff list_all_iff)

lemma generated_in_range: "generated < MAX_MILLISECONDS_NS + MILLION \<Longrightarrow> generated \<le> i128_max"
  by (simp add: MAX_MILLISECONDS_NS_def MILLION_def u64_max_def i128_max_def)

lemma snapshot_validate_iff: "snapshot_validate U d \<longleftrightarrow> accepted U d"
proof -
  define P where "P generated \<longleftrightarrow> canonical_id U (nd_project_id d)
     \<and> rows_accepted nt_id (\<lambda>r. map_option Some (milliseconds (nt_updated_at r))) (task_valid U generated) (sd_tasks (nd_sections d))
     \<and> rows_accepted ns_id (\<lambda>r. map_option Some (milliseconds (ns_updated_at r))) (session_valid U generated) (sd_sessions (nd_sections d))
     \<and> rows_accepted nm_id (\<lambda>r. map_option Some (milliseconds (nm_updated_at r))) (memory_valid U) (sd_memories (nd_sections d))
     \<and> rows_accepted nk_slug knowledge_time (\<lambda>r. valid_slug (nk_slug r)) (sd_knowledge (nd_sections d))" for generated
  have "snapshot_validate U d \<longleftrightarrow>
      (\<exists>g. decimal (nd_generated_at d) = Some g \<and> 0 \<le> g \<and> g < MAX_MILLISECONDS_NS + MILLION \<and> P g)"
    by (cases "decimal (nd_generated_at d)")
       (simp_all add: snapshot_validate_def Let_def P_def rows_accepted_iff [symmetric] conj_ac, blast)
  also have "\<dots> \<longleftrightarrow> (\<exists>g. nd_generated_at d = signed_to_string g \<and> 0 \<le> g \<and> g < MAX_MILLISECONDS_NS + MILLION \<and> P g)"
  proof -
    have "i128_min \<le> 0" by (simp add: i128_min_def)
    then have "decimal v = Some g \<longleftrightarrow> v = signed_to_string g" if "0 \<le> g" "g < MAX_MILLISECONDS_NS + MILLION" for v g
      using that generated_in_range [of g] by (auto simp: decimal_iff)
    then show ?thesis by blast
  qed
  finally show ?thesis by (simp only: accepted_def P_def)
qed

text \<open>C23: decoding accepts exactly the byte strings within the limit whose JSON is a snapshot with canonical
  numbers and identifiers, consistent counts of at most twenty rows per section, rows that are valid
  for the time of the snapshot, no repeated identifier, and rows ordered newest first.\<close>

theorem decode_accepts:
  "now_decode U W bytes limit = Inr d \<longleftrightarrow> length bytes \<le> limit \<and> raw_dec W bytes = Some d \<and> accepted U d"
  by (auto simp: now_decode_def snapshot_validate_iff split: option.splits)

definition removed :: "'t NowSectionData \<Rightarrow> bool" where
  "removed s \<longleftrightarrow> sd_availability s = Failed \<and> sd_items s = [] \<and> sd_total s = None \<and> sd_has_more s = None \<and> sd_error s = Some SC_Forbidden"

lemma mask_section_removed: "\<not> v \<Longrightarrow> removed (mask_section v s)"
  by (simp add: mask_section_def forbid_def removed_def)

text \<open>C24: masking keeps a decoded snapshot a snapshot: its encoding decodes to itself, a section that is not
  selected shows no row, no count and the error \<^verbatim>\<open>forbidden\<close>, the other sections and the header are
  unchanged, and no later mask brings a removed section back.\<close>

theorem masked_snapshot_decodes:
  assumes "now_decode U W bytes limit = Inr d" "x = mask_sections d t m k"
    "raw_dec W (raw_enc W x) = Some x" "length (raw_enc W x) \<le> limit"
  shows "now_decode U W (raw_enc W x) limit = Inr x
    \<and> (\<forall>t' m' k'. mask_sections x t' m' k' = mask_sections d (t \<and> t') (m \<and> m') (k \<and> k'))
    \<and> (\<not> t \<longrightarrow> removed (sd_tasks (nd_sections x)) \<and> removed (sd_sessions (nd_sections x)))
    \<and> (\<not> m \<longrightarrow> removed (sd_memories (nd_sections x))) \<and> (\<not> k \<longrightarrow> removed (sd_knowledge (nd_sections x)))
    \<and> (t \<longrightarrow> sd_tasks (nd_sections x) = sd_tasks (nd_sections d) \<and> sd_sessions (nd_sections x) = sd_sessions (nd_sections d))
    \<and> (m \<longrightarrow> sd_memories (nd_sections x) = sd_memories (nd_sections d))
    \<and> (k \<longrightarrow> sd_knowledge (nd_sections x) = sd_knowledge (nd_sections d))
    \<and> nd_project_id x = nd_project_id d \<and> nd_generated_at x = nd_generated_at d"
proof -
  have "snapshot_validate U d" using assms(1) by (auto simp: now_decode_def split: if_splits option.splits)
  then have "snapshot_validate U x" using mask_validate assms(2) by blast
  then have "now_decode U W (raw_enc W x) limit = Inr x" using assms(3,4) by (simp add: now_decode_def)
  then show ?thesis
    unfolding assms(2) mask_compose by (auto simp: mask_sections_def mask_section_removed) (auto simp: mask_section_def)
qed

definition demo_section :: "'t list \<Rightarrow> 't NowSectionData" where
  "demo_section xs = \<lparr>sd_availability = Available, sd_items = xs, sd_total = Some (length xs), sd_has_more = Some False, sd_error = None\<rparr>"

definition demo_now :: NowSnapshotData where
  "demo_now = \<lparr>nd_project_id = demo_project, nd_generated_at = ''0'', nd_sections =
     \<lparr>sd_tasks = demo_section [], sd_sessions = demo_section [], sd_memories = demo_section [],
      sd_knowledge = demo_section [\<lparr>nk_slug = ''a'', nk_title = ''A'', nk_updated_at = Some ''7''\<rparr>,
        \<lparr>nk_slug = ''b'', nk_title = ''B'', nk_updated_at = None\<rparr>]\<rparr>\<rparr>"

definition demo_wire :: now_lib where
  "demo_wire = \<lparr>raw_dec = \<lambda>b. if b = ''d'' then Some demo_now else if b = ''m'' then Some (mask_sections demo_now True True False) else None,
     raw_enc = \<lambda>_. ''m''\<rparr>"

lemma demo_now_valid: "snapshot_validate demo_ulid demo_now"
proof -
  have "decimal ''0'' = Some 0" "decimal ''7'' = Some 7" by code_simp+
  moreover have "canonical_id demo_ulid demo_project" by (simp add: canonical_id_def demo_ulid_def)
  moreover have "valid_slug ''a''" "valid_slug ''b''" by code_simp+
  ultimately show ?thesis
    by (simp add: snapshot_validate_def demo_now_def demo_section_def section_validate_def ordered_rows_def knowledge_time_def Let_def
        SAFE_COUNT_MAX_def MAX_MILLISECONDS_NS_def MILLION_def i64_max_def)
qed

theorem masked_snapshot_decodes_witness:
  "now_decode demo_ulid demo_wire ''d'' 1 = Inr demo_now
   \<and> now_decode demo_ulid demo_wire (raw_enc demo_wire (mask_sections demo_now True True False)) 1 = Inr (mask_sections demo_now True True False)
   \<and> removed (sd_knowledge (nd_sections (mask_sections demo_now True True False)))"
proof -
  have d: "now_decode demo_ulid demo_wire ''d'' 1 = Inr demo_now"
    using demo_now_valid by (simp add: now_decode_def demo_wire_def)
  show ?thesis using masked_snapshot_decodes [OF d refl, of True True False] d by (simp add: demo_wire_def)
qed

end
