(* ===== verification/Now_Channel.thy ===== *)
theory Now_Channel
  imports Authorization Now_Wire
begin

text \<open>
  Now channels.  Models \<^verbatim>\<open>broker-control/src/now_channel.rs\<close> and the PostgreSQL authorizer
  \<^verbatim>\<open>broker-control/src/service/now_channel.rs\<close>: canonical channels, read masks, the principal behind an
  authorization, its expiry, and the proofs for publishing to a channel, reading a channel and
  subscribing to a project.  The lemmas show what a proof stands for: a verified bearer, a presence
  grant and one grant per section that the mask shows, and for a channel the registration of the
  instance, owned by the publisher.
\<close>

subsection \<open>Channels and proofs\<close>

datatype NowChannelAuthorizationError =
  NC_Native BrokerPresenceAuthorizationError | NC_Local PresenceAuthorizationError | NC_Inventory InstanceReadError
| NC_InvalidChannel | NC_InvalidProject | NC_NotRegistered | NC_OwnerConflict | NC_SnapshotProjectMismatch

record PresenceChannel =
  pc_instance_id :: string
  pc_project_id :: string
  pc_version :: string

definition PresenceChannel_new :: "ulid_lib \<Rightarrow> string \<Rightarrow> string \<Rightarrow> string \<Rightarrow> NowChannelAuthorizationError + PresenceChannel" where
  "PresenceChannel_new U instance_id project_id version =
     (if \<not> canonical_instance_id instance_id \<or> \<not> canonical_project_id U project_id \<or> \<not> canonical_version version
      then Inl NC_InvalidChannel
      else Inr \<lparr>pc_instance_id = instance_id, pc_project_id = project_id, pc_version = version\<rparr>)"

record NowReadMask =
  mask_task :: bool
  mask_memory :: bool
  mask_knowledge :: bool

datatype ChannelPrincipal = CP_Native VerifiedBrokerAccess | CP_Local VerifiedLocalBearer

fun cp_policy_error :: "ChannelPrincipal \<Rightarrow> ResourcePolicyError \<Rightarrow> NowChannelAuthorizationError" where
  "cp_policy_error (CP_Native _) e = NC_Native (AE_from_policy e)"
| "cp_policy_error (CP_Local _) e = NC_Local (AE_from_policy e)"

fun cp_grants_error :: "ChannelPrincipal \<Rightarrow> ResourceGrantReadError \<Rightarrow> NowChannelAuthorizationError" where
  "cp_grants_error (CP_Native _) e = NC_Native (AE_from_grants e)"
| "cp_grants_error (CP_Local _) e = NC_Local (AE_from_grants e)"

fun cp_forbidden :: "ChannelPrincipal \<Rightarrow> NowChannelAuthorizationError" where
  "cp_forbidden (CP_Native _) = NC_Native AE_Forbidden"
| "cp_forbidden (CP_Local _) = NC_Local AE_Forbidden"

fun cp_allows ::
  "ChannelPrincipal \<Rightarrow> CompiledRule list \<Rightarrow> string \<Rightarrow> string \<Rightarrow> nat \<Rightarrow> ('x, NowChannelAuthorizationError, bool) prog" where
  "cp_allows (CP_Native p) policy cap project end_at =
     pmap_err (cp_policy_error (CP_Native p)) (allows_broker policy p cap project end_at)"
| "cp_allows (CP_Local p) policy cap project end_at =
     pmap_err (cp_policy_error (CP_Local p)) (allows_local policy (vl_user p) cap project end_at)"

fun cp_identity :: "ChannelPrincipal \<Rightarrow> string \<times> string" where
  "cp_identity (CP_Native p) = (ba_issuer p, ba_subject p)"
| "cp_identity (CP_Local p) = (LOCAL_ISSUER, lu_subject (vl_user p))"

definition cp_owns :: "ChannelPrincipal \<Rightarrow> InstanceOwner \<Rightarrow> bool" where
  "cp_owns p owner = (case cp_identity p of (issuer, subject) \<Rightarrow> io_issuer owner = issuer \<and> io_subject owner = subject)"

fun cp_finish :: "ChannelPrincipal \<Rightarrow> ('x, NowChannelAuthorizationError, ChannelPrincipal) prog" where
  "cp_finish (CP_Native p) = pseq (pmap_err (\<lambda>e. NC_Native (AE_from_broker e)) (ba_check p)) (pret (CP_Native p))"
| "cp_finish (CP_Local p) =
     pbind (pmap_err (\<lambda>e. NC_Local (AE_Control e)) now_micros) (\<lambda>now.
     pbind (pmap_err (\<lambda>e. NC_Local (AE_from_local e)) (local_finish p now)) (\<lambda>q. pret (CP_Local q)))"

fun cp_expired :: "ChannelPrincipal \<Rightarrow> NowChannelAuthorizationError" where
  "cp_expired (CP_Native _) = NC_Native (AE_from_broker BA_Expired)"
| "cp_expired (CP_Local _) = NC_Local (AE_from_local LV_Unauthenticated)"

fun cp_expiry :: "ChannelPrincipal \<Rightarrow> nat \<times> nat" where
  "cp_expiry (CP_Native p) = (ba_expires_at p, ba_expires_mono p)"
| "cp_expiry (CP_Local p) = (vl_expires_utc p, vl_expires_mono p)"

record NowAuthorization =
  na_principal :: ChannelPrincipal
  na_project_id :: string
  na_mask :: NowReadMask
  na_policy_revision :: int
  na_end :: nat
  na_expires_at :: nat
  na_expires_mono :: nat

definition na_expired_at :: "NowAuthorization \<Rightarrow> int \<Rightarrow> nat \<Rightarrow> bool" where
  "na_expired_at a u m \<longleftrightarrow> int (na_expires_at a) \<le> u \<or> na_expires_mono a \<le> m"

definition na_check :: "NowAuthorization \<Rightarrow> ('x, NowChannelAuthorizationError, unit) prog" where
  "na_check a =
     pseq (pmap_err (cp_policy_error (na_principal a)) (check_deadline (na_end a)))
     (pbind now_tick (\<lambda>u. pbind now_tick (\<lambda>m.
        if na_expired_at a (utc u) (mono m) then praise (cp_expired (na_principal a))
        else case na_principal a of
            CP_Native p \<Rightarrow> pmap_err (\<lambda>e. NC_Native (AE_from_broker e)) (ba_check p)
          | CP_Local _ \<Rightarrow> pret ())))"

definition na_new :: "ChannelPrincipal \<Rightarrow> string \<Rightarrow> nat \<Rightarrow> ('x, NowChannelAuthorizationError, NowAuthorization) prog" where
  "na_new who project_id end_at =
     pbind (cp_finish who) (\<lambda>p.
     case cp_expiry p of (expires_at, expires_mono) \<Rightarrow>
     let out = \<lparr>na_principal = p, na_project_id = project_id,
                na_mask = \<lparr>mask_task = False, mask_memory = False, mask_knowledge = False\<rparr>,
                na_policy_revision = 0, na_end = end_at, na_expires_at = expires_at, na_expires_mono = expires_mono\<rparr>
     in pseq (na_check out) (pret out))"

definition filter_snapshot :: "NowAuthorization \<Rightarrow> NowSnapshotData \<Rightarrow> ('x, NowChannelAuthorizationError, NowSnapshotData) prog" where
  "filter_snapshot a snapshot =
     pseq (na_check a)
     (if nd_project_id snapshot \<noteq> na_project_id a then praise NC_SnapshotProjectMismatch
      else let masked = mask_sections snapshot (mask_task (na_mask a)) (mask_memory (na_mask a)) (mask_knowledge (na_mask a))
           in pseq (na_check a) (pret masked))"

record AuthorizedChannel =
  ac_authorization :: NowAuthorization
  ac_channel :: PresenceChannel
  ac_snapshot :: StoredInstanceInventory

subsection \<open>The authorizer\<close>

datatype 'k Authentication = AU_Native "'k jwt_lib" "'k BrokerAccessVerifier" | AU_Local string int

fun au_control :: "'k Authentication \<Rightarrow> ControlError \<Rightarrow> NowChannelAuthorizationError" where
  "au_control (AU_Native _ _) e = NC_Native (AE_Control e)"
| "au_control (AU_Local _ _) e = NC_Local (AE_Control e)"

fun authenticate ::
  "'x ControlStore \<Rightarrow> 'k Authentication \<Rightarrow> string \<Rightarrow> string list \<Rightarrow> nat \<Rightarrow> ('x, NowChannelAuthorizationError, ChannelPrincipal) prog" where
  "authenticate S (AU_Native L v) raw scopes end_at =
     pbind (pmap_err (\<lambda>e. NC_Native (AE_from_broker e)) (verify L v raw scopes end_at)) (\<lambda>p. pret (CP_Native p))"
| "authenticate S (AU_Local audience cap) raw scopes end_at =
     pbind (pmap_err (\<lambda>e. NC_Local (AE_from_local e)) (store_verify_local S cap audience raw scopes end_at)) (\<lambda>p. pret (CP_Local p))"

text \<open>One section of the mask: the read capability of its module.\<close>

definition read_section ::
  "ChannelPrincipal \<Rightarrow> CompiledRule list \<Rightarrow> string \<Rightarrow> nat \<Rightarrow> ProjectResourceModule \<Rightarrow> ('x, NowChannelAuthorizationError, bool) prog" where
  "read_section p policy project end_at module =
     pbind (plift (ok_or (capability_of module PR_Read) (cp_forbidden p))) (\<lambda>capability.
     cp_allows p policy capability project end_at)"

definition now_authorize_project ::
  "'x ControlStore \<Rightarrow> 'k Authentication \<Rightarrow> int \<Rightarrow> string \<Rightarrow> string list \<Rightarrow> string \<Rightarrow> PresenceCapability \<Rightarrow> nat
     \<Rightarrow> ('x, NowChannelAuthorizationError, NowAuthorization) prog" where
  "now_authorize_project S A grants_cap raw scopes project_id cap original =
     pbind (pmap_err (au_control A) (bounded_deadline original (st_budget S))) (\<lambda>end_at.
     if \<not> canonical_project_id (st_ulid S) project_id then praise NC_InvalidProject
     else pbind (authenticate S A raw scopes end_at) (\<lambda>principal.
     pbind (na_new principal project_id end_at) (\<lambda>a0.
     pbind (pmap_err (cp_grants_error (na_principal a0)) (store_grants S grants_cap end_at)) (\<lambda>grants.
     pbind (pmap_err (cp_policy_error (na_principal a0)) (compile (st_ulid S) (st_glob S) grants end_at)) (\<lambda>policy.
     pbind (cp_allows (na_principal a0) policy (presence_str cap) project_id end_at) (\<lambda>allowed.
     pbind (cp_finish (na_principal a0)) (\<lambda>p1. let a1 = a0\<lparr>na_principal := p1\<rparr> in
     pseq (na_check a1)
     (if \<not> allowed then praise (cp_forbidden p1)
      else pbind (read_section p1 policy project_id end_at PM_Task) (\<lambda>task.
        pbind (read_section p1 policy project_id end_at PM_Memory) (\<lambda>memory.
        pbind (read_section p1 policy project_id end_at PM_Knowledge) (\<lambda>knowledge.
        pbind (cp_finish p1) (\<lambda>p2.
        let a2 = a1\<lparr>na_mask := \<lparr>mask_task = task, mask_memory = memory, mask_knowledge = knowledge\<rparr>,
                    na_policy_revision := sn_revision grants, na_principal := p2\<rparr>
        in pseq (na_check a2) (pret a2)))))))))))))"

text \<open>The registration of a channel in the stored inventory of its instance.\<close>

definition registers :: "StoredInstanceInventory \<Rightarrow> PresenceChannel \<Rightarrow> bool" where
  "registers snapshot channel = list_ex (\<lambda>project. iv_project_id project = pc_project_id channel
     \<and> list_ex (\<lambda>version. version = pc_version channel) (iv_versions project)) (ii_projects (si_inventory snapshot))"

definition channel_decision ::
  "PresenceCapability \<Rightarrow> ChannelPrincipal \<Rightarrow> PresenceChannel \<Rightarrow> StoredInstanceInventory option \<Rightarrow> NowChannelAuthorizationError + StoredInstanceInventory" where
  "channel_decision cap p channel found = (case found of
       None \<Rightarrow> Inl NC_NotRegistered
     | Some snapshot \<Rightarrow>
         if cap = PC_Publish \<and> \<not> cp_owns p (si_owner snapshot) then Inl NC_OwnerConflict
         else if registers snapshot channel then Inr snapshot else Inl NC_NotRegistered)"

definition authorize_channel ::
  "'x ControlStore \<Rightarrow> 'k Authentication \<Rightarrow> int \<Rightarrow> int \<Rightarrow> string \<Rightarrow> string list \<Rightarrow> PresenceChannel \<Rightarrow> PresenceCapability \<Rightarrow> nat
     \<Rightarrow> ('x, NowChannelAuthorizationError, AuthorizedChannel) prog" where
  "authorize_channel S A grants_cap inventory_cap raw scopes channel cap original =
     pbind (now_authorize_project S A grants_cap raw scopes (pc_project_id channel) cap original) (\<lambda>a.
     pbind (pmap_err NC_Inventory (store_inventory S inventory_cap (pc_instance_id channel) (na_end a))) (\<lambda>found.
     let decision = channel_decision cap (na_principal a) channel found in
     pbind (cp_finish (na_principal a)) (\<lambda>p. let b = a\<lparr>na_principal := p\<rparr> in
     pseq (na_check b) (pbind (plift decision) (\<lambda>snapshot.
     pret \<lparr>ac_authorization = b, ac_channel = channel, ac_snapshot = snapshot\<rparr>)))))"

definition authorize_publish ::
  "'x ControlStore \<Rightarrow> 'k Authentication \<Rightarrow> int \<Rightarrow> int \<Rightarrow> string \<Rightarrow> string list \<Rightarrow> PresenceChannel \<Rightarrow> nat
     \<Rightarrow> ('x, NowChannelAuthorizationError, AuthorizedChannel) prog" where
  "authorize_publish S A grants_cap inventory_cap raw scopes channel original =
     authorize_channel S A grants_cap inventory_cap raw scopes channel PC_Publish original"

definition authorize_read ::
  "'x ControlStore \<Rightarrow> 'k Authentication \<Rightarrow> int \<Rightarrow> int \<Rightarrow> string \<Rightarrow> string list \<Rightarrow> PresenceChannel \<Rightarrow> nat
     \<Rightarrow> ('x, NowChannelAuthorizationError, AuthorizedChannel) prog" where
  "authorize_read S A grants_cap inventory_cap raw scopes channel original =
     authorize_channel S A grants_cap inventory_cap raw scopes channel PC_Read original"

definition authorize_subscriber_project ::
  "'x ControlStore \<Rightarrow> 'k Authentication \<Rightarrow> int \<Rightarrow> string \<Rightarrow> string list \<Rightarrow> string \<Rightarrow> nat
     \<Rightarrow> ('x, NowChannelAuthorizationError, NowAuthorization) prog" where
  "authorize_subscriber_project S A grants_cap raw scopes project_id original =
     now_authorize_project S A grants_cap raw scopes project_id PC_Read original"

subsection \<open>What a proof stands for\<close>

fun cp_principal :: "ChannelPrincipal \<Rightarrow> Principal" where
  "cp_principal (CP_Native p) = principal_broker p"
| "cp_principal (CP_Local p) = principal_local (vl_user p)"

text \<open>Finishing an operation changes nothing but the last observation.\<close>

definition same_caller :: "ChannelPrincipal \<Rightarrow> ChannelPrincipal \<Rightarrow> bool" where
  "same_caller p q \<longleftrightarrow> cp_principal q = cp_principal p \<and> cp_expiry q = cp_expiry p \<and> cp_identity q = cp_identity p"

lemma same_caller_refl [simp]: "same_caller p p"
  by (simp add: same_caller_def)

lemma same_caller_trans: "same_caller p q \<Longrightarrow> same_caller q r \<Longrightarrow> same_caller p r"
  by (simp add: same_caller_def)

lemma cp_finish_same: "cp_finish p w = (Inr q, w') \<Longrightarrow> same_caller p q"
  by (cases p) (auto simp: prog_ok same_caller_def dest!: local_finish_ok(1))

lemma na_check_ok:
  assumes "na_check a w = (Inr u, w')"
  shows "mono (env w 0) < na_end a" "utc (env w 1) < int (na_expires_at a)" "mono (env w 2) < na_expires_mono a"
  using assms
  by (auto simp: na_check_def check_deadline_def na_expired_at_def prog_ok not_le numeral_2_eq_2 split: if_splits)

lemma cp_allows_ok:
  assumes "cp_allows p policy cap project end_at w = (Inr allowed, w')"
    "compile (st_ulid S) (st_glob S) snapshot end_at w1 = (Inr policy, w2)"
  shows "allowed \<longleftrightarrow> granted S snapshot (cp_principal p) cap project"
proof (cases p)
  case (CP_Native q)
  then show ?thesis using granted_iff [OF assms(2)] assms(1) by (simp add: pmap_err_ok allows_broker_def)
next
  case (CP_Local q)
  then show ?thesis using granted_iff [OF assms(2)] assms(1) by (simp add: pmap_err_ok allows_local_def)
qed

lemma read_section_ok:
  assumes "read_section p policy project end_at module w = (Inr allowed, w')" "capability_of module PR_Read = Some cap"
    "compile (st_ulid S) (st_glob S) snapshot end_at w1 = (Inr policy, w2)"
  shows "allowed \<longleftrightarrow> granted S snapshot (cp_principal p) cap project"
  using assms by (auto simp: read_section_def prog_ok ok_or_def dest: cp_allows_ok)

lemma na_new_ok:
  assumes "na_new p project end_at w = (Inr a, w')"
  shows "same_caller p (na_principal a)" "na_project_id a = project" "na_end a = end_at"
    "(na_expires_at a, na_expires_mono a) = cp_expiry (na_principal a)"
  using assms by (auto simp: na_new_def prog_ok Let_def case_prod_unfold dest: cp_finish_same)

text \<open>The run that starts in \<^verbatim>\<open>w\<close> authenticated the caller under its bounded deadline, built the proof, and read the
  grants from there; and they grant presence on the project and each section that the mask shows.\<close>

definition now_proof ::
  "'x ControlStore \<Rightarrow> 'k Authentication \<Rightarrow> int \<Rightarrow> string \<Rightarrow> string list \<Rightarrow> string \<Rightarrow> PresenceCapability \<Rightarrow> nat \<Rightarrow> 'x world_scheme
     \<Rightarrow> NowAuthorization \<Rightarrow> bool" where
  "now_proof S A grants_cap raw scopes project cap original w a \<longleftrightarrow>
     canonical_project_id (st_ulid S) project \<and> na_project_id a = project
   \<and> (na_expires_at a, na_expires_mono a) = cp_expiry (na_principal a)
   \<and> (\<exists>p0 a0 w0 w1 w2 w3 snapshot. let dl = na_end a in bounded_deadline original (st_budget S) w = (Inr dl, w0)
       \<and> authenticate S A raw scopes dl w0 = (Inr p0, w1) \<and> same_caller p0 (na_principal a)
       \<and> na_new p0 project dl w1 = (Inr a0, w2) \<and> store_grants S grants_cap dl w2 = (Inr snapshot, w3) \<and> na_policy_revision a = sn_revision snapshot
       \<and> granted S snapshot (cp_principal (na_principal a)) (presence_str cap) project
       \<and> mask_task (na_mask a) = granted S snapshot (cp_principal (na_principal a)) ''task:read'' project
       \<and> mask_memory (na_mask a) = granted S snapshot (cp_principal (na_principal a)) ''memory:read'' project
       \<and> mask_knowledge (na_mask a) = granted S snapshot (cp_principal (na_principal a)) ''knowledge:read'' project)"

lemma now_authorize_project_ok:
  fixes w w' :: "'x world_scheme"
  assumes "now_authorize_project S A grants_cap raw scopes project cap original w = (Inr a, w')"
  obtains end_at p0 a0 grants policy p1 task memory knowledge p2 and w1 w2 w3 w4 w5 w6 w7 w8 w9 w10 w11 w12 w13 :: "'x world_scheme"
  where "bounded_deadline original (st_budget S) w = (Inr end_at, w1)"
    "canonical_project_id (st_ulid S) project" "authenticate S A raw scopes end_at w1 = (Inr p0, w2)"
    "na_new p0 project end_at w2 = (Inr a0, w3)" "store_grants S grants_cap end_at w3 = (Inr grants, w4)"
    "compile (st_ulid S) (st_glob S) grants end_at w4 = (Inr policy, w5)"
    "cp_allows (na_principal a0) policy (presence_str cap) project end_at w5 = (Inr True, w6)"
    "cp_finish (na_principal a0) w6 = (Inr p1, w7)"
    "read_section p1 policy project end_at PM_Task w8 = (Inr task, w9)"
    "read_section p1 policy project end_at PM_Memory w9 = (Inr memory, w10)"
    "read_section p1 policy project end_at PM_Knowledge w10 = (Inr knowledge, w11)"
    "cp_finish p1 w11 = (Inr p2, w12)" "na_check a w12 = (Inr (), w13)"
    "a = a0\<lparr>na_mask := \<lparr>mask_task = task, mask_memory = memory, mask_knowledge = knowledge\<rparr>,
        na_policy_revision := sn_revision grants, na_principal := p2\<rparr>"
  using assms by (auto simp: now_authorize_project_def prog_ok Let_def split: if_splits)

lemma now_authorize_proof:
  assumes "now_authorize_project S A grants_cap raw scopes project cap original w = (Inr a, w')"
  shows "now_proof S A grants_cap raw scopes project cap original w a"
proof (rule now_authorize_project_ok [OF assms], goal_cases)
  case (1 end_at p0 a0 grants policy p1 task memory knowledge p2)
  have s: "same_caller p0 (na_principal a0)" "same_caller (na_principal a0) p1" "same_caller p1 p2"
    using na_new_ok(1) [OF 1(4)] cp_finish_same [OF 1(8)] cp_finish_same [OF 1(12)] by simp_all
  then have s2: "same_caller p0 p2" "cp_principal p1 = cp_principal p2" "cp_principal (na_principal a0) = cp_principal p2"
    using same_caller_trans by (auto simp: same_caller_def)
  have a: "na_principal a = p2" using 1(14) by simp
  have "granted S grants (cp_principal p2) (presence_str cap) project" using cp_allows_ok [OF 1(7,6)] s2 by simp
  moreover have "task = granted S grants (cp_principal p2) ''task:read'' project"
    "memory = granted S grants (cp_principal p2) ''memory:read'' project"
    "knowledge = granted S grants (cp_principal p2) ''knowledge:read'' project"
    using read_section_ok [OF 1(9) _ 1(6)] read_section_ok [OF 1(10) _ 1(6)] read_section_ok [OF 1(11) _ 1(6)] s2 by simp_all
  moreover have "(na_expires_at a, na_expires_mono a) = cp_expiry p2"
    using na_new_ok(4) [OF 1(4)] s 1(14) by (simp add: same_caller_def)
  ultimately show ?case
    unfolding now_proof_def a using 1(1,2,3,4,5,14) na_new_ok(2,3) [OF 1(4)] s2(1)
    by (auto simp: Let_def)
qed

text \<open>C17: whoever holds a proof for a channel was authenticated by the run that made it and is granted presence on
  the project of the channel by the grants that run read next; the mask shows a section only if the
  same grants give its read capability; the inventory that the run read after that has registered that project and version; and a publisher is the registered owner of
  the instance.\<close>

theorem channel_proof_sound:
  assumes "fst (authorize_channel S A grants_cap inventory_cap raw scopes channel cap original w) = Inr c"
  shows "ac_channel c = channel
    \<and> now_proof S A grants_cap raw scopes (pc_project_id channel) cap original w (ac_authorization c)
    \<and> registers (ac_snapshot c) channel
    \<and> (cap = PC_Publish \<longrightarrow> cp_identity (na_principal (ac_authorization c)) = (io_issuer (si_owner (ac_snapshot c)), io_subject (si_owner (ac_snapshot c))))
    \<and> (\<exists>a w1 w2. now_authorize_project S A grants_cap raw scopes (pc_project_id channel) cap original w = (Inr a, w1)
        \<and> store_inventory S inventory_cap (pc_instance_id channel) (na_end (ac_authorization c)) w1 = (Inr (Some (ac_snapshot c)), w2))"
proof -
  obtain a found w1 w2 p w3 where a: "now_authorize_project S A grants_cap raw scopes (pc_project_id channel) cap original w = (Inr a, w1)"
    "store_inventory S inventory_cap (pc_instance_id channel) (na_end a) w1 = (Inr found, w2)"
    "cp_finish (na_principal a) w2 = (Inr p, w3)"
    "channel_decision cap (na_principal a) channel found = Inr (ac_snapshot c)"
    "ac_authorization c = a\<lparr>na_principal := p\<rparr>" "ac_channel c = channel"
    using assms by (auto simp: fst_Inr_iff authorize_channel_def prog_ok Let_def)
  have s: "same_caller (na_principal a) p" using cp_finish_same [OF a(3)] .
  have "now_proof S A grants_cap raw scopes (pc_project_id channel) cap original w (ac_authorization c)"
    using now_authorize_proof [OF a(1)] s unfolding now_proof_def a(5)
    by (auto simp: same_caller_def)
  moreover have "found = Some (ac_snapshot c)" "registers (ac_snapshot c) channel"
    "cap = PC_Publish \<longrightarrow> cp_owns (na_principal a) (si_owner (ac_snapshot c))"
    using a(4) by (auto simp: channel_decision_def split: option.splits if_splits)
  ultimately show ?thesis using a s by (auto simp: cp_owns_def same_caller_def split: prod.splits)
qed

definition demo_channel :: PresenceChannel where
  "demo_channel = \<lparr>pc_instance_id = ''i1'', pc_project_id = demo_project, pc_version = ''main''\<rparr>"

lemma demo_na_check:
  assumes "na_principal a = CP_Local p" "na_end a = 50" "na_expires_at a = 9000" "5 < na_expires_mono a"
  shows "na_check a (frozen 5 1000) = (Inr (), frozen 5 1000)"
  using assms by (simp add: na_check_def na_expired_at_def demo_check_deadline demo_run)

lemma demo_cp_finish:
  assumes "vl_expires_at p = 9" "5 < vl_expires_mono p"
  shows "cp_finish (CP_Local p) (frozen 5 1000) = (Inr (CP_Local (p\<lparr>vl_verified_at := 1\<rparr>)), frozen 5 1000)"
  using demo_finish [OF assms] now_micros_frozen [of 5] by (simp add: demo_run)

lemma demo_project_proof:
  "\<exists>a. now_authorize_project demo_control (AU_Local '' aud'' 100 :: unit Authentication) 100 ''gb_at_x'' [''read''] demo_project PC_Publish 50 (frozen 5 1000)
     = (Inr a, frozen 5 1000) \<and> (\<exists>p. na_principal a = CP_Local p \<and> vl_user p = demo_local_user \<and> vl_expires_at p = 9 \<and> 5 < vl_expires_mono p)
     \<and> na_end a = 50 \<and> na_expires_at a = 9000 \<and> 5 < na_expires_mono a"
proof -
  obtain p where p: "verify_local demo_cred demo_digester demo_sql demo_json 100 1000 '' aud'' ''gb_at_x'' [''read''] 50 (frozen 5 1000) = (Inr p, frozen 5 1000)"
    and v: "vl_expires_at p = 9" "5 < vl_expires_mono p" "vl_user p = demo_local_user" "vl_expires_utc p = 9000"
    using demo_bearer by blast
  obtain policy where k: "compile demo_ulid demo_glob (demo_snapshot [demo_access_rule]) 50 (frozen 5 1000) = (Inr policy, frozen 5 1000)"
    by (rule demo_policy)
  let ?q = "p\<lparr>vl_verified_at := 1\<rparr>"
  have f: "cp_finish (CP_Local p) (frozen 5 1000) = (Inr (CP_Local ?q), frozen 5 1000)"
    "cp_finish (CP_Local ?q) (frozen 5 1000) = (Inr (CP_Local ?q), frozen 5 1000)"
    using demo_cp_finish [of p] demo_cp_finish [of ?q] v by simp_all
  have al: "cp_allows (CP_Local ?q) policy cap demo_project 50 (frozen 5 1000)
      = (Inr (rule_grants demo_glob demo_access_rule demo_caller cap demo_project), frozen 5 1000)" for cap
    using demo_allows [OF k] v by (simp add: pmap_err_def)
  have g: "rule_grants demo_glob demo_access_rule demo_caller ''presence:publish'' demo_project" by code_simp
  obtain a0 where n: "na_new (CP_Local p) demo_project 50 (frozen 5 1000) = (Inr a0, frozen 5 1000)" "na_principal a0 = CP_Local ?q"
    "na_end a0 = 50" "na_expires_at a0 = 9000" "5 < na_expires_mono a0"
    using f v by (simp add: na_new_def demo_run demo_na_check Let_def)
  have c: "na_check (a0\<lparr>na_principal := CP_Local ?q\<rparr>) (frozen 5 1000) = (Inr (), frozen 5 1000)"
    "na_check (a0\<lparr>na_mask := m, na_policy_revision := r, na_principal := CP_Local ?q\<rparr>) (frozen 5 1000) = (Inr (), frozen 5 1000)" for m r
    using n by (simp_all add: demo_na_check)
  show ?thesis
    using demo_deadline p demo_grants k f al g n c v demo_project_canonical
    by (simp add: now_authorize_project_def read_section_def store_verify_local_def store_grants_def demo_control_def demo_run ok_or_def Let_def)
qed

lemma demo_channel_proof:
  "\<exists>c. fst (authorize_channel demo_control (AU_Local '' aud'' 100 :: unit Authentication) 100 100 ''gb_at_x'' [''read''] demo_channel PC_Publish 50 (frozen 5 1000)) = Inr c"
proof -
  obtain a p where a: "now_authorize_project demo_control (AU_Local '' aud'' 100 :: unit Authentication) 100 ''gb_at_x'' [''read''] demo_project PC_Publish 50 (frozen 5 1000)
     = (Inr a, frozen 5 1000)" "na_principal a = CP_Local p" "vl_user p = demo_local_user" "vl_expires_at p = 9" "5 < vl_expires_mono p"
     "na_end a = 50" "na_expires_at a = 9000" "5 < na_expires_mono a"
    using demo_project_proof by blast
  obtain s where s: "decode_inventory demo_ulid demo_json ''i1'' ''v'' = Inr s" "si_owner s = \<lparr>io_issuer = ''local'', io_subject = ''s1''\<rparr>"
    "registers s demo_channel"
    using demo_inventory by (auto simp: registers_def demo_channel_def)
  have "canonical_instance_id ''i1''" by code_simp
  then have i: "store_inventory demo_control 100 ''i1'' 50 (frozen 5 1000) = (Inr (Some s), frozen 5 1000)"
    using s(1) demo_deadline by (simp add: store_inventory_def inventories_read_def demo_control_def demo_sql_def demo_run ok_or_def)
  show ?thesis
    using a i s demo_cp_finish [OF a(4,5)] demo_na_check [of "a\<lparr>na_principal := CP_Local (p\<lparr>vl_verified_at := 1\<rparr>)\<rparr>"]
    by (simp add: authorize_channel_def channel_decision_def cp_owns_def demo_channel_def demo_run Let_def LOCAL_ISSUER_def demo_local_user_def)
qed

theorem channel_proof_sound_witness:
  "\<exists>c. fst (authorize_channel demo_control (AU_Local '' aud'' 100 :: unit Authentication) 100 100 ''gb_at_x'' [''read''] demo_channel PC_Publish 50 (frozen 5 1000)) = Inr c
    \<and> registers (ac_snapshot c) demo_channel
    \<and> cp_identity (na_principal (ac_authorization c)) = (io_issuer (si_owner (ac_snapshot c)), io_subject (si_owner (ac_snapshot c)))"
  using demo_channel_proof channel_proof_sound [of demo_control "AU_Local '' aud'' 100 :: unit Authentication" 100 100 "''gb_at_x''" "[''read'']" demo_channel
      PC_Publish 50 "frozen 5 1000"] by blast

end
