(* ===== verification/Realtime_Hub.thy ===== *)
theory Realtime_Hub
  imports Now_Channel "HOL-Library.Product_Lexorder"
begin

text \<open>
  The realtime hub, \<^verbatim>\<open>broker-presence/src/realtime_hub.rs\<close>: publications of Now snapshots, project
  invalidations and replays.  The state is what the mutex guards, together with the objects that
  outlive a critical section: the end reason of every publication identity and the broadcast
  channels, each in a store addressed by number, as handles and subscriptions refer to them by
  pointer.  An operation runs its critical section as one step, so that every interleaving of
  operations is a sequence of steps.  The broadcast channels of the runtime library are the
  parameter record \<^verbatim>\<open>broadcast_lib\<close>.
\<close>

subsection \<open>Ordered maps\<close>

fun bt_insert :: "'k :: linorder \<Rightarrow> 'v \<Rightarrow> ('k \<times> 'v) list \<Rightarrow> ('k \<times> 'v) list" where
  "bt_insert k v [] = [(k, v)]"
| "bt_insert k v ((k', v') # xs) =
     (if k < k' then (k, v) # (k', v') # xs else if k = k' then (k, v) # xs else (k', v') # bt_insert k v xs)"

definition bt_remove :: "'k \<Rightarrow> ('k \<times> 'v) list \<Rightarrow> ('k \<times> 'v) list" where
  "bt_remove k xs = filter (\<lambda>(k', _). k' \<noteq> k) xs"

subsection \<open>Data\<close>

type_synonym Key = "string \<times> string \<times> string"

definition hub_key :: "PresenceChannel \<Rightarrow> Key" where
  "hub_key c = (pc_project_id c, pc_instance_id c, pc_version c)"

datatype RealtimeHubError =
  RH_Authorization NowChannelAuthorizationError | RH_InvalidConfiguration | RH_InvalidContext | RH_OwnerConflict
| RH_AuthenticationExpired | RH_Superseded | RH_Closed | RH_Unavailable

datatype RealtimeHubSignalError = SG_Lagged | SG_Closed

datatype Phase = PH_Dormant | PH_Running | PH_Closed

record Window =
  wn_utc :: nat
  wn_mono :: nat
  wn_heartbeat :: nat

definition window_active :: "Window \<Rightarrow> int \<Rightarrow> nat \<Rightarrow> bool" where
  "window_active w u m \<longleftrightarrow> u < int (wn_utc w) \<and> m < wn_mono w \<and> m < wn_heartbeat w"

definition window_next :: "Window \<Rightarrow> int \<Rightarrow> nat \<Rightarrow> nat" where
  "window_next w u m =
     (let utc_end = (if u \<le> int (wn_utc w) then
                       (case time_checked_add m (nat (int (wn_utc w) - u)) of None \<Rightarrow> m | Some e \<Rightarrow> e) else m)
      in min (min utc_end (wn_mono w)) (wn_heartbeat w))"

record Slot =
  sl_channel :: PresenceChannel
  sl_issuer :: string
  sl_subject :: string
  sl_identity :: nat
  sl_snapshot :: NowSnapshotData
  sl_window :: Window

text \<open>A broadcast channel with its receivers: creation, sending a unit, subscribing, dropping a receiver,
  counting receivers, and receiving, where \<^const>\<open>None\<close> is a receiver that waits.  The flag says whether
  the sender still exists.\<close>

datatype RecvError = Lagged | ChannelClosed

record ('c, 'r) broadcast_lib =
  bc_new :: "nat \<Rightarrow> 'c"
  bc_send :: "'c \<Rightarrow> 'c"
  bc_subscribe :: "'c \<Rightarrow> 'r \<times> 'c"
  bc_drop :: "'r \<Rightarrow> 'c \<Rightarrow> 'c"
  bc_count :: "'c \<Rightarrow> nat"
  bc_recv :: "bool \<Rightarrow> 'r \<Rightarrow> 'c \<Rightarrow> (RecvError + unit) option \<times> 'c"

record hub_config =
  hc_heartbeat :: nat
  hc_capacity :: nat

record 'c hub = world +
  hb_phase :: Phase
  hb_slots :: "(Key \<times> Slot) list"
  hb_groups :: "(string \<times> nat) list"
  hb_chans :: "nat \<Rightarrow> 'c"
  hb_next_chan :: nat
  hb_ends :: "nat \<Rightarrow> RealtimeHubError option"
  hb_next_id :: nat
  hb_poisoned :: bool
  hb_notified :: bool

type_synonym ('c, 'z, 'a) hprog = "(('c, 'z) hub_ext, RealtimeHubError, 'a) prog"

definition hub_get :: "(('c, 'z) hub_scheme \<Rightarrow> 'a) \<Rightarrow> ('c, 'z, 'a) hprog" where
  "hub_get f = (\<lambda>w. (Inr (f w), w))"

definition hub_modify :: "(('c, 'z) hub_scheme \<Rightarrow> ('c, 'z) hub_scheme) \<Rightarrow> ('c, 'z, unit) hprog" where
  "hub_modify f = (\<lambda>w. (Inr (), f w))"

subsection \<open>State transitions under the lock\<close>

definition hub_lock :: "('c, 'z, unit) hprog" where
  "hub_lock = pbind (hub_get hb_poisoned) (\<lambda>p. pguard (\<not> p) RH_Unavailable)"

definition hub_running :: "('c, 'z, unit) hprog" where
  "hub_running = pbind (hub_get hb_phase) (\<lambda>p. case p of
       PH_Running \<Rightarrow> pret () | PH_Closed \<Rightarrow> praise RH_Closed | PH_Dormant \<Rightarrow> praise RH_Unavailable)"

definition end_identity :: "nat \<Rightarrow> RealtimeHubError \<Rightarrow> ('c, 'z) hub_scheme \<Rightarrow> ('c, 'z) hub_scheme" where
  "end_identity i reason w = w\<lparr>hb_ends := (hb_ends w)(i := Some reason)\<rparr>"

definition signal :: "('c, 'r) broadcast_lib \<Rightarrow> string \<Rightarrow> ('c, 'z) hub_scheme \<Rightarrow> ('c, 'z) hub_scheme" where
  "signal B project w = (case map_of (hb_groups w) project of
       None \<Rightarrow> w
     | Some i \<Rightarrow> w\<lparr>hb_chans := (hb_chans w)(i := bc_send B (hb_chans w i))\<rparr>)"

definition prune_groups :: "('c, 'r) broadcast_lib \<Rightarrow> ('c, 'z) hub_scheme \<Rightarrow> ('c, 'z) hub_scheme" where
  "prune_groups B w = w\<lparr>hb_groups := filter (\<lambda>(project, i).
     bc_count B (hb_chans w i) \<noteq> 0 \<or> list_ex (\<lambda>(k, _). fst k = project) (hb_slots w)) (hb_groups w)\<rparr>"

definition expiry_reason :: "Window \<Rightarrow> int \<Rightarrow> nat \<Rightarrow> RealtimeHubError" where
  "expiry_reason win u m = (if int (wn_utc win) \<le> u \<or> wn_mono win \<le> m then RH_AuthenticationExpired else RH_Closed)"

definition expire_slot ::
  "('c, 'r) broadcast_lib \<Rightarrow> int \<Rightarrow> nat \<Rightarrow> Key \<Rightarrow> ('c, 'z) hub_scheme \<Rightarrow> ('c, 'z) hub_scheme" where
  "expire_slot B u m k w = (case map_of (hb_slots w) k of
       None \<Rightarrow> w
     | Some slot \<Rightarrow>
         signal B (pc_project_id (sl_channel slot))
           (end_identity (sl_identity slot) (expiry_reason (sl_window slot) u m) (w\<lparr>hb_slots := bt_remove k (hb_slots w)\<rparr>)))"

definition prune :: "('c, 'r) broadcast_lib \<Rightarrow> int \<Rightarrow> nat \<Rightarrow> ('c, 'z) hub_scheme \<Rightarrow> ('c, 'z) hub_scheme" where
  "prune B u m w =
     (let expired = map fst (filter (\<lambda>(_, s). \<not> window_active (sl_window s) u m) (hb_slots w))
      in prune_groups B (fold (expire_slot B u m) expired w))"

definition notify_one :: "('c, 'z) hub_scheme \<Rightarrow> ('c, 'z) hub_scheme" where
  "notify_one w = w\<lparr>hb_notified := True\<rparr>"

definition hub_close :: "('c, 'z) hub_scheme \<Rightarrow> ('c, 'z) hub_scheme" where
  "hub_close w = notify_one
     ((fold (\<lambda>(_, s). end_identity (sl_identity s) RH_Closed) (hb_slots w) (w\<lparr>hb_phase := PH_Closed\<rparr>))
        \<lparr>hb_slots := [], hb_groups := []\<rparr>)"

definition hub_remove ::
  "('c, 'r) broadcast_lib \<Rightarrow> PresenceChannel \<Rightarrow> nat \<Rightarrow> ('c, 'z) hub_scheme \<Rightarrow> ('c, 'z) hub_scheme" where
  "hub_remove B channel identity w =
     (if hb_poisoned w then hub_close w
      else let k = hub_key channel in
        case map_of (hb_slots w) k of
          None \<Rightarrow> w
        | Some s \<Rightarrow>
            if sl_identity s = identity then
              notify_one (prune_groups B (signal B (pc_project_id channel)
                (end_identity identity RH_Closed (w\<lparr>hb_slots := bt_remove k (hb_slots w)\<rparr>))))
            else w)"

text \<open>\<^verbatim>\<open>State::prune(&mut d, SystemTime::now(), Instant::now())\<close>\<close>

definition prune_now :: "('c, 'r) broadcast_lib \<Rightarrow> ('c, 'z, unit) hprog" where
  "prune_now B = pbind now_tick (\<lambda>u. pbind now_tick (\<lambda>m. hub_modify (prune B (utc u) (mono m))))"

subsection \<open>The hub\<close>

text \<open>The bound of \<^verbatim>\<open>usize\<close> is that of a 64-bit target: the largest capacity is \<^verbatim>\<open>usize::MAX >> 1\<close>, whose next
  power of two exists.\<close>

definition hub_new :: "nat \<Rightarrow> nat \<Rightarrow> ('x, RealtimeHubError, hub_config) prog" where
  "hub_new heartbeat capacity =
     (if heartbeat = 0 then praise RH_InvalidConfiguration
      else pbind now_tick (\<lambda>m. if time_checked_add (mono m) heartbeat = None then praise RH_InvalidConfiguration
      else pbind now_tick (\<lambda>u. if int time_max < utc u + int heartbeat \<or> 2 ^ 63 - 1 < capacity
      then praise RH_InvalidConfiguration
      else pret \<lparr>hc_heartbeat = heartbeat, hc_capacity = capacity\<rparr>)))"

definition hub_initial :: "'c \<Rightarrow> (nat \<Rightarrow> tick) \<Rightarrow> 'c hub" where
  "hub_initial unused readings = \<lparr>env = readings, hb_phase = PH_Dormant, hb_slots = [], hb_groups = [], hb_chans = \<lambda>_. unused,
     hb_next_chan = 0, hb_ends = \<lambda>_. None, hb_next_id = 0, hb_poisoned = False, hb_notified = False\<rparr>"

definition run_maintenance :: "bool \<Rightarrow> ('c, 'z, unit) hprog" where
  "run_maintenance in_runtime =
     pseq (pguard in_runtime RH_InvalidConfiguration) (pseq hub_lock (pbind (hub_get hb_phase) (\<lambda>p. case p of
         PH_Dormant \<Rightarrow> hub_modify (\<lambda>w. w\<lparr>hb_phase := PH_Running\<rparr>)
       | PH_Running \<Rightarrow> praise RH_InvalidConfiguration
       | PH_Closed \<Rightarrow> praise RH_Closed)))"

definition proof_check :: "NowAuthorization \<Rightarrow> ('c, 'z, unit) hprog" where
  "proof_check a = pmap_err RH_Authorization (na_check a)"

record RealtimePublisherHandle =
  ph_channel :: PresenceChannel
  ph_identity :: nat

definition owner_conflict :: "Slot \<Rightarrow> InstanceOwner \<Rightarrow> bool" where
  "owner_conflict s owner \<longleftrightarrow> sl_issuer s \<noteq> io_issuer owner \<or> sl_subject s \<noteq> io_subject owner"

text \<open>Insert the slot under a fresh identity and end the publication it replaces.\<close>

definition insert_slot :: "('c, 'r) broadcast_lib \<Rightarrow> Key \<Rightarrow> Slot \<Rightarrow> ('c, 'z) hub_scheme \<Rightarrow> ('c, 'z) hub_scheme" where
  "insert_slot B k slot w =
     (let old = map_of (hb_slots w) k;
          w1 = w\<lparr>hb_slots := bt_insert k slot (hb_slots w), hb_next_id := Suc (hb_next_id w)\<rparr>;
          w2 = (case old of None \<Rightarrow> w1 | Some s \<Rightarrow> end_identity (sl_identity s) RH_Superseded w1)
      in notify_one (signal B (pc_project_id (sl_channel slot)) w2))"

definition heartbeat_end :: "hub_config \<Rightarrow> ('c, 'z, nat) hprog" where
  "heartbeat_end cfg = pbind now_tick (\<lambda>m. plift (ok_or (time_checked_add (mono m) (hc_heartbeat cfg)) RH_InvalidConfiguration))"

definition open_publisher ::
  "('c, 'r) broadcast_lib \<Rightarrow> hub_config \<Rightarrow> AuthorizedChannel \<Rightarrow> NowSnapshotData \<Rightarrow> ('c, 'z, RealtimePublisherHandle) hprog" where
  "open_publisher B cfg pub snapshot =
     (let a = ac_authorization pub; channel = ac_channel pub; owner = si_owner (ac_snapshot pub); k = hub_key channel in
     pseq (proof_check a)
     (pbind (pmap_err RH_Authorization (filter_snapshot a snapshot)) (\<lambda>filtered.
     pseq hub_lock (pseq hub_running (pseq (prune_now B)
     (pbind (hub_get (\<lambda>w. map_of (hb_slots w) k)) (\<lambda>old.
     if (case old of None \<Rightarrow> False | Some s \<Rightarrow> owner_conflict s owner) then praise RH_OwnerConflict
     else pbind (heartbeat_end cfg) (\<lambda>heartbeat.
     pseq (proof_check a) (pseq (proof_check a)
     (pbind (hub_get hb_next_id) (\<lambda>identity.
     pseq (hub_modify (insert_slot B k \<lparr>sl_channel = channel, sl_issuer = io_issuer owner, sl_subject = io_subject owner,
        sl_identity = identity, sl_snapshot = filtered,
        sl_window = \<lparr>wn_utc = na_expires_at a, wn_mono = na_expires_mono a, wn_heartbeat = heartbeat\<rparr>\<rparr>))
     (pret \<lparr>ph_channel = channel, ph_identity = identity\<rparr>))))))))))))"

record 'r RealtimeProjectSubscription =
  ps_project :: string
  ps_chan :: nat
  ps_receiver :: 'r

text \<open>The group of a project, created on first use.\<close>

definition group_entry :: "('c, 'r) broadcast_lib \<Rightarrow> hub_config \<Rightarrow> string \<Rightarrow> ('c, 'z) hub_scheme \<Rightarrow> ('c, 'z) hub_scheme" where
  "group_entry B cfg project w = (case map_of (hb_groups w) project of
       Some _ \<Rightarrow> w
     | None \<Rightarrow> w\<lparr>hb_groups := bt_insert project (hb_next_chan w) (hb_groups w),
         hb_chans := (hb_chans w)(hb_next_chan w := bc_new B (hc_capacity cfg)), hb_next_chan := Suc (hb_next_chan w)\<rparr>)"

definition subscribe ::
  "('c, 'r) broadcast_lib \<Rightarrow> hub_config \<Rightarrow> NowAuthorization \<Rightarrow> ('c, 'z, 'r RealtimeProjectSubscription) hprog" where
  "subscribe B cfg a =
     pseq (proof_check a) (pseq hub_lock (pseq hub_running (pseq (prune_now B) (pseq (proof_check a)
     (pseq (hub_modify (group_entry B cfg (na_project_id a)))
     (pbind (hub_get (\<lambda>w. the (map_of (hb_groups w) (na_project_id a)))) (\<lambda>i.
     pbind (hub_get (\<lambda>w. bc_subscribe B (hb_chans w i))) (\<lambda>(r, c).
     pseq (hub_modify (\<lambda>w. w\<lparr>hb_chans := (hb_chans w)(i := c)\<rparr>))
     (pret \<lparr>ps_project = na_project_id a, ps_chan = i, ps_receiver = r\<rparr>)))))))))"

definition candidates :: "('c, 'r) broadcast_lib \<Rightarrow> NowAuthorization \<Rightarrow> ('c, 'z, PresenceChannel list) hprog" where
  "candidates B a =
     pseq (proof_check a) (pseq hub_lock (pseq hub_running (pseq (prune_now B)
     (pbind (hub_get (\<lambda>w. map sl_channel (filter (\<lambda>s. pc_project_id (sl_channel s) = na_project_id a) (map snd (hb_slots w)))))
       (\<lambda>channels. pseq (proof_check a) (pret channels))))))"

record RealtimeHubInstance =
  hi_channel :: PresenceChannel
  hi_snapshot :: NowSnapshotData
  hi_proof_index :: nat

record RealtimeHubReplay =
  rr_project :: NowAuthorization
  rr_channels :: "AuthorizedChannel list"
  rr_instances :: "RealtimeHubInstance list"

fun unique_channels :: "string \<Rightarrow> Key list \<Rightarrow> AuthorizedChannel list \<Rightarrow> ('c, 'z, unit) hprog" where
  "unique_channels project seen [] = pret ()"
| "unique_channels project seen (c # cs) =
     pseq (proof_check (ac_authorization c))
     (if na_project_id (ac_authorization c) \<noteq> project \<or> hub_key (ac_channel c) \<in> set seen then praise RH_InvalidContext
      else unique_channels project (hub_key (ac_channel c) # seen) cs)"

text \<open>The loop over the proofs with their indices, on the slots under the lock.\<close>

fun collect_instances ::
  "Key list \<Rightarrow> (Key \<times> Slot) list \<Rightarrow> (nat \<times> AuthorizedChannel) list \<Rightarrow> RealtimeHubInstance list
     \<Rightarrow> RealtimeHubError + RealtimeHubInstance list" where
  "collect_instances cands slots [] out = Inr out"
| "collect_instances cands slots ((index, c) # cs) out =
     (let k = hub_key (ac_channel c) in
      if k \<notin> set cands then collect_instances cands slots cs out
      else case map_of slots k of
          None \<Rightarrow> collect_instances cands slots cs out
        | Some s \<Rightarrow>
            if owner_conflict s (si_owner (ac_snapshot c)) then Inl RH_OwnerConflict
            else collect_instances cands slots cs
              (out @ [\<lparr>hi_channel = sl_channel s, hi_snapshot = sl_snapshot s, hi_proof_index = index\<rparr>]))"

fun check_proofs :: "AuthorizedChannel list \<Rightarrow> ('c, 'z, unit) hprog" where
  "check_proofs [] = pret ()"
| "check_proofs (c # cs) = pseq (proof_check (ac_authorization c)) (check_proofs cs)"

definition replay_check :: "RealtimeHubReplay \<Rightarrow> ('c, 'z, unit) hprog" where
  "replay_check r = pseq (proof_check (rr_project r)) (check_proofs (rr_channels r))"

text \<open>A replay takes the lock twice: for the candidates, and for the instances among them.\<close>

definition replay_collect ::
  "('c, 'r) broadcast_lib \<Rightarrow> NowAuthorization \<Rightarrow> AuthorizedChannel list \<Rightarrow> Key list \<Rightarrow> ('c, 'z, RealtimeHubReplay) hprog" where
  "replay_collect B project channels cands =
     pseq (unique_channels (na_project_id project) [] channels)
     (pseq hub_lock (pseq hub_running (pseq (prune_now B)
     (pbind (hub_get hb_slots) (\<lambda>slots.
     pbind (plift (collect_instances cands slots (enumerate 0 channels) [])) (\<lambda>instances.
     pseq (proof_check project) (pseq (check_proofs channels)
     (let r = \<lparr>rr_project = project, rr_channels = channels,
               rr_instances = sort_key (\<lambda>i. (pc_instance_id (hi_channel i), pc_version (hi_channel i))) instances\<rparr>
      in pseq (replay_check r) (pret r)))))))))"

definition replay ::
  "('c, 'r) broadcast_lib \<Rightarrow> NowAuthorization \<Rightarrow> AuthorizedChannel list \<Rightarrow> ('c, 'z, RealtimeHubReplay) hprog" where
  "replay B project channels =
     pbind (candidates B project) (\<lambda>cands. replay_collect B project channels (map hub_key cands))"

subsection \<open>What a replay serializes\<close>

record instance_view =
  iw_instance_id :: string
  iw_version :: string
  iw_now :: NowSnapshotData

definition instance_serialize :: "RealtimeHubReplay \<Rightarrow> RealtimeHubInstance \<Rightarrow> instance_view" where
  "instance_serialize r i =
     (let project = na_mask (rr_project r); channel = na_mask (ac_authorization (rr_channels r ! hi_proof_index i))
      in \<lparr>iw_instance_id = pc_instance_id (hi_channel i), iw_version = pc_version (hi_channel i),
          iw_now = mask_sections (hi_snapshot i) (mask_task project \<and> mask_task channel)
            (mask_memory project \<and> mask_memory channel) (mask_knowledge project \<and> mask_knowledge channel)\<rparr>)"

definition replay_serialize :: "RealtimeHubReplay \<Rightarrow> ('c, 'z, string \<times> instance_view list) hprog" where
  "replay_serialize r =
     pseq (replay_check r) (pseq (replay_check r) (pret (na_project_id (rr_project r), map (instance_serialize r) (rr_instances r))))"

subsection \<open>Handles and subscriptions\<close>

definition end_reason :: "nat \<Rightarrow> ('c, 'z, unit) hprog" where
  "end_reason i = pbind (hub_get (\<lambda>w. hb_ends w i)) (\<lambda>r. case r of None \<Rightarrow> pret () | Some e \<Rightarrow> praise e)"

text \<open>The end of \<^verbatim>\<open>publish\<close>, on the slot that was found.\<close>

definition refresh_slot ::
  "('c, 'r) broadcast_lib \<Rightarrow> hub_config \<Rightarrow> RealtimePublisherHandle \<Rightarrow> AuthorizedChannel \<Rightarrow> NowSnapshotData \<Rightarrow> Slot
     \<Rightarrow> ('c, 'z, unit) hprog" where
  "refresh_slot B cfg h pub filtered slot =
     (let a = ac_authorization pub in
      if sl_identity slot \<noteq> ph_identity h then praise RH_Superseded
      else if owner_conflict slot (si_owner (ac_snapshot pub)) then praise RH_OwnerConflict
      else pbind (heartbeat_end cfg) (\<lambda>heartbeat. pseq (proof_check a)
        (hub_modify (\<lambda>w. notify_one (signal B (pc_project_id (ph_channel h))
           (w\<lparr>hb_slots := bt_insert (hub_key (ph_channel h)) (slot\<lparr>sl_snapshot := filtered,
               sl_window := \<lparr>wn_utc = na_expires_at a, wn_mono = na_expires_mono a, wn_heartbeat = heartbeat\<rparr>\<rparr>) (hb_slots w)\<rparr>))))))"

definition publish ::
  "('c, 'r) broadcast_lib \<Rightarrow> hub_config \<Rightarrow> RealtimePublisherHandle \<Rightarrow> AuthorizedChannel \<Rightarrow> NowSnapshotData \<Rightarrow> ('c, 'z, unit) hprog" where
  "publish B cfg h pub snapshot =
     (let a = ac_authorization pub in
     pseq (proof_check a)
     (if ac_channel pub \<noteq> ph_channel h then praise RH_InvalidContext
      else pbind (pmap_err RH_Authorization (filter_snapshot a snapshot)) (\<lambda>filtered.
      pseq (end_reason (ph_identity h)) (pseq hub_lock (pseq (end_reason (ph_identity h)) (pseq hub_running
      (pseq (prune_now B) (pseq (end_reason (ph_identity h))
      (pbind (hub_get (\<lambda>w. map_of (hb_slots w) (hub_key (ph_channel h)))) (\<lambda>found.
       pbind (plift (ok_or found RH_Superseded)) (refresh_slot B cfg h pub filtered)))))))))))"

definition check_active :: "('c, 'r) broadcast_lib \<Rightarrow> RealtimePublisherHandle \<Rightarrow> ('c, 'z, unit) hprog" where
  "check_active B h =
     pseq (end_reason (ph_identity h)) (pseq hub_lock (pseq (end_reason (ph_identity h)) (pseq hub_running
     (pseq (prune_now B) (pseq (end_reason (ph_identity h))
     (pbind (hub_get (\<lambda>w. map_of (hb_slots w) (hub_key (ph_channel h)))) (\<lambda>found.
        if (case found of None \<Rightarrow> False | Some s \<Rightarrow> sl_identity s = ph_identity h) then pret () else praise RH_Superseded)))))))"

text \<open>One round of waiting for the end: \<^const>\<open>None\<close> waits for the identity to change.\<close>

definition wait_inactive_round :: "('c, 'r) broadcast_lib \<Rightarrow> RealtimePublisherHandle \<Rightarrow> ('c, 'z, RealtimeHubError option) hprog" where
  "wait_inactive_round B h =
     pbind (pattempt (check_active B h)) (\<lambda>r. pret (case r of Inl reason \<Rightarrow> Some reason | Inr _ \<Rightarrow> None))"

definition handle_drop :: "('c, 'r) broadcast_lib \<Rightarrow> RealtimePublisherHandle \<Rightarrow> ('c, 'z, unit) hprog" where
  "handle_drop B h = hub_modify (hub_remove B (ph_channel h) (ph_identity h))"

definition subscription_recv ::
  "('c, 'r) broadcast_lib \<Rightarrow> 'r RealtimeProjectSubscription \<Rightarrow> ('c, 'z, (RealtimeHubSignalError + unit) option) hprog" where
  "subscription_recv B s =
     pbind (hub_get (\<lambda>w. bc_recv B (list_ex (\<lambda>(_, i). i = ps_chan s) (hb_groups w)) (ps_receiver s) (hb_chans w (ps_chan s)))) (\<lambda>(r, c).
     pseq (hub_modify (\<lambda>w. w\<lparr>hb_chans := (hb_chans w)(ps_chan s := c)\<rparr>))
     (pret (map_option (\<lambda>x. case x of Inl Lagged \<Rightarrow> Inl SG_Lagged | Inl ChannelClosed \<Rightarrow> Inl SG_Closed | Inr u \<Rightarrow> Inr u) r)))"

text \<open>Dropping a subscription first drops its receiver, then looks at the group under the lock.\<close>

definition receiver_drop :: "('c, 'r) broadcast_lib \<Rightarrow> 'r RealtimeProjectSubscription \<Rightarrow> ('c, 'z) hub_scheme \<Rightarrow> ('c, 'z) hub_scheme" where
  "receiver_drop B s w = w\<lparr>hb_chans := (hb_chans w)(ps_chan s := bc_drop B (ps_receiver s) (hb_chans w (ps_chan s)))\<rparr>"

definition group_release :: "('c, 'r) broadcast_lib \<Rightarrow> string \<Rightarrow> ('c, 'z) hub_scheme \<Rightarrow> ('c, 'z) hub_scheme" where
  "group_release B project w =
     (if hb_poisoned w then hub_close w
      else if (case map_of (hb_groups w) project of None \<Rightarrow> False | Some i \<Rightarrow> bc_count B (hb_chans w i) = 0)
        \<and> \<not> list_ex (\<lambda>(k, _). fst k = project) (hb_slots w)
      then w\<lparr>hb_groups := bt_remove project (hb_groups w)\<rparr> else w)"

definition subscription_drop :: "('c, 'r) broadcast_lib \<Rightarrow> 'r RealtimeProjectSubscription \<Rightarrow> ('c, 'z, unit) hprog" where
  "subscription_drop B s = pseq (hub_modify (receiver_drop B s)) (hub_modify (group_release B (ps_project s)))"

subsection \<open>Maintenance\<close>

text \<open>One round of the loop: \<^const>\<open>None\<close> when the loop ends, otherwise the instant until which it sleeps unless it
  is notified.\<close>

definition maintenance_round :: "('c, 'r) broadcast_lib \<Rightarrow> ('c, 'z, nat option option) hprog" where
  "maintenance_round B =
     pbind (hub_get hb_poisoned) (\<lambda>p. if p then pseq (hub_modify hub_close) (pret None)
     else pbind (hub_get hb_phase) (\<lambda>ph. if ph \<noteq> PH_Running then pret None
     else pbind now_tick (\<lambda>u. pbind now_tick (\<lambda>m.
       pseq (hub_modify (prune B (utc u) (mono m)))
       (pbind (hub_get (\<lambda>w. map (\<lambda>(_, s). window_next (sl_window s) (utc u) (mono m)) (hb_slots w))) (\<lambda>ends.
       pret (Some (if ends = [] then None else Some (Min (set ends))))))))))"

text \<open>The owner of the task closes the hub and waits for the task, whose outcome is an argument; dropping the owner,
  and the end of the task however it comes, close the hub.\<close>

definition maintenance_shutdown :: "bool \<Rightarrow> ('c, 'z, unit) hprog" where
  "maintenance_shutdown joined = pseq (hub_modify hub_close) (pguard joined RH_Unavailable)"

definition maintenance_drop :: "('c, 'z, unit) hprog" where
  "maintenance_drop = hub_modify hub_close"

subsection \<open>Runs of the hub\<close>

text \<open>What may happen to a hub: the operations, a panic under the lock, and the passing of time.  A subscription that is
  dropped gives up its receiver before it takes the lock, so its two halves are steps of their own as
  well and others may run between them.\<close>

datatype 'r hub_action =
  HA_Start bool | HA_Open AuthorizedChannel NowSnapshotData
| HA_Publish RealtimePublisherHandle AuthorizedChannel NowSnapshotData | HA_Check RealtimePublisherHandle
| HA_Drop RealtimePublisherHandle | HA_Subscribe NowAuthorization | HA_Recv "'r RealtimeProjectSubscription"
| HA_Unsubscribe "'r RealtimeProjectSubscription" | HA_Candidates NowAuthorization
| HA_Replay NowAuthorization "AuthorizedChannel list" "Key list" | HA_Round | HA_Shutdown bool | HA_Panic
| HA_Clock "nat \<Rightarrow> tick" | HA_ReceiverDrop "'r RealtimeProjectSubscription" | HA_Release "'r RealtimeProjectSubscription"

fun hub_run :: "('c, 'r) broadcast_lib \<Rightarrow> hub_config \<Rightarrow> 'r hub_action \<Rightarrow> ('c, 'z) hub_scheme \<Rightarrow> ('c, 'z) hub_scheme" where
  "hub_run B cfg (HA_Start in_runtime) w = snd (run_maintenance in_runtime w)"
| "hub_run B cfg (HA_Open pub snapshot) w = snd (open_publisher B cfg pub snapshot w)"
| "hub_run B cfg (HA_Publish h pub snapshot) w = snd (publish B cfg h pub snapshot w)"
| "hub_run B cfg (HA_Check h) w = snd (check_active B h w)"
| "hub_run B cfg (HA_Drop h) w = snd (handle_drop B h w)"
| "hub_run B cfg (HA_Subscribe a) w = snd (subscribe B cfg a w)"
| "hub_run B cfg (HA_Recv s) w = snd (subscription_recv B s w)"
| "hub_run B cfg (HA_Unsubscribe s) w = snd (subscription_drop B s w)"
| "hub_run B cfg (HA_Candidates a) w = snd (candidates B a w)"
| "hub_run B cfg (HA_Replay a channels cands) w = snd (replay_collect B a channels cands w)"
| "hub_run B cfg HA_Round w = snd (maintenance_round B w)"
| "hub_run B cfg (HA_Shutdown joined) w = snd (maintenance_shutdown joined w)"
| "hub_run B cfg HA_Panic w = w\<lparr>hb_poisoned := True\<rparr>"
| "hub_run B cfg (HA_Clock readings) w = w\<lparr>env := readings\<rparr>"
| "hub_run B cfg (HA_ReceiverDrop s) w = receiver_drop B s w"
| "hub_run B cfg (HA_Release s) w = group_release B (ps_project s) w"

text \<open>A proof is for the project of its channel: the authorizer makes no other.\<close>

definition proof_of_channel :: "AuthorizedChannel \<Rightarrow> bool" where
  "proof_of_channel c \<longleftrightarrow> na_project_id (ac_authorization c) = pc_project_id (ac_channel c)"

fun hub_admits :: "'r hub_action \<Rightarrow> bool" where
  "hub_admits (HA_Open pub snapshot) = proof_of_channel pub"
| "hub_admits (HA_Publish h pub snapshot) = proof_of_channel pub"
| "hub_admits _ = True"

inductive hub_step :: "('c, 'r) broadcast_lib \<Rightarrow> hub_config \<Rightarrow> 'r hub_action \<Rightarrow> ('c, 'z) hub_scheme \<Rightarrow> ('c, 'z) hub_scheme \<Rightarrow> bool"
  for B cfg where
  hub_stepI: "hub_admits act \<Longrightarrow> hub_step B cfg act w (hub_run B cfg act w)"

inductive hub_reachable :: "('c, 'r) broadcast_lib \<Rightarrow> hub_config \<Rightarrow> 'c hub \<Rightarrow> bool" for B cfg where
  hub_reach_new: "hub_reachable B cfg (hub_initial unused readings)"
| hub_reach_step: "hub_reachable B cfg w \<Longrightarrow> hub_step B cfg act w w' \<Longrightarrow> hub_reachable B cfg w'"

inductive_cases hub_stepE: "hub_step B cfg act w w'"

subsection \<open>The invariant\<close>

definition hub_identities :: "('c, 'z) hub_scheme \<Rightarrow> nat list" where
  "hub_identities w = map (\<lambda>(_, s). sl_identity s) (hb_slots w)"

definition slot_ok :: "Key \<times> Slot \<Rightarrow> bool" where
  "slot_ok e = (case e of (k, s) \<Rightarrow> k = hub_key (sl_channel s) \<and> nd_project_id (sl_snapshot s) = pc_project_id (sl_channel s))"

text \<open>The slots are ordered by key and each is under the key of its channel with a snapshot of its project; the
  identities that live are exactly those that own a slot; the channels of the groups are allocated; outside the
  running phase there is nothing.\<close>

definition hub_inv :: "('c, 'z) hub_scheme \<Rightarrow> bool" where
  "hub_inv w \<longleftrightarrow>
     sorted_wrt (<) (map fst (hb_slots w)) \<and> (\<forall>e \<in> set (hb_slots w). slot_ok e)
   \<and> distinct (hub_identities w)
   \<and> set (hub_identities w) = {i. i < hb_next_id w \<and> hb_ends w i = None}
   \<and> (\<forall>i. hb_next_id w \<le> i \<longrightarrow> hb_ends w i = None)
   \<and> (\<forall>(_, i) \<in> set (hb_groups w). i < hb_next_chan w)
   \<and> (hb_phase w \<noteq> PH_Running \<longrightarrow> hb_slots w = [] \<and> hb_groups w = [])"

text \<open>How a hub may change: the invariant is kept, an end reason is final, and so is closing.\<close>

definition hub_evolves :: "('c, 'z) hub_scheme \<Rightarrow> ('c, 'z) hub_scheme \<Rightarrow> bool" where
  "hub_evolves w w' \<longleftrightarrow> hub_inv w' \<and> hb_next_id w \<le> hb_next_id w'
   \<and> (\<forall>i r. hb_ends w i = Some r \<longrightarrow> hb_ends w' i = Some r)
   \<and> (hb_phase w = PH_Closed \<longrightarrow> hb_phase w' = PH_Closed)"

lemma hub_evolves_refl: "hub_inv w \<Longrightarrow> hub_evolves w w"
  by (simp add: hub_evolves_def)

lemma hub_evolves_trans: "hub_evolves u v \<Longrightarrow> hub_evolves v w \<Longrightarrow> hub_evolves u w"
  by (auto simp: hub_evolves_def)

subsection \<open>Ordered maps, lemmas\<close>

lemma map_of_bt_insert [simp]: "map_of (bt_insert k v xs) = (map_of xs)(k \<mapsto> v)"
  by (induction k v xs rule: bt_insert.induct) auto

lemma set_keys_bt_insert [simp]: "fst ` set (bt_insert k v xs) = insert k (fst ` set xs)"
  by (induction k v xs rule: bt_insert.induct) auto

lemma sorted_bt_insert: "sorted_wrt (<) (map fst xs) \<Longrightarrow> sorted_wrt (<) (map fst (bt_insert k v xs))"
proof (induction k v xs rule: bt_insert.induct)
  case (2 k v k' v' xs)
  have "\<forall>y \<in> fst ` set (bt_insert k v xs). k' < y" if "k' < k"
    using 2(2) that unfolding set_keys_bt_insert by auto
  with 2 show ?case by fastforce
qed simp

lemma sorted_bt_remove: "sorted_wrt (<) (map fst xs) \<Longrightarrow> sorted_wrt (<) (map fst (bt_remove k xs))"
  by (induction xs) (auto simp: bt_remove_def)

lemma sorted_keys_distinct:
  fixes ks :: "'k :: linorder list"
  shows "sorted_wrt (<) ks \<Longrightarrow> distinct ks"
  by (simp add: strict_sorted_iff)

lemma map_of_bt_remove [simp]: "map_of (bt_remove k xs) = (map_of xs)(k := None)"
  by (induction xs) (auto simp: bt_remove_def)

lemma set_bt_remove: "set (bt_remove k xs) = {e \<in> set xs. fst e \<noteq> k}"
  by (auto simp: bt_remove_def)

lemma set_bt_insert:
  "sorted_wrt (<) (map fst xs) \<Longrightarrow> set (bt_insert k v xs) = insert (k, v) {e \<in> set xs. fst e \<noteq> k}"
  by (induction k v xs rule: bt_insert.induct) auto

lemma set_bt_insert_subset: "e \<in> set (bt_insert k v xs) \<Longrightarrow> e = (k, v) \<or> e \<in> set xs"
  by (induction k v xs rule: bt_insert.induct) (auto split: if_splits)

lemma map_of_sorted_iff:
  "sorted_wrt (<) (map fst (xs :: ('k :: linorder \<times> 'v) list)) \<Longrightarrow> map_of xs k = Some v \<longleftrightarrow> (k, v) \<in> set xs"
  by (metis map_of_eq_Some_iff sorted_keys_distinct)


subsection \<open>Every transition keeps the invariant\<close>

lemma hub_identities_image: "set (hub_identities w) = (\<lambda>(_, s). sl_identity s) ` set (hb_slots w)"
  by (simp add: hub_identities_def)

lemma identities_distinct_iff:
  assumes "sorted_wrt (<) (map fst (hb_slots w))"
  shows "distinct (hub_identities w) \<longleftrightarrow> inj_on (\<lambda>(_, s). sl_identity s) (set (hb_slots w))"
  using sorted_keys_distinct [OF assms] by (simp add: hub_identities_def distinct_map)

lemma signal_fields [simp]:
  "hb_slots (signal B p w) = hb_slots w" "hb_ends (signal B p w) = hb_ends w" "hb_next_id (signal B p w) = hb_next_id w"
  "hb_phase (signal B p w) = hb_phase w" "hb_groups (signal B p w) = hb_groups w" "hb_poisoned (signal B p w) = hb_poisoned w"
  "hb_notified (signal B p w) = hb_notified w" "hb_next_chan (signal B p w) = hb_next_chan w" "env (signal B p w) = env w"
  by (simp_all add: signal_def split: option.splits)

lemma end_identity_fields [simp]:
  "hb_slots (end_identity i r w) = hb_slots w" "hb_ends (end_identity i r w) = (hb_ends w)(i := Some r)"
  "hb_next_id (end_identity i r w) = hb_next_id w" "hb_phase (end_identity i r w) = hb_phase w"
  "hb_groups (end_identity i r w) = hb_groups w" "hb_poisoned (end_identity i r w) = hb_poisoned w"
  "hb_chans (end_identity i r w) = hb_chans w" "hb_next_chan (end_identity i r w) = hb_next_chan w" "env (end_identity i r w) = env w"
  by (simp_all add: end_identity_def)

lemma notify_one_fields [simp]:
  "hb_slots (notify_one w) = hb_slots w" "hb_ends (notify_one w) = hb_ends w" "hb_next_id (notify_one w) = hb_next_id w"
  "hb_phase (notify_one w) = hb_phase w" "hb_groups (notify_one w) = hb_groups w" "hb_poisoned (notify_one w) = hb_poisoned w"
  "hb_chans (notify_one w) = hb_chans w" "hb_next_chan (notify_one w) = hb_next_chan w" "env (notify_one w) = env w"
  by (simp_all add: notify_one_def)

lemma prune_groups_fields [simp]:
  "hb_slots (prune_groups B w) = hb_slots w" "hb_ends (prune_groups B w) = hb_ends w"
  "hb_next_id (prune_groups B w) = hb_next_id w" "hb_phase (prune_groups B w) = hb_phase w"
  "hb_poisoned (prune_groups B w) = hb_poisoned w" "hb_chans (prune_groups B w) = hb_chans w" "hb_next_chan (prune_groups B w) = hb_next_chan w" "env (prune_groups B w) = env w"
  by (simp_all add: prune_groups_def)

text \<open>Changes that the invariant does not see.\<close>

lemma hub_evolves_unseen:
  assumes "hub_inv w" "hb_slots w' = hb_slots w" "hb_ends w' = hb_ends w" "hb_next_id w' = hb_next_id w"
    "hb_phase w' = hb_phase w" "hb_next_chan w \<le> hb_next_chan w'"
    "\<forall>e \<in> set (hb_groups w'). e \<in> set (hb_groups w) \<or> hb_phase w = PH_Running \<and> snd e < hb_next_chan w'"
  shows "hub_evolves w w'"
proof -
  have "\<forall>(_, i) \<in> set (hb_groups w'). i < hb_next_chan w'"
    using assms(1,6,7) unfolding hub_inv_def by (fastforce dest: order_less_le_trans)
  moreover have "hb_groups w' = []" if "hb_phase w \<noteq> PH_Running"
    using assms(1,7) that by (cases "hb_groups w'") (auto simp: hub_inv_def)
  ultimately show ?thesis
    using assms(1-5) by (simp add: hub_evolves_def hub_inv_def hub_identities_def)
qed

lemma hub_evolves_signal: "hub_inv w \<Longrightarrow> hub_evolves w (signal B p w)"
  by (rule hub_evolves_unseen) simp_all

lemma hub_evolves_notify: "hub_inv w \<Longrightarrow> hub_evolves w (notify_one w)"
  by (rule hub_evolves_unseen) simp_all

lemma hub_evolves_prune_groups: "hub_inv w \<Longrightarrow> hub_evolves w (prune_groups B w)"
  by (rule hub_evolves_unseen) (simp_all add: prune_groups_def)

lemma hub_evolves_remove:
  assumes inv: "hub_inv w" and found: "map_of (hb_slots w) k = Some s"
  shows "hub_evolves w (end_identity (sl_identity s) r (w\<lparr>hb_slots := bt_remove k (hb_slots w)\<rparr>))" (is "hub_evolves w ?w")
proof -
  let ?f = "\<lambda>(_ :: Key, s). sl_identity s"
  have sorted: "sorted_wrt (<) (map fst (hb_slots w))" and inj: "inj_on ?f (set (hb_slots w))"
    and ids: "?f ` set (hb_slots w) = {i. i < hb_next_id w \<and> hb_ends w i = None}"
    using inv identities_distinct_iff by (auto simp: hub_inv_def hub_identities_image)
  have "(k, s) \<in> set (hb_slots w)" using found map_of_sorted_iff [OF sorted] by simp
  then have rest: "set (bt_remove k (hb_slots w)) = set (hb_slots w) - {(k, s)}"
    using sorted_keys_distinct [OF sorted] by (auto simp: set_bt_remove dest: eq_key_imp_eq_value)
  have "?f ` set (bt_remove k (hb_slots w)) = {i. i < hb_next_id w \<and> hb_ends w i = None} - {sl_identity s}"
    unfolding rest ids [symmetric] using inj_on_image_set_diff [OF inj, of "set (hb_slots w)" "{(k, s)}"] \<open>(k, s) \<in> set (hb_slots w)\<close> by auto
  moreover have "inj_on ?f (set (bt_remove k (hb_slots w)))" using inj rest by (auto intro: inj_on_subset)
  moreover have "sl_identity s \<in> {i. i < hb_next_id w \<and> hb_ends w i = None}"
    using \<open>(k, s) \<in> set (hb_slots w)\<close> unfolding ids [symmetric] by force
  ultimately show ?thesis
    using inv rest sorted_bt_remove [OF sorted, of k]
    by (auto simp: hub_evolves_def hub_inv_def hub_identities_image identities_distinct_iff bt_remove_def)
qed

lemma hub_evolves_inv: "hub_evolves w w' \<Longrightarrow> hub_inv w'"
  by (simp add: hub_evolves_def)

lemma hub_evolves_then: "hub_evolves u v \<Longrightarrow> (hub_inv v \<Longrightarrow> hub_evolves v w) \<Longrightarrow> hub_evolves u w"
  using hub_evolves_inv hub_evolves_trans by blast

lemma hub_evolves_chain:
  "hub_evolves u v \<Longrightarrow> hub_evolves u (signal B p v)" "hub_evolves u v \<Longrightarrow> hub_evolves u (notify_one v)"
  "hub_evolves u v \<Longrightarrow> hub_evolves u (prune_groups B v)"
  using hub_evolves_then hub_evolves_signal hub_evolves_notify hub_evolves_prune_groups by metis+

lemma hub_evolves_expire: "hub_inv w \<Longrightarrow> hub_evolves w (expire_slot B u m k w)"
  by (cases "map_of (hb_slots w) k") (simp_all add: expire_slot_def hub_evolves_refl hub_evolves_chain hub_evolves_remove)

lemma hub_evolves_fold:
  assumes "\<And>x w. hub_inv w \<Longrightarrow> hub_evolves w (f x w)"
  shows "hub_inv w \<Longrightarrow> hub_evolves w (fold f xs w)"
proof (induction xs arbitrary: w)
  case (Cons x xs)
  have "hub_evolves w (fold f xs (f x w))"
    by (rule hub_evolves_then [OF assms [OF Cons.prems]]) (rule Cons.IH)
  then show ?case by simp
qed (simp add: hub_evolves_refl)

lemma hub_evolves_prune: "hub_inv w \<Longrightarrow> hub_evolves w (prune B u m w)"
  unfolding prune_def Let_def by (intro hub_evolves_chain hub_evolves_fold hub_evolves_expire)

lemma fold_end_fields:
  fixes w :: "('c, 'z) hub_scheme"
  shows "hb_next_id (fold (\<lambda>(_, s). end_identity (sl_identity s) r) xs w) = hb_next_id w
    \<and> hb_phase (fold (\<lambda>(_, s). end_identity (sl_identity s) r) xs w) = hb_phase w
    \<and> hb_ends (fold (\<lambda>(_, s). end_identity (sl_identity s) r) xs w)
        = (\<lambda>i. if i \<in> (\<lambda>(_ :: Key, s). sl_identity s) ` set xs then Some r else hb_ends w i)"
  by (induction xs arbitrary: w) (auto simp: fun_eq_iff)

lemma hub_close_fields:
  "hb_slots (hub_close w) = []" "hb_groups (hub_close w) = []" "hb_phase (hub_close w) = PH_Closed"
  "hb_next_id (hub_close w) = hb_next_id w"
  "hb_ends (hub_close w) = (\<lambda>i. if i \<in> set (hub_identities w) then Some RH_Closed else hb_ends w i)"
  by (simp_all add: hub_close_def fold_end_fields hub_identities_image cong: if_cong)

lemma hub_evolves_close: "hub_inv w \<Longrightarrow> hub_evolves w (hub_close w)"
  by (auto simp: hub_evolves_def hub_inv_def hub_close_fields hub_identities_def split: if_splits)

lemma hub_evolves_hub_remove: "hub_inv w \<Longrightarrow> hub_evolves w (hub_remove B c i w)"
  by (cases "map_of (hb_slots w) (hub_key c)")
    (auto simp: hub_remove_def Let_def hub_evolves_refl hub_evolves_close hub_evolves_chain hub_evolves_remove)

text \<open>A new slot, and a slot with a new snapshot.\<close>

lemma hub_evolves_insert_slot:
  assumes inv: "hub_inv w" and run: "hb_phase w = PH_Running" and slot: "slot_ok (k, slot)" "sl_identity slot = hb_next_id w"
  shows "hub_evolves w (insert_slot B k slot w)"
proof -
  let ?f = "\<lambda>(_ :: Key, s). sl_identity s"
  let ?w0 = "case map_of (hb_slots w) k of None \<Rightarrow> w
    | Some s \<Rightarrow> end_identity (sl_identity s) RH_Superseded (w\<lparr>hb_slots := bt_remove k (hb_slots w)\<rparr>)"
  let ?w1 = "?w0\<lparr>hb_slots := bt_insert k slot (hb_slots w), hb_next_id := Suc (hb_next_id w)\<rparr>"
  have step: "hub_evolves w ?w0" using inv by (cases "map_of (hb_slots w) k") (simp_all add: hub_evolves_refl hub_evolves_remove)
  have sorted: "sorted_wrt (<) (map fst (hb_slots w))" using inv by (simp add: hub_inv_def)
  have rest: "set (hb_slots ?w0) = {e \<in> set (hb_slots w). fst e \<noteq> k}"
    by (auto simp: set_bt_remove map_of_eq_None_iff split: option.splits)
  have fields: "hb_next_id ?w0 = hb_next_id w" "hb_phase ?w0 = PH_Running" using run by (simp_all split: option.splits)
  have groups: "\<forall>(_, i) \<in> set (hb_groups ?w0). i < hb_next_chan ?w0"
    using hub_evolves_inv [OF step] unfolding hub_inv_def by blast
  have w0: "sorted_wrt (<) (map fst (hb_slots ?w0))" "inj_on ?f (set (hb_slots ?w0))"
    "?f ` set (hb_slots ?w0) = {i. i < hb_next_id w \<and> hb_ends ?w0 i = None}"
    "\<forall>i. hb_next_id w \<le> i \<longrightarrow> hb_ends ?w0 i = None" "\<forall>e \<in> set (hb_slots ?w0). slot_ok e"
    using hub_evolves_inv [OF step] identities_distinct_iff [of ?w0] fields(1) unfolding hub_inv_def hub_identities_image by simp_all
  have ins: "set (hb_slots ?w1) = insert (k, slot) (set (hb_slots ?w0))"
    using set_bt_insert [OF sorted] rest by simp
  have "hub_inv ?w1"
    unfolding hub_inv_def hub_identities_image
  proof (intro conjI, goal_cases)
    case 1
    show ?case using sorted_bt_insert [OF sorted] by simp
  next
    case 3
    have "?f (k, slot) \<notin> ?f ` set (hb_slots ?w0)" unfolding w0(3) using slot(2) by simp
    then have "inj_on ?f (set (hb_slots ?w1))" unfolding ins using w0(2) by (auto simp: inj_on_insert)
    then show ?case using identities_distinct_iff [of ?w1] sorted_bt_insert [OF sorted] by simp
  next
    case 4
    show ?case unfolding ins image_insert w0(3) using slot(2) w0(4) by (auto simp: less_Suc_eq)
  next
    case 6
    show ?case using groups by simp
  qed (use ins slot(1) w0(4,5) fields in auto)
  then have "hub_evolves w ?w1" using step fields by (auto simp: hub_evolves_def)
  moreover have "insert_slot B k slot w = notify_one (signal B (pc_project_id (sl_channel slot)) ?w1)"
    unfolding insert_slot_def Let_def
    by (intro arg_cong [where f = notify_one] arg_cong [where f = "signal B (pc_project_id (sl_channel slot))"] hub.equality)
      (simp_all add: end_identity_def split: option.splits)
  ultimately show ?thesis
    by (simp only: hub_evolves_chain)
qed

lemma hub_evolves_update_slot:
  assumes inv: "hub_inv w" and found: "map_of (hb_slots w) k = Some s" and s': "slot_ok (k, s')" "sl_identity s' = sl_identity s"
  shows "hub_evolves w (w\<lparr>hb_slots := bt_insert k s' (hb_slots w)\<rparr>)" (is "hub_evolves w ?w")
proof -
  let ?f = "\<lambda>(_ :: Key, s). sl_identity s"
  have sorted: "sorted_wrt (<) (map fst (hb_slots w))" and inj: "inj_on ?f (set (hb_slots w))"
    using inv identities_distinct_iff by (auto simp: hub_inv_def)
  have mem: "(k, s) \<in> set (hb_slots w)" using found map_of_sorted_iff [OF sorted] by simp
  have rest: "{e \<in> set (hb_slots w). fst e \<noteq> k} = set (hb_slots w) - {(k, s)}"
    using mem sorted_keys_distinct [OF sorted] by (auto dest: eq_key_imp_eq_value)
  have new: "set (hb_slots ?w) = insert (k, s') (set (hb_slots w) - {(k, s)})"
    using set_bt_insert [OF sorted] rest by simp
  have "?f ` set (hb_slots ?w) = ?f ` set (hb_slots w)"
    unfolding new using mem s'(2) by (auto simp: image_iff)
  moreover have "inj_on ?f (set (hb_slots ?w))"
  proof -
    have "?f (k, s') \<notin> ?f ` (set (hb_slots w) - {(k, s)})"
      using inj_on_image_set_diff [OF inj, of "set (hb_slots w)" "{(k, s)}"] mem s'(2) by auto
    then show ?thesis unfolding new using inj by (auto simp: inj_on_insert intro: inj_on_subset)
  qed
  moreover have "hb_phase w = PH_Running" using inv mem by (auto simp: hub_inv_def)
  ultimately show ?thesis
    using inv s'(1) new sorted_bt_insert [OF sorted, of k s']
    by (auto simp: hub_evolves_def hub_inv_def hub_identities_image identities_distinct_iff)
qed

lemma hub_evolves_env [simp]: "hub_evolves w0 (w\<lparr>env := e\<rparr>) = hub_evolves w0 w"
  by (simp add: hub_evolves_def hub_inv_def hub_identities_def)

lemma fold_expire_fields:
  "hb_phase (fold (expire_slot B u m) ks w) = hb_phase w" "hb_poisoned (fold (expire_slot B u m) ks w) = hb_poisoned w"
  "hb_groups (fold (expire_slot B u m) ks w) = hb_groups w" "hb_next_id (fold (expire_slot B u m) ks w) = hb_next_id w"
  by (induction ks arbitrary: w) (simp_all add: expire_slot_def split: option.splits)

lemma prune_fields [simp]:
  "hb_phase (prune B u m w) = hb_phase w" "hb_poisoned (prune B u m w) = hb_poisoned w" "hb_next_id (prune B u m w) = hb_next_id w"
  by (simp_all add: prune_def Let_def fold_expire_fields)

lemma hub_evolves_group_entry: "hub_inv w \<Longrightarrow> hb_phase w = PH_Running \<Longrightarrow> hub_evolves w (group_entry B cfg p w)"
  by (rule hub_evolves_unseen) (auto simp: group_entry_def split: option.splits dest: set_bt_insert_subset)

lemma hub_evolves_chans: "hub_inv w \<Longrightarrow> hub_evolves w (w\<lparr>hb_chans := c\<rparr>)"
  by (rule hub_evolves_unseen) simp_all

lemma hub_evolves_release: "hub_inv w \<Longrightarrow> hub_evolves w (group_release B p w)"
  by (auto simp: group_release_def hub_evolves_close bt_remove_def intro!: hub_evolves_unseen)

lemma hub_initial_inv: "hub_inv (hub_initial unused readings)"
  by (simp add: hub_inv_def hub_initial_def hub_identities_def)

lemma hub_evolves_start: "hub_inv w \<Longrightarrow> hb_phase w = PH_Dormant \<Longrightarrow> hub_evolves w (w\<lparr>hb_phase := PH_Running\<rparr>)"
  by (auto simp: hub_evolves_def hub_inv_def hub_identities_def)

lemma hub_evolves_refresh:
  assumes inv: "hub_inv w" and found: "map_of (hb_slots w) (hub_key c) = Some slot" and "nd_project_id filtered = pc_project_id c"
  shows "hub_evolves w (notify_one (signal B p
    (w\<lparr>hb_slots := bt_insert (hub_key c) (slot\<lparr>sl_snapshot := filtered, sl_window := win\<rparr>) (hb_slots w)\<rparr>)))"
proof -
  have "(hub_key c, slot) \<in> set (hb_slots w)" using map_of_SomeD [OF found] .
  with inv have "slot_ok (hub_key c, slot)" unfolding hub_inv_def by blast
  then have "slot_ok (hub_key c, slot\<lparr>sl_snapshot := filtered, sl_window := win\<rparr>)"
    using assms(3) by (auto simp: slot_ok_def hub_key_def)
  then have "hub_evolves w (w\<lparr>hb_slots := bt_insert (hub_key c) (slot\<lparr>sl_snapshot := filtered, sl_window := win\<rparr>) (hb_slots w)\<rparr>)"
    using hub_evolves_update_slot [OF inv found] by simp
  then show ?thesis by (simp only: hub_evolves_chain)
qed

end
