(* ===== verification/Hub_Runs.thy ===== *)
theory Hub_Runs
  imports Realtime_Hub
begin

text \<open>
  Runs of the realtime hub.  A relation between states that is kept by the transitions under the
  lock is kept by every operation, whatever it returns: the locale \<^verbatim>\<open>hub_evolution\<close> states the
  transitions and derives the operations once, and is interpreted twice, on the evolution of the
  hub (its invariant, final end reasons, final closing) and on what a subscription is told.
\<close>

subsection \<open>Programs of the hub\<close>

text \<open>\<^verbatim>\<open>hspec P p Q E\<close>: from a state with \<^verbatim>\<open>P\<close> the program ends with \<^verbatim>\<open>Q\<close> of its value and state, or with an error
  in a state with \<^verbatim>\<open>E\<close>.\<close>

definition hspec :: "('s \<Rightarrow> bool) \<Rightarrow> ('s \<Rightarrow> ('e + 'a) \<times> 's) \<Rightarrow> ('a \<Rightarrow> 's \<Rightarrow> bool) \<Rightarrow> ('s \<Rightarrow> bool) \<Rightarrow> bool" where
  "hspec P p Q E \<longleftrightarrow> (\<forall>w. P w \<longrightarrow> (case p w of (Inl _, w') \<Rightarrow> E w' | (Inr x, w') \<Rightarrow> Q x w'))"

lemma hspec_pbind: "hspec P p R E \<Longrightarrow> (\<And>x. hspec (R x) (f x) Q E) \<Longrightarrow> hspec P (pbind p f) Q E"
  unfolding hspec_def pbind_def by (fastforce split: prod.splits sum.splits)

lemma hspec_pseq: "hspec P p (\<lambda>_. R) E \<Longrightarrow> hspec R q Q E \<Longrightarrow> hspec P (pseq p q) Q E"
  unfolding pseq_def by (rule hspec_pbind)

lemma hspec_pret: "(\<And>w. P w \<Longrightarrow> Q x w) \<Longrightarrow> hspec P (pret x) Q E"
  by (simp add: hspec_def pret_def)

lemma hspec_praise: "(\<And>w. P w \<Longrightarrow> E w) \<Longrightarrow> hspec P (praise e) Q E"
  by (simp add: hspec_def praise_def)

lemma hspec_plift: "(\<And>w. P w \<Longrightarrow> E w) \<Longrightarrow> (\<And>x w. r = Inr x \<Longrightarrow> P w \<Longrightarrow> Q x w) \<Longrightarrow> hspec P (plift r) Q E"
  by (cases r) (simp_all add: hspec_def plift_def)

lemma hspec_pguard: "(\<And>w. P w \<Longrightarrow> E w) \<Longrightarrow> (\<And>w. b \<Longrightarrow> P w \<Longrightarrow> Q () w) \<Longrightarrow> hspec P (pguard b e) Q E"
  by (cases b) (simp_all add: hspec_pret hspec_praise)

lemma hspec_get: "(\<And>w. P w \<Longrightarrow> Q (f w) w) \<Longrightarrow> hspec P (hub_get f) Q E"
  by (simp add: hspec_def hub_get_def)

lemma hspec_modify: "(\<And>w. P w \<Longrightarrow> Q () (f w)) \<Longrightarrow> hspec P (hub_modify f) Q E"
  by (simp add: hspec_def hub_modify_def)

lemma hspec_err: "hspec P p Q E \<Longrightarrow> hspec P p Q (\<lambda>_. True)"
  by (auto simp: hspec_def split: prod.splits sum.splits)

lemma hspec_if: "hspec P p Q E \<Longrightarrow> hspec P q Q E \<Longrightarrow> hspec P (if b then p else q) Q E"
  by simp

lemma hspec_pre: "hspec P' p Q E \<Longrightarrow> (\<And>w. P w \<Longrightarrow> P' w) \<Longrightarrow> hspec P p Q E"
  by (auto simp: hspec_def)

lemma hspec_snd: "hspec P p (\<lambda>_. Q) Q \<Longrightarrow> P w \<Longrightarrow> Q (snd (p w))"
  by (cases "p w") (auto simp: hspec_def split: sum.splits prod.splits)

text \<open>A program that only reads its surroundings keeps every predicate that does not see them.\<close>

lemma hspec_reads:
  assumes "reads_only p" "\<And>w e. P (w\<lparr>env := e\<rparr>) = P w" "\<And>w. P w \<Longrightarrow> E w"
  shows "hspec P p (\<lambda>_. P) E"
  unfolding hspec_def
proof (intro allI impI)
  fix w assume "P w"
  have "advances w (snd (p w))" using assms(1) by (simp add: reads_only_def)
  then have "P (snd (p w))" using assms(2) \<open>P w\<close> by (auto simp: advances_def)
  then show "case p w of (Inl _, w') \<Rightarrow> E w' | (Inr x, w') \<Rightarrow> P w'" using assms(3) by (auto split: prod.splits sum.splits)
qed

lemmas reads_intros = reads_only_pbind reads_only_pmap_err reads_only_if

lemma reads_only_check_deadline [simp]: "reads_only (check_deadline dl)"
  by (auto simp: check_deadline_def deadline_check_def intro!: reads_intros)

lemma reads_only_ba_check [simp]: "reads_only (ba_check p)"
  by (auto simp: ba_check_def ba_check_deadline_def deadline_check_def pseq_def intro!: reads_intros)

lemma reads_only_na_check [simp]: "reads_only (na_check a)"
  by (auto simp: na_check_def pseq_def split: ChannelPrincipal.splits intro!: reads_intros)

lemma reads_only_proof_check [simp]: "reads_only (proof_check a)"
  by (auto simp: proof_check_def intro!: reads_intros)

lemma reads_only_filter_snapshot [simp]: "reads_only (filter_snapshot a snapshot)"
  by (auto simp: filter_snapshot_def pseq_def Let_def intro!: reads_intros)

lemma reads_only_heartbeat_end [simp]: "reads_only (heartbeat_end cfg)"
  by (auto simp: heartbeat_end_def intro!: reads_intros)

lemma reads_only_check_proofs [simp]: "reads_only (check_proofs cs)"
  by (induction cs) (auto simp: pseq_def intro!: reads_intros)

lemma reads_only_unique_channels [simp]: "reads_only (unique_channels project seen cs)"
  by (induction cs arbitrary: seen) (auto simp: pseq_def intro!: reads_intros)

lemma reads_only_replay_check [simp]: "reads_only (replay_check r)"
  by (auto simp: replay_check_def pseq_def intro!: reads_intros)

lemma reads_only_hub_get [simp]: "reads_only (hub_get f)"
  by (simp add: reads_only_def hub_get_def)

lemma reads_only_hub_lock [simp]: "reads_only hub_lock"
  unfolding hub_lock_def by (auto intro!: reads_intros)

lemma reads_only_end_reason [simp]: "reads_only (end_reason i)"
  unfolding end_reason_def by (auto intro!: reads_intros split: option.splits)

lemma filter_snapshot_project: "filter_snapshot a snapshot w = (Inr s, w') \<Longrightarrow> nd_project_id s = na_project_id a"
  by (auto simp: filter_snapshot_def prog_ok Let_def mask_sections_def split: if_splits)

subsection \<open>Relations that the operations keep\<close>

text \<open>Programs that stay in a relation to the state they start from, from every state with the invariant and
  from the states of a running hub.\<close>

definition hub_keeps :: "(('c, 'z) hub_scheme \<Rightarrow> ('c, 'z) hub_scheme \<Rightarrow> bool) \<Rightarrow> ('c, 'z, 'a) hprog \<Rightarrow> bool" where
  "hub_keeps R p \<longleftrightarrow> (\<forall>w0. hspec (R w0) p (\<lambda>_. R w0) (R w0))"

definition runs_from :: "(('c, 'z) hub_scheme \<Rightarrow> ('c, 'z) hub_scheme \<Rightarrow> bool) \<Rightarrow> ('c, 'z) hub_scheme \<Rightarrow> ('c, 'z) hub_scheme \<Rightarrow> bool" where
  "runs_from R w0 w \<longleftrightarrow> R w0 w \<and> hb_phase w = PH_Running"

definition run_keeps :: "(('c, 'z) hub_scheme \<Rightarrow> ('c, 'z) hub_scheme \<Rightarrow> bool) \<Rightarrow> ('c, 'z, 'a) hprog \<Rightarrow> bool" where
  "run_keeps R p \<longleftrightarrow> (\<forall>w0. hspec (runs_from R w0) p (\<lambda>_. R w0) (R w0))"

locale evolution =
  fixes R :: "('c, 'z) hub_scheme \<Rightarrow> ('c, 'z) hub_scheme \<Rightarrow> bool"
  assumes R_refl: "hub_inv w \<Longrightarrow> R w w"
    and R_trans: "R u v \<Longrightarrow> R v w \<Longrightarrow> R u w"
    and R_inv: "R u v \<Longrightarrow> hub_inv v"
    and R_env [simp]: "R w0 (w\<lparr>env := e\<rparr>) = R w0 w"
begin

lemma R_then: "R u v \<Longrightarrow> (hub_inv v \<Longrightarrow> R v w) \<Longrightarrow> R u w"
  using R_trans R_inv by blast

lemma runs_from_env [simp]: "runs_from R w0 (w\<lparr>env := e\<rparr>) = runs_from R w0 w"
  by (simp add: runs_from_def)

lemma keeps_snd: "hub_keeps R p \<Longrightarrow> hub_inv w \<Longrightarrow> R w (snd (p w))"
  unfolding hub_keeps_def using hspec_snd R_refl by metis

lemma keeps_reads: "reads_only p \<Longrightarrow> hub_keeps R p"
  unfolding hub_keeps_def by (intro allI hspec_reads) simp_all

lemma keep_bind: "hub_keeps R p \<Longrightarrow> (\<And>x. hub_keeps R (f x)) \<Longrightarrow> hub_keeps R (pbind p f)"
  unfolding hub_keeps_def using hspec_pbind by meson

lemma keep_seq: "hub_keeps R p \<Longrightarrow> hub_keeps R q \<Longrightarrow> hub_keeps R (pseq p q)"
  by (simp add: pseq_def keep_bind)

lemma keeps_if: "hub_keeps R p \<Longrightarrow> hub_keeps R q \<Longrightarrow> hub_keeps R (if b then p else q)"
  by simp

lemma keeps_modify: "(\<And>w. hub_inv w \<Longrightarrow> R w (f w)) \<Longrightarrow> hub_keeps R (hub_modify f)"
  unfolding hub_keeps_def by (auto intro!: hspec_modify intro: R_then)

lemma keep_bind_ok:
  assumes "reads_only p" "\<And>x w w'. p w = (Inr x, w') \<Longrightarrow> hub_keeps R (f x)"
  shows "hub_keeps R (pbind p f)"
proof -
  have "hspec (R w0) p (\<lambda>x w. R w0 w \<and> (\<exists>w1 w2. p w1 = (Inr x, w2))) (R w0)" for w0
    using hspec_reads [OF assms(1), of "R w0" "R w0"] unfolding hspec_def by (fastforce split: prod.splits sum.splits)
  moreover have "hspec (\<lambda>w. R w0 w \<and> (\<exists>w1 w2. p w1 = (Inr x, w2))) (f x) (\<lambda>_. R w0) (R w0)" for w0 x
  proof (cases "\<exists>w1 w2. p w1 = (Inr x, w2)")
    case True
    then have "hub_keeps R (f x)" using assms(2) by blast
    then show ?thesis by (auto simp: hub_keeps_def intro: hspec_pre)
  qed (simp add: hspec_def)
  ultimately show ?thesis unfolding hub_keeps_def using hspec_pbind by meson
qed

lemma runs_reads: "reads_only p \<Longrightarrow> hspec (runs_from R w0) p (\<lambda>_. runs_from R w0) (R w0)"
  by (rule hspec_reads) (simp_all add: runs_from_def)

lemma keeps_running: "run_keeps R p \<Longrightarrow> hub_keeps R (pseq hub_running p)"
proof -
  have "hspec (R w0) hub_running (\<lambda>_. runs_from R w0) (R w0)" for w0
    by (auto simp: hspec_def hub_running_def hub_get_def pbind_def pret_def praise_def runs_from_def split: Phase.splits)
  then show "run_keeps R p \<Longrightarrow> hub_keeps R (pseq hub_running p)"
    unfolding hub_keeps_def run_keeps_def using hspec_pseq by blast
qed

lemma run_keeps_pseq: "reads_only p \<Longrightarrow> run_keeps R q \<Longrightarrow> run_keeps R (pseq p q)"
  unfolding run_keeps_def using hspec_pseq [OF runs_reads] by blast

lemma run_keeps_pbind: "reads_only p \<Longrightarrow> (\<And>x. run_keeps R (f x)) \<Longrightarrow> run_keeps R (pbind p f)"
  unfolding run_keeps_def using hspec_pbind [OF runs_reads] by meson

lemma run_keeps_if: "run_keeps R p \<Longrightarrow> run_keeps R q \<Longrightarrow> run_keeps R (if b then p else q)"
  by simp

lemma run_keeps_weak: "hub_keeps R p \<Longrightarrow> run_keeps R p"
  unfolding run_keeps_def hub_keeps_def by (auto simp: runs_from_def intro: hspec_pre)

lemma run_keeps_reads: "reads_only p \<Longrightarrow> run_keeps R p"
  by (rule run_keeps_weak) (rule keeps_reads)

lemma run_keeps_modify:
  assumes "\<And>w. hub_inv w \<Longrightarrow> hb_phase w = PH_Running \<Longrightarrow> R w (f w)" "hub_keeps R q"
  shows "run_keeps R (pseq (hub_modify f) q)"
  unfolding run_keeps_def
proof
  fix w0
  have "hspec (runs_from R w0) (hub_modify f) (\<lambda>_. R w0) (R w0)"
    by (rule hspec_modify) (auto simp: runs_from_def intro: R_then assms(1))
  then show "hspec (runs_from R w0) (pseq (hub_modify f) q) (\<lambda>_. R w0) (R w0)"
    by (rule hspec_pseq) (use assms(2) in \<open>simp add: hub_keeps_def\<close>)
qed

lemma run_keeps_found:
  fixes f :: "Slot option \<Rightarrow> ('c, 'z, 'a) hprog"
  assumes "\<And>found w0. hspec (\<lambda>w. runs_from R w0 w \<and> map_of (hb_slots w) k = found) (f found) (\<lambda>_. R w0) (R w0)"
  shows "run_keeps R (pbind (hub_get (\<lambda>w. map_of (hb_slots w) k)) f)"
  unfolding run_keeps_def
proof
  fix w0 :: "('c, 'z) hub_scheme"
  have "hspec (runs_from R w0) (hub_get (\<lambda>w. map_of (hb_slots w) k)) (\<lambda>found w. runs_from R w0 w \<and> map_of (hb_slots w) k = found) (R w0)"
    by (rule hspec_get) simp
  then show "hspec (runs_from R w0) (pbind (hub_get (\<lambda>w. map_of (hb_slots w) k)) f) (\<lambda>_. R w0) (R w0)"
    by (rule hspec_pbind) (rule assms)
qed

end

text \<open>The transitions under the lock, except those of one receiver.\<close>

locale hub_evolution = evolution R
  for R :: "('c, 'z) hub_scheme \<Rightarrow> ('c, 'z) hub_scheme \<Rightarrow> bool" +
  fixes B :: "('c, 'r) broadcast_lib"
  assumes R_start: "hub_inv w \<Longrightarrow> hb_phase w = PH_Dormant \<Longrightarrow> R w (w\<lparr>hb_phase := PH_Running\<rparr>)"
    and R_prune: "hub_inv w \<Longrightarrow> R w (prune B u m w)"
    and R_close: "hub_inv w \<Longrightarrow> R w (hub_close w)"
    and R_remove: "hub_inv w \<Longrightarrow> R w (hub_remove B c i w)"
    and R_insert: "hub_inv w \<Longrightarrow> hb_phase w = PH_Running \<Longrightarrow> slot_ok (k, slot) \<Longrightarrow> sl_identity slot = hb_next_id w
      \<Longrightarrow> R w (insert_slot B k slot w)"
    and R_refresh: "hub_inv w \<Longrightarrow> map_of (hb_slots w) (hub_key c) = Some slot \<Longrightarrow> nd_project_id filtered = pc_project_id c
      \<Longrightarrow> R w (notify_one (signal B (pc_project_id c)
            (w\<lparr>hb_slots := bt_insert (hub_key c) (slot\<lparr>sl_snapshot := filtered, sl_window := win\<rparr>) (hb_slots w)\<rparr>)))"
    and R_entry: "hub_inv w \<Longrightarrow> hb_phase w = PH_Running \<Longrightarrow> R w (group_entry B cfg p w)"
    and R_join: "hub_inv w \<Longrightarrow> R w (w\<lparr>hb_chans := (hb_chans w)(j := snd (bc_subscribe B (hb_chans w j)))\<rparr>)"
    and R_panic: "hub_inv w \<Longrightarrow> R w (w\<lparr>hb_poisoned := True\<rparr>)"
begin

lemma run_keeps_prune: "run_keeps R p \<Longrightarrow> run_keeps R (pseq (prune_now B) p)"
proof -
  have "hspec (runs_from R w0) (prune_now B) (\<lambda>_. runs_from R w0) (R w0)" for w0
    unfolding prune_now_def
    by (intro hspec_pbind [OF runs_reads] hspec_modify) (auto simp: runs_from_def intro: R_then R_prune)
  then show "run_keeps R p \<Longrightarrow> run_keeps R (pseq (prune_now B) p)"
    unfolding run_keeps_def using hspec_pseq by blast
qed

text \<open>The rules in the order in which a proof tries them.\<close>

lemmas keeps_rules = keeps_running keep_seq keep_bind keeps_if keeps_modify keeps_reads
  run_keeps_prune run_keeps_modify run_keeps_pseq run_keeps_pbind run_keeps_if run_keeps_reads

lemma start_keeps: "hub_keeps R (run_maintenance b)"
proof -
  have "hub_keeps R (pbind (hub_get hb_phase) (\<lambda>p. case p of
         PH_Dormant \<Rightarrow> hub_modify (\<lambda>w. w\<lparr>hb_phase := PH_Running\<rparr>)
       | PH_Running \<Rightarrow> praise RH_InvalidConfiguration | PH_Closed \<Rightarrow> praise RH_Closed))"
    by (auto simp: hub_keeps_def hspec_def hub_get_def hub_modify_def pbind_def praise_def split: Phase.splits
        intro: R_then R_start)
  then show ?thesis
    unfolding run_maintenance_def by (intro keep_seq) (simp_all add: keeps_reads)
qed

lemma check_keeps: "hub_keeps R (check_active B h)"
  unfolding check_active_def by (rule keeps_rules | simp)+

lemma candidates_keeps: "hub_keeps R (candidates B a)"
  unfolding candidates_def by (rule keeps_rules | simp)+

lemma collect_keeps: "hub_keeps R (replay_collect B a channels cands)"
  unfolding replay_collect_def Let_def by (rule keeps_rules | simp)+

lemma round_keeps: "hub_keeps R (maintenance_round B)"
  unfolding maintenance_round_def by (rule keeps_rules | simp add: R_close R_prune)+

lemma shutdown_keeps: "hub_keeps R (maintenance_shutdown b)"
  unfolding maintenance_shutdown_def by (rule keeps_rules | simp add: R_close)+

lemma drop_keeps: "hub_keeps R (handle_drop B h)"
  unfolding handle_drop_def by (rule keeps_rules | simp add: R_remove)+

lemma join_keeps:
  "hub_keeps R (pbind (hub_get (\<lambda>w. the (map_of (hb_groups w) p))) (\<lambda>i.
     pbind (hub_get (\<lambda>w. bc_subscribe B (hb_chans w i))) (\<lambda>(r, c).
     pseq (hub_modify (\<lambda>w. w\<lparr>hb_chans := (hb_chans w)(i := c)\<rparr>)) (pret (h i r)))))"
  unfolding hub_keeps_def hspec_def
  by (auto simp: hub_get_def hub_modify_def pbind_def pseq_def pret_def case_prod_unfold intro: R_then R_join)

lemma subscribe_keeps: "hub_keeps R (subscribe B cfg a)"
  unfolding subscribe_def
  by (rule join_keeps keeps_running run_keeps_prune run_keeps_modify run_keeps_pseq keep_seq keeps_reads | simp add: R_entry)+

lemma insert_keeps:
  assumes "\<And>i. slot_ok (k, slot i) \<and> sl_identity (slot i) = i"
  shows "run_keeps R (pbind (hub_get hb_next_id) (\<lambda>i. pseq (hub_modify (insert_slot B k (slot i))) (pret (h i))))"
proof -
  have "R w0 (insert_slot B k (slot (hb_next_id w)) w)" if "R w0 w" "hb_phase w = PH_Running" for w0 w
    by (rule R_then [OF that(1) R_insert]) (use that assms in auto)
  then show ?thesis
    by (simp add: run_keeps_def hspec_def runs_from_def hub_get_def hub_modify_def pbind_def pseq_def pret_def)
qed

lemma open_keeps:
  assumes "proof_of_channel pub"
  shows "hub_keeps R (open_publisher B cfg pub snapshot)"
  unfolding open_publisher_def Let_def
proof (rule keep_seq [OF keeps_reads], simp, rule keep_bind_ok, goal_cases)
  case 1
  show ?case by (auto intro!: reads_intros)
next
  case (2 filtered w w')
  then have "nd_project_id filtered = pc_project_id (ac_channel pub)"
    using assms by (auto simp: pmap_err_ok proof_of_channel_def dest: filter_snapshot_project)
  then show ?case
    by - (rule insert_keeps keeps_rules | simp add: slot_ok_def)+
qed

lemma refresh_keeps:
  assumes "nd_project_id filtered = pc_project_id (ph_channel h)"
  shows "hspec (\<lambda>w. runs_from R w0 w \<and> map_of (hb_slots w) (hub_key (ph_channel h)) = Some slot) (refresh_slot B cfg h pub filtered slot)
    (\<lambda>_. R w0) (R w0)"
proof -
  let ?P = "\<lambda>w. runs_from R w0 w \<and> map_of (hb_slots w) (hub_key (ph_channel h)) = Some slot"
  have hb: "hspec ?P (heartbeat_end cfg) (\<lambda>_. ?P) (R w0)"
    and pc: "hspec ?P (proof_check (ac_authorization pub)) (\<lambda>_. ?P) (R w0)"
    by (rule hspec_reads, simp_all add: runs_from_def)+
  show ?thesis
    unfolding refresh_slot_def Let_def
    by (intro hspec_if hspec_praise hspec_pbind [OF hb] hspec_pseq [OF pc] hspec_modify)
      (auto simp: runs_from_def intro: R_then R_refresh [OF _ _ assms])
qed

lemma publish_keeps:
  assumes "proof_of_channel pub"
  shows "hub_keeps R (publish B cfg h pub snapshot)"
proof -
  have tail: "run_keeps R (pbind (hub_get (\<lambda>w. map_of (hb_slots w) (hub_key (ph_channel h))))
      (\<lambda>found. pbind (plift (ok_or found RH_Superseded)) (refresh_slot B cfg h pub filtered)))"
    if "nd_project_id filtered = pc_project_id (ph_channel h)" for filtered
    using refresh_keeps [OF that]
    by (intro run_keeps_found) (auto simp: ok_or_def runs_from_def split: option.splits intro!: hspec_praise)
  have "hub_keeps R (pbind (pmap_err RH_Authorization (filter_snapshot (ac_authorization pub) snapshot)) (\<lambda>filtered.
      pseq (end_reason (ph_identity h)) (pseq hub_lock (pseq (end_reason (ph_identity h)) (pseq hub_running
      (pseq (prune_now B) (pseq (end_reason (ph_identity h))
      (pbind (hub_get (\<lambda>w. map_of (hb_slots w) (hub_key (ph_channel h)))) (\<lambda>found.
       pbind (plift (ok_or found RH_Superseded)) (refresh_slot B cfg h pub filtered))))))))))"
    if "ac_channel pub = ph_channel h"
  proof (rule keep_bind_ok, goal_cases)
    case (2 filtered w w')
    then have "nd_project_id filtered = pc_project_id (ph_channel h)"
      using assms that by (auto simp: pmap_err_ok proof_of_channel_def dest: filter_snapshot_project)
    from tail [OF this] show ?case
      by - (rule keeps_running keep_seq keeps_reads run_keeps_prune run_keeps_pseq | simp)+
  qed (auto intro!: reads_intros)
  then show ?thesis
    unfolding publish_def Let_def by (intro keep_seq) (simp_all add: keeps_reads)
qed

lemma hub_step_kept:
  assumes "hub_step B cfg act w w'" "hub_inv w"
    "\<And>s. act = HA_Recv s \<Longrightarrow> hub_keeps R (subscription_recv B s)"
    "\<And>s. act = HA_Unsubscribe s \<Longrightarrow> hub_keeps R (subscription_drop B s)"
    "\<And>s. act = HA_ReceiverDrop s \<Longrightarrow> R w (receiver_drop B s w)"
    "\<And>s. act = HA_Release s \<Longrightarrow> R w (group_release B (ps_project s) w)"
  shows "R w w'"
  using assms
proof (induction rule: hub_step.induct)
  case (hub_stepI act w)
  then show ?case
    by (cases act)
      (auto intro!: keeps_snd start_keeps open_keeps publish_keeps check_keeps drop_keeps subscribe_keeps candidates_keeps
        collect_keeps round_keeps shutdown_keeps R_panic R_refl)
qed

end

subsection \<open>The evolution of the hub\<close>

interpretation ev: hub_evolution hub_evolves B for B
  by unfold_locales
    (auto intro: hub_evolves_refl hub_evolves_trans hub_evolves_inv hub_evolves_prune hub_evolves_close hub_evolves_hub_remove
      hub_evolves_insert_slot hub_evolves_refresh hub_evolves_group_entry hub_evolves_chans hub_evolves_unseen hub_evolves_start)

lemma recv_evolves: "hub_keeps hub_evolves (subscription_recv B s)"
  unfolding subscription_recv_def case_prod_unfold by (rule ev.keeps_rules | simp add: hub_evolves_chans)+

lemma unsubscribe_evolves: "hub_keeps hub_evolves (subscription_drop B s)"
  unfolding subscription_drop_def
  by (rule ev.keeps_rules | simp add: receiver_drop_def hub_evolves_chans hub_evolves_release)+

lemma hub_step_evolves: "hub_step B cfg act w w' \<Longrightarrow> hub_inv w \<Longrightarrow> hub_evolves w w'"
  by (rule ev.hub_step_kept) (simp_all add: recv_evolves unsubscribe_evolves receiver_drop_def hub_evolves_chans hub_evolves_release)

lemma hub_reachable_inv: "hub_reachable B cfg w \<Longrightarrow> hub_inv w"
proof (induction rule: hub_reachable.induct)
  case (hub_reach_step w act w')
  then show ?case using hub_step_evolves hub_evolves_inv by blast
qed (rule hub_initial_inv)

subsection \<open>What a subscription is told\<close>

text \<open>What the runtime library promises of a broadcast channel: a subscription is live; a live receiver is counted; a send reaches it, if
  only as the news that it lagged; and what others do with the channel does not take anything from it.\<close>

definition broadcast_laws :: "('c, 'r) broadcast_lib \<Rightarrow> ('r \<Rightarrow> 'c \<Rightarrow> bool) \<Rightarrow> bool" where
  "broadcast_laws B live \<longleftrightarrow>
     (\<forall>r c. live r c \<longrightarrow> bc_count B c \<noteq> 0 \<and> live r (bc_send B c) \<and> fst (bc_recv B True r (bc_send B c)) \<noteq> None)
   \<and> (\<forall>c. live (fst (bc_subscribe B c)) (snd (bc_subscribe B c)))
   \<and> (\<forall>r c. live r c \<longrightarrow> live r (snd (bc_subscribe B c)) \<and> fst (bc_recv B True r (snd (bc_subscribe B c))) = fst (bc_recv B True r c))
   \<and> (\<forall>r q c. live r c \<longrightarrow> q \<noteq> r \<longrightarrow> live r (bc_drop B q c) \<and> fst (bc_recv B True r (bc_drop B q c)) = fst (bc_recv B True r c))
   \<and> (\<forall>r q c b. live r c \<longrightarrow> q \<noteq> r \<longrightarrow> live r (snd (bc_recv B b q c)) \<and> fst (bc_recv B True r (snd (bc_recv B b q c))) = fst (bc_recv B True r c))"

definition subscribed :: "('r \<Rightarrow> 'c \<Rightarrow> bool) \<Rightarrow> 'r RealtimeProjectSubscription \<Rightarrow> ('c, 'z) hub_scheme \<Rightarrow> bool" where
  "subscribed live s w \<longleftrightarrow> map_of (hb_groups w) (ps_project s) = Some (ps_chan s) \<and> ps_chan s < hb_next_chan w
     \<and> live (ps_receiver s) (hb_chans w (ps_chan s))"

text \<open>The next \<^verbatim>\<open>recv\<close> returns without waiting.\<close>

definition awake :: "('c, 'r) broadcast_lib \<Rightarrow> 'r RealtimeProjectSubscription \<Rightarrow> ('c, 'z) hub_scheme \<Rightarrow> bool" where
  "awake B s w \<longleftrightarrow> fst (bc_recv B True (ps_receiver s) (hb_chans w (ps_chan s))) \<noteq> None"

definition publications :: "string \<Rightarrow> ('c, 'z) hub_scheme \<Rightarrow> (Key \<times> Slot) list" where
  "publications project w = filter (\<lambda>(k, _). fst k = project) (hb_slots w)"

definition told :: "('c, 'r) broadcast_lib \<Rightarrow> ('r \<Rightarrow> 'c \<Rightarrow> bool) \<Rightarrow> 'r RealtimeProjectSubscription \<Rightarrow> ('c, 'z) hub_scheme \<Rightarrow> ('c, 'z) hub_scheme \<Rightarrow> bool" where
  "told B live s w w' \<longleftrightarrow> hb_phase w' = PH_Closed \<or> (subscribed live s w'
     \<and> (awake B s w \<or> publications (ps_project s) w' \<noteq> publications (ps_project s) w \<longrightarrow> awake B s w'))"

definition hub_tells :: "('c, 'r) broadcast_lib \<Rightarrow> ('r \<Rightarrow> 'c \<Rightarrow> bool) \<Rightarrow> 'r RealtimeProjectSubscription \<Rightarrow> ('c, 'z) hub_scheme \<Rightarrow> ('c, 'z) hub_scheme \<Rightarrow> bool" where
  "hub_tells B live s w w' \<longleftrightarrow> hub_evolves w w' \<and> (broadcast_laws B live \<longrightarrow> subscribed live s w \<longrightarrow> told B live s w w')"

lemma hub_tells_refl: "hub_inv w \<Longrightarrow> hub_tells B live s w w"
  by (simp add: hub_tells_def told_def hub_evolves_refl)

lemma hub_tells_trans: "hub_tells B live s u v \<Longrightarrow> hub_tells B live s v w \<Longrightarrow> hub_tells B live s u w"
  unfolding hub_tells_def told_def using hub_evolves_trans [of u v w] by (auto simp: hub_evolves_def)

lemma hub_tells_env: "hub_tells B live s w0 (w\<lparr>env := e\<rparr>) = hub_tells B live s w0 w"
  by (simp add: hub_tells_def told_def subscribed_def awake_def publications_def)

text \<open>Steps that leave the publications of the project and its group alone, and the channel no worse.\<close>

lemma hub_tells_quiet:
  assumes "hub_evolves w w'" "publications (ps_project s) w' = publications (ps_project s) w"
    "broadcast_laws B live \<Longrightarrow> subscribed live s w \<Longrightarrow> map_of (hb_groups w') (ps_project s) = Some (ps_chan s)
      \<and> hb_next_chan w \<le> hb_next_chan w' \<and> live (ps_receiver s) (hb_chans w' (ps_chan s)) \<and> (awake B s w \<longrightarrow> awake B s w')"
  shows "hub_tells B live s w w'"
  using assms by (auto simp: hub_tells_def told_def subscribed_def)

lemma signal_chan:
  "hb_chans (signal B p w) i = (if map_of (hb_groups w) p = Some i then bc_send B (hb_chans w i) else hb_chans w i)"
  by (auto simp: signal_def split: option.splits)

text \<open>A change of the publications of one project, followed by its signal.\<close>

lemma hub_tells_change:
  assumes "hub_evolves w (signal B p v)" "\<And>q. q \<noteq> p \<Longrightarrow> publications q v = publications q w"
    "hb_groups v = hb_groups w" "hb_chans v = hb_chans w" "hb_next_chan v = hb_next_chan w"
  shows "hub_tells B live s w (signal B p v)"
proof -
  have pub: "publications q (signal B p v) = publications q v" for q by (simp add: publications_def)
  have "told B live s w (signal B p v)" if laws: "broadcast_laws B live" and sub: "subscribed live s w"
  proof -
    have live: "live (ps_receiver s) (hb_chans w (ps_chan s))" and grp: "map_of (hb_groups w) (ps_project s) = Some (ps_chan s)"
      using sub by (simp_all add: subscribed_def)
    have sent: "live (ps_receiver s) (bc_send B (hb_chans w (ps_chan s)))"
      "fst (bc_recv B True (ps_receiver s) (bc_send B (hb_chans w (ps_chan s)))) \<noteq> None"
      using laws live unfolding broadcast_laws_def by blast+
    have "subscribed live s (signal B p v)"
      using sub sent(1) assms(3-5) by (auto simp: subscribed_def signal_chan)
    moreover have "awake B s (signal B p v)" if "awake B s w \<or> p = ps_project s"
      using that sent(2) grp assms(3,4) by (auto simp: awake_def signal_chan)
    ultimately show ?thesis using assms(2) unfolding told_def pub by metis
  qed
  with assms(1) show ?thesis by (simp add: hub_tells_def)
qed

lemma hub_tells_prune_groups: "hub_inv w \<Longrightarrow> hub_tells B live s w (prune_groups B w)"
proof (rule hub_tells_quiet)
  assume "broadcast_laws B live" "subscribed live s w"
  then have "bc_count B (hb_chans w (ps_chan s)) \<noteq> 0" unfolding broadcast_laws_def subscribed_def by blast
  then show "map_of (hb_groups (prune_groups B w)) (ps_project s) = Some (ps_chan s)
      \<and> hb_next_chan w \<le> hb_next_chan (prune_groups B w) \<and> live (ps_receiver s) (hb_chans (prune_groups B w) (ps_chan s))
      \<and> (awake B s w \<longrightarrow> awake B s (prune_groups B w))"
    using \<open>subscribed live s w\<close>
    by (auto simp: prune_groups_def subscribed_def awake_def intro!: map_of_filter_Some)
qed (simp_all add: hub_evolves_prune_groups publications_def)

lemma hub_tells_notify: "hub_inv w \<Longrightarrow> hub_tells B live s w (notify_one w)"
  by (rule hub_tells_quiet) (auto simp: hub_evolves_notify [unfolded notify_one_def] publications_def subscribed_def awake_def notify_one_def)

lemma hub_tells_close: "hub_inv w \<Longrightarrow> hub_tells B live s w (hub_close w)"
  by (simp add: hub_tells_def told_def hub_evolves_close hub_close_fields)

lemma filter_bt_insert:
  "fst k \<noteq> q \<Longrightarrow> filter (\<lambda>(k', _). fst k' = q) (bt_insert k v xs) = filter (\<lambda>(k', _). fst k' = q) xs"
  by (induction k v xs rule: bt_insert.induct) auto

lemma filter_bt_remove: "fst k \<noteq> q \<Longrightarrow> filter (\<lambda>(k', _). fst k' = q) (bt_remove k xs) = filter (\<lambda>(k', _). fst k' = q) xs"
  by (induction xs) (auto simp: bt_remove_def)

lemma hub_tells_inv: "hub_tells B live s u v \<Longrightarrow> hub_inv v"
  by (simp add: hub_tells_def hub_evolves_def)

lemma hub_tells_then_notify: "hub_tells B live s u v \<Longrightarrow> hub_tells B live s u (notify_one v)"
  by (rule hub_tells_trans, assumption, rule hub_tells_notify, erule hub_tells_inv)

lemma hub_tells_then_prune_groups: "hub_tells B live s u v \<Longrightarrow> hub_tells B live s u (prune_groups B v)"
  by (rule hub_tells_trans, assumption, rule hub_tells_prune_groups, erule hub_tells_inv)

lemmas hub_tells_chain = hub_tells_then_notify hub_tells_then_prune_groups

lemma slot_key:
  "hub_inv w \<Longrightarrow> map_of (hb_slots w) k = Some slot \<Longrightarrow> k = hub_key (sl_channel slot)"
  unfolding hub_inv_def slot_ok_def using map_of_SomeD by fastforce

lemma hub_tells_removed:
  assumes inv: "hub_inv w" and found: "map_of (hb_slots w) k = Some slot" and p: "p = pc_project_id (sl_channel slot)"
  shows "hub_tells B live s w (signal B p (end_identity (sl_identity slot) r (w\<lparr>hb_slots := bt_remove k (hb_slots w)\<rparr>)))"
proof (rule hub_tells_change)
  show "hub_evolves w (signal B p (end_identity (sl_identity slot) r (w\<lparr>hb_slots := bt_remove k (hb_slots w)\<rparr>)))"
    by (intro hub_evolves_chain hub_evolves_remove inv found)
  fix q assume "q \<noteq> p"
  then have "fst k \<noteq> q" using slot_key [OF inv found] p by (auto simp: hub_key_def)
  then show "publications q (end_identity (sl_identity slot) r (w\<lparr>hb_slots := bt_remove k (hb_slots w)\<rparr>)) = publications q w"
    by (simp add: publications_def filter_bt_remove)
qed simp_all

lemma hub_tells_expire: "hub_inv w \<Longrightarrow> hub_tells B live s w (expire_slot B u m k w)"
  by (cases "map_of (hb_slots w) k") (simp_all add: expire_slot_def hub_tells_refl hub_tells_removed)

lemma hub_tells_prune: "hub_inv w \<Longrightarrow> hub_tells B live s w (prune B u m w)"
proof -
  have "hub_inv w \<Longrightarrow> hub_tells B live s w (fold (expire_slot B u m) ks w)" for ks
  proof (induction ks arbitrary: w)
    case (Cons k ks)
    have "hub_tells B live s w (fold (expire_slot B u m) ks (expire_slot B u m k w))"
      by (rule hub_tells_trans [OF hub_tells_expire [OF Cons.prems] Cons.IH])
        (rule hub_evolves_inv [OF hub_evolves_expire [OF Cons.prems]])
    then show ?case by simp
  qed (simp add: hub_tells_refl)
  then show "hub_inv w \<Longrightarrow> hub_tells B live s w (prune B u m w)"
    unfolding prune_def Let_def by (intro hub_tells_chain) simp
qed

lemma hub_tells_hub_remove: "hub_inv w \<Longrightarrow> hub_tells B live s w (hub_remove B c i w)"
proof (cases "map_of (hb_slots w) (hub_key c)")
  case (Some slot)
  assume inv: "hub_inv w"
  have "pc_project_id c = pc_project_id (sl_channel slot)" using slot_key [OF inv Some] by (simp add: hub_key_def)
  then show ?thesis
    using inv Some by (auto simp: hub_remove_def Let_def hub_tells_close hub_tells_refl intro!: hub_tells_chain hub_tells_removed)
qed (simp add: hub_remove_def Let_def hub_tells_close hub_tells_refl)

lemma hub_tells_insert:
  assumes "hub_inv w" "hb_phase w = PH_Running" and ok: "slot_ok (k, slot)" and "sl_identity slot = hb_next_id w"
  shows "hub_tells B live s w (insert_slot B k slot w)"
proof -
  let ?v = "case map_of (hb_slots w) k of None \<Rightarrow> w\<lparr>hb_slots := bt_insert k slot (hb_slots w), hb_next_id := Suc (hb_next_id w)\<rparr>
    | Some old \<Rightarrow> end_identity (sl_identity old) RH_Superseded (w\<lparr>hb_slots := bt_insert k slot (hb_slots w), hb_next_id := Suc (hb_next_id w)\<rparr>)"
  have ev: "hub_evolves w (insert_slot B k slot w)" by (rule hub_evolves_insert_slot) fact+
  have eq: "insert_slot B k slot w = notify_one (signal B (pc_project_id (sl_channel slot)) ?v)"
    by (simp add: insert_slot_def Let_def)
  have "hub_evolves w (signal B (pc_project_id (sl_channel slot)) ?v)"
    using ev unfolding eq by (simp add: hub_evolves_def hub_inv_def hub_identities_def)
  then have "hub_tells B live s w (signal B (pc_project_id (sl_channel slot)) ?v)"
  proof (rule hub_tells_change, goal_cases)
    case (1 q)
    then have "fst k \<noteq> q" using ok by (auto simp: slot_ok_def hub_key_def)
    then show ?case by (simp add: publications_def filter_bt_insert split: option.splits)
  qed (simp_all split: option.splits)
  then show ?thesis unfolding eq by (rule hub_tells_chain)
qed

lemma hub_tells_refresh:
  assumes "hub_inv w" "map_of (hb_slots w) (hub_key c) = Some slot" "nd_project_id filtered = pc_project_id c"
  shows "hub_tells B live s w (notify_one (signal B (pc_project_id c)
    (w\<lparr>hb_slots := bt_insert (hub_key c) (slot\<lparr>sl_snapshot := filtered, sl_window := win\<rparr>) (hb_slots w)\<rparr>)))"
    (is "hub_tells B live s w (notify_one ?v)")
proof -
  have "hub_evolves w ?v"
    using hub_evolves_refresh [OF assms, where B = B and p = "pc_project_id c" and win = win]
    by (simp add: hub_evolves_def hub_inv_def hub_identities_def)
  then have "hub_tells B live s w ?v"
    by (rule hub_tells_change) (auto simp: publications_def hub_key_def intro!: filter_bt_insert)
  then show ?thesis by (rule hub_tells_chain)
qed

lemma hub_tells_entry: "hub_inv w \<Longrightarrow> hb_phase w = PH_Running \<Longrightarrow> hub_tells B live s w (group_entry B cfg p w)"
  by (rule hub_tells_quiet [OF hub_evolves_group_entry])
    (auto simp: group_entry_def publications_def subscribed_def awake_def split: option.splits)

lemma hub_tells_join: "hub_inv w \<Longrightarrow> hub_tells B live s w (w\<lparr>hb_chans := (hb_chans w)(j := snd (bc_subscribe B (hb_chans w j)))\<rparr>)"
  by (rule hub_tells_quiet)
    (auto simp: hub_evolves_chans publications_def subscribed_def awake_def broadcast_laws_def)

interpretation tells: hub_evolution "hub_tells B live s" B for B live s
proof unfold_locales
  fix w :: "('a, 'c) hub_scheme" assume "hub_inv w" "hb_phase w = PH_Dormant"
  then show "hub_tells B live s w (w\<lparr>hb_phase := PH_Running\<rparr>)"
    by (intro hub_tells_quiet) (auto simp: hub_evolves_start publications_def subscribed_def awake_def)
next
  fix w :: "('a, 'c) hub_scheme" assume "hub_inv w"
  then show "hub_tells B live s w (w\<lparr>hb_poisoned := True\<rparr>)"
    by (intro hub_tells_quiet hub_evolves_unseen) (auto simp: publications_def subscribed_def awake_def)
qed (auto intro: hub_tells_refl hub_tells_trans hub_tells_prune hub_tells_close hub_tells_hub_remove
      hub_tells_insert hub_tells_refresh hub_tells_entry hub_tells_join hub_tells_inv simp: hub_tells_env)

text \<open>Receiving and leaving touch the receiver of their own subscription only.\<close>

definition other_receiver :: "'r RealtimeProjectSubscription \<Rightarrow> 'r RealtimeProjectSubscription \<Rightarrow> bool" where
  "other_receiver s q \<longleftrightarrow> (ps_chan q, ps_receiver q) \<noteq> (ps_chan s, ps_receiver s)"

lemma hub_tells_recv:
  fixes B :: "('c, 'r) broadcast_lib"
  assumes "other_receiver s q"
  shows "hub_keeps (hub_tells B live s) (subscription_recv B q :: ('c, 'z, _) hprog)"
  unfolding hub_keeps_def hspec_def
proof (intro allI impI)
  fix w0 w :: "('c, 'z) hub_scheme"
  assume "hub_tells B live s w0 w"
  have "hub_tells B live s w (w\<lparr>hb_chans := (hb_chans w)(ps_chan q := snd (bc_recv B b (ps_receiver q) (hb_chans w (ps_chan q))))\<rparr>)"
    if "hub_inv w" for b
    using that assms
    by (intro hub_tells_quiet)
      (auto simp: hub_evolves_chans publications_def subscribed_def awake_def broadcast_laws_def other_receiver_def)
  then have "hub_tells B live s w0 (w\<lparr>hb_chans := (hb_chans w)(ps_chan q := snd (bc_recv B b (ps_receiver q) (hb_chans w (ps_chan q))))\<rparr>)" for b
    using \<open>hub_tells B live s w0 w\<close> hub_tells_trans hub_tells_inv by blast
  then show "case subscription_recv B q w of (Inl e, w') \<Rightarrow> hub_tells B live s w0 w' | (Inr x, w') \<Rightarrow> hub_tells B live s w0 w'"
    by (simp add: subscription_recv_def hub_get_def hub_modify_def pbind_def pseq_def pret_def case_prod_unfold)
qed

lemma hub_tells_release: "hub_inv w \<Longrightarrow> hub_tells B live s w (group_release B p w)"
proof -
  assume inv: "hub_inv w"
  have "bc_count B (hb_chans w (ps_chan s)) \<noteq> 0" if "broadcast_laws B live" "subscribed live s w"
    using that unfolding broadcast_laws_def subscribed_def by blast
  then have "hub_tells B live s w (group_release B p w)" if "\<not> hb_poisoned w"
    using that
    by (intro hub_tells_quiet [OF hub_evolves_release [OF inv]])
      (auto simp: group_release_def publications_def subscribed_def awake_def split: option.splits)
  then show ?thesis using inv by (cases "hb_poisoned w") (simp_all add: group_release_def hub_tells_close)
qed

lemma hub_tells_receiver_drop: "other_receiver s q \<Longrightarrow> hub_inv w \<Longrightarrow> hub_tells B live s w (receiver_drop B q w)"
  by (intro hub_tells_quiet)
    (auto simp: receiver_drop_def hub_evolves_chans publications_def subscribed_def awake_def broadcast_laws_def other_receiver_def)

lemma hub_tells_unsubscribe:
  fixes B :: "('c, 'r) broadcast_lib"
  assumes "other_receiver s q"
  shows "hub_keeps (hub_tells B live s) (subscription_drop B q :: ('c, 'z, _) hprog)"
  unfolding subscription_drop_def
  by (intro tells.keep_seq tells.keeps_modify hub_tells_receiver_drop [OF assms] hub_tells_release)

text \<open>What the others do: any actions but receiving on, or dropping, this subscription.\<close>

fun foreign :: "'r RealtimeProjectSubscription \<Rightarrow> 'r hub_action \<Rightarrow> bool" where
  "foreign s (HA_Recv q) = other_receiver s q"
| "foreign s (HA_Unsubscribe q) = other_receiver s q"
| "foreign s (HA_ReceiverDrop q) = other_receiver s q"
| "foreign s _ = True"

inductive hub_meanwhile ::
  "('c, 'r) broadcast_lib \<Rightarrow> hub_config \<Rightarrow> 'r RealtimeProjectSubscription \<Rightarrow> ('c, 'z) hub_scheme \<Rightarrow> ('c, 'z) hub_scheme \<Rightarrow> bool"
  for B cfg s where
  meanwhile_refl: "hub_meanwhile B cfg s w w"
| meanwhile_step: "hub_meanwhile B cfg s u v \<Longrightarrow> hub_step B cfg act v w \<Longrightarrow> foreign s act \<Longrightarrow> hub_meanwhile B cfg s u w"

lemma hub_meanwhile_tells: "hub_meanwhile B cfg s u w \<Longrightarrow> hub_inv u \<Longrightarrow> hub_tells B live s u w"
proof (induction rule: hub_meanwhile.induct)
  case (meanwhile_step u v act w)
  then have inv: "hub_inv v" using hub_tells_inv by blast
  have "hub_tells B live s v w"
    by (rule tells.hub_step_kept [OF meanwhile_step(2) inv])
      (use meanwhile_step(3) inv in \<open>simp_all add: hub_tells_recv hub_tells_unsubscribe hub_tells_receiver_drop hub_tells_release\<close>)
  with meanwhile_step show ?case using hub_tells_trans by blast
qed (rule hub_tells_refl)

text \<open>A subscription is listening from the start.\<close>

lemma join_subscribed:
  assumes "broadcast_laws B live" "hub_inv w" "e = group_entry B cfg p w" "i = the (map_of (hb_groups e) p)"
  shows "subscribed live \<lparr>ps_project = p, ps_chan = i, ps_receiver = fst (bc_subscribe B (hb_chans e i))\<rparr>
    (e\<lparr>hb_chans := (hb_chans e)(i := snd (bc_subscribe B (hb_chans e i)))\<rparr>)"
proof -
  have "map_of (hb_groups e) p = Some i" "i < hb_next_chan e"
    using assms(2-4) map_of_SomeD by (fastforce simp: group_entry_def hub_inv_def split: option.splits)+
  then show ?thesis using assms(1) by (simp add: subscribed_def broadcast_laws_def)
qed

lemma subscribe_subscribed:
  fixes w w' :: "('c, 'z) hub_scheme"
  assumes "subscribe B cfg a w = (Inr s, w')" "broadcast_laws B live" "hub_inv w"
  shows "subscribed live s w' \<and> ps_project s = na_project_id a"
proof -
  let ?Q = "\<lambda>s w. subscribed live s w \<and> ps_project s = na_project_id a" and ?T = "\<lambda>_ :: ('c, 'z) hub_scheme. True"
  let ?run = "runs_from hub_evolves w"
  have reads: "hspec P p (\<lambda>_. P) ?T" if "reads_only p" "\<And>w e. P (w\<lparr>env := e\<rparr>) = P w" for P and p :: "('c, 'z, unit) hprog"
    by (rule hspec_reads [OF that]) simp
  have run: "hspec (hub_evolves w) hub_running (\<lambda>_. ?run) ?T"
    by (auto simp: hspec_def hub_running_def hub_get_def pbind_def pret_def praise_def runs_from_def split: Phase.splits)
  have prune: "hspec ?run (prune_now B) (\<lambda>_. ?run) ?T"
    unfolding prune_now_def
    by (intro hspec_pbind [OF hspec_err [OF ev.runs_reads]] hspec_modify)
      (auto simp: runs_from_def intro: hub_evolves_then hub_evolves_prune)
  have "hspec ?run (pseq (hub_modify (group_entry B cfg (na_project_id a)))
     (pbind (hub_get (\<lambda>w. the (map_of (hb_groups w) (na_project_id a)))) (\<lambda>i.
     pbind (hub_get (\<lambda>w. bc_subscribe B (hb_chans w i))) (\<lambda>(r, c).
     pseq (hub_modify (\<lambda>w. w\<lparr>hb_chans := (hb_chans w)(i := c)\<rparr>))
     (pret \<lparr>ps_project = na_project_id a, ps_chan = i, ps_receiver = r\<rparr>))))) ?Q ?T"
    using join_subscribed [OF assms(2) _ refl refl]
    by (auto simp: hspec_def hub_get_def hub_modify_def pbind_def pseq_def pret_def case_prod_unfold runs_from_def hub_evolves_def)
  then have "hspec (hub_evolves w) (subscribe B cfg a) ?Q ?T"
    unfolding subscribe_def
    by - (rule hspec_pseq [OF reads], simp, simp, rule hspec_pseq [OF reads], simp, simp, rule hspec_pseq [OF run],
      rule hspec_pseq [OF prune], rule hspec_pseq [OF reads], simp, simp)
  then show ?thesis using assms(1,3) hub_evolves_refl unfolding hspec_def by fastforce
qed

end
