(* ===== verification/Hub_Guarantees.thy ===== *)
theory Hub_Guarantees
  imports Hub_Runs
begin

text \<open>
  What the operations of the realtime hub guarantee: what pruning leaves and how the pruned
  publications end, who may take over a publication, what a replay shows to whom, and when the
  maintenance task wakes.
\<close>

subsection \<open>Success of the programs of the hub\<close>

lemma hub_get_ok [prog_ok]: "hub_get f w = (Inr x, w') \<longleftrightarrow> x = f w \<and> w' = w"
  by (auto simp: hub_get_def)

lemma hub_modify_ok [prog_ok]: "hub_modify f w = (Inr u, w') \<longleftrightarrow> w' = f w"
  by (auto simp: hub_modify_def)

lemma hub_lock_ok [prog_ok]: "hub_lock w = (Inr u, w') \<longleftrightarrow> \<not> hb_poisoned w \<and> w' = w"
  by (auto simp: hub_lock_def prog_ok)

lemma hub_running_ok [prog_ok]: "hub_running w = (Inr u, w') \<longleftrightarrow> hb_phase w = PH_Running \<and> w' = w"
  by (auto simp: hub_running_def prog_ok split: Phase.splits)

lemma prune_now_ok [prog_ok]:
  "prune_now B w = (Inr u, w') \<longleftrightarrow> w' = prune B (utc (env w 0)) (mono (env w 1)) (w\<lparr>env := \<lambda>n. env w (Suc (Suc n))\<rparr>)"
  by (auto simp: prune_now_def prog_ok)

lemma end_reason_ok [prog_ok]: "end_reason i w = (Inr u, w') \<longleftrightarrow> hb_ends w i = None \<and> w' = w"
  by (auto simp: end_reason_def prog_ok split: option.splits)

lemma reads_env: "reads_only p \<Longrightarrow> p w = (r, w') \<Longrightarrow> \<exists>e. w' = w\<lparr>env := e\<rparr>"
  unfolding reads_only_def advances_def by (metis snd_conv)

lemma hub_reads_env:
  "proof_check a w = (r1, w') \<Longrightarrow> \<exists>e. w' = w\<lparr>env := e\<rparr>"
  "filter_snapshot a snapshot w = (r2, w') \<Longrightarrow> \<exists>e. w' = w\<lparr>env := e\<rparr>"
  "heartbeat_end cfg w = (r3, w') \<Longrightarrow> \<exists>e. w' = w\<lparr>env := e\<rparr>"
  "check_proofs cs w = (r1, w') \<Longrightarrow> \<exists>e. w' = w\<lparr>env := e\<rparr>"
  "unique_channels project seen cs w = (r1, w') \<Longrightarrow> \<exists>e. w' = w\<lparr>env := e\<rparr>"
  "replay_check r w = (r1, w') \<Longrightarrow> \<exists>e. w' = w\<lparr>env := e\<rparr>"
  using reads_env [of "proof_check a"] reads_env [of "filter_snapshot a snapshot"] reads_env [of "heartbeat_end cfg"]
    reads_env [of "check_proofs cs"] reads_env [of "unique_channels project seen cs"] reads_env [of "replay_check r"]
  by simp_all

subsection \<open>Pruning\<close>

lemma bt_remove_absent: "map_of xs k = None \<Longrightarrow> bt_remove k xs = xs"
  by (induction xs) (auto simp: bt_remove_def split: if_splits)

lemma expire_slot_slots: "hb_slots (expire_slot B u m k w) = bt_remove k (hb_slots w)"
  by (simp add: expire_slot_def bt_remove_absent split: option.splits)

lemma fold_expire_slots: "hb_slots (fold (expire_slot B u m) ks w) = filter (\<lambda>(k, _). k \<notin> set ks) (hb_slots w)"
  by (induction ks arbitrary: w) (auto simp: expire_slot_slots bt_remove_def intro!: filter_cong)

lemma prune_slots:
  assumes "hub_inv w"
  shows "hb_slots (prune B u m w) = filter (\<lambda>(_, s). window_active (sl_window s) u m) (hb_slots w)"
proof -
  have "distinct (map fst (hb_slots w))" using assms sorted_keys_distinct by (auto simp: hub_inv_def)
  then have "filter (\<lambda>(k, _). k \<notin> set (map fst (filter (\<lambda>(_, s). \<not> window_active (sl_window s) u m) (hb_slots w)))) (hb_slots w)
      = filter (\<lambda>(_, s). window_active (sl_window s) u m) (hb_slots w)"
    by (intro filter_cong) (auto dest: eq_key_imp_eq_value, force)
  then show ?thesis by (simp add: prune_def Let_def fold_expire_slots)
qed

lemma fold_expire_ends:
  "hub_inv w \<Longrightarrow> k \<in> set ks \<Longrightarrow> map_of (hb_slots w) k = Some s
    \<Longrightarrow> hb_ends (fold (expire_slot B u m) ks w) (sl_identity s) = Some (expiry_reason (sl_window s) u m)"
proof (induction ks arbitrary: w)
  case (Cons j ks)
  let ?v = "expire_slot B u m j w"
  have inv: "hub_inv ?v" using hub_evolves_inv [OF hub_evolves_expire [OF Cons.prems(1)]] .
  show ?case
  proof (cases "j = k")
    case True
    then have "hb_ends ?v (sl_identity s) = Some (expiry_reason (sl_window s) u m)"
      using Cons.prems(3) by (simp add: expire_slot_def)
    then show ?thesis using hub_evolves_fold [where f = "expire_slot B u m" and xs = ks, OF hub_evolves_expire inv] by (simp add: hub_evolves_def)
  next
    case False
    then show ?thesis using Cons inv by (simp add: expire_slot_slots)
  qed
qed simp

lemma prune_ends:
  assumes inv: "hub_inv w" and found: "map_of (hb_slots w) k = Some s" and "\<not> window_active (sl_window s) u m"
  shows "hb_ends (prune B u m w) (sl_identity s) = Some (expiry_reason (sl_window s) u m)"
proof -
  have "k \<in> set (map fst (filter (\<lambda>(_, s). \<not> window_active (sl_window s) u m) (hb_slots w)))"
    using map_of_SomeD [OF found] assms(3) by force
  from fold_expire_ends [OF inv this found] show ?thesis by (simp add: prune_def Let_def)
qed

lemma map_of_prune:
  assumes "hub_inv w"
  shows "map_of (hb_slots (prune B u m w)) k
    = (case map_of (hb_slots w) k of None \<Rightarrow> None | Some s \<Rightarrow> if window_active (sl_window s) u m then Some s else None)"
proof -
  have "map_of (filter (\<lambda>(_, s). P s) xs) k = (case map_of xs k of None \<Rightarrow> None | Some s \<Rightarrow> if P s then Some s else None)"
    if "distinct (map fst xs)" for P and xs :: "(Key \<times> Slot) list"
    using that by (induction xs) (auto split: option.splits simp: map_of_eq_None_iff image_iff)
  then show ?thesis
    unfolding prune_slots [OF assms] using assms sorted_keys_distinct by (auto simp: hub_inv_def)
qed

subsection \<open>Publishing\<close>

lemma hub_inv_env [simp]: "hub_inv (w\<lparr>env := e\<rparr>) = hub_inv w"
  by (simp add: hub_inv_def hub_identities_def)

lemma insert_slot_fields:
  "hb_slots (insert_slot B k slot w) = bt_insert k slot (hb_slots w)"
  "hb_ends (insert_slot B k slot w) = (case map_of (hb_slots w) k of None \<Rightarrow> hb_ends w | Some s \<Rightarrow> (hb_ends w)(sl_identity s := Some RH_Superseded))"
  by (simp_all add: insert_slot_def Let_def split: option.splits)

text \<open>The states a successful \<^verbatim>\<open>open_publisher\<close> goes through: the pruned hub, and the same with the new slot.\<close>

lemma open_publisher_ok:
  fixes w w' :: "('c, 'z) hub_scheme"
  assumes "open_publisher B cfg pub snapshot w = (Inr h, w')"
  obtains u m e e' heartbeat and v :: "('c, 'z) hub_scheme" where "v = (prune B u m (w\<lparr>env := e\<rparr>))\<lparr>env := e'\<rparr>"
    "case map_of (hb_slots v) (hub_key (ac_channel pub)) of None \<Rightarrow> True | Some s \<Rightarrow> \<not> owner_conflict s (si_owner (ac_snapshot pub))"
    "h = \<lparr>ph_channel = ac_channel pub, ph_identity = hb_next_id v\<rparr>" "nd_project_id snapshot = na_project_id (ac_authorization pub)"
    "w' = insert_slot B (hub_key (ac_channel pub)) \<lparr>sl_channel = ac_channel pub, sl_issuer = io_issuer (si_owner (ac_snapshot pub)),
       sl_subject = io_subject (si_owner (ac_snapshot pub)), sl_identity = hb_next_id v,
       sl_snapshot = mask_sections snapshot (mask_task (na_mask (ac_authorization pub))) (mask_memory (na_mask (ac_authorization pub)))
         (mask_knowledge (na_mask (ac_authorization pub))),
       sl_window = \<lparr>wn_utc = na_expires_at (ac_authorization pub), wn_mono = na_expires_mono (ac_authorization pub), wn_heartbeat = heartbeat\<rparr>\<rparr> v"
proof -
  let ?a = "ac_authorization pub"
  obtain w1 w2 filtered w3 heartbeat w4 w5 w6 where steps: "proof_check ?a w = (Inr (), w1)"
    "filter_snapshot ?a snapshot w1 = (Inr filtered, w2)"
    "w3 = prune B (utc (env w2 0)) (mono (env w2 1)) (w2\<lparr>env := \<lambda>n. env w2 (Suc (Suc n))\<rparr>)"
    "case map_of (hb_slots w3) (hub_key (ac_channel pub)) of None \<Rightarrow> True | Some s \<Rightarrow> \<not> owner_conflict s (si_owner (ac_snapshot pub))"
    "heartbeat_end cfg w3 = (Inr heartbeat, w4)" "proof_check ?a w4 = (Inr (), w5)" "proof_check ?a w5 = (Inr (), w6)"
    "h = \<lparr>ph_channel = ac_channel pub, ph_identity = hb_next_id w6\<rparr>"
    "w' = insert_slot B (hub_key (ac_channel pub)) \<lparr>sl_channel = ac_channel pub, sl_issuer = io_issuer (si_owner (ac_snapshot pub)),
       sl_subject = io_subject (si_owner (ac_snapshot pub)), sl_identity = hb_next_id w6, sl_snapshot = filtered,
       sl_window = \<lparr>wn_utc = na_expires_at ?a, wn_mono = na_expires_mono ?a, wn_heartbeat = heartbeat\<rparr>\<rparr> w6"
    using assms by (auto simp: open_publisher_def Let_def prog_ok split: if_splits option.splits)
  obtain e where "w2 = w\<lparr>env := e\<rparr>" using hub_reads_env(1) [OF steps(1)] hub_reads_env(2) [OF steps(2)] by auto
  moreover obtain e' where "w6 = w3\<lparr>env := e'\<rparr>"
    using hub_reads_env(3) [OF steps(5)] hub_reads_env(1) [OF steps(6)] hub_reads_env(1) [OF steps(7)] by auto
  moreover have "filtered = mask_sections snapshot (mask_task (na_mask ?a)) (mask_memory (na_mask ?a)) (mask_knowledge (na_mask ?a))"
    "nd_project_id snapshot = na_project_id ?a"
    using steps(2) by (auto simp: filter_snapshot_def prog_ok Let_def split: if_splits)
  ultimately show ?thesis using that [of w6] steps by auto
qed


subsection \<open>Maintenance\<close>

lemma window_next_bounds:
  assumes "window_active win u m"
  shows "m \<le> window_next win u m" "window_next win u m \<le> wn_mono win" "window_next win u m \<le> wn_heartbeat win"
    "int (window_next win u m) \<le> int m + (int (wn_utc win) - u)"
proof -
  let ?d = "nat (int (wn_utc win) - u)"
  let ?e = "case time_checked_add m ?d of None \<Rightarrow> m | Some e \<Rightarrow> e"
  have e: "m \<le> ?e" "?e \<le> m + ?d" by (auto simp: time_checked_add_def split: option.splits if_splits)
  have n: "window_next win u m = min (min ?e (wn_mono win)) (wn_heartbeat win)"
    using assms by (simp add: window_next_def window_active_def Let_def)
  have "int ?d = int (wn_utc win) - u" using assms by (simp add: window_active_def)
  then show "m \<le> window_next win u m" "window_next win u m \<le> wn_mono win" "window_next win u m \<le> wn_heartbeat win"
    "int (window_next win u m) \<le> int m + (int (wn_utc win) - u)"
    unfolding n using e assms by (auto simp: window_active_def min_def)
qed

text \<open>C39: a round of the maintenance task ends every publication whose window has passed, with its reason, and no
  other; and it sleeps at most until the first instant at which one of the remaining windows passes,
  by the monotonic clock, by the heartbeat, or by the wall clock as read; it sleeps without limit
  only if there is no publication.\<close>

theorem maintenance_wakes_in_time:
  assumes "hub_reachable B cfg w" "maintenance_round B w = (Inr (Some next), w')"
  shows "let u = utc (env w 0); m = mono (env w 1) in
      hb_slots w' = filter (\<lambda>(_, s). window_active (sl_window s) u m) (hb_slots w)
    \<and> (\<forall>k s. map_of (hb_slots w) k = Some s \<and> \<not> window_active (sl_window s) u m
         \<longrightarrow> hb_ends w' (sl_identity s) = Some (expiry_reason (sl_window s) u m))
    \<and> (next = None \<longleftrightarrow> hb_slots w' = [])
    \<and> (\<forall>n. next = Some n \<longrightarrow> m \<le> n \<and> (\<forall>(k, s) \<in> set (hb_slots w').
         n \<le> wn_mono (sl_window s) \<and> n \<le> wn_heartbeat (sl_window s) \<and> int n \<le> int m + (int (wn_utc (sl_window s)) - u)))"
proof -
  define u m where "u = utc (env w 0)" and "m = mono (env w 1)"
  let ?v = "w\<lparr>env := \<lambda>n. env w (Suc (Suc n))\<rparr>"
  have inv: "hub_inv ?v" using hub_reachable_inv [OF assms(1)] by simp
  let ?ends = "map (\<lambda>(_, s). window_next (sl_window s) u m) (hb_slots w')"
  have round: "w' = prune B u m ?v" "next = (if ?ends = [] then None else Some (Min (set ?ends)))"
    using assms(2) by (auto simp: maintenance_round_def prog_ok u_def m_def split: if_splits)
  have slots: "hb_slots w' = filter (\<lambda>(_, s). window_active (sl_window s) u m) (hb_slots w)"
    using prune_slots [OF inv] round(1) by simp
  have ended: "hb_ends w' (sl_identity s) = Some (expiry_reason (sl_window s) u m)"
    if "map_of (hb_slots w) k = Some s" "\<not> window_active (sl_window s) u m" for k s
    using prune_ends [OF inv, of k s u m B] that round(1) by simp
  have "m \<le> n \<and> n \<le> wn_mono (sl_window s) \<and> n \<le> wn_heartbeat (sl_window s) \<and> int n \<le> int m + (int (wn_utc (sl_window s)) - u)"
    if "next = Some n" "(k, s) \<in> set (hb_slots w')" for n k s
  proof -
    have n: "n = Min (set ?ends)" using that round(2) by (auto split: if_splits)
    have "n \<le> window_next (sl_window s) u m" unfolding n using that(2) by (intro Min_le) (auto simp: image_iff, force)
    moreover have "window_active (sl_window s) u m" using that(2) slots by auto
    moreover have "m \<le> n"
    proof -
      have "Min (set ?ends) \<in> set ?ends" using that(2) by (intro Min_in) auto
      then obtain k' s' where "n = window_next (sl_window s') u m" "(k', s') \<in> set (hb_slots w')" using n by auto
      then show ?thesis using window_next_bounds(1) [of "sl_window s'" u m] slots by auto
    qed
    ultimately show ?thesis using window_next_bounds [of "sl_window s" u m] by force
  qed
  moreover have "next = None \<longleftrightarrow> hb_slots w' = []" using round(2) by simp
  moreover have "m \<le> n" if "next = Some n" for n
    using calculation that by (cases "hb_slots w'") force+
  ultimately show ?thesis unfolding Let_def u_def [symmetric] m_def [symmetric] using slots ended by blast
qed

subsection \<open>Replay\<close>

lemma unique_channels_ok:
  "unique_channels project seen cs w = (Inr u, w') \<Longrightarrow>
     (\<forall>c \<in> set cs. na_project_id (ac_authorization c) = project) \<and> distinct (map (\<lambda>c. hub_key (ac_channel c)) cs)
     \<and> set (map (\<lambda>c. hub_key (ac_channel c)) cs) \<inter> set seen = {}"
proof (induction cs arbitrary: seen w)
  case (Cons c cs)
  then obtain w1 where "na_project_id (ac_authorization c) = project" "hub_key (ac_channel c) \<notin> set seen"
    "unique_channels project (hub_key (ac_channel c) # seen) cs w1 = (Inr u, w')"
    by (auto simp: prog_ok split: if_splits)
  with Cons.IH [of "hub_key (ac_channel c) # seen" w1] show ?case by auto
qed simp

text \<open>The instances collected, as a list comprehension.\<close>

definition collected :: "Key list \<Rightarrow> (Key \<times> Slot) list \<Rightarrow> nat \<times> AuthorizedChannel \<Rightarrow> RealtimeHubInstance list" where
  "collected cands slots ic = (case ic of (i, c) \<Rightarrow>
     if hub_key (ac_channel c) \<in> set cands then
       (case map_of slots (hub_key (ac_channel c)) of None \<Rightarrow> []
        | Some s \<Rightarrow> [\<lparr>hi_channel = sl_channel s, hi_snapshot = sl_snapshot s, hi_proof_index = i\<rparr>])
     else [])"

lemma collect_instances_ok:
  "collect_instances cands slots ics out = Inr instances \<Longrightarrow>
     instances = out @ concat (map (collected cands slots) ics)
     \<and> (\<forall>(i, c) \<in> set ics. \<forall>s. hub_key (ac_channel c) \<in> set cands \<longrightarrow> map_of slots (hub_key (ac_channel c)) = Some s
         \<longrightarrow> \<not> owner_conflict s (si_owner (ac_snapshot c)))"
  by (induction cands slots ics out rule: collect_instances.induct)
    (auto simp: collected_def Let_def split: if_splits option.splits)

definition shown :: "Key list \<Rightarrow> (Key \<times> Slot) list \<Rightarrow> nat \<times> AuthorizedChannel \<Rightarrow> bool" where
  "shown cands slots ic \<longleftrightarrow> hub_key (ac_channel (snd ic)) \<in> set cands \<and> map_of slots (hub_key (ac_channel (snd ic))) \<noteq> None"

definition shown_instance :: "(Key \<times> Slot) list \<Rightarrow> nat \<times> AuthorizedChannel \<Rightarrow> RealtimeHubInstance" where
  "shown_instance slots ic = (let s = the (map_of slots (hub_key (ac_channel (snd ic))))
     in \<lparr>hi_channel = sl_channel s, hi_snapshot = sl_snapshot s, hi_proof_index = fst ic\<rparr>)"

lemma collected_shown: "concat (map (collected cands slots) ics) = map (shown_instance slots) (filter (shown cands slots) ics)"
  by (induction ics) (auto simp: collected_def shown_def shown_instance_def split: option.splits)

lemma in_enumerate: "c \<in> set channels \<Longrightarrow> \<exists>i. (i, c) \<in> set (enumerate 0 channels)"
  by (auto simp: in_set_conv_nth [of c] in_set_enumerate_eq)

lemma sort_key_strict:
  fixes f :: "'a \<Rightarrow> 'b :: linorder"
  assumes "distinct (map f xs)"
  shows "sorted_wrt (<) (map f (sort_key f xs))"
  using assms by (simp add: strict_sorted_iff distinct_map)

lemma replay_collect_ok:
  fixes w w' :: "('c, 'z) hub_scheme"
  assumes inv: "hub_inv w" and "replay_collect B project channels cands w = (Inr r, w')"
  shows "hub_inv w'" "rr_project r = project" "rr_channels r = channels"
    "rr_instances r = sort_key (\<lambda>i. (pc_instance_id (hi_channel i), pc_version (hi_channel i)))
       (map (shown_instance (hb_slots w')) (filter (shown cands (hb_slots w')) (enumerate 0 channels)))"
    "\<forall>c \<in> set channels. na_project_id (ac_authorization c) = na_project_id project"
    "distinct (map (\<lambda>c. hub_key (ac_channel c)) channels)"
    "\<forall>c \<in> set channels. \<forall>s. hub_key (ac_channel c) \<in> set cands \<longrightarrow> map_of (hb_slots w') (hub_key (ac_channel c)) = Some s
       \<longrightarrow> \<not> owner_conflict s (si_owner (ac_snapshot c))"
proof -
  obtain w1 w2 instances w3 w4 where steps: "unique_channels (na_project_id project) [] channels w = (Inr (), w1)"
    "w2 = prune B (utc (env w1 0)) (mono (env w1 1)) (w1\<lparr>env := \<lambda>n. env w1 (Suc (Suc n))\<rparr>)"
    "collect_instances cands (hb_slots w2) (enumerate 0 channels) [] = Inr instances"
    "proof_check project w2 = (Inr (), w3)" "check_proofs channels w3 = (Inr (), w4)" "replay_check r w4 = (Inr (), w')"
    and r: "r = \<lparr>rr_project = project, rr_channels = channels,
               rr_instances = sort_key (\<lambda>i. (pc_instance_id (hi_channel i), pc_version (hi_channel i))) instances\<rparr>"
    using assms(2) by (auto simp: replay_collect_def prog_ok Let_def)
  obtain e where "w' = w2\<lparr>env := e\<rparr>"
    using hub_reads_env(1) [OF steps(4)] hub_reads_env(4) [OF steps(5)] hub_reads_env(6) [OF steps(6)] by auto
  then have slots: "hb_slots w' = hb_slots w2" by simp
  obtain e1 where e1: "w1 = w\<lparr>env := e1\<rparr>" using hub_reads_env(5) [OF steps(1)] by auto
  then have "hub_inv w2" unfolding steps(2) using inv by (intro hub_evolves_inv [OF hub_evolves_prune]) simp
  then show "hub_inv w'" using \<open>w' = w2\<lparr>env := e\<rparr>\<close> by simp
  show "rr_project r = project" "rr_channels r = channels" by (simp_all add: r)
  note c = collect_instances_ok [OF steps(3)]
  show "rr_instances r = sort_key (\<lambda>i. (pc_instance_id (hi_channel i), pc_version (hi_channel i)))
       (map (shown_instance (hb_slots w')) (filter (shown cands (hb_slots w')) (enumerate 0 channels)))"
    using c unfolding slots by (simp add: r collected_shown)
  show "\<forall>c \<in> set channels. na_project_id (ac_authorization c) = na_project_id project"
    "distinct (map (\<lambda>c. hub_key (ac_channel c)) channels)"
    using unique_channels_ok [OF steps(1)] by simp_all
  show "\<forall>c \<in> set channels. \<forall>s. hub_key (ac_channel c) \<in> set cands \<longrightarrow> map_of (hb_slots w') (hub_key (ac_channel c)) = Some s
       \<longrightarrow> \<not> owner_conflict s (si_owner (ac_snapshot c))"
    using c in_enumerate unfolding slots by fastforce
qed

text \<open>The view of one instance: from the slot of a proven channel, masked by both proofs.\<close>

definition instance_of ::
  "NowAuthorization \<Rightarrow> AuthorizedChannel \<Rightarrow> Slot \<Rightarrow> instance_view" where
  "instance_of project c slot = (let p = na_mask project; m = na_mask (ac_authorization c) in
     \<lparr>iw_instance_id = pc_instance_id (ac_channel c), iw_version = pc_version (ac_channel c),
      iw_now = mask_sections (sl_snapshot slot) (mask_task p \<and> mask_task m) (mask_memory p \<and> mask_memory m)
        (mask_knowledge p \<and> mask_knowledge m)\<rparr>)"

lemma shown_view:
  assumes "hub_inv w" "(i, c) \<in> set (enumerate 0 channels)" "map_of (hb_slots w) (hub_key (ac_channel c)) = Some slot"
    "rr_project r = project" "rr_channels r = channels"
  shows "instance_serialize r (shown_instance (hb_slots w) (i, c)) = instance_of project c slot"
proof -
  have "hub_key (sl_channel slot) = hub_key (ac_channel c)" using slot_key [OF assms(1,3)] by simp
  then have "pc_instance_id (sl_channel slot) = pc_instance_id (ac_channel c)" "pc_version (sl_channel slot) = pc_version (ac_channel c)"
    by (simp_all add: hub_key_def)
  moreover have "channels ! i = c" using assms(2) by (auto simp: in_set_enumerate_eq)
  ultimately show ?thesis
    using assms(3-5) by (simp add: instance_serialize_def shown_instance_def instance_of_def Let_def)
qed

lemma views_set:
  assumes "hub_inv w" "rr_project r = project" "rr_channels r = channels"
    "rr_instances r = sort_key f (map (shown_instance (hb_slots w)) (filter (shown cands (hb_slots w)) (enumerate 0 channels)))"
    "views = map (instance_serialize r) (rr_instances r)"
  shows "set views = {instance_of project c slot | c slot. c \<in> set channels \<and> hub_key (ac_channel c) \<in> set cands
        \<and> map_of (hb_slots w) (hub_key (ac_channel c)) = Some slot}"
    (is "_ = ?R")
proof -
  have "set views = (\<lambda>ic. instance_serialize r (shown_instance (hb_slots w) ic)) ` {ic \<in> set (enumerate 0 channels). shown cands (hb_slots w) ic}"
    unfolding assms(4,5) by (simp add: image_image)
  also have "\<dots> = ?R"
  proof (intro equalityI subsetI, goal_cases)
    case (1 v)
    then obtain i c where ic: "(i, c) \<in> set (enumerate 0 channels)" "shown cands (hb_slots w) (i, c)"
      "v = instance_serialize r (shown_instance (hb_slots w) (i, c))" by auto
    obtain slot where slot: "map_of (hb_slots w) (hub_key (ac_channel c)) = Some slot" using ic(2) unfolding shown_def by auto
    have "c \<in> set channels" using ic(1) by (auto simp: in_set_enumerate_eq)
    moreover have "hub_key (ac_channel c) \<in> set cands" using ic(2) by (simp add: shown_def)
    ultimately show ?case using shown_view [OF assms(1) ic(1) slot assms(2,3)] ic(3) slot by blast
  next
    case (2 v)
    then obtain c slot where c: "v = instance_of project c slot" "c \<in> set channels" "hub_key (ac_channel c) \<in> set cands"
      "map_of (hb_slots w) (hub_key (ac_channel c)) = Some slot" by blast
    obtain i where i: "(i, c) \<in> set (enumerate 0 channels)" using in_enumerate [OF c(2)] by blast
    have "shown cands (hb_slots w) (i, c)" using c(3,4) by (simp add: shown_def)
    moreover have "v = instance_serialize r (shown_instance (hb_slots w) (i, c))"
      using shown_view [OF assms(1) i c(4) assms(2,3)] c(1) by simp
    ultimately show ?case using i by (intro image_eqI [of _ _ "(i, c)"]) simp_all
  qed
  finally show ?thesis .
qed

text \<open>C9: a replay shows, in the order of instance and version and each at most once, exactly the candidates whose
  channel the caller has a current proof for and that are published in the project; each belongs to
  the registered owner; and of its stored snapshot, which the publisher could only fill within their
  own rights, a section is shown only if both the project proof and the channel proof grant it.\<close>

theorem replay_shows_granted_sections:
  assumes "hub_reachable B cfg w" "\<forall>c \<in> set channels. proof_of_channel c"
    "replay_collect B project channels cands w = (Inr r, w')" "replay_serialize r w1 = (Inr (p, views), w2)"
  shows "p = na_project_id project \<and> sorted_wrt (<) (map (\<lambda>v. (iw_instance_id v, iw_version v)) views)
    \<and> set views = {instance_of project c slot | c slot. c \<in> set channels \<and> hub_key (ac_channel c) \<in> set cands
        \<and> map_of (hb_slots w') (hub_key (ac_channel c)) = Some slot}
    \<and> (\<forall>c slot. c \<in> set channels \<longrightarrow> hub_key (ac_channel c) \<in> set cands \<longrightarrow> map_of (hb_slots w') (hub_key (ac_channel c)) = Some slot
        \<longrightarrow> pc_project_id (ac_channel c) = p \<and> \<not> owner_conflict slot (si_owner (ac_snapshot c)))"
proof -
  note r = replay_collect_ok [OF hub_reachable_inv [OF assms(1)] assms(3)]
  let ?ics = "filter (shown cands (hb_slots w')) (enumerate 0 channels)"
  let ?f = "\<lambda>i. (pc_instance_id (hi_channel i), pc_version (hi_channel i))"
  let ?g = "\<lambda>c. (pc_instance_id (ac_channel c), pc_version (ac_channel c))"
  have p: "p = na_project_id project" and views: "views = map (instance_serialize r) (rr_instances r)"
    using assms(4) r(2) by (auto simp: replay_serialize_def prog_ok)
  have proj: "pc_project_id (ac_channel c) = p" if "c \<in> set channels" for c
    using that assms(2) r(5) p by (simp add: proof_of_channel_def)
  have key: "?f (shown_instance (hb_slots w') ic) = ?g (snd ic)" if "ic \<in> set ?ics" for ic
  proof -
    have "shown cands (hb_slots w') ic" using that by simp
    then obtain s where "map_of (hb_slots w') (hub_key (ac_channel (snd ic))) = Some s" unfolding shown_def by blast
    then show ?thesis using slot_key [OF r(1)] by (force simp: shown_instance_def hub_key_def)
  qed
  have "inj_on ?g (set channels)"
    using r(6) proj by (intro inj_onI) (auto simp: distinct_map hub_key_def dest: inj_onD)
  then have "distinct (map ?g channels)" using r(6) by (simp add: distinct_map)
  moreover have "map (\<lambda>ic. ?g (snd ic)) (enumerate 0 channels) = map ?g (map snd (enumerate 0 channels))"
    by (simp only: map_map comp_def)
  ultimately have "distinct (map (\<lambda>ic. ?g (snd ic)) (enumerate 0 channels))" by (simp only: map_snd_enumerate)
  then have "distinct (map (\<lambda>ic. ?g (snd ic)) ?ics)" by (rule distinct_map_filter)
  moreover have "map (\<lambda>ic. ?g (snd ic)) ?ics = map ?f (map (shown_instance (hb_slots w')) ?ics)" using key by (simp add: comp_def)
  ultimately have "distinct (map ?f (map (shown_instance (hb_slots w')) ?ics))" by simp
  then have strict: "sorted_wrt (<) (map ?f (rr_instances r))"
    unfolding r(4) by (rule sort_key_strict)
  have "iw_instance_id (instance_serialize r i) = pc_instance_id (hi_channel i)"
    "iw_version (instance_serialize r i) = pc_version (hi_channel i)" for i
    by (simp_all add: instance_serialize_def Let_def)
  then have "sorted_wrt (<) (map (\<lambda>v. (iw_instance_id v, iw_version v)) views)" using strict by (simp add: views comp_def)
  moreover have "set views = {instance_of project c slot | c slot. c \<in> set channels \<and> hub_key (ac_channel c) \<in> set cands
        \<and> map_of (hb_slots w') (hub_key (ac_channel c)) = Some slot}"
    by (rule views_set) fact+
  ultimately show ?thesis using p proj r(7) by blast
qed

subsection \<open>Every run\<close>

text \<open>C8: a hub is sound in every state it can reach: the slots are in key order, each under the key of its channel and
  with a snapshot of its project; the publications that have not ended are exactly those that own a
  slot; nothing is kept outside the running phase.  And in every step an end reason is final, and so
  is closing.\<close>

theorem hub_stays_sound:
  assumes "hub_reachable B cfg w"
  shows "hub_inv w \<and> (\<forall>act w'. hub_step B cfg act w w' \<longrightarrow> hub_evolves w w')"
  using assms hub_reachable_inv hub_step_evolves by blast

text \<open>C4: no invalidation is lost.  A subscription belongs to the project of its proof; and whatever everybody else
  does after it was made, in any order, the hub closes, or the subscription is still registered and,
  if a publication of its project was added, replaced, refreshed or ended at any moment of the
  meantime, even if it was undone later, or if the subscription had a signal before, the next receive
  returns without waiting: \<^verbatim>\<open>v\<close> is any state in between.\<close>

theorem no_lost_invalidation:
  assumes "broadcast_laws B live" "hub_reachable B cfg w0" "subscribe B cfg a w0 = (Inr s, w)" "hub_meanwhile B cfg s w v"
    "hub_meanwhile B cfg s v w'"
  shows "ps_project s = na_project_id a \<and> (hb_phase w' = PH_Closed \<or> (subscribed live s w'
    \<and> (awake B s w \<or> publications (ps_project s) v \<noteq> publications (ps_project s) w
         \<or> publications (ps_project s) w' \<noteq> publications (ps_project s) v \<longrightarrow> awake B s w')))"
proof -
  have inv: "hub_inv w0" by (rule hub_reachable_inv) fact
  have "hub_inv w" using ev.keeps_snd [OF ev.subscribe_keeps inv] assms(3) hub_evolves_inv by (metis snd_conv)
  then have v: "hub_tells B live s w v" using hub_meanwhile_tells assms(4) by blast
  then have "hub_tells B live s v w'" using hub_meanwhile_tells assms(5) hub_tells_inv by blast
  then show ?thesis
    using v subscribe_subscribed [OF assms(3,1) inv] assms(1) by (auto simp: hub_tells_def told_def hub_evolves_def)
qed

subsection \<open>A hub in which nothing changes\<close>

text \<open>A broadcast channel as its capacity, the number of messages sent, the next receiver and the position of each
  receiver.\<close>

type_synonym ring = "nat \<times> nat \<times> nat \<times> (nat \<times> nat) list"

definition demo_move :: "nat \<Rightarrow> nat \<Rightarrow> (nat \<times> nat) list \<Rightarrow> (nat \<times> nat) list" where
  "demo_move r p rs = map (\<lambda>(q, at). if q = r then (q, p) else (q, at)) rs"

definition demo_recv :: "bool \<Rightarrow> nat \<Rightarrow> ring \<Rightarrow> (RecvError + unit) option \<times> ring" where
  "demo_recv alive r c = (case c of (cap, sent, next, rs) \<Rightarrow> case map_of rs r of
       None \<Rightarrow> (Some (Inl ChannelClosed), c)
     | Some p \<Rightarrow> if p = sent then (if alive then None else Some (Inl ChannelClosed), c)
         else if cap < sent - p then (Some (Inl Lagged), cap, sent, next, demo_move r (sent - cap) rs)
         else (Some (Inr ()), cap, sent, next, demo_move r (Suc p) rs))"

definition demo_broadcast :: "(ring, nat) broadcast_lib" where
  "demo_broadcast = \<lparr>bc_new = \<lambda>cap. (cap, 0, 0, []),
     bc_send = \<lambda>(cap, sent, next, rs). (cap, if rs = [] then sent else Suc sent, next, rs),
     bc_subscribe = \<lambda>(cap, sent, next, rs). (next, cap, sent, Suc next, (next, sent) # rs),
     bc_drop = \<lambda>r (cap, sent, next, rs). (cap, sent, next, filter (\<lambda>(q, _). q \<noteq> r) rs),
     bc_count = \<lambda>(cap, sent, next, rs). length rs, bc_recv = demo_recv\<rparr>"

definition demo_live :: "nat \<Rightarrow> ring \<Rightarrow> bool" where
  "demo_live r c = (case c of (cap, sent, next, rs) \<Rightarrow> r < next \<and> (\<exists>p \<le> sent. map_of rs r = Some p))"

lemma map_of_demo_move: "q \<noteq> r \<Longrightarrow> map_of (demo_move q p rs) r = map_of rs r"
  by (induction rs) (auto simp: demo_move_def)

lemma map_of_other: "q \<noteq> r \<Longrightarrow> map_of (filter (\<lambda>(k, _). k \<noteq> q) rs) r = map_of rs r"
  by (induction rs) auto

lemma demo_recv_other:
  assumes "demo_live r c" "q \<noteq> r"
  shows "demo_live r (snd (demo_recv b q c)) \<and> fst (demo_recv True r (snd (demo_recv b q c))) = fst (demo_recv True r c)"
proof (cases c)
  case (fields cap sent nx rs)
  then show ?thesis
    using assms by (cases "map_of rs q") (auto simp: demo_recv_def demo_live_def map_of_demo_move)
qed

lemma demo_drop_other:
  "demo_live r c \<Longrightarrow> q \<noteq> r \<Longrightarrow> demo_live r (bc_drop demo_broadcast q c)
     \<and> fst (demo_recv True r (bc_drop demo_broadcast q c)) = fst (demo_recv True r c)"
  by (cases c) (auto simp: demo_broadcast_def demo_live_def demo_recv_def map_of_other split: option.splits)

lemma demo_subscribe:
  "demo_live (fst (bc_subscribe demo_broadcast c)) (snd (bc_subscribe demo_broadcast c))"
  "demo_live r c \<Longrightarrow> demo_live r (snd (bc_subscribe demo_broadcast c))
     \<and> fst (demo_recv True r (snd (bc_subscribe demo_broadcast c))) = fst (demo_recv True r c)"
  by (cases c, auto simp: demo_broadcast_def demo_live_def demo_recv_def split: option.splits)+

lemma demo_send:
  "demo_live r c \<Longrightarrow> bc_count demo_broadcast c \<noteq> 0 \<and> demo_live r (bc_send demo_broadcast c)
     \<and> fst (demo_recv True r (bc_send demo_broadcast c)) \<noteq> None"
  by (cases c) (auto simp: demo_broadcast_def demo_live_def demo_recv_def split: option.splits)

lemma demo_broadcast_laws: "broadcast_laws demo_broadcast demo_live"
proof -
  have recv: "bc_recv demo_broadcast = demo_recv" by (simp add: demo_broadcast_def)
  show ?thesis
    unfolding broadcast_laws_def recv using demo_drop_other demo_subscribe demo_send demo_recv_other by blast
qed

text \<open>A running hub whose clocks stand still, a proof that lasts, and a publication.\<close>

definition demo_authorization :: NowAuthorization where
  "demo_authorization = \<lparr>na_principal = CP_Local \<lparr>vl_user = demo_local_user, vl_kind = LB_Access, vl_audience = ''aud'', vl_scopes = [],
     vl_expires_at = 9, vl_verified_at = 1, vl_expires_utc = 9000, vl_expires_mono = 20\<rparr>, na_project_id = demo_project,
     na_mask = \<lparr>mask_task = True, mask_memory = False, mask_knowledge = True\<rparr>, na_policy_revision = 1, na_end = 50,
     na_expires_at = 9000, na_expires_mono = 20\<rparr>"

definition demo_publisher :: AuthorizedChannel where
  "demo_publisher = \<lparr>ac_authorization = demo_authorization, ac_channel = demo_channel,
     ac_snapshot = \<lparr>si_owner = \<lparr>io_issuer = ''local'', io_subject = ''s1''\<rparr>,
       si_inventory = \<lparr>ii_instance_id = ''i1'', ii_projects = []\<rparr>, si_created_at = 1, si_updated_at = 1\<rparr>\<rparr>"

definition demo_hub_config :: hub_config where
  "demo_hub_config = \<lparr>hc_heartbeat = 3, hc_capacity = 1\<rparr>"

definition demo_hub :: "ring hub" where
  "demo_hub = (hub_initial (1, 0, 0, []) (\<lambda>_. frozen_tick 5 1000))\<lparr>hb_phase := PH_Running\<rparr>"

definition still :: "('c, 'z) hub_scheme \<Rightarrow> bool" where
  "still w \<longleftrightarrow> env w = (\<lambda>_. frozen_tick 5 1000) \<and> \<not> hb_poisoned w \<and> hb_phase w = PH_Running"

lemma still_tick: "still w \<Longrightarrow> now_tick w = (Inr (frozen_tick 5 1000), w)"
  unfolding now_tick_def still_def by (cases w) simp

lemma still_check: "still w \<Longrightarrow> na_check demo_authorization w = (Inr (), w)"
  by (simp add: na_check_def check_deadline_def deadline_check_def demo_authorization_def na_expired_at_def pseq_def pbind_def
      pmap_err_def still_tick pguard_def plift_def require_def pret_def)

lemma still_prune: "still w \<Longrightarrow> still (prune B u m w)"
proof -
  have "env (fold (expire_slot B u m) ks w) = env w" for ks and w :: "('a, 'b) hub_scheme"
    by (induction ks arbitrary: w) (simp_all add: expire_slot_def split: option.splits)
  then show "still w \<Longrightarrow> still (prune B u m w)" by (simp add: still_def prune_def Let_def fold_expire_fields)
qed

lemma still_runs:
  assumes "still w"
  shows "proof_check demo_authorization w = (Inr (), w)" "hub_lock w = (Inr (), w)" "hub_running w = (Inr (), w)"
    "prune_now B w = (Inr (), prune B 1000 5 w)" "heartbeat_end demo_hub_config w = (Inr 8, w)"
    "filter_snapshot demo_authorization demo_now w = (Inr (mask_sections demo_now True False True), w)"
  using assms
  by (simp_all add: proof_check_def still_check still_tick pmap_err_def hub_lock_def hub_running_def hub_get_def pbind_def pguard_def
      plift_def require_def still_def pret_def prune_now_def hub_modify_def heartbeat_end_def demo_hub_config_def time_checked_add_def
      time_max_def ok_or_def filter_snapshot_def pseq_def Let_def)
    (simp_all add: demo_authorization_def demo_now_def)

definition demo_slot :: "nat \<Rightarrow> Slot" where
  "demo_slot i = \<lparr>sl_channel = demo_channel, sl_issuer = ''local'', sl_subject = ''s1'', sl_identity = i,
     sl_snapshot = mask_sections demo_now True False True, sl_window = \<lparr>wn_utc = 9000, wn_mono = 20, wn_heartbeat = 8\<rparr>\<rparr>"

lemma demo_hub_opens:
  assumes "still w" "map_of (hb_slots (prune B 1000 5 w)) (hub_key demo_channel) = None"
  shows "open_publisher B demo_hub_config demo_publisher demo_now w = (Inr \<lparr>ph_channel = demo_channel, ph_identity = hb_next_id w\<rparr>,
    insert_slot B (hub_key demo_channel) (demo_slot (hb_next_id w)) (prune B 1000 5 w))"
proof -
  have p: "still (prune B 1000 5 w)" using assms(1) by (rule still_prune)
  have "na_expires_at demo_authorization = 9000" "na_expires_mono demo_authorization = 20" by (simp_all add: demo_authorization_def)
  then show ?thesis
    using assms(2)
    by (simp add: still_runs [OF assms(1)] still_runs [OF p] open_publisher_def Let_def pseq_def pbind_def pmap_err_def hub_get_def
        hub_modify_def pret_def demo_publisher_def demo_slot_def)
qed

lemma demo_hub_reachable: "hub_reachable demo_broadcast demo_hub_config demo_hub"
proof -
  have "demo_hub = hub_run demo_broadcast demo_hub_config (HA_Start True) (hub_initial (1, 0, 0, []) (\<lambda>_. frozen_tick 5 1000))"
    by (simp add: demo_hub_def run_maintenance_def hub_lock_def hub_get_def hub_modify_def pseq_def pbind_def pguard_def plift_def
        require_def hub_initial_def)
  then show ?thesis using hub_reach_new hub_reach_step hub_stepI hub_admits.simps by metis
qed

lemma demo_hub_still: "still demo_hub" "map_of (hb_slots (prune B 1000 5 demo_hub)) k = None"
  by (simp_all add: still_def demo_hub_def hub_initial_def prune_def Let_def)

lemma demo_subscribes:
  assumes "still w"
  shows "\<exists>s w'. subscribe B demo_hub_config demo_authorization w = (Inr s, w') \<and> still w' \<and> hb_slots w' = hb_slots (prune B 1000 5 w)"
proof -
  have p: "still (prune B 1000 5 w)" using assms by (rule still_prune)
  then have "still (group_entry B demo_hub_config q (prune B 1000 5 w))
      \<and> hb_slots (group_entry B demo_hub_config q (prune B 1000 5 w)) = hb_slots (prune B 1000 5 w)" for q
    by (simp add: group_entry_def still_def split: option.splits)
  then show ?thesis
    by (simp add: still_runs [OF assms] still_runs [OF p] subscribe_def pseq_def pbind_def hub_get_def hub_modify_def pret_def
        case_prod_unfold still_def)
qed

lemma demo_replays:
  assumes "still w" "map_of (hb_slots (prune B 1000 5 w)) (hub_key demo_channel) = Some (demo_slot i)"
  shows "\<exists>r out. replay_collect B demo_authorization [demo_publisher] [hub_key demo_channel] w = (Inr r, prune B 1000 5 w)
    \<and> replay_serialize r (prune B 1000 5 w) = (Inr out, prune B 1000 5 w)"
proof -
  have p: "still (prune B 1000 5 w)" using assms(1) by (rule still_prune)
  have a: "ac_authorization demo_publisher = demo_authorization" "ac_channel demo_publisher = demo_channel"
    by (simp_all add: demo_publisher_def)
  have "\<exists>is. collect_instances [hub_key demo_channel] (hb_slots (prune B 1000 5 w)) (enumerate 0 [demo_publisher]) [] = Inr is"
    using assms(2) by (simp add: a Let_def) (simp add: demo_publisher_def owner_conflict_def demo_slot_def)
  then show ?thesis
    by (auto simp: still_runs [OF assms(1)] still_runs [OF p] replay_collect_def replay_serialize_def replay_check_def Let_def
        pseq_def pbind_def hub_get_def plift_def pret_def a)
qed

definition demo_opened :: "ring hub" where
  "demo_opened = insert_slot demo_broadcast (hub_key demo_channel) (demo_slot 0) (prune demo_broadcast 1000 5 demo_hub)"

lemma demo_opened_open:
  "open_publisher demo_broadcast demo_hub_config demo_publisher demo_now demo_hub = (Inr \<lparr>ph_channel = demo_channel, ph_identity = 0\<rparr>, demo_opened)"
  using demo_hub_opens [OF demo_hub_still(1,2)] by (simp add: demo_opened_def demo_hub_def hub_initial_def)

lemma demo_publisher_proof: "proof_of_channel demo_publisher"
  by (simp add: proof_of_channel_def demo_publisher_def demo_authorization_def demo_channel_def)

lemma demo_opened_reachable: "hub_reachable demo_broadcast demo_hub_config demo_opened"
proof (rule hub_reach_step [OF demo_hub_reachable])
  have "hub_step demo_broadcast demo_hub_config (HA_Open demo_publisher demo_now) demo_hub
      (hub_run demo_broadcast demo_hub_config (HA_Open demo_publisher demo_now) demo_hub)"
    by (rule hub_stepI) (simp add: demo_publisher_proof)
  then show "hub_step demo_broadcast demo_hub_config (HA_Open demo_publisher demo_now) demo_hub demo_opened"
    by (simp add: demo_opened_open)
qed

lemma demo_opened_still: "still demo_opened"
  "map_of (hb_slots demo_opened) (hub_key demo_channel) = Some (demo_slot 0)"
  "map_of (hb_slots (prune B 1000 5 demo_opened)) (hub_key demo_channel) = Some (demo_slot 0)"
proof -
  have "still (prune demo_broadcast 1000 5 demo_hub)" by (rule still_prune [OF demo_hub_still(1)])
  then show "still demo_opened"
    by (simp add: demo_opened_def still_def insert_slot_def Let_def split: option.splits)
  show m: "map_of (hb_slots demo_opened) (hub_key demo_channel) = Some (demo_slot 0)" by (simp add: demo_opened_def insert_slot_fields)
  show "map_of (hb_slots (prune B 1000 5 demo_opened)) (hub_key demo_channel) = Some (demo_slot 0)"
    using map_of_prune [OF hub_reachable_inv [OF demo_opened_reachable], of B 1000 5 "hub_key demo_channel"] m
    by (simp add: demo_slot_def window_active_def)
qed

theorem hub_stays_sound_witness:
  "hub_reachable demo_broadcast demo_hub_config demo_opened \<and> hub_inv demo_opened
    \<and> hub_evolves demo_opened (hub_run demo_broadcast demo_hub_config (HA_Drop \<lparr>ph_channel = demo_channel, ph_identity = 0\<rparr>) demo_opened)"
  using hub_stays_sound [OF demo_opened_reachable] demo_opened_reachable hub_stepI hub_admits.simps(5) by metis


theorem maintenance_wakes_in_time_witness:
  "\<exists>n w'. maintenance_round demo_broadcast demo_opened = (Inr (Some (Some n)), w') \<and> 5 \<le> n
    \<and> (\<forall>(k, s) \<in> set (hb_slots w'). n \<le> wn_heartbeat (sl_window s))
    \<and> hb_slots w' = filter (\<lambda>(_, s). window_active (sl_window s) 1000 5) (hb_slots demo_opened)"
proof -
  let ?w = "prune demo_broadcast 1000 5 demo_opened"
  have "hb_slots ?w \<noteq> []" using demo_opened_still(3) by (metis map_of.simps(1) option.distinct(1))
  moreover have "\<not> hb_poisoned demo_opened" "hb_phase demo_opened = PH_Running" using demo_opened_still(1) by (simp_all add: still_def)
  ultimately obtain n where n: "maintenance_round demo_broadcast demo_opened = (Inr (Some (Some n)), ?w)"
    by (simp add: maintenance_round_def still_tick [OF demo_opened_still(1)] pbind_def pseq_def hub_get_def hub_modify_def pret_def)
  have "env demo_opened = (\<lambda>_. frozen_tick 5 1000)" using demo_opened_still(1) by (simp add: still_def)
  with maintenance_wakes_in_time [OF demo_opened_reachable n] n show ?thesis by (auto simp: Let_def)
qed

theorem replay_shows_granted_sections_witness:
  "\<exists>r w' p views w2. replay_collect demo_broadcast demo_authorization [demo_publisher] [hub_key demo_channel] demo_opened = (Inr r, w')
    \<and> replay_serialize r w' = (Inr (p, views), w2) \<and> p = demo_project
    \<and> instance_of demo_authorization demo_publisher (demo_slot 0) \<in> set views"
proof -
  obtain r p views where r: "replay_collect demo_broadcast demo_authorization [demo_publisher] [hub_key demo_channel] demo_opened
      = (Inr r, prune demo_broadcast 1000 5 demo_opened)"
    "replay_serialize r (prune demo_broadcast 1000 5 demo_opened) = (Inr (p, views), prune demo_broadcast 1000 5 demo_opened)"
    using demo_replays [OF demo_opened_still(1,3)] by (metis surj_pair)
  have "ac_channel demo_publisher = demo_channel" by (simp add: demo_publisher_def)
  then have "instance_of demo_authorization demo_publisher (demo_slot 0) \<in> set views" "p = demo_project"
    using replay_shows_granted_sections [OF demo_opened_reachable _ r] demo_publisher_proof demo_opened_still(3)
    by (auto simp: demo_authorization_def)
  with r show ?thesis by blast
qed

theorem no_lost_invalidation_witness:
  "\<exists>s w w'. subscribe demo_broadcast demo_hub_config demo_authorization demo_hub = (Inr s, w)
    \<and> hub_meanwhile demo_broadcast demo_hub_config s w w' \<and> ps_project s = demo_project
    \<and> publications demo_project w' \<noteq> publications demo_project w \<and> awake demo_broadcast s w'"
proof -
  obtain s w where s: "subscribe demo_broadcast demo_hub_config demo_authorization demo_hub = (Inr s, w)" "still w" "hb_slots w = []"
    using demo_subscribes [OF demo_hub_still(1), of demo_broadcast] prune_slots [OF hub_reachable_inv [OF demo_hub_reachable]]
    by (fastforce simp: demo_hub_def hub_initial_def)
  let ?p = "prune demo_broadcast 1000 5 w"
  have none: "hb_slots ?p = []" using s(3) by (simp add: prune_def Let_def)
  define w' where "w' = insert_slot demo_broadcast (hub_key demo_channel) (demo_slot (hb_next_id w)) ?p"
  have "w' = hub_run demo_broadcast demo_hub_config (HA_Open demo_publisher demo_now) w"
    using demo_hub_opens [OF s(2), of demo_broadcast] none by (simp add: w'_def)
  then have "hub_step demo_broadcast demo_hub_config (HA_Open demo_publisher demo_now) w w'"
    using hub_stepI demo_publisher_proof hub_admits.simps(1) by metis
  then have run: "hub_meanwhile demo_broadcast demo_hub_config s w w'"
    by (rule meanwhile_step [OF meanwhile_refl]) simp
  have changed: "publications demo_project w' \<noteq> publications demo_project w"
    using s(3) none by (simp add: publications_def w'_def insert_slot_fields hub_key_def demo_channel_def)
  have "hb_phase w' \<noteq> PH_Closed"
    using still_prune [OF s(2), of demo_broadcast 1000 5] none by (simp add: w'_def insert_slot_def still_def Let_def)
  then have "ps_project s = demo_project" "awake demo_broadcast s w'"
    using no_lost_invalidation [OF demo_broadcast_laws demo_hub_reachable s(1) run meanwhile_refl] changed by (auto simp: demo_authorization_def)
  with s(1) run changed show ?thesis by blast
qed

end
