(* ===== verification/Password_Admission.thy ===== *)
theory Password_Admission
  imports Credentials "HOL-Library.AList"
begin

text \<open>
  Password admission, \<^verbatim>\<open>broker-control/src/local_password_admission.rs\<close>, with the part of
  \<^verbatim>\<open>local_captcha.rs\<close> it calls: a bounded number of password checks at a time, counted by leases, and a
  bounded table of recent attempts that locks a name out after too many failures.  The table is a
  list of entries with distinct names, as its order is not observable.  A lease is its user name;
  the leases that exist are part of a run, not of the state.  The lemmas show that the counters are
  the numbers of leases, so that no decrement of a dropped lease can underflow, and that a lockout
  holds until it expires, whatever happens in between short of a verified password.
\<close>

subsection \<open>Configuration\<close>

definition TRACKED_USERNAMES :: nat where
  "TRACKED_USERNAMES = 4096"

text \<open>The largest \<^verbatim>\<open>Duration\<close>, in nanoseconds.\<close>

definition duration_max :: nat where
  "duration_max = 2 ^ 64 * 1000000000 - 1"

datatype LocalCaptchaProvider = Turnstile | Recaptcha

fun captcha_action :: "LocalCaptchaProvider \<Rightarrow> LocalAuthPurpose \<Rightarrow> string option" where
  "captcha_action Turnstile purpose = Some (case purpose of
       LP_AdminLogin \<Rightarrow> ''admin-login'' | LP_OauthAuthorize \<Rightarrow> ''oauth-login'' | LP_DeviceApprove \<Rightarrow> ''device-login'')"
| "captcha_action Recaptcha purpose = None"

record LocalCaptchaChallenge =
  ch_provider :: LocalCaptchaProvider
  ch_site_key :: string
  ch_action :: "string option"

record EnabledCaptcha =
  ec_provider :: LocalCaptchaProvider
  ec_site_key :: string
  ec_threshold :: nat
  ec_workers :: nat
  ec_saturation :: nat

type_synonym LocalCaptcha = "EnabledCaptcha option"

definition captcha_challenge :: "LocalCaptcha \<Rightarrow> LocalAuthPurpose \<Rightarrow> LocalCaptchaChallenge option" where
  "captcha_challenge c purpose = map_option (\<lambda>e. \<lparr>ch_provider = ec_provider e, ch_site_key = ec_site_key e,
     ch_action = captcha_action (ec_provider e) purpose\<rparr>) c"

definition captcha_compatible :: "LocalCaptcha \<Rightarrow> nat \<Rightarrow> nat \<Rightarrow> bool" where
  "captcha_compatible c workers saturation = (case c of None \<Rightarrow> True | Some e \<Rightarrow> ec_workers e = workers \<and> ec_saturation e = saturation)"

definition captcha_required :: "LocalCaptcha \<Rightarrow> nat \<Rightarrow> bool" where
  "captcha_required c occupancy = (case c of None \<Rightarrow> False | Some e \<Rightarrow> ec_threshold e \<le> occupancy)"

record LocalPasswordAdmissionPolicy =
  po_max_failures :: nat
  po_window :: nat
  po_lockout :: nat
  po_workers :: nat
  po_saturation :: nat
  po_max_tracked :: nat

text \<open>The most permits a semaphore of the runtime library allows is an argument.\<close>

definition policy_validate :: "nat \<Rightarrow> LocalPasswordAdmissionPolicy \<Rightarrow> ('x, ControlError, unit) prog" where
  "policy_validate max_permits p = pbind now_tick (\<lambda>now.
     if u64_max < po_workers p * po_saturation p then praise CE_Configuration
     else if max_permits < po_workers p * po_saturation p \<or> po_window p = 0 \<or> po_lockout p = 0 \<or> po_max_tracked p \<noteq> TRACKED_USERNAMES
       \<or> time_checked_add (mono now) (po_window p) = None \<or> time_checked_add (mono now) (po_lockout p) = None
       \<or> duration_max < po_window p + po_lockout p
     then praise CE_Configuration else pret ())"

datatype LocalPasswordError = LPE_Configuration | LPE_InvalidPassword | LPE_InvalidHash | LPE_Hashing

datatype LocalMfaError =
  ME_InvalidPepper | ME_InvalidSubject | ME_InvalidCiphertext | ME_Random | ME_Crypto | ME_Presentation

datatype LocalAuthError =
  LAE_Unauthenticated | LAE_InvalidChallenge | LAE_InvalidPolicy | LAE_PasswordUnchanged | LAE_InvalidMfaCode | LAE_MfaRateLimited nat
| LAE_MfaBusy | LAE_MfaCapacity | LAE_MfaUnavailable | LAE_Password LocalPasswordError | LAE_Credential CredentialError
| LAE_Mfa LocalMfaError | LAE_Control ControlError

datatype LocalPasswordAdmissionError =
  PA_Unauthenticated | PA_RateLimited nat | PA_CaptchaRequired LocalCaptchaChallenge | PA_Capacity
| PA_Control ControlError | PA_Password LocalPasswordError | PA_LocalAuth LocalAuthError

subsection \<open>State\<close>

record Attempt =
  at_window_start :: nat
  at_failures :: nat
  at_blocked_until :: "nat option"
  at_last_seen :: nat
  at_active :: nat

definition refresh_window :: "nat \<Rightarrow> nat \<Rightarrow> Attempt \<Rightarrow> Attempt" where
  "refresh_window now window e =
     (if window \<le> now - at_window_start e then e\<lparr>at_window_start := now, at_failures := 0,
        at_blocked_until := (case at_blocked_until e of None \<Rightarrow> None | Some until \<Rightarrow> if now < until then Some until else None)\<rparr>
      else e)"

record admission = world +
  ad_closed :: bool
  ad_occupied :: nat
  ad_attempts :: "(string \<times> Attempt) list"
  ad_poisoned :: bool

record LocalPasswordWorkers =
  wk_address :: nat
  wk_limit :: nat

record LocalPasswordAdmission =
  la_policy :: LocalPasswordAdmissionPolicy
  la_capacity :: nat
  la_workers :: LocalPasswordWorkers
  la_captcha :: LocalCaptcha

definition admission_new ::
  "nat \<Rightarrow> LocalPasswordAdmissionPolicy \<Rightarrow> LocalPasswordWorkers \<Rightarrow> LocalCaptcha \<Rightarrow> ('x, ControlError, LocalPasswordAdmission) prog" where
  "admission_new max_permits policy workers captcha =
     pseq (policy_validate max_permits policy)
     (if wk_limit workers \<noteq> po_workers policy \<or> \<not> captcha_compatible captcha (po_workers policy) (po_saturation policy)
      then praise CE_Configuration
      else pret \<lparr>la_policy = policy, la_capacity = po_workers policy * po_saturation policy, la_workers = workers, la_captcha = captcha\<rparr>)"

definition admission_initial :: "(nat \<Rightarrow> tick) \<Rightarrow> admission" where
  "admission_initial readings = \<lparr>env = readings, ad_closed = False, ad_occupied = 0, ad_attempts = [], ad_poisoned = False\<rparr>"

type_synonym ('z, 'e, 'a) aprog = "('z admission_ext, 'e, 'a) prog"

definition ad_get :: "('z admission_scheme \<Rightarrow> 'a) \<Rightarrow> ('z, 'e, 'a) aprog" where
  "ad_get f = (\<lambda>w. (Inr (f w), w))"

definition ad_lock :: "'e \<Rightarrow> ('z, 'e, unit) aprog" where
  "ad_lock e = pbind (ad_get ad_poisoned) (\<lambda>p. pguard (\<not> p) e)"

definition next_password_challenge :: "LocalPasswordAdmission \<Rightarrow> LocalAuthPurpose \<Rightarrow> ('z, ControlError, LocalCaptchaChallenge option) aprog" where
  "next_password_challenge A purpose =
     pseq (ad_lock CE_Closed) (pbind (ad_get ad_closed) (\<lambda>closed. if closed then praise CE_Closed
     else pbind (ad_get ad_occupied) (\<lambda>occupied. if u64_max < occupied + 1 then praise CE_Configuration
     else pret (if captcha_required (la_captcha A) (occupied + 1) then captcha_challenge (la_captcha A) purpose else None))))"

definition ad_close :: "('z, 'e, unit) aprog" where
  "ad_close = (\<lambda>w. (Inr (), w\<lparr>ad_closed := True\<rparr>))"

subsection \<open>Admission\<close>

text \<open>The table after an admission of a name at an instant, with the refusal if there is one.\<close>

definition admit_entry ::
  "LocalPasswordAdmissionPolicy \<Rightarrow> string \<Rightarrow> nat \<Rightarrow> (string \<times> Attempt) list
     \<Rightarrow> (LocalPasswordAdmissionError + unit) \<times> (string \<times> Attempt) list" where
  "admit_entry p name now xs =
     (let stale = po_window p + po_lockout p in
      if duration_max < stale then (Inl (PA_Control CE_Configuration), xs)
      else let kept = filter (\<lambda>(_, e). at_active e \<noteq> 0 \<or> (case at_blocked_until e of None \<Rightarrow> False | Some until \<Rightarrow> now < until)
             \<or> now - at_last_seen e \<le> stale) xs in
      if map_of kept name = None \<and> length kept = TRACKED_USERNAMES then (Inl PA_Capacity, kept)
      else let e = (case map_of kept name of Some e \<Rightarrow> e
               | None \<Rightarrow> \<lparr>at_window_start = now, at_failures = 0, at_blocked_until = None, at_last_seen = now, at_active = 0\<rparr>) in
      case (case at_blocked_until e of None \<Rightarrow> None | Some until \<Rightarrow> if now < until then Some until else None) of
        Some until \<Rightarrow> (Inl (PA_RateLimited (until - now)), AList.update name e kept)
      | None \<Rightarrow> let f = refresh_window now (po_window p) e in
          if u64_max < at_active f + 1 then (Inl (PA_Control CE_Configuration), AList.update name f kept)
          else (Inr (), AList.update name (f\<lparr>at_active := at_active f + 1, at_last_seen := now\<rparr>) kept))"

record PasswordWorkLease =
  pw_username :: "string option"

text \<open>The lock, the instant read under it, the deadline and the closed flag, which every operation on a lease
  checks in this order.\<close>

definition ad_enter :: "nat \<Rightarrow> ('z, LocalPasswordAdmissionError, nat) aprog" where
  "ad_enter original =
     pseq (ad_lock (PA_Control CE_Closed)) (pbind now_tick (\<lambda>t.
     if original \<le> mono t then praise (PA_Control CE_Deadline)
     else pbind (ad_get ad_closed) (\<lambda>closed. if closed then praise (PA_Control CE_Closed) else pret (mono t))))"

definition ad_table ::
  "((string \<times> Attempt) list \<Rightarrow> ('e + 'a) \<times> (string \<times> Attempt) list) \<Rightarrow> ('z, 'e, 'a) aprog" where
  "ad_table f = (\<lambda>w. case f (ad_attempts w) of (r, xs) \<Rightarrow> (r, w\<lparr>ad_attempts := xs\<rparr>))"

definition admit ::
  "LocalPasswordAdmission \<Rightarrow> string option \<Rightarrow> nat \<Rightarrow> ('z, LocalPasswordAdmissionError, PasswordWorkLease \<times> nat) aprog" where
  "admit A username original =
     pseq (deadline_check original (PA_Control CE_Deadline)) (pbind (ad_enter original) (\<lambda>now.
     pbind (ad_get ad_occupied) (\<lambda>occupied.
     if occupied = la_capacity A then praise (PA_RateLimited 1000000000)
     else pseq (case username of None \<Rightarrow> pret () | Some name \<Rightarrow> ad_table (admit_entry (la_policy A) name now))
     (\<lambda>w. (Inr (\<lparr>pw_username = username\<rparr>, occupied + 1), w\<lparr>ad_occupied := occupied + 1\<rparr>)))))"

definition admit_password_change ::
  "LocalPasswordAdmission \<Rightarrow> LocalPasswordWorkers \<Rightarrow> nat \<Rightarrow> ('z, LocalPasswordAdmissionError, PasswordWorkLease) aprog" where
  "admit_password_change A engine original =
     (if wk_address (la_workers A) \<noteq> wk_address engine then praise (PA_Control CE_Configuration)
      else pbind (admit A None original) (\<lambda>(lease, _). pret lease))"

subsection \<open>Leases\<close>

definition check_work :: "PasswordWorkLease \<Rightarrow> nat \<Rightarrow> ('z, ControlError, unit) aprog" where
  "check_work lease original =
     pseq (ad_lock CE_Closed) (pseq (deadline_check original CE_Deadline)
     (pbind (ad_get ad_closed) (\<lambda>closed. pguard (\<not> closed) CE_Closed)))"

definition recheck_attempt :: "PasswordWorkLease \<Rightarrow> nat \<Rightarrow> ('z, LocalPasswordAdmissionError, unit) aprog" where
  "recheck_attempt lease original =
     pbind (ad_enter original) (\<lambda>now. pbind (ad_get ad_attempts) (\<lambda>xs.
     case Option.bind (Option.bind (pw_username lease) (map_of xs)) at_blocked_until of
       None \<Rightarrow> pret ()
     | Some until \<Rightarrow> if now < until then praise (PA_RateLimited (until - now)) else pret ()))"

text \<open>Recording a wrong password; when the lockout has no end the entry is already changed.\<close>

definition incorrect_entry ::
  "LocalPasswordAdmissionPolicy \<Rightarrow> string option \<Rightarrow> nat \<Rightarrow> (string \<times> Attempt) list
     \<Rightarrow> (LocalPasswordAdmissionError + unit) \<times> (string \<times> Attempt) list" where
  "incorrect_entry p username now xs = (case username of
       None \<Rightarrow> (Inl (PA_Control CE_Configuration), xs)
     | Some name \<Rightarrow> (case map_of xs name of
         None \<Rightarrow> (Inl (PA_Control CE_Configuration), xs)
       | Some e \<Rightarrow>
           let f = refresh_window now (po_window p) e;
               g = f\<lparr>at_failures := min u64_max (at_failures f + 1), at_last_seen := now\<rparr> in
           if at_failures g < po_max_failures p then (Inr (), AList.update name g xs)
           else case time_checked_add now (po_lockout p) of
               None \<Rightarrow> (Inl (PA_Control CE_Configuration), AList.update name g xs)
             | Some until \<Rightarrow> (Inr (), AList.update name (g\<lparr>at_blocked_until := Some until\<rparr>) xs)))"

definition incorrect ::
  "LocalPasswordAdmission \<Rightarrow> PasswordWorkLease \<Rightarrow> nat \<Rightarrow> ('z, LocalPasswordAdmissionError, unit) aprog" where
  "incorrect A lease original =
     pbind (ad_enter original) (\<lambda>now. ad_table (incorrect_entry (la_policy A) (pw_username lease) now))"

definition succeeded_entry ::
  "string option \<Rightarrow> string \<Rightarrow> nat \<Rightarrow> (string \<times> Attempt) list
     \<Rightarrow> (LocalPasswordAdmissionError + unit) \<times> (string \<times> Attempt) list" where
  "succeeded_entry username verified now xs = (case username of
       None \<Rightarrow> (Inl (PA_Control CE_Configuration), xs)
     | Some name \<Rightarrow> if name \<noteq> verified then (Inl (PA_Control CE_Configuration), xs)
       else (case map_of xs name of
         None \<Rightarrow> (Inl (PA_Control CE_Configuration), xs)
       | Some e \<Rightarrow> (Inr (), AList.update name (e\<lparr>at_failures := 0, at_blocked_until := None, at_window_start := now,
             at_last_seen := now\<rparr>) xs)))"

definition succeeded ::
  "PasswordWorkLease \<Rightarrow> string \<Rightarrow> nat \<Rightarrow> ('z, LocalPasswordAdmissionError, unit) aprog" where
  "succeeded lease verified original =
     pbind (ad_enter original) (\<lambda>now. ad_table (succeeded_entry (pw_username lease) verified now))"

text \<open>Dropping a lease.  The decrements are those of a machine word; that they never underflow is shown below.\<close>

definition drop_entry :: "string \<Rightarrow> (string \<times> Attempt) list \<Rightarrow> (string \<times> Attempt) list" where
  "drop_entry name xs = (case map_of xs name of
       None \<Rightarrow> xs
     | Some e \<Rightarrow> let f = e\<lparr>at_active := at_active e - 1\<rparr> in
         if at_active f = 0 \<and> at_failures f = 0 \<and> at_blocked_until f = None then AList.delete name xs
         else AList.update name f xs)"

definition lease_drop :: "PasswordWorkLease \<Rightarrow> ('z, 'e, unit) aprog" where
  "lease_drop lease = (\<lambda>w. (Inr (), w\<lparr>ad_occupied := ad_occupied w - 1,
     ad_attempts := (case pw_username lease of None \<Rightarrow> ad_attempts w | Some name \<Rightarrow> drop_entry name (ad_attempts w))\<rparr>))"

subsection \<open>Runs\<close>

text \<open>A run keeps the leases that exist beside the state.  The label of a step is the name whose password it verified,
  that is, whose lease reported success.  A panic under the lock poisons it.\<close>

inductive pw_step :: "LocalPasswordAdmission \<Rightarrow> string option \<Rightarrow> admission \<times> PasswordWorkLease list \<Rightarrow> admission \<times> PasswordWorkLease list \<Rightarrow> bool"
  for A where
  pw_admitted: "admit A username original w = (Inr (lease, n), w') \<Longrightarrow> pw_step A None (w, ls) (w', lease # ls)"
| pw_refused: "admit A username original w = (Inl e, w') \<Longrightarrow> pw_step A None (w, ls) (w', ls)"
| pw_change_admitted: "admit_password_change A engine original w = (Inr lease, w')
    \<Longrightarrow> pw_step A None (w, ls) (w', lease # ls)"
| pw_change_refused: "admit_password_change A engine original w = (Inl e, w') \<Longrightarrow> pw_step A None (w, ls) (w', ls)"
| pw_check: "pw_step A None (w, ls) (snd (check_work lease original w), ls)"
| pw_recheck: "lease \<in> set ls \<Longrightarrow> pw_step A None (w, ls)
    (snd (recheck_attempt lease original w), ls)"
| pw_incorrect: "lease \<in> set ls \<Longrightarrow> pw_step A None (w, ls)
    (snd (incorrect A lease original w), ls)"
| pw_succeeded: "lease \<in> set ls \<Longrightarrow> pw_step A (if isl (fst (succeeded lease verified original w)) then None else Some verified) (w, ls)
    (snd (succeeded lease verified original w), ls)"
| pw_drop: "lease \<in> set ls \<Longrightarrow> pw_step A None (w, ls) (snd (lease_drop lease w :: (ControlError + _) \<times> _), remove1 lease ls)"
| pw_close: "pw_step A None (w, ls) (snd (ad_close w :: (ControlError + _) \<times> _), ls)"
| pw_panic: "pw_step A None (w, ls) (w\<lparr>ad_poisoned := True\<rparr>, ls)"

inductive pw_reachable :: "LocalPasswordAdmission \<Rightarrow> admission \<times> PasswordWorkLease list \<Rightarrow> bool" for A where
  pw_reach_new: "pw_reachable A (admission_initial readings, [])"
| pw_reach_step: "pw_reachable A c \<Longrightarrow> pw_step A v c c' \<Longrightarrow> pw_reachable A c'"

text \<open>A run with the labels of its steps.\<close>

inductive pw_run :: "LocalPasswordAdmission \<Rightarrow> string option list \<Rightarrow> admission \<times> PasswordWorkLease list \<Rightarrow> admission \<times> PasswordWorkLease list \<Rightarrow> bool"
  for A where
  pw_run_refl: "pw_run A [] c c"
| pw_run_step: "pw_run A vs c d \<Longrightarrow> pw_step A v d e \<Longrightarrow> pw_run A (vs @ [v]) c e"

subsection \<open>The table of attempts\<close>

definition active_of :: "(string \<times> Attempt) list \<Rightarrow> string \<Rightarrow> nat" where
  "active_of xs name = (case map_of xs name of None \<Rightarrow> 0 | Some e \<Rightarrow> at_active e)"

definition table_ok :: "(string \<Rightarrow> nat) \<Rightarrow> (string \<times> Attempt) list \<Rightarrow> bool" where
  "table_ok c xs \<longleftrightarrow> distinct (map fst xs) \<and> length xs \<le> TRACKED_USERNAMES \<and> active_of xs = c"

lemma length_update: "length (AList.update k v xs) = (if k \<in> fst ` set xs then length xs else Suc (length xs))"
  by (induction xs) auto

lemma table_ok_update:
  assumes "table_ok c xs" "k \<in> fst ` set xs \<or> length xs < TRACKED_USERNAMES"
  shows "table_ok (c(k := at_active e)) (AList.update k e xs)"
  using assms by (auto simp: table_ok_def length_update active_of_def update_conv' distinct_update fun_eq_iff)

lemma table_ok_delete: "table_ok c xs \<Longrightarrow> table_ok (c(k := 0)) (AList.delete k xs)"
  using length_delete_le [of k xs]
  by (auto simp: table_ok_def active_of_def delete_conv' distinct_delete fun_eq_iff intro: order_trans)

lemma map_of_filter_distinct:
  "distinct (map fst xs) \<Longrightarrow> map_of (filter (\<lambda>(_, e). P e) xs) k = (case map_of xs k of None \<Rightarrow> None | Some e \<Rightarrow> if P e then Some e else None)"
  by (induction xs) (auto split: option.splits simp: map_of_eq_None_iff image_iff)

lemma table_ok_retain:
  assumes "table_ok c xs" "\<And>e. \<not> P e \<Longrightarrow> at_active e = 0"
  shows "table_ok c (filter (\<lambda>(_, e). P e) xs)"
proof -
  have d: "distinct (map fst xs)" using assms(1) by (simp add: table_ok_def)
  have "active_of (filter (\<lambda>(_, e). P e) xs) = active_of xs"
    using assms(2) by (intro ext) (simp add: active_of_def map_of_filter_distinct [OF d] split: option.split)
  then show ?thesis
    using assms(1) le_trans [OF length_filter_le] by (auto simp: table_ok_def distinct_map_filter)
qed

lemma refresh_active [simp]: "at_active (refresh_window now window e) = at_active e"
  by (simp add: refresh_window_def)

lemma in_keys: "map_of xs k = Some e \<Longrightarrow> k \<in> fst ` set xs"
  by (metis map_of_SomeD image_eqI fst_conv)

lemma admit_entry_ok:
  assumes "table_ok c xs" "admit_entry p name now xs = (r, ys)"
  shows "table_ok (case r of Inl _ \<Rightarrow> c | Inr _ \<Rightarrow> c(name := c name + 1)) ys"
proof -
  define kept where "kept = filter (\<lambda>(_, e). at_active e \<noteq> 0 \<or> (case at_blocked_until e of None \<Rightarrow> False | Some until \<Rightarrow> now < until)
     \<or> now - at_last_seen e \<le> po_window p + po_lockout p) xs"
  define e where "e = (case map_of kept name of Some e \<Rightarrow> e
     | None \<Rightarrow> \<lparr>at_window_start = now, at_failures = 0, at_blocked_until = None, at_last_seen = now, at_active = 0\<rparr>)"
  have kept: "table_ok c kept" unfolding kept_def by (rule table_ok_retain [OF assms(1)]) auto
  have act: "at_active e = c name" using kept by (auto simp: e_def table_ok_def active_of_def split: option.splits)
  have room: "name \<in> fst ` set kept \<or> length kept < TRACKED_USERNAMES"
    if "\<not> (map_of kept name = None \<and> length kept = TRACKED_USERNAMES)"
    using that kept in_keys by (fastforce simp: table_ok_def)
  have upd: "table_ok (c(name := at_active f)) (AList.update name f kept)"
    if "\<not> (map_of kept name = None \<and> length kept = TRACKED_USERNAMES)" for f
    by (rule table_ok_update [OF kept room [OF that]])
  have same: "table_ok c (AList.update name f kept)"
    if "\<not> (map_of kept name = None \<and> length kept = TRACKED_USERNAMES)" "at_active f = c name" for f
    using upd [OF that(1), of f] that(2) by simp
  define until where "until = (case at_blocked_until e of None \<Rightarrow> None | Some until \<Rightarrow> if now < until then Some until else None)"
  let ?f = "refresh_window now (po_window p) e"
  have "(r, ys) = (if duration_max < po_window p + po_lockout p then (Inl (PA_Control CE_Configuration), xs)
      else if map_of kept name = None \<and> length kept = TRACKED_USERNAMES then (Inl PA_Capacity, kept)
      else case until of Some u \<Rightarrow> (Inl (PA_RateLimited (u - now)), AList.update name e kept)
        | None \<Rightarrow> if u64_max < at_active ?f + 1 then (Inl (PA_Control CE_Configuration), AList.update name ?f kept)
            else (Inr (), AList.update name (?f\<lparr>at_active := at_active ?f + 1, at_last_seen := now\<rparr>) kept))"
    unfolding assms(2) [symmetric] admit_entry_def Let_def kept_def [symmetric] e_def [symmetric] until_def [symmetric] ..
  then show ?thesis
    using assms(1) kept same [of e] same [of ?f] upd [of "?f\<lparr>at_active := at_active ?f + 1, at_last_seen := now\<rparr>"] act
    by (cases until) (simp_all split: if_splits)
qed

lemma incorrect_entry_ok:
  assumes "table_ok c xs"
  shows "table_ok c (snd (incorrect_entry p username now xs))"
proof (cases "Option.bind username (map_of xs)")
  case (Some e)
  then obtain name where n: "username = Some name" "map_of xs name = Some e" by (auto simp: bind_eq_Some_conv)
  have "table_ok c (AList.update name f xs)" if "at_active f = at_active e" for f
    using table_ok_update [OF assms, of name f] in_keys [OF n(2)] assms n(2) that
    by (auto simp: table_ok_def active_of_def fun_upd_idem)
  then show ?thesis
    by (simp add: incorrect_entry_def n Let_def split: option.split)
qed (use assms in \<open>auto simp: incorrect_entry_def split: option.splits\<close>)

lemma succeeded_entry_ok:
  assumes "table_ok c xs"
  shows "table_ok c (snd (succeeded_entry username verified now xs))"
proof (cases "Option.bind username (map_of xs)")
  case (Some e)
  then obtain name where n: "username = Some name" "map_of xs name = Some e" by (auto simp: bind_eq_Some_conv)
  have "table_ok c (AList.update name f xs)" if "at_active f = at_active e" for f
    using table_ok_update [OF assms, of name f] in_keys [OF n(2)] assms n(2) that
    by (auto simp: table_ok_def active_of_def fun_upd_idem)
  with assms n show ?thesis by (auto simp: succeeded_entry_def)
qed (use assms in \<open>auto simp: succeeded_entry_def split: option.splits\<close>)

lemma drop_entry_ok:
  assumes "table_ok c xs"
  shows "table_ok (c(name := c name - 1)) (drop_entry name xs)"
proof (cases "map_of xs name")
  case None
  then have "c name = 0" using assms by (auto simp: table_ok_def active_of_def)
  with None assms show ?thesis by (simp add: drop_entry_def fun_upd_idem)
next
  case (Some e)
  then have "c name = at_active e" using assms by (auto simp: table_ok_def active_of_def)
  then show ?thesis
    using Some table_ok_delete [OF assms, of name] table_ok_update [OF assms, of name "e\<lparr>at_active := at_active e - 1\<rparr>"] in_keys [OF Some]
    by (simp add: drop_entry_def Let_def)
qed

subsection \<open>The leases are accounted for\<close>

definition leases_of :: "PasswordWorkLease list \<Rightarrow> string \<Rightarrow> nat" where
  "leases_of ls name = length (filter (\<lambda>l. pw_username l = Some name) ls)"

fun pw_inv :: "LocalPasswordAdmission \<Rightarrow> admission \<times> PasswordWorkLease list \<Rightarrow> bool" where
  "pw_inv A (w, ls) \<longleftrightarrow> ad_occupied w = length ls \<and> length ls \<le> la_capacity A \<and> table_ok (leases_of ls) (ad_attempts w)"

lemma leases_of_Cons:
  "leases_of (l # ls) = (case pw_username l of None \<Rightarrow> leases_of ls | Some name \<Rightarrow> (leases_of ls)(name := leases_of ls name + 1))"
  by (auto simp: leases_of_def fun_eq_iff split: option.splits)

lemma leases_of_remove1:
  "l \<in> set ls \<Longrightarrow> leases_of (remove1 l ls)
     = (case pw_username l of None \<Rightarrow> leases_of ls | Some name \<Rightarrow> (leases_of ls)(name := leases_of ls name - 1))"
proof (induction ls)
  case (Cons k ls)
  show ?case
  proof (cases "k = l")
    case False
    then have "l \<in> set ls" using Cons.prems by simp
    moreover have "0 < leases_of ls name" if "pw_username l = Some name" for name
      using that \<open>l \<in> set ls\<close> by (auto simp: leases_of_def filter_empty_conv)
    ultimately show ?thesis
      using False Cons.IH by (auto simp: leases_of_Cons fun_eq_iff split: option.splits)
  qed (auto simp: leases_of_Cons fun_eq_iff split: option.splits)
qed simp

text \<open>Programs that do not touch the counters, the table apart.\<close>

lemma ad_get_ok [prog_ok]: "ad_get f w = (Inr x, w') \<longleftrightarrow> x = f w \<and> w' = w"
  by (auto simp: ad_get_def)

abbreviation clock_on :: "nat \<Rightarrow> 'x world_scheme \<Rightarrow> 'x world_scheme" where
  "clock_on k w \<equiv> w\<lparr>env := \<lambda>n. env w (n + k)\<rparr>"

text \<open>The operations as equations: what they read, refuse and store.\<close>

lemma ad_enter_eq:
  "ad_enter original w = (if ad_poisoned w then (Inl (PA_Control CE_Closed), w)
     else if original \<le> mono (env w 0) then (Inl (PA_Control CE_Deadline), clock_on 1 w)
     else if ad_closed w then (Inl (PA_Control CE_Closed), clock_on 1 w) else (Inr (mono (env w 0)), clock_on 1 w))"
  by (simp add: ad_enter_def ad_lock_def ad_get_def pseq_def pbind_def pguard_def plift_def require_def now_tick_def praise_def pret_def)

lemma ad_table_eq:
  "pbind (ad_enter original) (\<lambda>now. ad_table (F now)) w = (if ad_poisoned w then (Inl (PA_Control CE_Closed), w)
     else if original \<le> mono (env w 0) then (Inl (PA_Control CE_Deadline), clock_on 1 w)
     else if ad_closed w then (Inl (PA_Control CE_Closed), clock_on 1 w)
     else (fst (F (mono (env w 0)) (ad_attempts w)), (clock_on 1 w)\<lparr>ad_attempts := snd (F (mono (env w 0)) (ad_attempts w))\<rparr>))"
  by (simp add: pbind_def ad_enter_eq ad_table_def case_prod_unfold)

lemma admit_eq:
  "admit A username original w =
    (if original \<le> mono (env w 0) then (Inl (PA_Control CE_Deadline), clock_on 1 w)
     else if ad_poisoned w then (Inl (PA_Control CE_Closed), clock_on 1 w)
     else if original \<le> mono (env w 1) then (Inl (PA_Control CE_Deadline), clock_on 2 w)
     else if ad_closed w then (Inl (PA_Control CE_Closed), clock_on 2 w)
     else if ad_occupied w = la_capacity A then (Inl (PA_RateLimited 1000000000), clock_on 2 w)
     else case username of
       None \<Rightarrow> (Inr (\<lparr>pw_username = None\<rparr>, ad_occupied w + 1), (clock_on 2 w)\<lparr>ad_occupied := ad_occupied w + 1\<rparr>)
     | Some name \<Rightarrow> (case admit_entry (la_policy A) name (mono (env w 1)) (ad_attempts w) of
         (Inl e, ys) \<Rightarrow> (Inl e, (clock_on 2 w)\<lparr>ad_attempts := ys\<rparr>)
       | (Inr _, ys) \<Rightarrow> (Inr (\<lparr>pw_username = Some name\<rparr>, ad_occupied w + 1), (clock_on 2 w)\<lparr>ad_attempts := ys, ad_occupied := ad_occupied w + 1\<rparr>)))"
  by (auto simp: admit_def deadline_check_def pseq_def pbind_def now_tick_def pguard_def plift_def require_def ad_enter_eq ad_get_def praise_def
      pret_def ad_table_def numeral_2_eq_2 split: option.split prod.split sum.split)

lemma pw_inv_env [simp]: "pw_inv A (w\<lparr>env := e\<rparr>, ls) = pw_inv A (w, ls)"
  by simp

lemma pw_inv_table:
  assumes "pw_inv A (w, ls)" "\<And>c now xs. table_ok c xs \<Longrightarrow> table_ok c (snd (F now xs))"
  shows "pw_inv A (snd (pbind (ad_enter original) (\<lambda>now. ad_table (F now)) w), ls)"
  using assms by (simp add: ad_table_eq)

lemma pw_inv_admit:
  assumes "pw_inv A (w, ls)" "admit A username original w = (r, w')"
  shows "pw_inv A (w', case r of Inl _ \<Rightarrow> ls | Inr (lease, _) \<Rightarrow> lease # ls)"
proof (cases username)
  case None
  then show ?thesis using assms by (auto simp: admit_eq leases_of_Cons split: if_splits)
next
  case (Some name)
  obtain q ys where e: "admit_entry (la_policy A) name (mono (env w 1)) (ad_attempts w) = (q, ys)" by (cases "admit_entry (la_policy A) name (mono (env w 1)) (ad_attempts w)")
  have "table_ok (leases_of ls) (ad_attempts w)" using assms(1) by simp
  note ok = admit_entry_ok [OF this e]
  show ?thesis using assms ok e Some by (cases q) (auto simp: admit_eq leases_of_Cons split: if_splits)
qed

lemma pw_inv_step: "pw_step A v c d \<Longrightarrow> pw_inv A c \<Longrightarrow> pw_inv A d"
proof (induction rule: pw_step.induct)
  case (pw_admitted username original w lease n w' ls)
  then show ?case using pw_inv_admit [OF pw_admitted(2,1)] by simp
next
  case (pw_refused username original w e w' ls)
  then show ?case using pw_inv_admit [OF pw_refused(2,1)] by simp
next
  case (pw_change_admitted engine original w lease w' ls)
  then obtain n where "admit A None original w = (Inr (lease, n), w')"
    by (auto simp: admit_password_change_def prog_ok case_prod_unfold split: if_splits)
  then show ?case using pw_inv_admit [OF pw_change_admitted(2)] by fastforce
next
  case (pw_change_refused engine original w e w' ls)
  then have "w' = w \<or> (\<exists>e. admit A None original w = (Inl e, w'))"
    by (cases "admit A None original w")
      (auto simp: admit_password_change_def pbind_def praise_def pret_def case_prod_unfold split: if_splits sum.splits)
  then show ?case using pw_inv_admit [OF pw_change_refused(2)] pw_change_refused(2) by fastforce
next
  case (pw_check w ls lease original)
  then show ?case
    by (simp add: check_work_def ad_lock_def ad_get_def deadline_check_def pseq_def pbind_def now_tick_def pguard_def plift_def require_def)
next
  case (pw_recheck lease ls w original)
  then show ?case
    by (simp add: recheck_attempt_def pbind_def ad_enter_eq ad_get_def pret_def praise_def split: option.split)
next
  case (pw_incorrect lease ls w original)
  then show ?case unfolding incorrect_def by (intro pw_inv_table incorrect_entry_ok)
next
  case (pw_succeeded lease ls verified original w)
  then show ?case unfolding succeeded_def by (intro pw_inv_table succeeded_entry_ok)
next
  case (pw_drop lease ls w)
  then have "0 < length ls" by auto
  then show ?case
    using pw_drop drop_entry_ok [of "leases_of ls" "ad_attempts w"]
    by (auto simp: lease_drop_def leases_of_remove1 length_remove1 split: option.split)
qed (simp_all add: ad_close_def)

lemma pw_reachable_inv: "pw_reachable A c \<Longrightarrow> pw_inv A c"
proof (induction rule: pw_reachable.induct)
  case (pw_reach_new readings)
  show ?case
    by (simp add: admission_initial_def table_ok_def active_of_def leases_of_def fun_eq_iff)
next
  case (pw_reach_step c v c')
  then show ?case using pw_inv_step by blast
qed

text \<open>C37: the counters of password admission are the leases.  In every state a run can reach, the occupied slots are
  the leases that exist, at most the capacity; the table has at most its number of names, each once;
  and the active count of a name is the number of its leases.  So dropping a lease, which
  decrements both counters, never takes one below zero, and a name with a lease keeps its entry.\<close>

theorem admission_accounts_leases:
  assumes "pw_reachable A (w, ls)"
  shows "ad_occupied w = length ls \<and> length ls \<le> la_capacity A \<and> distinct (map fst (ad_attempts w))
    \<and> length (ad_attempts w) \<le> TRACKED_USERNAMES
    \<and> (\<forall>name e. map_of (ad_attempts w) name = Some e \<longrightarrow> at_active e = leases_of ls name)
    \<and> (\<forall>lease \<in> set ls. 0 < ad_occupied w
         \<and> (\<forall>name. pw_username lease = Some name \<longrightarrow> (\<exists>e. map_of (ad_attempts w) name = Some e \<and> 0 < at_active e)))"
proof -
  have inv: "pw_inv A (w, ls)" by (rule pw_reachable_inv) fact
  then have active: "active_of (ad_attempts w) = leases_of ls" by (simp add: table_ok_def)
  have "\<exists>e. map_of (ad_attempts w) name = Some e \<and> 0 < at_active e" if "lease \<in> set ls" "pw_username lease = Some name" for lease name
  proof -
    have "0 < leases_of ls name" using that by (auto simp: leases_of_def filter_empty_conv)
    then show ?thesis unfolding active [symmetric] by (auto simp: active_of_def split: option.splits)
  qed
  moreover have "0 < ad_occupied w" if "lease \<in> set ls" for lease using that inv by auto
  moreover have "at_active e = leases_of ls name" if "map_of (ad_attempts w) name = Some e" for name e
    using that unfolding active [symmetric] by (simp add: active_of_def)
  ultimately show ?thesis using inv by (simp add: table_ok_def)
qed

subsection \<open>A lockout holds\<close>

definition locked_until :: "string \<Rightarrow> nat \<Rightarrow> (string \<times> Attempt) list \<Rightarrow> bool" where
  "locked_until name until xs \<longleftrightarrow> (\<exists>e u. map_of xs name = Some e \<and> at_blocked_until e = Some u \<and> until \<le> u)"

lemma refresh_blocked: "at_blocked_until e = Some u \<Longrightarrow> now < u \<Longrightarrow> at_blocked_until (refresh_window now window e) = Some u"
  by (simp add: refresh_window_def)

lemma locked_update:
  "locked_until name until xs \<Longrightarrow> (k = name \<Longrightarrow> \<exists>u. at_blocked_until e = Some u \<and> until \<le> u) \<Longrightarrow> locked_until name until (AList.update k e xs)"
  by (auto simp: locked_until_def update_conv')

text \<open>The clock never goes back, and every step reads some of it.\<close>

definition clock_forward :: "'x world_scheme \<Rightarrow> bool" where
  "clock_forward w \<longleftrightarrow> (\<forall>m n. m \<le> n \<longrightarrow> mono (env w m) \<le> mono (env w n))"

lemma clock_forward_on: "clock_forward w \<Longrightarrow> env w' = (\<lambda>n. env w (n + k)) \<Longrightarrow> clock_forward w'"
  by (simp add: clock_forward_def)

lemma admit_entry_locked:
  assumes "locked_until name until xs" "now < until" "admit_entry p n now xs = (r, ys)"
  shows "locked_until name until ys \<and> (n = name \<longrightarrow> (\<exists>e. r = Inl e))"
proof -
  obtain d u where d: "map_of xs name = Some d" "at_blocked_until d = Some u" "until \<le> u"
    using assms(1) by (auto simp: locked_until_def)
  define kept where "kept = filter (\<lambda>(_, e). at_active e \<noteq> 0 \<or> (case at_blocked_until e of None \<Rightarrow> False | Some until \<Rightarrow> now < until)
     \<or> now - at_last_seen e \<le> po_window p + po_lockout p) xs"
  define e where "e = (case map_of kept n of Some e \<Rightarrow> e
     | None \<Rightarrow> \<lparr>at_window_start = now, at_failures = 0, at_blocked_until = None, at_last_seen = now, at_active = 0\<rparr>)"
  have found: "map_of kept name = Some d"
    unfolding kept_def by (rule map_of_filter_Some [OF d(1)]) (use d assms(2) in simp)
  have kept: "locked_until name until kept" using found d by (auto simp: locked_until_def)
  have same: "e = d" if "n = name" using found that by (simp add: e_def)
  have upd: "locked_until name until (AList.update n f kept)" if "n \<noteq> name \<or> at_blocked_until f = Some u" for f
    using that d(3) by (intro locked_update [OF kept]) auto
  have "until' = Some u" if "n = name" "until' = (case at_blocked_until e of None \<Rightarrow> None | Some until \<Rightarrow> if now < until then Some until else None)" for until'
    using that same d assms(2) by simp
  then show ?thesis
    using assms(1,3) kept upd [of e] same d(2) upd
    unfolding admit_entry_def Let_def kept_def [symmetric] e_def [symmetric]
    by (cases "n = name") (auto split: if_splits option.splits)
qed

lemma incorrect_entry_locked:
  assumes "locked_until name until xs" "now < until" "until \<le> now + po_lockout p"
  shows "locked_until name until (snd (incorrect_entry p username now xs))"
proof (cases "Option.bind username (map_of xs)")
  case (Some e)
  then obtain n where n: "username = Some n" "map_of xs n = Some e" by (auto simp: bind_eq_Some_conv)
  have upd: "locked_until name until (AList.update n f xs)"
    if "at_blocked_until f = at_blocked_until (refresh_window now (po_window p) e) \<or> (\<exists>u. at_blocked_until f = Some u \<and> until \<le> u)" for f
  proof (rule locked_update [OF assms(1)])
    assume "n = name"
    with assms(1) n(2) obtain u where u: "at_blocked_until e = Some u" "until \<le> u" by (auto simp: locked_until_def)
    with that assms(2) refresh_blocked [OF u(1), of now "po_window p"] show "\<exists>u. at_blocked_until f = Some u \<and> until \<le> u" by auto
  qed
  show ?thesis
    using upd assms(3)
    by (simp add: incorrect_entry_def n Let_def time_checked_add_def split: option.split)
qed (use assms in \<open>auto simp: incorrect_entry_def split: option.splits\<close>)

lemma succeeded_entry_locked:
  "locked_until name until xs \<Longrightarrow> verified \<noteq> name \<Longrightarrow> locked_until name until (snd (succeeded_entry username verified now xs))"
  by (auto simp: succeeded_entry_def intro!: locked_update split: option.split)

lemma succeeded_entry_refused: "isl (fst (succeeded_entry username verified now xs)) \<Longrightarrow> snd (succeeded_entry username verified now xs) = xs"
  by (auto simp: succeeded_entry_def split: option.splits if_splits)

lemma drop_entry_locked: "locked_until name until xs \<Longrightarrow> locked_until name until (drop_entry n xs)"
  by (auto simp: drop_entry_def Let_def locked_until_def update_conv' delete_conv' split: option.split)

text \<open>A name stays locked from step to step, as long as the clock has not reached the end of the lockout.\<close>

definition lockout_kept :: "LocalPasswordAdmission \<Rightarrow> string \<Rightarrow> nat \<Rightarrow> admission \<Rightarrow> bool" where
  "lockout_kept A name until w \<longleftrightarrow> clock_forward w \<and> until \<le> mono (env w 0) + po_lockout (la_policy A)
     \<and> (mono (env w 0) < until \<longrightarrow> locked_until name until (ad_attempts w))"

lemma lockout_keptI:
  assumes "lockout_kept A name until w" "env w' = (\<lambda>n. env w (n + k))"
    "(\<And>j. j < k \<Longrightarrow> mono (env w j) < until \<and> until \<le> mono (env w j) + po_lockout (la_policy A)) \<Longrightarrow> locked_until name until (ad_attempts w)
      \<Longrightarrow> locked_until name until (ad_attempts w')"
  shows "lockout_kept A name until w'"
proof -
  have fwd: "clock_forward w" and le: "until \<le> mono (env w 0) + po_lockout (la_policy A)"
    and lock: "mono (env w 0) < until \<Longrightarrow> locked_until name until (ad_attempts w)"
    using assms(1) by (simp_all add: lockout_kept_def)
  have mono: "mono (env w 0) \<le> mono (env w j)" "j < k \<Longrightarrow> mono (env w j) \<le> mono (env w k)" for j
    using fwd by (simp_all add: clock_forward_def)
  have "locked_until name until (ad_attempts w')" if "mono (env w k) < until"
  proof (rule assms(3))
    fix j assume "j < k"
    then show "mono (env w j) < until \<and> until \<le> mono (env w j) + po_lockout (la_policy A)"
      using mono [of j] le that by linarith
  next
    show "locked_until name until (ad_attempts w)" using lock mono(1) [of k] that by linarith
  qed
  moreover have "until \<le> mono (env w' 0) + po_lockout (la_policy A)" using le mono(1) [of k] by (simp add: assms(2))
  ultimately show ?thesis
    using clock_forward_on [OF fwd assms(2)] by (simp add: lockout_kept_def assms(2))
qed

lemma lockout_admit:
  assumes "lockout_kept A name until w" "admit A username original w = (r, w')"
  shows "lockout_kept A name until w'"
proof -
  have same: "lockout_kept A name until (clock_on k w)" "lockout_kept A name until ((clock_on k w)\<lparr>ad_occupied := n\<rparr>)" for k n
    by (rule lockout_keptI [OF assms(1), where k = k]; simp)+
  have table: "lockout_kept A name until ((clock_on 2 w)\<lparr>ad_attempts := ys\<rparr>)"
    "lockout_kept A name until ((clock_on 2 w)\<lparr>ad_attempts := ys, ad_occupied := n\<rparr>)"
    if "admit_entry (la_policy A) x (mono (env w 1)) (ad_attempts w) = (q, ys)" for x q ys n
  proof -
    have ys: "locked_until name until ys" if "\<And>j. j < 2 \<Longrightarrow> mono (env w j) < until \<and> until \<le> mono (env w j) + po_lockout (la_policy A)"
      "locked_until name until (ad_attempts w)"
      using admit_entry_locked [OF that(2) _ \<open>admit_entry _ _ _ _ = _\<close>] that(1) [of 1] by simp
    show "lockout_kept A name until ((clock_on 2 w)\<lparr>ad_attempts := ys\<rparr>)"
      by (rule lockout_keptI [OF assms(1), where k = 2]) (simp_all add: ys)
    show "lockout_kept A name until ((clock_on 2 w)\<lparr>ad_attempts := ys, ad_occupied := n\<rparr>)"
      by (rule lockout_keptI [OF assms(1), where k = 2]) (simp_all add: ys)
  qed
  show ?thesis
    using assms(2) same(1) [of 1] same(1) [of 2] same(2) [where k = 2] table
    by (auto simp: admit_eq split: if_splits option.splits prod.splits sum.splits)
qed

lemma lockout_table:
  assumes "lockout_kept A name until w"
    "\<And>now xs. now < until \<Longrightarrow> until \<le> now + po_lockout (la_policy A) \<Longrightarrow> locked_until name until xs \<Longrightarrow> locked_until name until (snd (F now xs))"
  shows "lockout_kept A name until (snd (pbind (ad_enter original) (\<lambda>now. ad_table (F now)) w))"
proof -
  have same: "lockout_kept A name until (clock_on 1 w)" by (rule lockout_keptI [OF assms(1), where k = 1]) simp_all
  have "lockout_kept A name until ((clock_on 1 w)\<lparr>ad_attempts := snd (F (mono (env w 0)) (ad_attempts w))\<rparr>)"
    by (rule lockout_keptI [OF assms(1), where k = 1]) (simp_all add: assms(2))
  with same assms(1) show ?thesis by (simp add: ad_table_eq)
qed

lemma lockout_clock: "lockout_kept A name until w \<Longrightarrow> lockout_kept A name until (clock_on k w)"
  by (rule lockout_keptI [where k = k]) simp_all

lemma lockout_step: "pw_step A v c d \<Longrightarrow> v \<noteq> Some name \<Longrightarrow> lockout_kept A name until (fst c) \<Longrightarrow> lockout_kept A name until (fst d)"
proof (induction rule: pw_step.induct)
  case (pw_change_admitted engine original w lease w' ls)
  then obtain n where "admit A None original w = (Inr (lease, n), w')"
    by (auto simp: admit_password_change_def prog_ok case_prod_unfold split: if_splits)
  then show ?case using lockout_admit [of A name until w] pw_change_admitted(3) by simp
next
  case (pw_change_refused engine original w e w' ls)
  then have "w' = w \<or> (\<exists>e. admit A None original w = (Inl e, w'))"
    by (cases "admit A None original w")
      (auto simp: admit_password_change_def pbind_def praise_def pret_def case_prod_unfold split: if_splits sum.splits)
  then show ?case using lockout_admit [of A name until w] pw_change_refused(3) by auto
next
  case (pw_check w ls lease original)
  then show ?case
    using lockout_clock [of A name until w 1]
    by (simp add: check_work_def ad_lock_def ad_get_def deadline_check_def pseq_def pbind_def now_tick_def pguard_def plift_def require_def)
next
  case (pw_recheck lease ls w original)
  then show ?case
    using lockout_clock [of A name until w 1]
    by (simp add: recheck_attempt_def pbind_def ad_enter_eq ad_get_def pret_def praise_def split: option.split)
next
  case (pw_incorrect lease ls w original)
  then show ?case unfolding incorrect_def by (auto intro!: lockout_table incorrect_entry_locked)
next
  case (pw_succeeded lease ls verified original w)
  show ?case
  proof (cases "isl (fst (succeeded lease verified original w))")
    case True
    then have "snd (succeeded lease verified original w) \<in> {w, clock_on 1 w}"
      by (auto simp: succeeded_def ad_table_eq succeeded_entry_refused split: if_splits)
    then show ?thesis using pw_succeeded(3) lockout_clock [of A name until w 1] by auto
  next
    case False
    then have "verified \<noteq> name" using pw_succeeded(2) by simp
    then show ?thesis using pw_succeeded(3) unfolding succeeded_def by (auto intro!: lockout_table succeeded_entry_locked)
  qed
next
  case (pw_drop lease ls w)
  then have kept: "lockout_kept A name until w" by simp
  have "lockout_kept A name until (snd (lease_drop lease w))"
    by (rule lockout_keptI [OF kept, where k = 0]) (simp_all add: lease_drop_def drop_entry_locked split: option.split)
  then show ?case by simp
next
  case (pw_close w ls)
  then have kept: "lockout_kept A name until w" by simp
  have "lockout_kept A name until (snd (ad_close w))" by (rule lockout_keptI [OF kept, where k = 0]) (simp_all add: ad_close_def)
  then show ?case by simp
next
  case (pw_panic w ls)
  then have kept: "lockout_kept A name until w" by simp
  have "lockout_kept A name until (w\<lparr>ad_poisoned := True\<rparr>)" by (rule lockout_keptI [OF kept, where k = 0]) simp_all
  then show ?case by simp
next
  case (pw_admitted username original w lease n w' ls)
  then show ?case using lockout_admit [of A name until w] by simp
next
  case (pw_refused username original w e w' ls)
  then show ?case using lockout_admit [of A name until w] by simp
qed

lemma lockout_run:
  "pw_run A vs c d \<Longrightarrow> Some name \<notin> set vs \<Longrightarrow> lockout_kept A name until (fst c) \<Longrightarrow> lockout_kept A name until (fst d)"
proof (induction rule: pw_run.induct)
  case (pw_run_step vs c d v e)
  then show ?case using lockout_step [of A v d e name until] by auto
qed

text \<open>C36: a lockout holds.  When a wrong password brings the failures of a name to the limit, the name is locked for
  the lockout time from the instant at which the failure was recorded.  Consider any run of the
  other operations after it, and suppose the clock does not go back: if an admission of the name
  succeeds at its end before the lockout is over, then a lease of that name reported a verified
  password during the run, which is what lifts a lockout; no other operation does.\<close>

theorem lockout_holds:
  assumes "clock_forward w" "incorrect A lease original w = (Inr (), w1)" "pw_username lease = Some name"
    "map_of (ad_attempts w1) name = Some e" "po_max_failures (la_policy A) \<le> at_failures e"
    "pw_run A vs (w1, ls1) (w2, ls2)" "admit A (Some name) original2 w2 = (Inr r, w3)"
  shows "at_blocked_until e = Some (mono (env w 0) + po_lockout (la_policy A))
    \<and> (mono (env w 0) + po_lockout (la_policy A) \<le> mono (env w2 1) \<or> Some name \<in> set vs)"
proof -
  let ?now = "mono (env w 0)" and ?p = "la_policy A"
  let ?until = "?now + po_lockout ?p"
  have w1: "w1 = (clock_on 1 w)\<lparr>ad_attempts := snd (incorrect_entry ?p (Some name) ?now (ad_attempts w))\<rparr>"
    and ok: "fst (incorrect_entry ?p (Some name) ?now (ad_attempts w)) = Inr ()"
    using assms(2,3) unfolding incorrect_def ad_table_eq by (auto split: if_splits)
  have e: "at_blocked_until e = Some ?until"
    using ok assms(4,5) unfolding w1
    by (auto simp: incorrect_entry_def Let_def time_checked_add_def update_conv' split: option.splits if_splits)
  have "?now \<le> mono (env w 1)" using assms(1) by (simp add: clock_forward_def)
  then have "lockout_kept A name ?until w1"
    using assms(4) e clock_forward_on [OF assms(1), of w1 1] by (auto simp: lockout_kept_def locked_until_def w1)
  then have run: "lockout_kept A name ?until w2" if "Some name \<notin> set vs" using lockout_run [OF assms(6) that] by simp
  have "\<not> mono (env w2 1) < ?until" if "Some name \<notin> set vs"
  proof
    assume early: "mono (env w2 1) < ?until"
    note kept = run [OF that]
    have "mono (env w2 0) \<le> mono (env w2 1)" using kept by (simp add: lockout_kept_def clock_forward_def)
    then have "locked_until name ?until (ad_attempts w2)" using kept early by (simp add: lockout_kept_def)
    from admit_entry_locked [OF this early] assms(7) show False
      by (auto simp: admit_eq split: if_splits prod.splits sum.splits)
  qed
  with e show ?thesis by (auto simp: not_less)
qed

subsection \<open>One name, one worker\<close>

definition demo_admission :: LocalPasswordAdmission where
  "demo_admission = \<lparr>la_policy = \<lparr>po_max_failures = 1, po_window = 10, po_lockout = 20, po_workers = 1, po_saturation = 1,
     po_max_tracked = 4096\<rparr>, la_capacity = 1, la_workers = \<lparr>wk_address = 0, wk_limit = 1\<rparr>, la_captcha = None\<rparr>"

definition demo_attempt :: Attempt where
  "demo_attempt = \<lparr>at_window_start = 5, at_failures = 0, at_blocked_until = None, at_last_seen = 5, at_active = 1\<rparr>"

definition demo_lease :: PasswordWorkLease where
  "demo_lease = \<lparr>pw_username = Some ''ann''\<rparr>"

text \<open>The clock stands at 5 for three readings, then at 40.\<close>

definition demo_clock :: "nat \<Rightarrow> nat \<Rightarrow> tick" where
  "demo_clock k = (\<lambda>n. frozen_tick (if n + k < 3 then 5 else 40) 1000)"

lemma demo_clock_on: "(\<lambda>n. demo_clock k (n + j)) = demo_clock (k + j)"
  by (simp add: demo_clock_def fun_eq_iff add.commute add.left_commute)

definition demo_idle :: admission where
  "demo_idle = admission_initial (demo_clock 0)"

definition demo_admitted :: admission where
  "demo_admitted = \<lparr>env = demo_clock 2, ad_closed = False, ad_occupied = 1, ad_attempts = [(''ann'', demo_attempt)], ad_poisoned = False\<rparr>"

definition demo_failed :: admission where
  "demo_failed = demo_admitted\<lparr>env := demo_clock 3,
     ad_attempts := [(''ann'', demo_attempt\<lparr>at_failures := 1, at_blocked_until := Some 25\<rparr>)]\<rparr>"

definition demo_dropped :: admission where
  "demo_dropped = demo_failed\<lparr>ad_occupied := 0,
     ad_attempts := [(''ann'', demo_attempt\<lparr>at_failures := 1, at_blocked_until := Some 25, at_active := 0\<rparr>)]\<rparr>"

lemma demo_admits: "admit demo_admission (Some ''ann'') 100 demo_idle = (Inr (demo_lease, 1), demo_admitted)"
  unfolding admit_eq
  by (simp add: demo_idle_def admission_initial_def demo_admitted_def demo_admission_def demo_attempt_def demo_lease_def admit_entry_def Let_def
      duration_max_def TRACKED_USERNAMES_def u64_max_def refresh_window_def demo_clock_def)

lemma demo_fails: "incorrect demo_admission demo_lease 100 demo_admitted = (Inr (), demo_failed)"
  unfolding incorrect_def ad_table_eq
  by (simp add: demo_admitted_def demo_failed_def demo_admission_def demo_attempt_def demo_lease_def incorrect_entry_def Let_def
      refresh_window_def u64_max_def time_checked_add_def time_max_def demo_clock_def)

lemma demo_drops: "snd (lease_drop demo_lease demo_failed) = demo_dropped"
  by (simp add: lease_drop_def demo_lease_def demo_failed_def demo_dropped_def demo_admitted_def demo_attempt_def drop_entry_def Let_def)

lemma demo_readmits: "\<exists>r w. admit demo_admission (Some ''ann'') 100 demo_dropped = (Inr r, w)"
  unfolding admit_eq
  by (simp add: demo_dropped_def demo_failed_def demo_admitted_def demo_admission_def demo_attempt_def admit_entry_def Let_def
      duration_max_def TRACKED_USERNAMES_def u64_max_def refresh_window_def demo_clock_def)

theorem admission_accounts_leases_witness:
  "pw_reachable demo_admission (demo_admitted, [demo_lease]) \<and> ad_occupied demo_admitted = length [demo_lease]
    \<and> at_active demo_attempt = leases_of [demo_lease] ''ann'' \<and> 0 < at_active demo_attempt"
proof -
  have "pw_reachable demo_admission (demo_admitted, [demo_lease])"
    unfolding demo_idle_def [symmetric]
    by (rule pw_reach_step [OF pw_reach_new [of _ "demo_clock 0"] pw_admitted]) (rule demo_admits [unfolded demo_idle_def])
  moreover have "map_of (ad_attempts demo_admitted) ''ann'' = Some demo_attempt" by (simp add: demo_admitted_def)
  ultimately show ?thesis
    using admission_accounts_leases [of demo_admission demo_admitted "[demo_lease]"] by (auto simp: demo_lease_def)
qed

theorem lockout_holds_witness:
  "\<exists>r w. incorrect demo_admission demo_lease 100 demo_admitted = (Inr (), demo_failed)
    \<and> pw_run demo_admission [None] (demo_failed, [demo_lease]) (demo_dropped, [])
    \<and> admit demo_admission (Some ''ann'') 100 demo_dropped = (Inr r, w) \<and> 5 + 20 \<le> mono (env demo_dropped 1)"
proof -
  obtain r w where r: "admit demo_admission (Some ''ann'') 100 demo_dropped = (Inr r, w)" using demo_readmits by blast
  have "pw_step demo_admission None (demo_failed, [demo_lease]) (demo_dropped, [])"
    using pw_drop [of demo_lease "[demo_lease]" demo_admission demo_failed] by (simp add: demo_drops)
  then have run: "pw_run demo_admission [None] (demo_failed, [demo_lease]) (demo_dropped, [])"
    using pw_run_step [OF pw_run_refl] by fastforce
  have "clock_forward demo_admitted" by (simp add: clock_forward_def demo_admitted_def demo_clock_def)
  moreover have "map_of (ad_attempts demo_failed) ''ann'' = Some (demo_attempt\<lparr>at_failures := 1, at_blocked_until := Some 25\<rparr>)"
    by (simp add: demo_failed_def)
  moreover have "pw_username demo_lease = Some ''ann''" by (simp add: demo_lease_def)
  ultimately have "mono (env demo_admitted 0) + po_lockout (la_policy demo_admission) \<le> mono (env demo_dropped 1)"
    using lockout_holds [OF _ demo_fails _ _ _ run r] by (simp add: demo_admission_def)
  with r run demo_fails show ?thesis by (auto simp: demo_admitted_def demo_admission_def demo_clock_def)
qed

end
