(* ===== verification/Storage_Admission.thy ===== *)
theory Storage_Admission
  imports Authorization Fs_Session
begin

text \<open>
  Storage admission, \<^verbatim>\<open>broker-control/src/service/storage_admission.rs\<close>: the factories that authenticate a caller
  with a signed or a LOCAL bearer, bind the caller to the factory, read the current grants, compile
  and evaluate them for the requested scope, and return a grant that keeps its authentication.  The
  lemmas show that a grant rests on the rules that were read in the same operation, after the
  bearer was verified, and is checked once more before it is handed out.
\<close>

definition storage_route :: "string \<Rightarrow> StorageAdmissionError + string" where
  "storage_route raw = (let v = trim raw in if v = [] then Inl SA_InvalidConfiguration else Inr v)"

text \<open>The readers of a store refuse a limit that does not fit \<^verbatim>\<open>isize\<close> and \<^verbatim>\<open>i64\<close>.\<close>

definition resource_grants_new :: "nat \<Rightarrow> ResourceGrantReadError + int" where
  "resource_grants_new json_bytes = (if i64_max < int json_bytes then Inl RG_InvalidLimits else Inr (int json_bytes))"

definition local_bearer_states_new :: "nat \<Rightarrow> LocalBearerStateError + int" where
  "local_bearer_states_new json_bytes = (if i64_max < int json_bytes then Inl LS_InvalidLimits else Inr (int json_bytes))"

fun SA_from_grants_new :: "ResourceGrantReadError \<Rightarrow> StorageAdmissionError" where
  "SA_from_grants_new RG_InvalidLimits = SA_InvalidConfiguration"
| "SA_from_grants_new other = SA_Grants other"

fun SA_from_local_new :: "LocalBearerVerificationError \<Rightarrow> StorageAdmissionError" where
  "SA_from_local_new (LV_State LS_InvalidLimits) = SA_InvalidConfiguration"
| "SA_from_local_new other = SA_Local other"

definition storage_limit :: "nat \<Rightarrow> StorageAdmissionError + int" where
  "storage_limit json_bytes = (case resource_grants_new json_bytes of Inl e \<Rightarrow> Inl (SA_from_grants_new e) | Inr cap \<Rightarrow> Inr cap)"

text \<open>A factory is one of its fields and the address that identifies it.\<close>

record ('x, 'k) PostgresBrokerStorageAuthorizer =
  bsa_address :: nat
  bsa_owner :: "'x ControlStore"
  bsa_verifier :: "'k BrokerAccessVerifier"
  bsa_grants :: int
  bsa_default_route :: string

record 'x PostgresLocalStorageAuthorizer =
  lsa_address :: nat
  lsa_owner :: "'x ControlStore"
  lsa_audience :: string
  lsa_states :: int
  lsa_grants :: int
  lsa_default_route :: string

definition broker_storage_authorizer ::
  "nat \<Rightarrow> 'x ControlStore \<Rightarrow> 'k BrokerAccessVerifier \<Rightarrow> nat \<Rightarrow> string
     \<Rightarrow> StorageAdmissionError + ('x, 'k) PostgresBrokerStorageAuthorizer" where
  "broker_storage_authorizer address S v grants_json_bytes default_route =
     rbind (storage_limit grants_json_bytes) (\<lambda>cap.
     rbind (storage_route default_route) (\<lambda>route.
     Inr \<lparr>bsa_address = address, bsa_owner = S, bsa_verifier = v, bsa_grants = cap, bsa_default_route = route\<rparr>))"

definition local_storage_authorizer ::
  "nat \<Rightarrow> 'x ControlStore \<Rightarrow> string \<Rightarrow> nat \<Rightarrow> nat \<Rightarrow> string
     \<Rightarrow> StorageAdmissionError + 'x PostgresLocalStorageAuthorizer" where
  "local_storage_authorizer address S audience identity_json_bytes grants_json_bytes default_route =
     rbind (case local_bearer_states_new identity_json_bytes of
              Inl e \<Rightarrow> Inl (SA_from_local_new (LV_from_state e)) | Inr cap \<Rightarrow> Inr cap) (\<lambda>states.
     rbind (storage_limit grants_json_bytes) (\<lambda>cap.
     rbind (storage_route default_route) (\<lambda>route.
     Inr \<lparr>lsa_address = address, lsa_owner = S, lsa_audience = audience, lsa_states = states, lsa_grants = cap,
          lsa_default_route = route\<rparr>)))"

datatype FactoryBinding = FB_Broker nat | FB_Local nat | FB_SqliteBroker nat | FB_SqliteLocal nat

record AuthenticatedStorageCaller =
  ac_binding :: FactoryBinding
  ac_auth :: StorageAuthentication

definition caller_check :: "AuthenticatedStorageCaller \<Rightarrow> ('x, StorageAdmissionError, unit) prog" where
  "caller_check caller = auth_check (ac_auth caller)"

text \<open>The decision for an authenticated caller.  The outcome of compiling and of evaluating is held back until the
  caller has been checked again, so that an expired caller never learns it.\<close>

definition storage_authorize ::
  "(string \<Rightarrow> string) \<Rightarrow> 'x ControlStore \<Rightarrow> int \<Rightarrow> string \<Rightarrow> AuthenticatedStorageCaller \<Rightarrow> StorageScope
     \<Rightarrow> ('x, StorageAdmissionError, AuthorizedStorageGrant) prog" where
  "storage_authorize sha256 S grants_cap default_route caller scope =
     pseq (caller_check caller)
     (pbind (pmap_err SA_Grants (store_grants S grants_cap (sa_end (ac_auth caller)))) (\<lambda>snapshot.
     pbind (pattempt (storage_compile (st_ulid S) (st_glob S) snapshot (sa_end (ac_auth caller)))) (\<lambda>policy.
     pseq (caller_check caller)
     (pbind (plift policy) (\<lambda>policy.
     pbind (pattempt (evaluate sha256 policy (sa_identity (ac_auth caller)) scope default_route (sa_end (ac_auth caller)))) (\<lambda>decision.
     pseq (caller_check caller)
     (pbind (plift decision) (\<lambda>decision.
     pbind (plift (ok_or decision SA_Forbidden)) (\<lambda>d.
     let result = \<lparr>gr_auth = ac_auth caller, gr_scope = scope, gr_route = sd_route d, gr_revision = sn_revision snapshot,
                   gr_access = sd_access d\<rparr> in
     pseq (grant_check result) (pret result))))))))))"

definition broker_storage_authenticate ::
  "'k jwt_lib \<Rightarrow> ('x, 'k) PostgresBrokerStorageAuthorizer \<Rightarrow> string \<Rightarrow> string list \<Rightarrow> nat
     \<Rightarrow> ('x, StorageAdmissionError, AuthenticatedStorageCaller) prog" where
  "broker_storage_authenticate L f raw scopes original =
     pbind (pmap_err SA_Control (bounded_deadline original (st_budget (bsa_owner f)))) (\<lambda>end_at.
     pbind (pmap_err SA_Native (verify L (bsa_verifier f) raw scopes end_at)) (\<lambda>proof.
     pbind (auth_new (SI_Native proof) end_at) (\<lambda>auth.
     pret \<lparr>ac_binding = FB_Broker (bsa_address f), ac_auth = auth\<rparr>)))"

definition broker_storage_authorize_authenticated ::
  "(string \<Rightarrow> string) \<Rightarrow> ('x, 'k) PostgresBrokerStorageAuthorizer \<Rightarrow> AuthenticatedStorageCaller \<Rightarrow> StorageScope
     \<Rightarrow> ('x, StorageAdmissionError, AuthorizedStorageGrant) prog" where
  "broker_storage_authorize_authenticated sha256 f caller scope =
     (if ac_binding caller \<noteq> FB_Broker (bsa_address f) then praise SA_InvalidConfiguration
      else storage_authorize sha256 (bsa_owner f) (bsa_grants f) (bsa_default_route f) caller scope)"

definition broker_storage_authorize ::
  "'k jwt_lib \<Rightarrow> (string \<Rightarrow> string) \<Rightarrow> ('x, 'k) PostgresBrokerStorageAuthorizer \<Rightarrow> string \<Rightarrow> string list
     \<Rightarrow> StorageScope \<Rightarrow> nat \<Rightarrow> ('x, StorageAdmissionError, AuthorizedStorageGrant) prog" where
  "broker_storage_authorize L sha256 f raw scopes scope original =
     pbind (broker_storage_authenticate L f raw scopes original) (\<lambda>caller.
     broker_storage_authorize_authenticated sha256 f caller scope)"

definition local_storage_authenticate ::
  "'x PostgresLocalStorageAuthorizer \<Rightarrow> string \<Rightarrow> string list \<Rightarrow> nat
     \<Rightarrow> ('x, StorageAdmissionError, AuthenticatedStorageCaller) prog" where
  "local_storage_authenticate f raw scopes original =
     pbind (pmap_err SA_Control (bounded_deadline original (st_budget (lsa_owner f)))) (\<lambda>end_at.
     pbind (pmap_err SA_Local (store_verify_local (lsa_owner f) (lsa_states f) (lsa_audience f) raw scopes end_at)) (\<lambda>proof.
     pbind (auth_new (SI_Local proof) end_at) (\<lambda>auth.
     pret \<lparr>ac_binding = FB_Local (lsa_address f), ac_auth = auth\<rparr>)))"

definition local_storage_authorize_authenticated ::
  "(string \<Rightarrow> string) \<Rightarrow> 'x PostgresLocalStorageAuthorizer \<Rightarrow> AuthenticatedStorageCaller \<Rightarrow> StorageScope
     \<Rightarrow> ('x, StorageAdmissionError, AuthorizedStorageGrant) prog" where
  "local_storage_authorize_authenticated sha256 f caller scope =
     (if ac_binding caller \<noteq> FB_Local (lsa_address f) then praise SA_InvalidConfiguration
      else storage_authorize sha256 (lsa_owner f) (lsa_grants f) (lsa_default_route f) caller scope)"

definition local_storage_authorize ::
  "(string \<Rightarrow> string) \<Rightarrow> 'x PostgresLocalStorageAuthorizer \<Rightarrow> string \<Rightarrow> string list
     \<Rightarrow> StorageScope \<Rightarrow> nat \<Rightarrow> ('x, StorageAdmissionError, AuthorizedStorageGrant) prog" where
  "local_storage_authorize sha256 f raw scopes scope original =
     pbind (local_storage_authenticate f raw scopes original) (\<lambda>caller.
     local_storage_authorize_authenticated sha256 f caller scope)"

subsection \<open>A grant rests on the rules that were read\<close>

text \<open>Some rule of the snapshot selects the caller, names the project of the scope or all projects, carries the
  storage capability of the operation, permits the operation and names the route.\<close>

definition storage_granted ::
  "glob_lib \<Rightarrow> ResourceGrantSnapshot \<Rightarrow> StorageIdentity \<Rightarrow> StorageScope \<Rightarrow> string \<Rightarrow> StorageOperation \<Rightarrow> string \<Rightarrow> bool" where
  "storage_granted glob snapshot identity scope default_route op route \<longleftrightarrow> (\<exists>r\<in>set (sn_rules snapshot).
     hub_rule_selects r (Some (principal_storage identity))
     \<and> (rg_projects r = [] \<or> (\<exists>q\<in>set (rg_projects r). trim q = ''*'' \<or> scope_project_id scope = Some (trim q)))
     \<and> (hub_rule_has glob r ''s3'' \<or> hub_rule_has glob r (''s3:'' @ op_name op))
     \<and> (rg_s3_operations r = [] \<or> list_ex (\<lambda>x. glob_hits glob x (op_name op)) (rg_s3_operations r))
     \<and> route = (if trim (rg_s3_route r) = [] then default_route else trim (rg_s3_route r)))"

text \<open>Every prefix of the grant is a safe path at or below a root of its scope, and a rule of the snapshot grants
  its operation.\<close>

definition grant_backed ::
  "(string \<Rightarrow> string) \<Rightarrow> glob_lib \<Rightarrow> ResourceGrantSnapshot \<Rightarrow> string \<Rightarrow> AuthorizedStorageGrant \<Rightarrow> bool" where
  "grant_backed sha256 glob snapshot default_route g \<longleftrightarrow> gr_revision g = sn_revision snapshot
     \<and> (\<forall>op. \<forall>p\<in>set (grant_prefixes g op). safe_path p
         \<and> (\<exists>root\<in>set (roots sha256 (gr_scope g) (sa_identity (gr_auth g))). under root p)
         \<and> storage_granted glob snapshot (sa_identity (gr_auth g)) (gr_scope g) default_route op (gr_route g))"

lemma storage_authorize_ok:
  fixes w w' :: "'x world_scheme"
  assumes "storage_authorize sha256 S cap default_route caller scope w = (Inr g, w')"
  obtains snapshot policy d and w1 w2 w3 w4 w5 w6 :: "'x world_scheme" where
    "auth_check (ac_auth caller) w = (Inr (), w1)" "store_grants S cap (sa_end (ac_auth caller)) w1 = (Inr snapshot, w2)"
    "storage_compile (st_ulid S) (st_glob S) snapshot (sa_end (ac_auth caller)) w2 = (Inr policy, w3)"
    "evaluate sha256 policy (sa_identity (ac_auth caller)) scope default_route (sa_end (ac_auth caller)) w4 = (Inr (Some d), w5)"
    "g = \<lparr>gr_auth = ac_auth caller, gr_scope = scope, gr_route = sd_route d, gr_revision = sn_revision snapshot,
       gr_access = sd_access d\<rparr>"
    "grant_check g w6 = (Inr (), w')"
  using assms by (auto simp: storage_authorize_def caller_check_def Let_def pbind_ok pseq_ok pmap_err_ok pattempt_ok plift_ok pret_ok ok_or_eq_Inr)

lemma storage_authorize_backed:
  fixes w w' :: "'x world_scheme"
  assumes "storage_authorize sha256 S cap default_route caller scope w = (Inr g, w')"
    "ulid_text (st_ulid S)" "\<forall>x. length (sha256 x) = 32" "scope_wf (st_ulid S) scope"
  shows "gr_auth g = ac_auth caller \<and> gr_scope g = scope
    \<and> (\<exists>snapshot. \<exists>w1 w2 :: 'x world_scheme. auth_check (ac_auth caller) w = (Inr (), w1)
        \<and> store_grants S cap (sa_end (ac_auth caller)) w1 = (Inr snapshot, w2) \<and> grant_backed sha256 (st_glob S) snapshot default_route g)"
proof (rule storage_authorize_ok [OF assms(1)], goal_cases)
  case (1 snapshot policy d w1 w2 w3 w4 w5 w6)
  have c: "fst (storage_compile (st_ulid S) (st_glob S) snapshot (sa_end (ac_auth caller)) w2) = Inr policy"
    and e: "fst (evaluate sha256 policy (sa_identity (ac_auth caller)) scope default_route (sa_end (ac_auth caller)) w4) = Inr (Some d)"
    using 1(3,4) by simp_all
  have "safe_path p \<and> (\<exists>root\<in>set (roots sha256 scope (sa_identity (ac_auth caller))). under root p)
      \<and> storage_granted (st_glob S) snapshot (sa_identity (ac_auth caller)) scope default_route op (sd_route d)"
    if "p \<in> set (sd_access d ! op_index op)" for op p
    using prefixes_confined [OF assms(2-4) e that] storage_grant_origin [OF c e that] by (simp add: storage_granted_def)
  then show ?case using 1(1,2,5) by (auto simp: grant_backed_def grant_prefixes_def)
qed

subsection \<open>The caller was verified by the factory\<close>

lemma auth_new_ok:
  assumes "auth_new identity dl w = (Inr auth, w')"
  shows "sa_end auth = dl"
    and "\<And>p. identity = SI_Native p \<Longrightarrow> sa_identity auth = SI_Native p"
    and "\<And>p. identity = SI_Local p \<Longrightarrow> \<exists>now. sa_identity auth = SI_Local (p\<lparr>vl_verified_at := now\<rparr>) \<and> now < vl_expires_at p"
proof -
  show "sa_end auth = dl"
    using assms by (cases identity) (auto simp: auth_new_def Let_def pbind_ok pseq_ok pret_ok)
  show "\<And>p. identity = SI_Native p \<Longrightarrow> sa_identity auth = SI_Native p"
    using assms by (auto simp: auth_new_def Let_def pbind_ok pseq_ok pret_ok)
  show "\<exists>now. sa_identity auth = SI_Local (p\<lparr>vl_verified_at := now\<rparr>) \<and> now < vl_expires_at p" if "identity = SI_Local p" for p
    using assms that local_finish_ok by (fastforce simp: auth_new_def Let_def pbind_ok pseq_ok pret_ok pmap_err_ok)
qed

text \<open>The identity of a grant was verified for this very bearer by the run that starts in \<^verbatim>\<open>w\<close>, under its bounded
  deadline, and the run has come to \<^verbatim>\<open>w'\<close>; a LOCAL identity was finished again.\<close>

definition broker_identity ::
  "'k jwt_lib \<Rightarrow> ('x, 'k) PostgresBrokerStorageAuthorizer \<Rightarrow> string \<Rightarrow> string list \<Rightarrow> nat \<Rightarrow> 'x world_scheme
     \<Rightarrow> AuthorizedStorageGrant \<Rightarrow> 'x world_scheme \<Rightarrow> bool" where
  "broker_identity L f raw scopes original w g w' \<longleftrightarrow> (\<exists>p w0 w1.
     bounded_deadline original (st_budget (bsa_owner f)) w = (Inr (sa_end (gr_auth g)), w0)
     \<and> verify L (bsa_verifier f) raw scopes (sa_end (gr_auth g)) w0 = (Inr p, w1)
     \<and> auth_new (SI_Native p) (sa_end (gr_auth g)) w1 = (Inr (gr_auth g), w') \<and> sa_identity (gr_auth g) = SI_Native p)"

definition local_identity ::
  "'x PostgresLocalStorageAuthorizer \<Rightarrow> string \<Rightarrow> string list \<Rightarrow> nat \<Rightarrow> 'x world_scheme
     \<Rightarrow> AuthorizedStorageGrant \<Rightarrow> 'x world_scheme \<Rightarrow> bool" where
  "local_identity f raw scopes original w g w' \<longleftrightarrow> (\<exists>p now w0 w1.
     bounded_deadline original (st_budget (lsa_owner f)) w = (Inr (sa_end (gr_auth g)), w0)
     \<and> store_verify_local (lsa_owner f) (lsa_states f) (lsa_audience f) raw scopes (sa_end (gr_auth g)) w0 = (Inr p, w1)
     \<and> auth_new (SI_Local p) (sa_end (gr_auth g)) w1 = (Inr (gr_auth g), w')
     \<and> sa_identity (gr_auth g) = SI_Local (p\<lparr>vl_verified_at := now\<rparr>) \<and> now < vl_expires_at p)"

text \<open>After the identity the run checks it, reads the grants, and its grant is backed by them.\<close>

definition read_after ::
  "'x ControlStore \<Rightarrow> int \<Rightarrow> AuthorizedStorageGrant \<Rightarrow> 'x world_scheme \<Rightarrow> ResourceGrantSnapshot \<Rightarrow> bool" where
  "read_after S cap g w snapshot \<longleftrightarrow> (\<exists>w1 w2. auth_check (gr_auth g) w = (Inr (), w1)
     \<and> store_grants S cap (sa_end (gr_auth g)) w1 = (Inr snapshot, w2))"

lemma broker_storage_authorize_ok:
  fixes w w' :: "'x world_scheme"
  assumes "broker_storage_authorize L sha256 f raw scopes scope original w = (Inr g, w')"
    "ulid_text (st_ulid (bsa_owner f))" "\<forall>x. length (sha256 x) = 32" "scope_wf (st_ulid (bsa_owner f)) scope"
  shows "gr_scope g = scope \<and> (\<exists>snapshot w1. broker_identity L f raw scopes original w g w1
    \<and> read_after (bsa_owner f) (bsa_grants f) g w1 snapshot
    \<and> grant_backed sha256 (st_glob (bsa_owner f)) snapshot (bsa_default_route f) g)"
proof -
  obtain end_at p auth caller and w0 w1 w2 :: "'x world_scheme" where r:
    "bounded_deadline original (st_budget (bsa_owner f)) w = (Inr end_at, w0)"
    "verify L (bsa_verifier f) raw scopes end_at w0 = (Inr p, w1)" "auth_new (SI_Native p) end_at w1 = (Inr auth, w2)"
    "storage_authorize sha256 (bsa_owner f) (bsa_grants f) (bsa_default_route f) caller scope w2 = (Inr g, w')" "ac_auth caller = auth"
    using assms(1)
    by (auto simp: broker_storage_authorize_def broker_storage_authenticate_def broker_storage_authorize_authenticated_def
        pbind_ok pmap_err_ok pret_ok)
  note b = storage_authorize_backed [OF r(4) assms(2-4)]
  then have "gr_auth g = auth" "sa_end auth = end_at" "sa_identity auth = SI_Native p" using r(5) auth_new_ok(1,2) [OF r(3)] by simp_all
  then show ?thesis using b r by (auto simp: broker_identity_def read_after_def)
qed

lemma local_storage_authorize_ok:
  fixes w w' :: "'x world_scheme"
  assumes "local_storage_authorize sha256 f raw scopes scope original w = (Inr g, w')"
    "ulid_text (st_ulid (lsa_owner f))" "\<forall>x. length (sha256 x) = 32" "scope_wf (st_ulid (lsa_owner f)) scope"
  shows "gr_scope g = scope \<and> (\<exists>snapshot w1. local_identity f raw scopes original w g w1
    \<and> read_after (lsa_owner f) (lsa_grants f) g w1 snapshot
    \<and> grant_backed sha256 (st_glob (lsa_owner f)) snapshot (lsa_default_route f) g)"
proof -
  obtain end_at p auth caller and w0 w1 w2 :: "'x world_scheme" where r:
    "bounded_deadline original (st_budget (lsa_owner f)) w = (Inr end_at, w0)"
    "store_verify_local (lsa_owner f) (lsa_states f) (lsa_audience f) raw scopes end_at w0 = (Inr p, w1)"
    "auth_new (SI_Local p) end_at w1 = (Inr auth, w2)"
    "storage_authorize sha256 (lsa_owner f) (lsa_grants f) (lsa_default_route f) caller scope w2 = (Inr g, w')" "ac_auth caller = auth"
    using assms(1)
    by (auto simp: local_storage_authorize_def local_storage_authenticate_def local_storage_authorize_authenticated_def
        pbind_ok pmap_err_ok pret_ok)
  note b = storage_authorize_backed [OF r(4) assms(2-4)]
  obtain now where "gr_auth g = auth" "sa_end auth = end_at" "sa_identity auth = SI_Local (p\<lparr>vl_verified_at := now\<rparr>)" "now < vl_expires_at p"
    using b r(5) auth_new_ok(1,3) [OF r(3)] by auto
  then show ?thesis using b r by (auto simp: local_identity_def read_after_def)
qed

subsection \<open>From the grant to the keys of a session\<close>

lemma issued_access:
  fixes w :: "'x world_scheme"
  assumes "session_lib_ok L" "fst (issue U L issuer random g w) = Inr c"
    "fst (verify_session U L issuer route access_key (ic_token c) w') = Inr s"
  shows "pl_access (fs_payload s) = map (\<lambda>op. map (\<lambda>q. ic_base_prefix c @ ''/'' @ q) (grant_prefixes g op)) ALL_OPERATIONS"
proof -
  obtain v where "issue U L issuer random g w = (Inr c, v)" using assms(2) by (auto simp: fst_Inr_iff)
  then obtain u u' :: "'x world_scheme" where "issue_current U L issuer random g u = (Inr c, u')" by (rule issue_ok)
  then show ?thesis
  proof (rule issue_current_ok, goal_cases)
    case (1 cfg now r p verified w1 w2)
    have access: "pl_access p = map (\<lambda>op. map (\<lambda>q. ic_base_prefix c @ ''/'' @ q) (grant_prefixes g op)) ALL_OPERATIONS"
      using 1(2,10) by (auto simp: grant_payload_def)
    then have "length (pl_access p) = 4" by (simp add: ALL_OPERATIONS_def)
    then obtain tag where "token_open L issuer (ic_token c) = Inr (p, tag)"
      using token_open_encode [OF assms(1) _ 1(4)] by blast
    moreover obtain tag' where "token_open L issuer (ic_token c) = Inr (fs_payload s, tag')"
      using verify_session_ok [OF assms(3)] by blast
    ultimately show ?case using access by simp
  qed
qed

text \<open>A key that a session of issued credentials covers lies below the base prefix of the route and a prefix that
  the grant has for an operation which implies the one that was asked for.\<close>

lemma issued_covers:
  fixes w :: "'x world_scheme"
  assumes "session_lib_ok L" "fst (issue U L issuer random g w) = Inr c"
    "fst (verify_session U L issuer route access_key (ic_token c) w') = Inr s" "covered s (op_indices op) k"
  shows "\<exists>op' q. op_index op' \<in> set (op_indices op) \<and> q \<in> set (grant_prefixes g op') \<and> under (ic_base_prefix c @ ''/'' @ q) k"
proof -
  obtain i root where i: "i \<in> set (op_indices op)" "root \<in> set (pl_access (fs_payload s) ! i)" "under root k"
    using assms(4) by (auto simp: covered_iff)
  have "i \<in> {0, 1, 2, 3}" using i(1) by (cases op) auto
  then have "\<exists>op'. i = op_index op'" by (metis op_index.simps empty_iff insert_iff)
  then obtain op' where op': "i = op_index op'" ..
  then have "root \<in> set (map (\<lambda>q. ic_base_prefix c @ ''/'' @ q) (grant_prefixes g op'))"
    using i(2) issued_access [OF assms(1-3)] by simp
  then show ?thesis using i(1,3) op' by auto
qed

subsection \<open>Witnesses\<close>

text \<open>A store in which one LOCAL user may write the corpora of every project.\<close>

definition demo_write_rule :: ResourceGrantRule where
  "demo_write_rule = (hd (sn_rules demo_storage_snapshot))\<lparr>rg_s3_operations := [''write'']\<rparr>"

definition demo_storage_control :: "unit ControlStore" where
  "demo_storage_control = \<lparr>st_sql = demo_sql, st_json = demo_json\<lparr>js_rules := \<lambda>_. Some [demo_write_rule]\<rparr>, st_ulid = demo_ulid,
     st_glob = demo_glob, st_cred = demo_cred, st_digester = demo_digester, st_budget = 1000\<rparr>"

definition demo_authorizer :: "unit PostgresLocalStorageAuthorizer" where
  "demo_authorizer = \<lparr>lsa_address = 1, lsa_owner = demo_storage_control, lsa_audience = '' aud'', lsa_states = 100, lsa_grants = 100,
     lsa_default_route = ''main''\<rparr>"

lemma demo_storage_bearer:
  "\<exists>p. store_verify_local demo_storage_control 100 '' aud'' ''gb_at_x'' [''read''] 50 (frozen 5 1000) = (Inr p, frozen 5 1000)
     \<and> vl_expires_at p = 9 \<and> vl_expires_utc p = 9000 \<and> 5 < vl_expires_mono p \<and> vl_user p = demo_local_user"
proof -
  have "decode_bearer (J\<lparr>js_rules := x\<rparr>) row kind cap = decode_bearer J row kind cap" for J x row kind cap
    by (simp add: decode_bearer_def decode_user_def cong: if_cong option.case_cong)
  then have "verify_local demo_cred demo_digester (demo_sql :: unit control_sql) (demo_json\<lparr>js_rules := \<lambda>_. Some [demo_write_rule]\<rparr>) 100 1000
      = verify_local demo_cred demo_digester demo_sql demo_json 100 1000"
    unfolding verify_local_def states_read_def by (simp add: fun_eq_iff cong: option.case_cong)
  then show ?thesis using demo_bearer by (simp add: store_verify_local_def demo_storage_control_def)
qed

lemma demo_storage_grants:
  "store_grants demo_storage_control 100 50 (frozen 5 1000) = (Inr (demo_snapshot [demo_write_rule]), frozen 5 1000)"
proof -
  have "decode_snapshot (\<lambda>_. Some [demo_write_rule]) 1 0 ''r'' = Inr (demo_snapshot [demo_write_rule])" by code_simp
  then show ?thesis
    using demo_deadline
    by (simp add: store_grants_def demo_storage_control_def grants_read_def observe_snapshot_def Control_Store.demo_run demo_sql_def
        demo_grant_row_def ok_or_def)
qed

definition demo_written :: StorageDecision where
  "demo_written = \<lparr>sd_route = ''main'', sd_access = [[], [demo_prefix], [], []]\<rparr>"

text \<open>The decision depends on the user of a LOCAL proof only.\<close>

lemma evaluate_spec_user:
  assumes "vl_user p = vl_user q"
  shows "evaluate_spec sha policy (SI_Local p) scope route = evaluate_spec sha policy (SI_Local q) scope route"
proof -
  have "identity_fields (SI_Local p) = identity_fields (SI_Local q)" "principal_storage (SI_Local p) = principal_storage (SI_Local q)"
    "identity_issuer_subject (SI_Local p) = identity_issuer_subject (SI_Local q)"
    using assms by (simp_all add: identity_fields_def identity_issuer_subject_def)
  moreover from this have "roots sha scope (SI_Local p) = roots sha scope (SI_Local q)" by (cases scope) simp_all
  moreover have "render t (SI_Local p) pr = render t (SI_Local q) pr" for t pr using calculation by (simp add: render_def)
  then have "prefixes_spec rule rts (SI_Local p) pr = prefixes_spec rule rts (SI_Local q) pr" for rule rts pr
    by (simp add: prefixes_spec_def prefixes_step_def [abs_def])
  then have "evaluate_step policy rts (SI_Local p) pr route = evaluate_step policy rts (SI_Local q) pr route" for rts pr
    by (intro ext) (simp only: evaluate_step_def)
  ultimately show ?thesis by (simp only: evaluate_spec_def storage_matches_def)
qed

definition demo_local_proof :: VerifiedLocalBearer where
  "demo_local_proof = \<lparr>vl_user = demo_local_user, vl_kind = LB_Access, vl_audience = ''aud'', vl_scopes = [''read''],
     vl_expires_at = 9, vl_verified_at = 1, vl_expires_utc = 9000, vl_expires_mono = 8005\<rparr>"

lemma demo_write_spec:
  "rbind (rbind (lift_policy (rmap (hub_rule_spec demo_ulid demo_glob) (sn_rules (demo_snapshot [demo_write_rule])))) (\<lambda>hub.
     rbind (rmap (storage_rule_spec demo_glob) (sn_rules (demo_snapshot [demo_write_rule]))) (\<lambda>rules.
     Inr \<lparr>sp_hub = hub, sp_rules = rules\<rparr>))) (\<lambda>policy.
     evaluate_spec demo_sha policy (SI_Local demo_local_proof) demo_scope ''main'') = Inr (Some demo_written)"
  by code_simp

lemma demo_write_decision:
  assumes "vl_user p = demo_local_user"
  obtains policy where
    "storage_compile demo_ulid demo_glob (demo_snapshot [demo_write_rule]) 50 (frozen 5 1000) = (Inr policy, frozen 5 1000)"
    "evaluate demo_sha policy (SI_Local p) demo_scope ''main'' 50 (frozen 5 1000) = (Inr (Some demo_written), frozen 5 1000)"
proof -
  have u: "vl_user p = vl_user demo_local_proof" using assms by (simp add: demo_local_proof_def)
  obtain policy where "storage_compile demo_ulid demo_glob (demo_snapshot [demo_write_rule]) 50 (frozen 5 1000) = (Inr policy, frozen 5 1000)"
    "evaluate_spec demo_sha policy (SI_Local demo_local_proof) demo_scope ''main'' = Inr (Some demo_written)"
    using demo_write_spec frozen_timed [OF timed_storage_compile, of 5 50 demo_ulid demo_glob "demo_snapshot [demo_write_rule]" 1000]
    by (auto simp: rbind_eq_Inr)
  then show thesis
    using that frozen_timed [OF timed_evaluate, of 5 50 demo_sha policy "SI_Local p" demo_scope "''main''" 1000] evaluate_spec_user [OF u]
    by simp
qed

lemma demo_storage_grant:
  "\<exists>g. local_storage_authorize demo_sha demo_authorizer ''gb_at_x'' [''read''] demo_scope 50 (frozen 5 1000) = (Inr g, frozen 5 1000)
     \<and> gr_scope g = demo_scope \<and> gr_route g = ''main'' \<and> gr_revision g = 1 \<and> gr_access g = [[], [demo_prefix], [], []]
     \<and> auth_subject (gr_auth g) = ''local|s1'' \<and> sa_end (gr_auth g) = 50 \<and> auth_check (gr_auth g) (frozen 5 1000) = (Inr (), frozen 5 1000)"
proof -
  obtain p where p: "store_verify_local demo_storage_control 100 '' aud'' ''gb_at_x'' [''read''] 50 (frozen 5 1000) = (Inr p, frozen 5 1000)"
    and v: "vl_expires_at p = 9" "vl_expires_utc p = 9000" "5 < vl_expires_mono p" "vl_user p = demo_local_user"
    using demo_storage_bearer by blast
  define q where "q = p\<lparr>vl_verified_at := 1\<rparr>"
  define auth where "auth = \<lparr>sa_identity = SI_Local q, sa_end = 50, sa_expires_at = 9000, sa_expires_mono = vl_expires_mono p\<rparr>"
  have check: "auth_check auth (frozen 5 1000) = (Inr (), frozen 5 1000)"
    by (rule auth_check_frozen) (simp_all add: auth_def v)
  have new: "auth_new (SI_Local p) 50 (frozen 5 1000) = (Inr auth, frozen 5 1000)"
    using check now_micros_frozen [of 5] demo_finish [OF v(1,3)]
    by (simp add: auth_new_def Control_Store.demo_run auth_def q_def v Let_def)
  obtain policy where d:
    "storage_compile demo_ulid demo_glob (demo_snapshot [demo_write_rule]) 50 (frozen 5 1000) = (Inr policy, frozen 5 1000)"
    "evaluate demo_sha policy (SI_Local q) demo_scope ''main'' 50 (frozen 5 1000) = (Inr (Some demo_written), frozen 5 1000)"
    using demo_write_decision [of q] v by (auto simp: q_def)
  have S: "st_ulid demo_storage_control = demo_ulid" "st_glob demo_storage_control = demo_glob" "st_budget demo_storage_control = 1000"
    by (simp_all add: demo_storage_control_def)
  have auth: "sa_end auth = 50" "sa_identity auth = SI_Local q" "auth_subject auth = ''local|s1''"
    by (simp_all add: auth_def auth_subject_def identity_issuer_subject_def q_def v demo_local_user_def LOCAL_ISSUER_def)
  have r: "sn_revision (demo_snapshot [demo_write_rule]) = 1" by (simp add: demo_snapshot_def)
  have "local_storage_authorize demo_sha demo_authorizer ''gb_at_x'' [''read''] demo_scope 50 (frozen 5 1000)
      = (Inr \<lparr>gr_auth = auth, gr_scope = demo_scope, gr_route = ''main'', gr_revision = 1, gr_access = [[], [demo_prefix], [], []]\<rparr>, frozen 5 1000)"
    using demo_deadline p new check d demo_storage_grants S auth r
    by (simp add: local_storage_authorize_def local_storage_authenticate_def local_storage_authorize_authenticated_def storage_authorize_def
        caller_check_def grant_check_def demo_authorizer_def Control_Store.demo_run pattempt_def ok_or_def demo_written_def Let_def)
  then show ?thesis using auth check by simp
qed

end
