(* ===== verification/Hub_Access.thy ===== *)
theory Hub_Access
  imports Authorization Storage_Scope Numerals
begin

text \<open>
  Hub access, \<^verbatim>\<open>broker-control/src/hub_access.rs\<close> and \<^verbatim>\<open>service/hub_access.rs\<close>: what an anonymous caller or a
  caller with a bearer may see of the Hub, as one observation of the stored grants with the
  selectors of projects and the routes of their catalogs.  The lemmas show that both are exactly
  what the rules of the snapshot say for that caller.
\<close>

datatype HubAccessError =
  HA_InvalidPolicy | HA_Authentication BrokerAccessError | HA_LocalAuthentication LocalBearerVerificationError
| HA_Grants ResourceGrantReadError | HA_Control ControlError

fun HA_from_policy :: "ResourcePolicyError \<Rightarrow> HubAccessError" where
  "HA_from_policy RP_InvalidPolicy = HA_InvalidPolicy"
| "HA_from_policy RP_Deadline = HA_Control CE_Deadline"

record HubProjectSelector =
  hp_id :: "string option"
  hp_all :: "bool option"

definition hub_project_selector :: "string option \<Rightarrow> HubProjectSelector" where
  "hub_project_selector p = (case p of
       Some i \<Rightarrow> \<lparr>hp_id = Some i, hp_all = None\<rparr>
     | None \<Rightarrow> \<lparr>hp_id = None, hp_all = Some True\<rparr>)"

fun hub_subject :: "HubIdentity \<Rightarrow> string" where
  "hub_subject HI_Anonymous = ''anonymous|anonymous''"
| "hub_subject (HI_Broker p) = ba_issuer p @ ''|'' @ ba_subject p"
| "hub_subject (HI_Local p) = LOCAL_ISSUER @ ''|'' @ lu_subject (vl_user p)"

text \<open>Finishing a LOCAL proof updates it, so that a check returns the identity.\<close>

fun hub_identity_check :: "HubIdentity \<Rightarrow> ('x, HubAccessError, HubIdentity) prog" where
  "hub_identity_check HI_Anonymous = pret HI_Anonymous"
| "hub_identity_check (HI_Broker p) = pseq (pmap_err HA_Authentication (ba_check p)) (pret (HI_Broker p))"
| "hub_identity_check (HI_Local p) =
     pbind (pmap_err HA_Control now_micros) (\<lambda>now.
     pbind (pmap_err HA_LocalAuthentication (local_finish p now)) (\<lambda>q. pret (HI_Local q)))"

record HubAccessResolution =
  hx_v :: nat
  hx_authorization_revision :: string
  hx_subject :: string
  hx_selectors :: "HubProjectSelector list"
  hx_identity :: HubIdentity
  hx_original :: nat
  hx_catalog_routes :: "(string \<times> string list) list"

definition resolution_check :: "HubAccessResolution \<Rightarrow> ('x, HubAccessError, HubAccessResolution) prog" where
  "resolution_check r =
     pseq (pmap_err HA_from_policy (check_deadline (hx_original r)))
     (pbind (hub_identity_check (hx_identity r)) (\<lambda>identity.
     pseq (pmap_err HA_from_policy (check_deadline (hx_original r))) (pret (r\<lparr>hx_identity := identity\<rparr>))))"

definition resolution_new ::
  "HubIdentity \<Rightarrow> int \<Rightarrow> HubProjectSelector list \<Rightarrow> nat \<Rightarrow> ('x, HubAccessError, HubAccessResolution) prog" where
  "resolution_new identity revision sels original =
     resolution_check \<lparr>hx_v = 1, hx_authorization_revision = signed_to_string revision, hx_subject = hub_subject identity,
       hx_selectors = sels, hx_identity = identity, hx_original = original, hx_catalog_routes = []\<rparr>"

definition route_name :: "string \<Rightarrow> string \<Rightarrow> string" where
  "route_name route def_route = (if route = [] then def_route else route)"

fun catalog_route_from ::
  "(string \<times> string list) list \<Rightarrow> string \<Rightarrow> string \<Rightarrow> string option \<Rightarrow> StorageAdmissionError + string option" where
  "catalog_route_from [] project def_route selected = Inr selected"
| "catalog_route_from ((route, projects) # rules) project def_route selected =
     (if projects = [] \<or> list_ex (\<lambda>i. i = ''*'' \<or> i = project) projects then
        (if is_some_and selected (\<lambda>old. old \<noteq> route_name route def_route) then Inl SA_ConflictingRoutes
         else catalog_route_from rules project def_route (Some (route_name route def_route)))
      else catalog_route_from rules project def_route selected)"

definition catalog_route :: "HubAccessResolution \<Rightarrow> string \<Rightarrow> string \<Rightarrow> StorageAdmissionError + string option" where
  "catalog_route r project def_route = catalog_route_from (hx_catalog_routes r) project def_route None"

definition resolution_catalog_routes :: "HubAccessResolution \<Rightarrow> string \<Rightarrow> string list" where
  "resolution_catalog_routes r def_route = btree_extend (map (\<lambda>(route, _). route_name route def_route) (hx_catalog_routes r)) []"

definition catalog_route_all :: "HubAccessResolution \<Rightarrow> string \<Rightarrow> string \<Rightarrow> bool" where
  "catalog_route_all r route def_route =
     list_ex (\<lambda>(own, projects). route_name own def_route = route \<and> (projects = [] \<or> list_ex (\<lambda>p. p = ''*'') projects))
       (hx_catalog_routes r)"

subsection \<open>Resolvers\<close>

definition hub_resolve ::
  "'x ControlStore \<Rightarrow> int \<Rightarrow> nat \<Rightarrow> HubIdentity \<Rightarrow> ('x, HubAccessError, HubAccessResolution) prog" where
  "hub_resolve S grants_cap end_at identity =
     pbind (pmap_err HA_Grants (store_grants S grants_cap end_at)) (\<lambda>snapshot.
     pbind (pmap_err HA_from_policy (hub_compile (st_ulid S) (st_glob S) snapshot end_at)) (\<lambda>policy.
     pbind (pmap_err HA_from_policy (selectors policy identity end_at)) (\<lambda>sels.
     pbind (pmap_err HA_from_policy (catalog_routes policy identity snapshot end_at)) (\<lambda>routes.
     pbind (resolution_new identity (sn_revision snapshot) (map hub_project_selector sels) end_at) (\<lambda>r.
     pret (r\<lparr>hx_catalog_routes := routes\<rparr>))))))"

definition broker_hub_resolve ::
  "'x ControlStore \<Rightarrow> 'k jwt_lib \<Rightarrow> 'k BrokerAccessVerifier \<Rightarrow> int \<Rightarrow> string option \<Rightarrow> nat
     \<Rightarrow> ('x, HubAccessError, HubAccessResolution) prog" where
  "broker_hub_resolve S L v grants_cap raw original =
     pbind (pmap_err HA_Control (bounded_deadline original (st_budget S))) (\<lambda>end_at.
     pbind (case raw of
         Some raw \<Rightarrow> pbind (pmap_err HA_Authentication (verify L v raw [] end_at)) (\<lambda>p. pret (HI_Broker p))
       | None \<Rightarrow> pret HI_Anonymous) (\<lambda>identity.
     hub_resolve S grants_cap end_at identity))"

definition local_hub_resolve ::
  "'x ControlStore \<Rightarrow> int \<Rightarrow> int \<Rightarrow> string \<Rightarrow> string option \<Rightarrow> nat \<Rightarrow> ('x, HubAccessError, HubAccessResolution) prog" where
  "local_hub_resolve S identity_cap grants_cap audience raw original =
     pbind (pmap_err HA_Control (bounded_deadline original (st_budget S))) (\<lambda>end_at.
     pbind (case raw of
         Some raw \<Rightarrow> pbind (pmap_err HA_LocalAuthentication (store_verify_local S identity_cap audience raw [] end_at))
           (\<lambda>p. pret (HI_Local p))
       | None \<Rightarrow> pret HI_Anonymous) (\<lambda>identity.
     hub_resolve S grants_cap end_at identity))"

subsection \<open>Routes of catalogs\<close>

text \<open>The routes that the rules of a snapshot give a caller for a project.\<close>

definition hub_routes :: "glob_lib \<Rightarrow> ResourceGrantSnapshot \<Rightarrow> Principal option \<Rightarrow> string \<Rightarrow> string \<Rightarrow> string set" where
  "hub_routes glob snapshot user project def_route =
     {route_name (trim (rg_s3_route r)) def_route | r. r \<in> set (sn_rules snapshot) \<and> hub_rule_selects r user \<and> hub_rule_has glob r ''hub''
        \<and> (rg_projects r = [] \<or> (\<exists>q\<in>set (rg_projects r). trim q = ''*'' \<or> trim q = project))}"

definition covering_routes :: "(string \<times> string list) list \<Rightarrow> string \<Rightarrow> string \<Rightarrow> string set" where
  "covering_routes rules project def_route =
     {route_name route def_route | route projects. (route, projects) \<in> set rules
        \<and> (projects = [] \<or> ''*'' \<in> set projects \<or> project \<in> set projects)}"

text \<open>No route, the only route, or a conflict.\<close>

definition agreed :: "StorageAdmissionError + string option \<Rightarrow> string set \<Rightarrow> bool" where
  "agreed result R = (case result of
       Inr None \<Rightarrow> R = {}
     | Inr (Some x) \<Rightarrow> R = {x}
     | Inl e \<Rightarrow> e = SA_ConflictingRoutes \<and> (\<exists>x\<in>R. \<exists>y\<in>R. x \<noteq> y))"

lemma covering_routes_Cons:
  "covering_routes ((route, projects) # rules) project d =
     (if projects = [] \<or> list_ex (\<lambda>i. i = ''*'' \<or> i = project) projects then {route_name route d} else {})
       \<union> covering_routes rules project d"
  by (auto simp: covering_routes_def list_ex_iff)

lemma catalog_route_from_agreed:
  "agreed (catalog_route_from rules project d selected) (set_option selected \<union> covering_routes rules project d)"
proof (induction rules project d selected rule: catalog_route_from.induct)
  case (1 project d selected)
  then show ?case by (cases selected) (auto simp: agreed_def covering_routes_def)
next
  case (2 route projects rules project d selected)
  let ?c = "projects = [] \<or> list_ex (\<lambda>i. i = ''*'' \<or> i = project) projects"
  show ?case
  proof (cases "?c \<and> \<not> is_some_and selected (\<lambda>old. old \<noteq> route_name route d)")
    case True
    then have "set_option selected \<subseteq> {route_name route d}" by (cases selected) (auto simp: is_some_and_def)
    then have "set_option selected \<union> covering_routes ((route, projects) # rules) project d
        = set_option (Some (route_name route d)) \<union> covering_routes rules project d"
      using True by (auto simp: covering_routes_Cons)
    then show ?thesis using True 2(1) by simp
  next
    case False
    show ?thesis
    proof (cases ?c)
      case True
      with False obtain old where "selected = Some old" "old \<noteq> route_name route d" by (cases selected) (auto simp: is_some_and_def)
      then show ?thesis using True by (auto simp: agreed_def covering_routes_Cons is_some_and_def)
    qed (use 2(2) in \<open>simp add: covering_routes_Cons\<close>)
  qed
qed

definition catalog_entries :: "HubRule list \<Rightarrow> Principal option \<Rightarrow> ResourceGrantSnapshot \<Rightarrow> (string \<times> string list) list" where
  "catalog_entries rules user snapshot = map (\<lambda>(index, rule). (trim (rg_s3_route (sn_rules snapshot ! index)), map trim (hr_projects rule)))
     (filter (\<lambda>(index, rule). hub_selector_matches (hr_selector rule) user \<and> has_capability (hr_capabilities rule) ''hub'')
       (enumerate 0 rules))"

lemma timed_catalog_routes:
  "timed dl RP_Deadline (catalog_routes rules identity snapshot dl)
     (Inr (catalog_entries rules (principal_hub identity) snapshot))"
proof -
  have "timed dl RP_Deadline (catalog_routes rules identity snapshot dl)
     (Inr (fold (\<lambda>(index, rule) routes. if hub_selector_matches (hr_selector rule) (principal_hub identity)
                  \<and> has_capability (hr_capabilities rule) ''hub''
                 then routes @ [(trim (rg_s3_route (sn_rules snapshot ! index)), map trim (hr_projects rule))] else routes)
        (enumerate 0 rules) []))"
    unfolding catalog_routes_def Let_def
    by (rule timed_pfold_pure) (auto intro!: timed_pseq timed_check_deadline timed_pret)
  moreover have "fold (\<lambda>(i, r) acc. if P r then acc @ [f i r] else acc) xs acc = acc @ map (\<lambda>(i, r). f i r) (filter (\<lambda>(i, r). P r) xs)"
    for P :: "HubRule \<Rightarrow> bool" and f :: "nat \<Rightarrow> HubRule \<Rightarrow> string \<times> string list" and xs acc
    by (induction xs arbitrary: acc) auto
  ultimately show ?thesis by (simp add: catalog_entries_def)
qed

lemma set_catalog_entries:
  "set (catalog_entries rules user snapshot) = (\<lambda>i. (trim (rg_s3_route (sn_rules snapshot ! i)), map trim (hr_projects (rules ! i))))
      ` {i. i < length rules \<and> hub_selector_matches (hr_selector (rules ! i)) user \<and> has_capability (hr_capabilities (rules ! i)) ''hub''}"
proof -
  have "set (filter (\<lambda>(i, r). P r) (enumerate 0 rules)) = (\<lambda>i. (i, rules ! i)) ` {i. i < length rules \<and> P (rules ! i)}" for P
    by (auto simp: in_set_enumerate_eq)
  then show ?thesis by (simp add: catalog_entries_def image_image del: set_filter)
qed

lemma catalog_entries_iff:
  assumes "list_all2 (\<lambda>r c. hub_rule_spec U glob r = Inr c) (sn_rules snapshot) rules"
  shows "(route, projects) \<in> set (catalog_entries rules user snapshot) \<longleftrightarrow> (\<exists>r\<in>set (sn_rules snapshot). route = trim (rg_s3_route r)
      \<and> projects = map trim (rg_projects r) \<and> hub_rule_selects r user \<and> hub_rule_has glob r ''hub'')"
proof -
  have len: "length rules = length (sn_rules snapshot)" using assms by (simp add: list_all2_lengthD)
  have ok: "hub_selector_matches (hr_selector (rules ! i)) user = hub_rule_selects (sn_rules snapshot ! i) user"
    "has_capability (hr_capabilities (rules ! i)) ''hub'' = hub_rule_has glob (sn_rules snapshot ! i) ''hub''"
    "hr_projects (rules ! i) = rg_projects (sn_rules snapshot ! i)" if "i < length (sn_rules snapshot)" for i
    using hub_rule_spec_ok [OF list_all2_nthD [OF assms that]] by simp_all
  have "(route, projects) \<in> set (catalog_entries rules user snapshot) \<longleftrightarrow>
      (\<exists>i < length (sn_rules snapshot). route = trim (rg_s3_route (sn_rules snapshot ! i)) \<and> projects = map trim (rg_projects (sn_rules snapshot ! i))
        \<and> hub_rule_selects (sn_rules snapshot ! i) user \<and> hub_rule_has glob (sn_rules snapshot ! i) ''hub'')"
    unfolding set_catalog_entries len using ok by auto
  then show ?thesis by (simp only: Bex_def in_set_conv_nth) blast
qed

lemma covering_catalog_routes:
  assumes "list_all2 (\<lambda>r c. hub_rule_spec U glob r = Inr c) (sn_rules snapshot) rules"
  shows "covering_routes (catalog_entries rules user snapshot) project d = hub_routes glob snapshot user project d"
proof -
  have conv: "(rg_projects r = [] \<or> (\<exists>q\<in>set (rg_projects r). trim q = ''*'' \<or> trim q = project)) \<longleftrightarrow>
      (map trim (rg_projects r) = [] \<or> ''*'' \<in> set (map trim (rg_projects r)) \<or> project \<in> set (map trim (rg_projects r)))" for r
    unfolding set_map image_iff map_is_Nil_conv by metis
  have "x \<in> covering_routes (catalog_entries rules user snapshot) project d \<longleftrightarrow> x \<in> hub_routes glob snapshot user project d" for x
    unfolding covering_routes_def hub_routes_def mem_Collect_eq catalog_entries_iff [OF assms] conv by blast
  then show ?thesis by blast
qed

subsection \<open>Properties\<close>

text \<open>What a resolution shows for a caller: the selectors and, for every project, the catalog route.\<close>

definition shows_grants :: "'x ControlStore \<Rightarrow> ResourceGrantSnapshot \<Rightarrow> HubAccessResolution \<Rightarrow> bool" where
  "shows_grants S snapshot r \<longleftrightarrow>
     (let user = principal_hub (hx_identity r) in
      hx_authorization_revision r = signed_to_string (sn_revision snapshot) \<and> hx_subject r = hub_subject (hx_identity r)
      \<and> distinct (hx_selectors r)
      \<and> set (hx_selectors r) = hub_project_selector ` (\<Union>rule\<in>set (sn_rules snapshot). hub_projects (st_glob S) user rule)
      \<and> (\<forall>project def_route. agreed (catalog_route r project def_route) (hub_routes (st_glob S) snapshot user project def_route)))"

lemma hub_identity_check_ok:
  assumes "hub_identity_check i w = (Inr j, w')"
  shows "principal_hub j = principal_hub i" "hub_subject j = hub_subject i"
    and "i = HI_Anonymous \<Longrightarrow> j = HI_Anonymous" "\<And>p. i = HI_Broker p \<Longrightarrow> j = HI_Broker p"
    and "\<And>p. i = HI_Local p \<Longrightarrow> \<exists>now. j = HI_Local (p\<lparr>vl_verified_at := now\<rparr>) \<and> now < vl_expires_at p"
  using assms local_finish_ok
  by (cases i; fastforce simp: pbind_ok pseq_ok pmap_err_ok pret_ok)+

lemma hub_project_selector_inj: "inj hub_project_selector"
  by (auto simp: inj_def hub_project_selector_def split: option.splits)

lemma hub_resolve_ok:
  fixes w w' :: "'x world_scheme"
  assumes "hub_resolve S cap end_at identity w = (Inr r, w')"
  obtains snapshot and w1 w2 w3 :: "'x world_scheme" where "store_grants S cap end_at w = (Inr snapshot, w1)" "shows_grants S snapshot r"
    "hub_identity_check identity w2 = (Inr (hx_identity r), w3)"
proof -
  obtain snapshot policy sels routes and w1 w2 w3 w4 w5 w6 :: "'x world_scheme" where s: "store_grants S cap end_at w = (Inr snapshot, w1)"
    and c: "hub_compile (st_ulid S) (st_glob S) snapshot end_at w1 = (Inr policy, w2)"
    and l: "selectors policy identity end_at w2 = (Inr sels, w3)"
    and t: "catalog_routes policy identity snapshot end_at w3 = (Inr routes, w4)"
    and i: "hub_identity_check identity w5 = (Inr (hx_identity r), w6)"
    and r: "hx_authorization_revision r = signed_to_string (sn_revision snapshot)" "hx_subject r = hub_subject identity"
      "hx_selectors r = map hub_project_selector sels" "hx_catalog_routes r = routes"
    using assms by (auto simp: hub_resolve_def resolution_new_def resolution_check_def pbind_ok pseq_ok pmap_err_ok pret_ok)
  have spec: "rmap (hub_rule_spec (st_ulid S) (st_glob S)) (sn_rules snapshot) = Inr policy"
    using timed_ok [OF timed_hub_compile] c by (metis fst_conv)
  have sel: "sels = fold (selectors_step (principal_hub identity)) policy []"
    using timed_ok [OF timed_selectors] l by (metis fst_conv sum.inject(2))
  have rt: "routes = catalog_entries policy (principal_hub identity) snapshot"
    using timed_ok [OF timed_catalog_routes] t by (metis fst_conv sum.inject(2))
  note same = hub_identity_check_ok(1,2) [OF i]
  have "agreed (catalog_route r project d) (hub_routes (st_glob S) snapshot (principal_hub identity) project d)" for project d
    using catalog_route_from_agreed [of routes project d None] covering_catalog_routes [OF spec [unfolded rmap_eq_Inr]] r(4) rt
    by (simp add: catalog_route_def)
  then have "shows_grants S snapshot r"
    using selectors_fold [OF spec, of "principal_hub identity" "[]"] sel r(1-3) same hub_project_selector_inj
    by (simp add: shows_grants_def distinct_map inj_on_subset [OF hub_project_selector_inj])
  then show thesis using that s i by blast
qed

text \<open>C38: a Hub resolution is what the current grants say for the caller.  Without a bearer the caller is anonymous,
  with one it is the identity that this run verified under its deadline; the grants were read by the
  same run right after that, and for exactly those grants the resolution has their revision, the selectors of the projects of the rules
  that give the caller the Hub, each once, and for every project the one route these rules agree
  on, none if no rule covers the project, and a conflict if two rules name different routes.\<close>

theorem hub_resolution_shows_grants:
  fixes w :: "'x world_scheme"
  shows "(\<forall>r. fst (broker_hub_resolve S L v cap raw original w) = Inr r \<longrightarrow>
      (\<exists>snapshot dl. \<exists>w0 w1 w2 :: 'x world_scheme. bounded_deadline original (st_budget S) w = (Inr dl, w0)
         \<and> store_grants S cap dl w1 = (Inr snapshot, w2) \<and> shows_grants S snapshot r
         \<and> (case raw of None \<Rightarrow> w1 = w0 \<and> hx_identity r = HI_Anonymous
            | Some t \<Rightarrow> \<exists>p. verify L v t [] dl w0 = (Inr p, w1) \<and> hx_identity r = HI_Broker p)))
    \<and> (\<forall>r. fst (local_hub_resolve S identity_cap cap audience raw original w) = Inr r \<longrightarrow>
      (\<exists>snapshot dl. \<exists>w0 w1 w2 :: 'x world_scheme. bounded_deadline original (st_budget S) w = (Inr dl, w0)
         \<and> store_grants S cap dl w1 = (Inr snapshot, w2) \<and> shows_grants S snapshot r
         \<and> (case raw of None \<Rightarrow> w1 = w0 \<and> hx_identity r = HI_Anonymous
            | Some t \<Rightarrow> \<exists>p now. store_verify_local S identity_cap audience t [] dl w0 = (Inr p, w1) \<and> now < vl_expires_at p
                \<and> hx_identity r = HI_Local (p\<lparr>vl_verified_at := now\<rparr>))))"
proof (intro conjI allI impI, goal_cases)
  case (1 r)
  then obtain w' where "broker_hub_resolve S L v cap raw original w = (Inr r, w')" by (auto simp: fst_Inr_iff)
  then obtain dl identity and w0 w1 :: "'x world_scheme" where
    i: "case raw of None \<Rightarrow> w1 = w0 \<and> identity = HI_Anonymous | Some t \<Rightarrow> \<exists>p. verify L v t [] dl w0 = (Inr p, w1) \<and> identity = HI_Broker p"
    and d: "bounded_deadline original (st_budget S) w = (Inr dl, w0)" and h: "hub_resolve S cap dl identity w1 = (Inr r, w')"
    by (cases raw) (fastforce simp: broker_hub_resolve_def pbind_ok pmap_err_ok pret_ok)+
  show ?case
  proof (rule hub_resolve_ok [OF h], goal_cases)
    case (1 snapshot u1 u2 u3)
    then show ?case using i d hub_identity_check_ok(3,4) [OF 1(3)]
      by (intro exI [of _ snapshot] exI [of _ dl] exI [of _ w0] exI [of _ w1] exI [of _ u1]) (cases raw; auto)
  qed
next
  case (2 r)
  then obtain w' where "local_hub_resolve S identity_cap cap audience raw original w = (Inr r, w')" by (auto simp: fst_Inr_iff)
  then obtain dl identity and w0 w1 :: "'x world_scheme" where
    i: "case raw of None \<Rightarrow> w1 = w0 \<and> identity = HI_Anonymous
      | Some t \<Rightarrow> \<exists>p. store_verify_local S identity_cap audience t [] dl w0 = (Inr p, w1) \<and> identity = HI_Local p"
    and d: "bounded_deadline original (st_budget S) w = (Inr dl, w0)" and h: "hub_resolve S cap dl identity w1 = (Inr r, w')"
    by (cases raw) (fastforce simp: local_hub_resolve_def pbind_ok pmap_err_ok pret_ok)+
  show ?case
  proof (rule hub_resolve_ok [OF h], goal_cases)
    case (1 snapshot u1 u2 u3)
    then show ?case using i d hub_identity_check_ok(3,5) [OF 1(3)]
      by (intro exI [of _ snapshot] exI [of _ dl] exI [of _ w0] exI [of _ w1] exI [of _ u1]) (cases raw; auto)
  qed
qed

text \<open>A store in which everyone may see the Hub.\<close>

definition demo_public_rule :: ResourceGrantRule where
  "demo_public_rule = demo_rule ''a'' ''anonymous'' []"

definition demo_public_control :: "unit ControlStore" where
  "demo_public_control = demo_control\<lparr>st_json := demo_json\<lparr>js_rules := \<lambda>_. Some [demo_public_rule]\<rparr>\<rparr>"

lemma demo_public_grants:
  "store_grants demo_public_control 100 50 (frozen 5 1000) = (Inr (demo_snapshot [demo_public_rule]), frozen 5 1000)"
proof -
  have "decode_snapshot (\<lambda>_. Some [demo_public_rule]) 1 0 ''r'' = Inr (demo_snapshot [demo_public_rule])" by code_simp
  then show ?thesis
    using demo_deadline
    by (simp add: store_grants_def demo_public_control_def demo_control_def grants_read_def observe_snapshot_def demo_run demo_sql_def
        demo_grant_row_def ok_or_def)
qed

lemma demo_public_resolution:
  "\<exists>r. fst (local_hub_resolve demo_public_control 100 100 '' aud'' None 50 (frozen 5 1000)) = Inr r"
proof -
  have "(case hub_rule_spec demo_ulid demo_glob demo_public_rule of Inl _ \<Rightarrow> False | Inr _ \<Rightarrow> True)" by code_simp
  then obtain c where "hub_rule_spec demo_ulid demo_glob demo_public_rule = Inr c" by (auto split: sum.splits)
  then have "hub_compile demo_ulid demo_glob (demo_snapshot [demo_public_rule]) 50 (frozen 5 1000) = (Inr [c], frozen 5 1000)"
    using frozen_timed [OF timed_hub_compile, of 5 50 demo_ulid demo_glob "demo_snapshot [demo_public_rule]" 1000]
    by (simp add: demo_snapshot_def)
  moreover have "\<exists>sels. selectors [c] HI_Anonymous 50 (frozen 5 1000) = (Inr sels, frozen 5 1000)"
    using frozen_timed [OF timed_selectors, of 5 50 "[c]" HI_Anonymous 1000] by auto
  moreover have "\<exists>routes. catalog_routes [c] HI_Anonymous (demo_snapshot [demo_public_rule]) 50 (frozen 5 1000) = (Inr routes, frozen 5 1000)"
    using frozen_timed [OF timed_catalog_routes, of 5 50 "[c]" HI_Anonymous "demo_snapshot [demo_public_rule]" 1000] by auto
  moreover have "st_ulid demo_public_control = demo_ulid" "st_glob demo_public_control = demo_glob" "st_budget demo_public_control = 1000"
    by (simp_all add: demo_public_control_def demo_control_def)
  ultimately show ?thesis
    using demo_deadline demo_public_grants demo_check_deadline [of 1000]
    by (auto simp: local_hub_resolve_def hub_resolve_def resolution_new_def resolution_check_def demo_run)
qed

theorem hub_resolution_shows_grants_witness:
  "\<exists>r snapshot. fst (local_hub_resolve demo_public_control 100 100 '' aud'' None 50 (frozen 5 1000)) = Inr r
     \<and> hx_identity r = HI_Anonymous \<and> shows_grants demo_public_control snapshot r"
proof -
  obtain r where "fst (local_hub_resolve demo_public_control 100 100 '' aud'' None 50 (frozen 5 1000)) = Inr r"
    using demo_public_resolution by blast
  then show ?thesis
    using conjunct2 [OF hub_resolution_shows_grants [of demo_public_control _ _ 100 None 50 "frozen 5 1000" 100 "'' aud''"]] by fastforce
qed

end
