(* ===== verification/Spec2Isabelle.thy ===== *)
theory Spec2Isabelle
  imports Fs_Upload_Guarantees Fs_Paging Hub_Guarantees Password_Admission Storage_Admission Hub_Access
begin

text \<open>
  Verification of graphit-broker, a broker between a fleet of installations and their shared services:
  it authenticates bearers, decides on stored grants, hands out storage credentials, keeps objects in a
  native filesystem store, and relays live snapshots of project activity.  Paths below are relative to
  \<^verbatim>\<open>src/crates/\<close>.

  Parts and how they interact.  A request carries a bearer, LOCAL or signed.  \<^verbatim>\<open>broker-control\<close> verifies
  it, reads the current grants from the control store, compiles them to a policy and decides.  For
  storage the decision is a grant with one route and key prefixes per operation; \<^verbatim>\<open>broker-storage\<close> turns it
  into a signed session token, verifies that token on every later request, and performs the object
  operations the session covers.  For live activity the decision is a channel proof with a read mask;
  the hub of \<^verbatim>\<open>broker-presence\<close> keeps publications, prunes the expired ones and shows a subscriber the
  sections its mask allows.  The theorem of this theory follows one request through the first chain,
  from the bearer to the stored bytes.

  Conventions.  A \<^verbatim>\<open>str\<close> is the list of its UTF-8 bytes.  A fallible function returns a sum whose left
  side is the error of the source.  An effectful function is a program of \<^verbatim>\<open>Env.thy\<close>: a transformer of a
  state whose first field is a stream of readings of the clocks, the cancellation token, lock contention
  and system-call faults, so that a statement for every state covers every schedule of time,
  cancellation and failure.  Operators of the standard library that can overflow are written with
  their checks.  Library code is a parameter: \<^verbatim>\<open>jwt_lib\<close> (JWT, base64, JSON of tokens), \<^verbatim>\<open>ulid_lib\<close>, \<^verbatim>\<open>glob_lib\<close>,
  \<^verbatim>\<open>cred_lib\<close> (HMAC, base64, hex), \<^verbatim>\<open>session_lib\<close> (HMAC, base64, JSON, URLs, time text), \<^verbatim>\<open>store_lib\<close> (SHA-256, JSON of
  metadata, header syntax, MIME), \<^verbatim>\<open>list_lib\<close> (JSON and base64 of cursors, URL encoding), \<^verbatim>\<open>upload_lib\<close> (JSON of
  manifests, random bytes), \<^verbatim>\<open>now_lib\<close> (JSON of snapshots), \<^verbatim>\<open>broadcast_lib\<close> (broadcast channels), \<^verbatim>\<open>control_sql\<close> and
  \<^verbatim>\<open>control_json\<close> (the database and its JSON columns).  What a theorem needs of them is a named hypothesis such as
  \<^verbatim>\<open>session_lib_ok\<close> (decoding inverts encoding), \<^verbatim>\<open>store_lib_ok\<close> (metadata JSON round trip), \<^verbatim>\<open>cursor_json_ok\<close> and \<^verbatim>\<open>token_ok\<close>
  (the same for cursors, and the lengths of their text), \<^verbatim>\<open>ulid_text\<close> (the text of an identifier is 26 alphanumeric bytes); the witnesses
  instantiate them with concrete functions.

  Foundations.  \<^verbatim>\<open>Prelude.thy\<close>: strings, results and shared lemmas.  \<^verbatim>\<open>Env.thy\<close>: programs, their equations, and the
  programs that only read their surroundings.  \<^verbatim>\<open>Framing.thy\<close>: length-prefixed framing, injective by the locale
  \<^verbatim>\<open>length_prefix\<close>, interpreted on both byte orders.  \<^verbatim>\<open>Numerals.thy\<close>: decimal text and its round trip.

  Callers and stored data.  \<^verbatim>\<open>Access.thy\<close>: \<^verbatim>\<open>broker-store/src/time.rs\<close>, \<^verbatim>\<open>broker-control/src/local_bearer.rs\<close>, \<^verbatim>\<open>local_bearer_verifier.rs\<close>,
  \<^verbatim>\<open>broker_access.rs\<close>; a verified proof has the configured issuer, audience, scopes and a live expiry that later
  checks never extend.  \<^verbatim>\<open>Registry.thy\<close>: \<^verbatim>\<open>instance_registry.rs\<close>, \<^verbatim>\<open>resource_grants.rs\<close>.  \<^verbatim>\<open>Credentials.thy\<close>: \<^verbatim>\<open>broker-security/src/credentials.rs\<close>;
  equal digests mean equal credentials of one kind, or a collision of the MAC.  \<^verbatim>\<open>Control_Store.thy\<close>: the
  PostgreSQL readers under \<^verbatim>\<open>broker-control/src/service/\<close>; what the rows hold when a bearer is accepted.
  \<^verbatim>\<open>Password_Admission.thy\<close>: \<^verbatim>\<open>local_password_admission.rs\<close> and the decision of \<^verbatim>\<open>local_captcha.rs\<close>; its runs are the inductive
  relations \<^verbatim>\<open>pw_step\<close>, \<^verbatim>\<open>pw_reachable\<close> and \<^verbatim>\<open>pw_run\<close>; the counters are the numbers of leases, and a lockout holds
  until it ends or a password of the name is verified.

  Decisions.  \<^verbatim>\<open>Resource_Policy.thy\<close>: \<^verbatim>\<open>resource_policy.rs\<close>; both policies decide a declarative relation over the stored
  rules.  \<^verbatim>\<open>Storage_Scope.thy\<close>: \<^verbatim>\<open>storage_admission.rs\<close>; the roots of two different scopes of a caller share no key.
  \<^verbatim>\<open>Storage_Policy.thy\<close>: \<^verbatim>\<open>storage_policy.rs\<close>; the evaluation grants a prefix exactly when a rule contributes it, and
  every prefix stays inside the roots.  \<^verbatim>\<open>Authorization.thy\<close>: presence and project authorizers and their services.
  \<^verbatim>\<open>Storage_Admission.thy\<close>: \<^verbatim>\<open>service/storage_admission.rs\<close>.  \<^verbatim>\<open>Hub_Access.thy\<close>: \<^verbatim>\<open>hub_access.rs\<close> and its service.  \<^verbatim>\<open>Now_Channel.thy\<close>:
  \<^verbatim>\<open>now_channel.rs\<close> and its service.  Each of these shows that a proof rests on a bearer that the very run
  verified under its deadline and on the grants it read right after, by chaining the worlds of the run.

  Filesystem storage, \<^verbatim>\<open>broker-storage/src/\<close>.  \<^verbatim>\<open>Fs_Session.thy\<close>: \<^verbatim>\<open>filesystem_session.rs\<close>, \<^verbatim>\<open>issued.rs\<close>; tokens are authentic,
  issuing and verifying agree, and the locale \<^verbatim>\<open>authorizer\<close> gives the confinement of a session.
  \<^verbatim>\<open>Fs_Tree.thy\<close>: directory trees, with the locale \<^verbatim>\<open>object_slots\<close> for placing and removing one object.
  \<^verbatim>\<open>Fs_Store.thy\<close>: \<^verbatim>\<open>filesystem_store.rs\<close>.  \<^verbatim>\<open>Fs_Reads.thy\<close>: the reads refine reference functions of the two trees.
  \<^verbatim>\<open>Fs_Writes.thy\<close>, \<^verbatim>\<open>Fs_Guarantees.thy\<close>: a write replaces one object or, unless it reports an uncertain commit,
  changes nothing; conditions, deletion, coherence of the metadata, and completion in a calm
  environment.  \<^verbatim>\<open>Fs_Listing.thy\<close>: \<^verbatim>\<open>filesystem_listing.rs\<close>; \<^verbatim>\<open>Fs_Pages.thy\<close>: a page is a slice of the reference listing;
  \<^verbatim>\<open>Fs_Paging.thy\<close>: following the tokens ends with the whole listing; \<^verbatim>\<open>Fs_Batches.thy\<close>: copy and batch deletion.
  \<^verbatim>\<open>Fs_Multipart.thy\<close>: \<^verbatim>\<open>filesystem_multipart.rs\<close> and opening a volume; \<^verbatim>\<open>Fs_Uploads.thy\<close>, \<^verbatim>\<open>Fs_Upload_Guarantees.thy\<close>: a completion is
  all or nothing, stores the parts that were sent, and opening a volume loses nothing recent.

  Live activity.  \<^verbatim>\<open>Now_Wire.thy\<close>: \<^verbatim>\<open>broker-now-wire/src/lib.rs\<close>; which snapshots are accepted, and that masking keeps
  acceptance.  \<^verbatim>\<open>Realtime_Hub.thy\<close>: \<^verbatim>\<open>broker-presence/src/realtime_hub.rs\<close>, with a critical section as one step (a
  dropped subscription takes two, its receiver first) and interleavings as runs of \<^verbatim>\<open>hub_step\<close>.  \<^verbatim>\<open>Hub_Runs.thy\<close>: the locales \<^verbatim>\<open>evolution\<close> and \<^verbatim>\<open>hub_evolution\<close>, which lift a relation kept
  by the transitions to every operation, interpreted on the evolution of the hub and on what a
  subscription is told.  \<^verbatim>\<open>Hub_Guarantees.thy\<close>: soundness in every reachable state, no lost invalidation,
  takeover, masked replay, and the wake-up of the maintenance task.

  Bounds.  Definitions are total.  The only bound on a number of rounds that is chosen here is that of
  \<^verbatim>\<open>follow_pages\<close>, a client of the listing; the theorem on it gives a bound, one more than the remaining
  candidates, at which it returns.  The rounds a shard lock waits are a reading of the environment,
  arbitrary in every theorem.  Limits of the code (sizes, counts, durations) are its own constants.

  Not modelled.  The login flows, browser and device authorization, OAuth token endpoints,
  administration, LOCAL sign-in with its second factors, registration and lists of installations and
  inference admission: sequences of SQL statements in transactions around third-party OAuth, HTTPS,
  Argon2 and TOTP code.  The SQLite and MySQL stores, further implementations of the services that are
  modelled over PostgreSQL, and the schema declarations.  Connection pools and shutdown.  The HTTP and
  web-socket handlers, the S3 gateway and the inference endpoints: glue of the web framework around
  operations that are modelled, and clients of other servers.  S3 credentials and the Hub catalog
  reader, through their SDKs.  The server's configuration and wiring, the build tool and fixtures.  Of
  the modelled files: the end-session hint of \<^verbatim>\<open>broker_access.rs\<close>, and construction and the HTTPS check of
  \<^verbatim>\<open>local_captcha.rs\<close>.  The filesystem operations are sequential runs: the shard locks serialise the
  operations on one key, and interleavings of operations on different keys are not modelled.
\<close>

text \<open>C1: from the bearer to the bytes.  Suppose a caller with a signed or a LOCAL bearer is admitted to a scope,
  filesystem credentials are issued for the grant, their token is verified later, and the session
  writes an object.  Then the run of that admission verified the bearer under its own deadline and
  then read the grants, and a rule of exactly those grants selects the caller, its project and the route and permits writing or
  publishing; the key lies at or below the base prefix of the route and a prefix of the grant for that
  operation, which is a safe path inside the roots of the requested scope; and no object under
  another key changes.\<close>

theorem stored_object_was_granted:
  fixes w0 u1 u2 :: "'x world_scheme" and w :: "'y fs_scheme"
  assumes "session_lib_ok L" "ulid_text (st_ulid C)" "\<forall>x. length (sha x) = 32" "scope_wf (st_ulid C) scope"
    and "fst (broker_storage_authorize J sha fb raw scopes scope original w0) = Inr grant
        \<and> C = bsa_owner fb \<and> cap = bsa_grants fb \<and> default_route = bsa_default_route fb
      \<or> fst (local_storage_authorize sha fl raw scopes scope original w0) = Inr grant
        \<and> C = lsa_owner fl \<and> cap = lsa_grants fl \<and> default_route = lsa_default_route fl"
    and "fst (issue (st_ulid C) L issuer random grant u1) = Inr c"
    and "fst (verify_session (st_ulid C) L issuer route access_key (ic_token c) u2) = Inr s"
    and "store_put S cfg s k body opts rq w = (Inr info, w')" "rooted w"
  shows "(\<exists>snapshot op q w1.
        (broker_identity J fb raw scopes original w0 grant w1 \<or> local_identity fl raw scopes original w0 grant w1)
        \<and> read_after C cap grant w1 snapshot \<and> gr_revision grant = sn_revision snapshot
        \<and> op \<in> {Op_Write, Op_Publish} \<and> q \<in> set (grant_prefixes grant op)
        \<and> storage_granted (st_glob C) snapshot (sa_identity (gr_auth grant)) scope default_route op (gr_route grant)
        \<and> safe_path q \<and> (\<exists>root\<in>set (roots sha scope (sa_identity (gr_auth grant))). under root q)
        \<and> under (ic_base_prefix c @ ''/'' @ q) k)
    \<and> (\<forall>j. j \<noteq> k \<longrightarrow> objects (fs_data w') (path j) = objects (fs_data w) (path j))"
proof -
  have "gr_scope grant = scope \<and> (\<exists>snapshot w1.
      (broker_identity J fb raw scopes original w0 grant w1 \<or> local_identity fl raw scopes original w0 grant w1)
      \<and> read_after C cap grant w1 snapshot \<and> grant_backed sha (st_glob C) snapshot default_route grant)"
    using assms(5)
  proof (elim disjE conjE, goal_cases)
    case 1
    then obtain v where "broker_storage_authorize J sha fb raw scopes scope original w0 = (Inr grant, v)" by (auto simp: fst_Inr_iff)
    from broker_storage_authorize_ok [OF this] 1 assms(2-4) show ?case by blast
  next
    case 2
    then obtain v where "local_storage_authorize sha fl raw scopes scope original w0 = (Inr grant, v)" by (auto simp: fst_Inr_iff)
    from local_storage_authorize_ok [OF this] 2 assms(2-4) show ?case by blast
  qed
  then obtain snapshot w1 where g: "gr_scope grant = scope"
    "broker_identity J fb raw scopes original w0 grant w1 \<or> local_identity fl raw scopes original w0 grant w1"
    "read_after C cap grant w1 snapshot" "grant_backed sha (st_glob C) snapshot default_route grant" by blast
  obtain p where p: "stored k p w w'" "authority cfg s Op_Write k = Inr ()"
    using put_ok [OF assms(8,9)] by metis
  then have "covered s (op_indices Op_Write) k" by (auto simp: authority_def split: if_splits)
  then obtain op q where op: "op_index op \<in> set (op_indices Op_Write)" "q \<in> set (grant_prefixes grant op)"
    "under (ic_base_prefix c @ ''/'' @ q) k"
    using issued_covers [OF assms(1,6,7)] by blast
  have "op \<in> {Op_Write, Op_Publish}" using op(1) by (cases op) auto
  moreover have "objects (fs_data w') (path j) = objects (fs_data w) (path j)" if "j \<noteq> k" for j
    using p(1) that path_inj [of j k] by (auto simp: stored_def)
  ultimately show ?thesis using g op unfolding grant_backed_def by blast
qed

text \<open>The LOCAL user of the sample store writes one object.\<close>

definition demo_local_payload :: Payload where
  "demo_local_payload = demo_payload\<lparr>pl_subject := ''local|s1'', pl_issued_at := 0, pl_expires_at := 900,
     pl_access := [[], [''base/'' @ demo_prefix], [], []]\<rparr>"

definition demo_local_lib :: session_lib where
  "demo_local_lib = demo_lib\<lparr>json_enc := \<lambda>p. if p = demo_local_payload then Some ''P'' else None,
     json_dec := \<lambda>b. if b = ''P'' then Some demo_local_payload else None\<rparr>"

definition demo_local_session :: VerifiedFilesystemSession where
  "demo_local_session = \<lparr>fs_payload = demo_local_payload, fs_scope = demo_scope, fs_secret = ''T'', fs_deadline = 899999999005\<rparr>"

lemma demo_local_lib_ok: "session_lib_ok demo_local_lib"
  by (auto simp: session_lib_ok_def demo_local_lib_def demo_lib_def demo_esc_dotfree demo_unesc_esc demo_local_payload_def
      split: if_splits)

lemma demo_local_validate: "payload_validate demo_ulid demo_local_lib demo_local_payload demo_route 0 = Inr demo_scope"
proof -
  have "demo_unesc demo_key = Some demo_key" by code_simp
  then show ?thesis
    using demo_root_ok demo_project_canonical
    by (simp add: payload_validate_def validated_scope_def module_of_str_def scope_project_def demo_payload_def demo_local_payload_def
        demo_local_lib_def demo_lib_def demo_route_def demo_scope_def demo_key_def)
qed

lemma demo_local_token: "token_encode demo_local_lib demo_issuer demo_local_payload = Inr ''rust-fs1.P.T''"
  by (simp add: token_encode_def mac_def demo_local_lib_def demo_lib_def TOKEN_PREFIX_def ok_or_def)

lemma demo_local_verified:
  "verify_session demo_ulid demo_local_lib demo_issuer ''main'' demo_key ''rust-fs1.P.T'' (frozen 5 1000)
     = (Inr demo_local_session, frozen 5 1000)"
proof -
  have k: "pl_access_key demo_local_payload = demo_key" "pl_expires_at demo_local_payload = 900"
    by (simp_all add: demo_local_payload_def demo_payload_def)
  obtain tag where o: "token_open demo_local_lib demo_issuer ''rust-fs1.P.T'' = Inr (demo_local_payload, tag)"
    using token_open_encode [OF demo_local_lib_ok _ demo_local_token] by (auto simp: demo_local_payload_def)
  have "map_of (is_routes demo_issuer) ''main'' = Some demo_route" by (simp add: demo_issuer_def)
  then have "fst (verify_session demo_ulid demo_local_lib demo_issuer ''main'' demo_key ''rust-fs1.P.T'' (frozen 5 1000)) = Inr demo_local_session"
    using verify_session_frozen [OF _ _ o, of "''main''" demo_route demo_ulid 1000 demo_scope "''T''" 5] demo_local_validate k
    by (simp add: session_secret_def mac_def demo_local_lib_def demo_lib_def ok_or_def demo_route_def time_max_def demo_local_session_def)
  moreover have "reads_only (verify_session demo_ulid demo_local_lib demo_issuer ''main'' demo_key ''rust-fs1.P.T''
      :: (unit, FilesystemSessionError, VerifiedFilesystemSession) prog)"
    unfolding verify_session_def verify_at_def pseq_def by (intro reads_only_pbind) simp_all
  ultimately show ?thesis using frozen_advances by (metis prod.collapse reads_only_def)
qed

lemma demo_local_issued:
  assumes "gr_scope g = demo_scope" "gr_route g = ''main''" "gr_revision g = 1" "gr_access g = [[], [demo_prefix], [], []]"
    "auth_subject (gr_auth g) = ''local|s1''" "sa_end (gr_auth g) = 50" "auth_check (gr_auth g) (frozen 5 1000) = (Inr (), frozen 5 1000)"
  shows "\<exists>c. fst (issue demo_ulid demo_local_lib demo_issuer (Some demo_key) g (frozen 5 1000)) = Inr c
     \<and> ic_token c = ''rust-fs1.P.T'' \<and> ic_base_prefix c = ''base''"
proof -
  have k: "demo_esc demo_key = demo_key" by code_simp
  have p: "grant_payload demo_local_lib demo_route g 0 900 demo_key = Inr demo_local_payload"
    using k assms by (simp add: grant_payload_def session_scope_def demo_scope_def demo_local_lib_def demo_lib_def demo_route_def
        demo_local_payload_def demo_payload_def grant_canonical_subject_def grant_prefixes_def ALL_OPERATIONS_def)
  have r: "map_of (is_routes demo_issuer) ''main'' = Some demo_route" "rc_session_secs demo_route = 900" "rc_token_bytes demo_route = 200"
    by (simp_all add: demo_issuer_def demo_route_def)
  show ?thesis
    using p r assms demo_local_validate demo_local_token demo_local_verified
    by (simp add: issue_def issue_current_def grant_check_def pseq_def pbind_def pattempt_def plift_def pmap_err_def pret_def
        now_tick_frozen seconds_def ok_or_def u64_max_def i64_max_def demo_local_session_def demo_local_payload_def demo_payload_def
        demo_local_lib_def demo_lib_def demo_route_def session_check_frozen grant_request_deadline_def Let_def)
qed

definition demo_object_key :: string where
  "demo_object_key = ''base/'' @ demo_prefix @ ''/x''"

definition demo_plain :: FilesystemPutOptions where
  "demo_plain = demo_opts\<lparr>po_conditions := \<lparr>if_match = None, if_none_match = None\<rparr>\<rparr>"

lemma demo_local_put:
  "\<exists>info w. store_put demo_store demo_config demo_local_session demo_object_key [''hi''] demo_plain 50 (demo_fs (DirN []) (DirN []))
     = (Inr info, w)"
proof -
  have "list_all key_byte demo_object_key"
    "list_all (\<lambda>part. part \<noteq> [] \<and> part \<noteq> ''.'' \<and> part \<noteq> ''..'') (split_on (CHR ''/'') demo_object_key)" by code_simp+
  then have k: "key demo_object_key" by (simp add: key_def demo_object_key_def demo_prefix_def demo_project_def)
  have "covered demo_local_session (op_indices Op_Write) demo_object_key"
    by (simp add: covered_iff demo_local_session_def demo_local_payload_def demo_object_key_def under_def)
  then have a: "authority demo_config demo_local_session Op_Write demo_object_key = Inr ()"
    using k by (simp add: authority_def require_def demo_local_session_def demo_local_payload_def demo_payload_def demo_config_def)
  have c: "calm demo_local_session 50 (demo_fs (DirN []) (DirN []))"
    by (simp add: calm_def frozen_tick_def demo_local_session_def demo_local_payload_def)
  have "path demo_object_key \<noteq> []" by (simp add: path_def)
  then have "open_path (DirN []) (path demo_object_key)" by (auto simp: open_path_def neq_Nil_conv)
  then show ?thesis
    using put_completes [OF c _ a, of demo_store "[''hi'']" demo_plain] demo_acceptable [of "DirN []" "DirN []"]
    by (auto simp: rooted_def demo_plain_def demo_opts_def conditions_held_def)
qed

theorem stored_object_was_granted_witness:
  "\<exists>g c (w :: fs) info. fst (local_storage_authorize demo_sha demo_authorizer ''gb_at_x'' [''read''] demo_scope 50 (frozen 5 1000)) = Inr g
     \<and> fst (issue demo_ulid demo_local_lib demo_issuer (Some demo_key) g (frozen 5 1000)) = Inr c
     \<and> store_put demo_store demo_config demo_local_session demo_object_key [''hi''] demo_plain 50 (demo_fs (DirN []) (DirN [])) = (Inr info, w)
     \<and> (\<exists>op q. op \<in> {Op_Write, Op_Publish} \<and> q \<in> set (grant_prefixes g op) \<and> under (''base/'' @ q) demo_object_key)"
proof -
  obtain g where g: "local_storage_authorize demo_sha demo_authorizer ''gb_at_x'' [''read''] demo_scope 50 (frozen 5 1000) = (Inr g, frozen 5 1000)"
    "gr_scope g = demo_scope" "gr_route g = ''main''" "gr_revision g = 1" "gr_access g = [[], [demo_prefix], [], []]"
    "auth_subject (gr_auth g) = ''local|s1''" "sa_end (gr_auth g) = 50" "auth_check (gr_auth g) (frozen 5 1000) = (Inr (), frozen 5 1000)"
    using demo_storage_grant by blast
  obtain c where c: "fst (issue demo_ulid demo_local_lib demo_issuer (Some demo_key) g (frozen 5 1000)) = Inr c"
    "ic_token c = ''rust-fs1.P.T''" "ic_base_prefix c = ''base''"
    using demo_local_issued [OF g(2-8)] by blast
  obtain info w where p: "store_put demo_store demo_config demo_local_session demo_object_key [''hi''] demo_plain 50
      (demo_fs (DirN []) (DirN [])) = (Inr info, w)" using demo_local_put by blast
  have S: "st_ulid demo_storage_control = demo_ulid" "lsa_owner demo_authorizer = demo_storage_control"
    by (simp_all add: demo_storage_control_def demo_authorizer_def)
  have u: "ulid_text (st_ulid demo_storage_control)" "\<forall>x. length (demo_sha x) = 32" "scope_wf (st_ulid demo_storage_control) demo_scope"
    using S demo_ulid_text demo_scope_wf by simp_all
  have a: "fst (local_storage_authorize demo_sha demo_authorizer ''gb_at_x'' [''read''] demo_scope 50 (frozen 5 1000)) = Inr g
      \<and> demo_storage_control = lsa_owner demo_authorizer \<and> lsa_grants demo_authorizer = lsa_grants demo_authorizer
      \<and> lsa_default_route demo_authorizer = lsa_default_route demo_authorizer"
    using g(1) S by simp
  have i: "fst (issue (st_ulid demo_storage_control) demo_local_lib demo_issuer (Some demo_key) g (frozen 5 1000)) = Inr c"
    and v: "fst (verify_session (st_ulid demo_storage_control) demo_local_lib demo_issuer ''main'' demo_key (ic_token c) (frozen 5 1000))
      = Inr demo_local_session"
    using c S demo_local_verified by simp_all
  from conjunct1 [OF stored_object_was_granted [OF demo_local_lib_ok u disjI2 [OF a] i v p demo_rooted]]
  have "\<exists>op q. op \<in> {Op_Write, Op_Publish} \<and> q \<in> set (grant_prefixes g op) \<and> under (ic_base_prefix c @ ''/'' @ q) demo_object_key"
    by blast
  then show ?thesis using a c p by (intro exI [of _ g] exI [of _ c] exI [of _ w] exI [of _ info]) simp
qed

end
